(* ===== verification/Prelude.thy ===== *)
theory Prelude
  imports Main
begin

text \<open>
  The vocabulary the components share: Go strings and their trimming, instants and the text
  the repository stores for them, the errors the code returns, write transactions, and the
  list lemmas that carry the table proofs.

  Strings are byte lists (\<open>string\<close> is \<open>char list\<close>, one \<open>char\<close> per byte of the UTF-8 text).
  Instants are integers: nanoseconds since 0001-01-01T00:00:00Z, Go's zero time, so
  \<open>time.Time.IsZero\<close> is being 0 and \<open>After\<close> is \<open>>\<close>.
\<close>

named_theorems tx_simps "unfolding of transaction bodies"
named_theorems frame_simps "what an operation leaves unchanged"

type_synonym time = int

subsection \<open>Go strings\<close>

definition byte :: "char \<Rightarrow> nat" where
  "byte c = of_char c"

definition ascii_space :: "nat \<Rightarrow> bool" where
  "ascii_space n \<longleftrightarrow> n = 9 \<or> n = 10 \<or> n = 11 \<or> n = 12 \<or> n = 13 \<or> n = 32"

text \<open>
  The white-space runes of \<open>unicode.IsSpace\<close> in UTF-8: six ASCII bytes, U+0085 and U+00A0 in
  two bytes, and U+1680, U+2000 to U+200A, U+2028, U+2029, U+202F, U+205F, U+3000 in three.
\<close>

definition space2 :: "nat \<Rightarrow> nat \<Rightarrow> bool" where
  "space2 a b \<longleftrightarrow> a = 194 \<and> (b = 133 \<or> b = 160)"

definition space3 :: "nat \<Rightarrow> nat \<Rightarrow> nat \<Rightarrow> bool" where
  "space3 a b c \<longleftrightarrow>
     a = 225 \<and> b = 154 \<and> c = 128
   \<or> a = 226 \<and> b = 128 \<and> (128 \<le> c \<and> c \<le> 138 \<or> c = 168 \<or> c = 169 \<or> c = 175)
   \<or> a = 226 \<and> b = 129 \<and> c = 159
   \<or> a = 227 \<and> b = 128 \<and> c = 128"

text \<open>\<open>strings.TrimSpace\<close>: strip white-space runes from the front, then from the back.\<close>

fun trim_left :: "string \<Rightarrow> string" where
  "trim_left [] = []"
| "trim_left (a # s) =
     (if ascii_space (byte a) then trim_left s
      else (case s of
          [] \<Rightarrow> [a]
        | b # t \<Rightarrow>
            if space2 (byte a) (byte b) then trim_left t
            else (case t of
                [] \<Rightarrow> a # s
              | c # u \<Rightarrow> if space3 (byte a) (byte b) (byte c) then trim_left u else a # s)))"

fun trim_right_rev :: "string \<Rightarrow> string" where
  "trim_right_rev [] = []"
| "trim_right_rev (a # s) =
     (if ascii_space (byte a) then trim_right_rev s
      else (case s of
          [] \<Rightarrow> [a]
        | b # t \<Rightarrow>
            if space2 (byte b) (byte a) then trim_right_rev t
            else (case t of
                [] \<Rightarrow> a # s
              | c # u \<Rightarrow> if space3 (byte c) (byte b) (byte a) then trim_right_rev u else a # s)))"

definition trim_space :: "string \<Rightarrow> string" where
  "trim_space s = rev (trim_right_rev (rev (trim_left s)))"

text \<open>\<open>strings.TrimSpace(s) == ""\<close>.\<close>

definition blank :: "string \<Rightarrow> bool" where
  "blank s \<longleftrightarrow> trim_space s = []"

text \<open>
  Case mapping. \<open>strings.ToUpper\<close>, \<open>ToLower\<close> and \<open>EqualFold\<close> are modelled on ASCII letters;
  every other byte is kept, which is what they do on the ASCII identifiers of this program.
\<close>

definition to_upper :: "string \<Rightarrow> string" where
  "to_upper = map (\<lambda>c. if 97 \<le> byte c \<and> byte c \<le> 122 then char_of (byte c - 32) else c)"

definition to_lower :: "string \<Rightarrow> string" where
  "to_lower = map (\<lambda>c. if 65 \<le> byte c \<and> byte c \<le> 90 then char_of (byte c + 32) else c)"

definition equal_fold :: "string \<Rightarrow> string \<Rightarrow> bool" where
  "equal_fold a b \<longleftrightarrow> to_lower a = to_lower b"

text \<open>Byte-wise order of text, Go's \<open><\<close> on strings and SQLite's BINARY collation.\<close>

fun text_less :: "string \<Rightarrow> string \<Rightarrow> bool" where
  "text_less xs [] = False"
| "text_less [] (y # ys) = True"
| "text_less (x # xs) (y # ys) = (byte x < byte y \<or> x = y \<and> text_less xs ys)"

definition text_leq :: "string \<Rightarrow> string \<Rightarrow> bool" where
  "text_leq x y \<longleftrightarrow> \<not> text_less y x"

lemma byte_eq_iff [simp]: "byte x = byte y \<longleftrightarrow> x = y"
  by (simp add: byte_def)

lemma text_less_irrefl [simp]: "\<not> text_less x x"
  by (induction x) auto

lemma text_less_trans: "text_less x y \<Longrightarrow> text_less y z \<Longrightarrow> text_less x z"
proof (induction x y arbitrary: z rule: text_less.induct)
  case (3 x xs y ys)
  then show ?case by (cases z) auto
next
  case (2 y ys)
  then show ?case by (cases z) auto
qed auto

lemma text_less_total: "x \<noteq> y \<Longrightarrow> text_less x y \<or> text_less y x"
proof (induction x y rule: text_less.induct)
  case (3 x xs y ys)
  then show ?case using linorder_less_linear [of "byte x" "byte y"] by auto
next
  case (1 xs)
  then show ?case by (cases xs) auto
qed auto

lemma text_less_asym: "text_less x y \<Longrightarrow> \<not> text_less y x"
  using text_less_trans text_less_irrefl by blast

lemma text_less_append [simp]: "text_less (p @ x) (p @ y) = text_less x y"
  by (induction p) auto

subsection \<open>Trimming twice is trimming once\<close>

definition leading_space :: "string \<Rightarrow> bool" where
  "leading_space s \<longleftrightarrow> (case s of [] \<Rightarrow> False
     | a # t \<Rightarrow> ascii_space (byte a) \<or> (case t of [] \<Rightarrow> False
         | b # u \<Rightarrow> space2 (byte a) (byte b) \<or> (case u of [] \<Rightarrow> False | c # _ \<Rightarrow> space3 (byte a) (byte b) (byte c))))"

definition leading_space_rev :: "string \<Rightarrow> bool" where
  "leading_space_rev s \<longleftrightarrow> (case s of [] \<Rightarrow> False
     | a # t \<Rightarrow> ascii_space (byte a) \<or> (case t of [] \<Rightarrow> False
         | b # u \<Rightarrow> space2 (byte b) (byte a) \<or> (case u of [] \<Rightarrow> False | c # _ \<Rightarrow> space3 (byte c) (byte b) (byte a))))"

lemma trim_left_step:
  "trim_left (a # s) = a # s \<and> \<not> leading_space (a # s) \<or> (\<exists>t q. a # s = q @ t \<and> length t < length (a # s) \<and> trim_left (a # s) = trim_left t)"
proof (cases "leading_space (a # s)")
  case True
  then have "trim_left (a # s) \<in> {trim_left s, trim_left (tl s), trim_left (tl (tl s))}"
    by (cases s; cases "tl s") (auto simp: leading_space_def trim_left.simps(2) [of a] simp del: trim_left.simps split: if_splits)
  moreover have "\<exists>q. a # s = q @ t \<and> length t < length (a # s)" if "t \<in> {s, tl s, tl (tl s)}" for t
    using that by (cases s; cases "tl s") (auto simp: Cons_eq_append_conv)
  ultimately show ?thesis by blast
next
  case False
  then show ?thesis by (cases s; cases "tl s") (auto simp: leading_space_def)
qed

lemma trim_left_no_space: "\<not> leading_space (trim_left s)"
proof (induction s rule: length_induct)
  case (1 s)
  show ?case
  proof (cases s)
    case (Cons a t)
    then show ?thesis using trim_left_step [of a t] 1 by metis
  qed (simp add: leading_space_def)
qed

lemma trim_right_rev_step:
  "trim_right_rev (a # s) = a # s \<and> \<not> leading_space_rev (a # s) \<or> (\<exists>t q. a # s = q @ t \<and> length t < length (a # s) \<and> trim_right_rev (a # s) = trim_right_rev t)"
proof (cases "leading_space_rev (a # s)")
  case True
  then have "trim_right_rev (a # s) \<in> {trim_right_rev s, trim_right_rev (tl s), trim_right_rev (tl (tl s))}"
    by (cases s; cases "tl s") (auto simp: leading_space_rev_def trim_right_rev.simps(2) [of a] simp del: trim_right_rev.simps split: if_splits)
  moreover have "\<exists>q. a # s = q @ t \<and> length t < length (a # s)" if "t \<in> {s, tl s, tl (tl s)}" for t
    using that by (cases s; cases "tl s") (auto simp: Cons_eq_append_conv)
  ultimately show ?thesis by blast
next
  case False
  then show ?thesis by (cases s; cases "tl s") (auto simp: leading_space_rev_def)
qed

lemma trim_right_rev_no_space: "\<not> leading_space_rev (trim_right_rev s)"
proof (induction s rule: length_induct)
  case (1 s)
  show ?case
  proof (cases s)
    case (Cons a t)
    then show ?thesis using trim_right_rev_step [of a t] 1 by metis
  qed (simp add: leading_space_rev_def)
qed

lemma trim_left_fixed: "\<not> leading_space s \<Longrightarrow> trim_left s = s"
  by (cases s; cases "tl s"; cases "tl (tl s)") (auto simp: leading_space_def)

lemma trim_right_rev_fixed: "\<not> leading_space_rev s \<Longrightarrow> trim_right_rev s = s"
  by (cases s; cases "tl s"; cases "tl (tl s)") (auto simp: leading_space_rev_def)

lemma leading_space_prefix: "leading_space p \<Longrightarrow> leading_space (p @ q)"
  by (cases p; cases "tl p"; cases "tl (tl p)") (auto simp: leading_space_def split: list.splits)

lemma trim_right_rev_suffix: "\<exists>q. s = q @ trim_right_rev s"
proof (induction s rule: length_induct)
  case (1 s)
  show ?case
  proof (cases s)
    case (Cons a u)
    show ?thesis
      using trim_right_rev_step [of a u]
    proof
      assume "\<exists>t q. a # u = q @ t \<and> length t < length (a # u) \<and> trim_right_rev (a # u) = trim_right_rev t"
      then obtain t q where t: "s = q @ t" "length t < length s" "trim_right_rev s = trim_right_rev t"
        using Cons by blast
      then obtain p where "t = p @ trim_right_rev t" using 1 by blast
      then have "s = (q @ p) @ trim_right_rev s" using t by simp
      then show ?thesis by blast
    qed (use Cons in simp)
  qed simp
qed

lemma trim_space_again [simp]: "trim_space (trim_space s) = trim_space s"
proof -
  obtain q where "rev (trim_left s) = q @ trim_right_rev (rev (trim_left s))"
    using trim_right_rev_suffix by blast
  then have "trim_left s = trim_space s @ rev q"
    unfolding trim_space_def by (metis rev_append rev_rev_ident)
  then have "\<not> leading_space (trim_space s)"
    using trim_left_no_space leading_space_prefix by metis
  then have "trim_left (trim_space s) = trim_space s" by (rule trim_left_fixed)
  moreover have "trim_right_rev (rev (trim_space s)) = rev (trim_space s)"
    unfolding trim_space_def using trim_right_rev_fixed trim_right_rev_no_space by simp
  ultimately show ?thesis by (simp add: trim_space_def [of "trim_space s"])
qed

end
