(* ===== verification/Clock.thy ===== *)
theory Clock
  imports Prelude "HOL-Library.Sublist"
begin

text \<open>
  The text the repository stores for an instant: \<open>formatWorkflowStateTime\<close> formats in UTC with
  \<open>time.RFC3339Nano\<close>, which drops the trailing zeros of the fraction. SQL statements compare
  these columns as text, so the theory also settles when the text order is the order in time:
  it is across seconds, and inside one second unless one fraction is a prefix of the other.
\<close>

subsection \<open>Calendar\<close>

definition days_before_year :: "int \<Rightarrow> int" where
  "days_before_year y = 365 * y + y div 4 - y div 100 + y div 400"

text \<open>The number of whole years (from year 1) before day \<open>d\<close>, by 400-, 100-, 4- and 1-year cycles.\<close>

definition years_of_days :: "int \<Rightarrow> int" where
  "years_of_days d =
     (let n400 = d div 146097; r400 = d mod 146097;
          n100 = min 3 (r400 div 36524); r100 = r400 - n100 * 36524;
          n4 = r100 div 1461; r4 = r100 mod 1461;
          n1 = min 3 (r4 div 365)
      in 400 * n400 + 100 * n100 + 4 * n4 + n1)"

definition leap_year :: "int \<Rightarrow> bool" where
  "leap_year year \<longleftrightarrow> year mod 4 = 0 \<and> (year mod 100 \<noteq> 0 \<or> year mod 400 = 0)"

definition month_lengths :: "bool \<Rightarrow> int list" where
  "month_lengths leap = [31, if leap then 29 else 28, 31, 30, 31, 30, 31, 31, 30, 31, 30, 31]"

fun month_day :: "int list \<Rightarrow> int \<Rightarrow> int \<Rightarrow> int \<times> int" where
  "month_day [] m d = (m, d + 1)"
| "month_day (l # ls) m d = (if d < l \<or> ls = [] then (m, d + 1) else month_day ls (m + 1) (d - l))"

definition civil :: "int \<Rightarrow> int \<times> int \<times> int" where
  "civil d =
     (let y = years_of_days d; (m, dd) = month_day (month_lengths (leap_year (y + 1))) 1 (d - days_before_year y)
      in (y + 1, m, dd))"

subsection \<open>Formatting\<close>

definition digit :: "int \<Rightarrow> char" where
  "digit n = char_of (nat (48 + n))"

text \<open>Decimal digits of \<open>n\<close>, padded with zeros to (and cut to) the width.\<close>

fun pad :: "nat \<Rightarrow> int \<Rightarrow> string" where
  "pad 0 n = []"
| "pad (Suc k) n = pad k (n div 10) @ [digit (n mod 10)]"

definition trim_zeros :: "string \<Rightarrow> string" where
  "trim_zeros s = rev (dropWhile (\<lambda>c. c = CHR ''0'') (rev s))"

definition fraction :: "int \<Rightarrow> string" where
  "fraction ns = (let f = trim_zeros (pad 9 ns) in (if f = [] then [] else CHR ''.'' # f) @ ''Z'')"

definition date_text :: "int \<Rightarrow> string" where
  "date_text day = (let (y, m, d) = civil day in pad 4 y @ ''-'' @ pad 2 m @ ''-'' @ pad 2 d)"

definition clock_text :: "int \<Rightarrow> string" where
  "clock_text r = pad 2 (r div 3600) @ '':'' @ pad 2 (r mod 3600 div 60) @ '':'' @ pad 2 (r mod 60)"

definition second_text :: "int \<Rightarrow> string" where
  "second_text s = date_text (s div 86400) @ ''T'' @ clock_text (s mod 86400)"

definition whole_seconds :: "time \<Rightarrow> int" where
  "whole_seconds t = t div 1000000000"

definition nanoseconds :: "time \<Rightarrow> int" where
  "nanoseconds t = t mod 1000000000"

definition format_workflow_state_time :: "time \<Rightarrow> string" where
  "format_workflow_state_time t = second_text (whole_seconds t) @ fraction (nanoseconds t)"

text \<open>The order SQL sees on time columns.\<close>

definition sql_before :: "time \<Rightarrow> time \<Rightarrow> bool" where
  "sql_before a b \<longleftrightarrow> text_less (format_workflow_state_time a) (format_workflow_state_time b)"


text \<open>Instants Go can format with a four-digit year: years 1 to 9999.\<close>

definition formattable :: "time \<Rightarrow> bool" where
  "formattable t \<longleftrightarrow> 0 \<le> t \<and> t < 315537897600 * 1000000000"

subsection \<open>Fixed-width digits\<close>

lemma length_pad [simp]: "length (pad k n) = k"
  by (induction k arbitrary: n) auto

lemma byte_digit [simp]: "0 \<le> n \<Longrightarrow> n < 10 \<Longrightarrow> byte (digit n) = 48 + nat n"
  by (simp add: byte_def digit_def nat_add_distrib)

lemma text_less_append_length:
  "length a = length b \<Longrightarrow> text_less (a @ x) (b @ y) = (text_less a b \<or> a = b \<and> text_less x y)"
  by (induction a b rule: list_induct2) auto

lemma div_mod_less_iff:
  fixes m n k :: int
  assumes "0 < k"
  shows "(m < n) = (m div k < n div k \<or> m div k = n div k \<and> m mod k < n mod k)
    \<and> (m = n) = (m div k = n div k \<and> m mod k = n mod k)"
proof -
  have "m div k < n div k \<Longrightarrow> m < n" and "n div k < m div k \<Longrightarrow> n < m"
    using zdiv_mono1 [of n m k] zdiv_mono1 [of m n k] assms by (auto simp: not_le [symmetric])
  moreover have "m div k = n div k \<Longrightarrow> m - n = m mod k - n mod k"
    by (simp add: minus_div_mult_eq_mod [symmetric])
  ultimately show ?thesis by (cases "m div k" "n div k" rule: linorder_cases) auto
qed

lemma pad_less:
  "0 \<le> m \<Longrightarrow> m < 10 ^ k \<Longrightarrow> 0 \<le> n \<Longrightarrow> n < 10 ^ k \<Longrightarrow> text_less (pad k m) (pad k n) = (m < n)
    \<and> (pad k m = pad k n) = (m = n)"
proof (induction k arbitrary: m n)
  case 0
  then show ?case by auto
next
  case (Suc k)
  have IH: "text_less (pad k (m div 10)) (pad k (n div 10)) = (m div 10 < n div 10)"
    "(pad k (m div 10) = pad k (n div 10)) = (m div 10 = n div 10)"
    using Suc.IH [of "m div 10" "n div 10"] Suc.prems by auto
  have last: "text_less [digit (m mod 10)] [digit (n mod 10)] = (m mod 10 < n mod 10)"
    using pos_mod_bound [of 10 m] pos_mod_bound [of 10 n] pos_mod_sign [of 10 m] pos_mod_sign [of 10 n]
    by (auto simp: nat_less_eq_zless)
  have eq: "(digit (m mod 10) = digit (n mod 10)) = (m mod 10 = n mod 10)"
  proof -
    have "byte (digit (m mod 10)) = 48 + nat (m mod 10)" and "byte (digit (n mod 10)) = 48 + nat (n mod 10)"
      by simp_all
    then have "digit (m mod 10) = digit (n mod 10) \<Longrightarrow> nat (m mod 10) = nat (n mod 10)"
      by simp
    then show ?thesis by (auto simp: eq_nat_nat_iff)
  qed
  have "(m < n) = (m div 10 < n div 10 \<or> m div 10 = n div 10 \<and> m mod 10 < n mod 10)
    \<and> (m = n) = (m div 10 = n div 10 \<and> m mod 10 = n mod 10)"
    by (rule div_mod_less_iff) simp
  then show ?case
    using last eq by (simp add: text_less_append_length IH)
qed

subsection \<open>The calendar is monotone\<close>

lemma years_bracket:
  assumes "0 \<le> d"
  shows "0 \<le> years_of_days d \<and> days_before_year (years_of_days d) \<le> d
    \<and> d < days_before_year (years_of_days d + 1)"
proof -
  define a where "a = d div 146097"
  define r where "r = d mod 146097"
  define b where "b = min 3 (r div 36524)"
  define s where "s = r - b * 36524"
  define c where "c = s div 1461"
  define u where "u = s mod 1461"
  define e where "e = min 3 (u div 365)"
  have y: "years_of_days d = 400 * a + 100 * b + 4 * c + e"
    by (simp add: years_of_days_def Let_def a_def r_def b_def s_def c_def u_def e_def)
  have d: "d = 146097 * a + r" and a: "0 \<le> a" and r: "0 \<le> r" "r < 146097"
    using assms by (auto simp: a_def r_def)
  have b: "0 \<le> b" "b \<le> 3" "0 \<le> s" "s < 36525" "b < 3 \<Longrightarrow> s < 36524"
  proof -
    define q where "q = r div 36524"
    have "36524 * q \<le> r" and "r < 36524 * q + 36524" and "0 \<le> q"
      using r by (auto simp: q_def)
    with r show "0 \<le> b" "b \<le> 3" "0 \<le> s" "s < 36525" "b < 3 \<Longrightarrow> s < 36524"
      by (auto simp: b_def s_def q_def [symmetric] min_def)
  qed
  have c: "s = 1461 * c + u" "0 \<le> c" "c \<le> 24" "0 \<le> u" "u < 1461"
    using b by (auto simp: c_def u_def)
  have e: "0 \<le> e" "e \<le> 3" "365 * e \<le> u" "e < 3 \<Longrightarrow> u < 365 * e + 365"
  proof -
    define q where "q = u div 365"
    have "365 * q \<le> u" and "u < 365 * q + 365" and "0 \<le> q"
      using c by (auto simp: q_def)
    then show "0 \<le> e" "e \<le> 3" "365 * e \<le> u" "e < 3 \<Longrightarrow> u < 365 * e + 365"
      by (auto simp: e_def q_def [symmetric] min_def)
  qed
  have sb: "r = 36524 * b + s" by (simp add: s_def)
  have now: "days_before_year (years_of_days d) = 146097 * a + 36524 * b + 1461 * c + 365 * e"
  proof -
    let ?y = "400 * a + 100 * b + 4 * c + e"
    have "?y div 4 = 100 * a + 25 * b + c" using e by (intro int_div_pos_eq [of _ _ _ e]) auto
    moreover have "?y div 100 = 4 * a + b" using b c e by (intro int_div_pos_eq [of _ _ _ "4 * c + e"]) auto
    moreover have "?y div 400 = a" using b c e by (intro int_div_pos_eq [of _ _ _ "100 * b + 4 * c + e"]) auto
    ultimately show ?thesis by (simp add: y days_before_year_def)
  qed
  have "d < days_before_year (years_of_days d + 1)"
  proof (cases "e < 3")
    case True
    let ?y = "400 * a + 100 * b + 4 * c + e + 1"
    have h4: "?y div 4 = 100 * a + 25 * b + c"
      using True e by (intro int_div_pos_eq [of _ _ _ "e + 1"]) auto
    have h100: "?y div 100 = 4 * a + b"
      using True c e by (intro int_div_pos_eq [of _ _ _ "4 * c + e + 1"]) auto
    have h400: "?y div 400 = a"
      using True b c e by (intro int_div_pos_eq [of _ _ _ "100 * b + 4 * c + e + 1"]) auto
    show ?thesis
      unfolding y days_before_year_def h4 h100 h400 using e(3) e(4) [OF True] c(1) sb d
      by (simp add: algebra_simps)
  next
    case False
    let ?y = "400 * a + 100 * b + 4 * c + 4"
    have e3: "e = 3" using False e by simp
    have y4: "?y div 4 = 100 * a + 25 * b + c + 1"
      by (intro int_div_pos_eq [of _ _ _ 0]) auto
    have y100: "?y div 100 = (if c < 24 then 4 * a + b else 4 * a + b + 1)"
      using c by (intro int_div_pos_eq [of _ _ _ "if c < 24 then 4 * c + 4 else 0"]) auto
    have y400: "?y div 400 = (if c < 24 \<or> b < 3 then a else a + 1)"
      using b c by (intro int_div_pos_eq [of _ _ _ "if c < 24 \<or> b < 3 then 100 * b + 4 * c + 4 else 0"]) auto
    have y1: "400 * a + 100 * b + 4 * c + e + 1 = ?y" using e3 by simp
    show ?thesis
      unfolding y days_before_year_def y1 y4 y100 y400
      using b c e sb d r e3 by (auto split: if_split)
  qed
  moreover have "days_before_year (years_of_days d) \<le> d"
    using now d sb c e by linarith
  moreover have "0 \<le> years_of_days d" using y a b c e by linarith
  ultimately show ?thesis by blast
qed

lemma int_div_plus_one:
  fixes y n :: int
  assumes "0 < n"
  shows "(y + 1) div n = y div n + (if (y + 1) mod n = 0 then 1 else 0)"
proof (cases "y mod n + 1 = n")
  case True
  then have "y + 1 = n * (y div n + 1)"
    using mult_div_mod_eq [of n y] unfolding distrib_left by linarith
  then show ?thesis using assms by simp
next
  case False
  have "y + 1 = (y mod n + 1) + n * (y div n)"
    using mult_div_mod_eq [of n y] by simp
  moreover have "0 \<le> y mod n + 1" and "y mod n + 1 < n" and "y mod n + 1 \<noteq> 0"
    using assms False pos_mod_bound [of n y] pos_mod_sign [of n y] by linarith+
  ultimately have "(y + 1) div n = (y mod n + 1) div n + y div n" and "(y + 1) mod n = (y mod n + 1) mod n"
    and "0 \<le> y mod n + 1" and "y mod n + 1 < n" and "y mod n + 1 \<noteq> 0"
    using assms by (simp_all only: div_mult_self2 mod_mult_self2 less_irrefl not_False_eq_True)
  then show ?thesis by (simp add: div_pos_pos_trivial mod_pos_pos_trivial)
qed

lemma leap_count:
  "x' = x + (if p then 1 else 0) \<Longrightarrow> y' = y + (if q then 1 else 0) \<Longrightarrow> z' = z + (if r then 1 else 0) \<Longrightarrow>
    (r \<Longrightarrow> q) \<Longrightarrow> (q \<Longrightarrow> p) \<Longrightarrow>
    365 * (n + 1) + x' - y' + z' = 365 * n + x - y + z + (if p \<and> (\<not> q \<or> r) then 366 else (365 :: int))"
  by auto

lemma days_before_year_Suc:
  "days_before_year (y + 1) = days_before_year y + (if leap_year (y + 1) then 366 else 365)"
proof -
  have "(y + 1) mod 400 = 0 \<Longrightarrow> (y + 1) mod 100 = 0" and "(y + 1) mod 100 = 0 \<Longrightarrow> (y + 1) mod 4 = 0"
    using dvd_trans [of 100 400 "y + 1"] dvd_trans [of 4 100 "y + 1"] by (simp_all add: mod_eq_0_iff_dvd)
  then show ?thesis
    unfolding days_before_year_def leap_year_def
    by (intro leap_count int_div_plus_one) (assumption | simp)+
qed

lemma days_before_year_mono: "x \<le> y \<Longrightarrow> days_before_year x \<le> days_before_year y"
proof (induction y rule: int_ge_induct)
  case base
  then show ?case by simp
next
  case (step i)
  then show ?case by (auto simp: days_before_year_Suc)
qed

lemma years_of_days_mono: "0 \<le> d \<Longrightarrow> d \<le> e \<Longrightarrow> years_of_days d \<le> years_of_days e"
  using years_bracket [of d] years_bracket [of e]
    days_before_year_mono [of "years_of_days e + 1" "years_of_days d"]
  by (cases "years_of_days e + 1 \<le> years_of_days d") auto

subsection \<open>Months and days\<close>

lemma month_day_fst: "m \<le> fst (month_day ls m d)"
  by (induction ls m d rule: month_day.induct) auto

lemma month_day_mono:
  "d < e \<Longrightarrow> fst (month_day ls m d) < fst (month_day ls m e)
    \<or> fst (month_day ls m d) = fst (month_day ls m e) \<and> snd (month_day ls m d) < snd (month_day ls m e)"
proof (induction ls m d arbitrary: e rule: month_day.induct)
  case (2 l ls m d)
  show ?case
  proof (cases "d < l \<or> ls = []")
    case True
    have "m + 1 \<le> fst (month_day ls (m + 1) (e - l))" by (rule month_day_fst)
    with True "2.prems" show ?thesis by auto
  next
    case False
    then show ?thesis using "2.IH" [of "e - l"] "2.prems" by auto
  qed
qed auto

lemma month_day_bounds:
  "0 \<le> d \<Longrightarrow> d < sum_list ls \<Longrightarrow> \<forall>l \<in> set ls. l \<le> 31 \<Longrightarrow>
    fst (month_day ls m d) < m + int (length ls) \<and> 1 \<le> snd (month_day ls m d) \<and> snd (month_day ls m d) \<le> 31"
proof (induction ls m d rule: month_day.induct)
  case (2 l ls m d)
  show ?case
  proof (cases "d < l \<or> ls = []")
    case True
    with "2.prems" show ?thesis by auto
  next
    case False
    then show ?thesis using "2.IH" "2.prems" by auto
  qed
qed simp

lemma month_lengths_sum: "sum_list (month_lengths leap) = (if leap then 366 else 365)"
  by (simp add: month_lengths_def)

lemma civil_bounds:
  assumes "0 \<le> d" and "d < 3652059" and "civil d = (y, m, dd)"
  shows "1 \<le> y \<and> y \<le> 9999 \<and> 1 \<le> m \<and> m \<le> 12 \<and> 1 \<le> dd \<and> dd \<le> 31"
proof -
  define x where "x = years_of_days d"
  have x: "0 \<le> x" "days_before_year x \<le> d" "d < days_before_year (x + 1)"
    using years_bracket [OF assms(1)] by (auto simp: x_def)
  have "x < 9999"
  proof (rule ccontr)
    assume "\<not> x < 9999"
    then have "days_before_year 9999 \<le> days_before_year x" by (intro days_before_year_mono) simp
    then show False using x assms(2) by (simp add: days_before_year_def)
  qed
  moreover have "fst (month_day (month_lengths (leap_year (x + 1))) 1 (d - days_before_year x)) < 1 + int 12
     \<and> 1 \<le> snd (month_day (month_lengths (leap_year (x + 1))) 1 (d - days_before_year x))
     \<and> snd (month_day (month_lengths (leap_year (x + 1))) 1 (d - days_before_year x)) \<le> 31"
    using month_day_bounds [of "d - days_before_year x" "month_lengths (leap_year (x + 1))" 1] x
    by (auto simp: month_lengths_sum days_before_year_Suc) (auto simp: month_lengths_def split: if_splits)
  moreover have "1 \<le> fst (month_day (month_lengths (leap_year (x + 1))) 1 (d - days_before_year x))"
    by (rule month_day_fst)
  ultimately show ?thesis
    using assms(3) x by (auto simp: civil_def Let_def x_def split: prod.splits)
qed

lemma civil_mono:
  assumes "0 \<le> d" and "d < e" and "civil d = (y, m, dd)" and "civil e = (y', m', dd')"
  shows "y < y' \<or> y = y' \<and> (m < m' \<or> m = m' \<and> dd < dd')"
proof -
  have "years_of_days d \<le> years_of_days e"
    using assms by (intro years_of_days_mono) auto
  then show ?thesis
    using assms month_day_mono [of "d - days_before_year (years_of_days d)" "e - days_before_year (years_of_days e)"
        "month_lengths (leap_year (years_of_days d + 1))" 1]
    by (cases "years_of_days d = years_of_days e") (auto simp: civil_def Let_def split: prod.splits)
qed


subsection \<open>The order of stored instants\<close>

lemma pad_less_iff:
  "0 \<le> m \<Longrightarrow> m < 10 ^ k \<Longrightarrow> 0 \<le> n \<Longrightarrow> n < 10 ^ k \<Longrightarrow>
    text_less (pad k m @ x) (pad k n @ y) = (m < n \<or> m = n \<and> text_less x y)"
  by (simp add: text_less_append_length pad_less)

lemma three_fields_less:
  assumes "0 \<le> a" "a < 10 ^ k" "0 \<le> a'" "a' < 10 ^ k" "0 \<le> b" "b < 100" "0 \<le> b'" "b' < 100"
    "0 \<le> d" "d < 100" "0 \<le> d'" "d' < 100"
  shows "text_less (pad k a @ c # pad 2 b @ c # pad 2 d @ x) (pad k a' @ c # pad 2 b' @ c # pad 2 d' @ y) =
     (a < a' \<or> a = a' \<and> (b < b' \<or> b = b' \<and> (d < d' \<or> d = d' \<and> text_less x y)))"
proof -
  have "text_less (pad 2 d @ x) (pad 2 d' @ y) = (d < d' \<or> d = d' \<and> text_less x y)"
    using assms by (intro pad_less_iff) auto
  moreover have "text_less (pad 2 b @ v) (pad 2 b' @ w) = (b < b' \<or> b = b' \<and> text_less v w)" for v w
    using assms by (intro pad_less_iff) auto
  moreover have "text_less (pad k a @ v) (pad k a' @ w) = (a < a' \<or> a = a' \<and> text_less v w)" for v w
    using assms by (intro pad_less_iff) auto
  ultimately show ?thesis by simp
qed

lemma clock_text_less:
  assumes "0 \<le> r" "r < 86400" "0 \<le> q" "q < 86400"
  shows "text_less (clock_text r @ x) (clock_text q @ y) = (r < q \<or> r = q \<and> text_less x y)"
proof -
  have "(r < q) = (r div 3600 < q div 3600 \<or> r div 3600 = q div 3600 \<and> r mod 3600 < q mod 3600)
      \<and> (r = q) = (r div 3600 = q div 3600 \<and> r mod 3600 = q mod 3600)"
    by (rule div_mod_less_iff) simp
  moreover have "(r mod 3600 < q mod 3600) = (r mod 3600 div 60 < q mod 3600 div 60
        \<or> r mod 3600 div 60 = q mod 3600 div 60 \<and> r mod 3600 mod 60 < q mod 3600 mod 60)
      \<and> (r mod 3600 = q mod 3600) = (r mod 3600 div 60 = q mod 3600 div 60 \<and> r mod 3600 mod 60 = q mod 3600 mod 60)"
    by (rule div_mod_less_iff) simp
  moreover have "r mod 3600 mod 60 = r mod 60" "q mod 3600 mod 60 = q mod 60"
    by (simp_all add: mod_mod_cancel)
  moreover have "text_less (clock_text r @ x) (clock_text q @ y) =
     (r div 3600 < q div 3600 \<or> r div 3600 = q div 3600 \<and> (r mod 3600 div 60 < q mod 3600 div 60
        \<or> r mod 3600 div 60 = q mod 3600 div 60 \<and> (r mod 60 < q mod 60 \<or> r mod 60 = q mod 60 \<and> text_less x y)))"
  proof -
    have bounds: "r div 3600 < 10 ^ 2" "q div 3600 < 10 ^ 2" "r mod 3600 div 60 < 100" "q mod 3600 div 60 < 100"
        "r mod 60 < 100" "q mod 60 < 100" "0 \<le> r div 3600" "0 \<le> q div 3600" "0 \<le> r mod 3600 div 60"
        "0 \<le> q mod 3600 div 60" "0 \<le> r mod 60" "0 \<le> q mod 60"
      using assms by auto
    show ?thesis
      using three_fields_less [OF bounds(7,1,8,2,9,3,10,4,11,5,12,6)] by (simp add: clock_text_def)
  qed
  ultimately show ?thesis by metis
qed

lemma date_text_less:
  assumes "0 \<le> d" "d < 3652059" "0 \<le> e" "e < 3652059"
  shows "text_less (date_text d @ x) (date_text e @ y) = (d < e \<or> d = e \<and> text_less x y)"
proof -
  obtain y1 m1 d1 where c1: "civil d = (y1, m1, d1)" by (cases "civil d")
  obtain y2 m2 d2 where c2: "civil e = (y2, m2, d2)" by (cases "civil e")
  have bounds: "0 \<le> y1" "y1 < 10 ^ 4" "0 \<le> y2" "y2 < 10 ^ 4" "0 \<le> m1" "m1 < 100" "0 \<le> m2" "m2 < 100"
      "0 \<le> d1" "d1 < 100" "0 \<le> d2" "d2 < 100"
    using civil_bounds [OF assms(1,2) c1] civil_bounds [OF assms(3,4) c2] by auto
  have "text_less (date_text d @ x) (date_text e @ y) =
      (y1 < y2 \<or> y1 = y2 \<and> (m1 < m2 \<or> m1 = m2 \<and> (d1 < d2 \<or> d1 = d2 \<and> text_less x y)))"
    using three_fields_less [OF bounds] by (simp add: date_text_def c1 c2)
  moreover have "d < e \<Longrightarrow> y1 < y2 \<or> y1 = y2 \<and> (m1 < m2 \<or> m1 = m2 \<and> d1 < d2)"
    and "e < d \<Longrightarrow> y2 < y1 \<or> y2 = y1 \<and> (m2 < m1 \<or> m2 = m1 \<and> d2 < d1)"
    and "d = e \<Longrightarrow> y1 = y2 \<and> m1 = m2 \<and> d1 = d2"
    using civil_mono [OF assms(1) _ c1 c2] civil_mono [OF assms(3) _ c2 c1] c1 c2 by auto
  ultimately show ?thesis by (cases d e rule: linorder_cases) auto
qed

lemma second_text_less:
  assumes "0 \<le> s" and "s < 315537897600" and "0 \<le> t" and "t < 315537897600"
  shows "text_less (second_text s @ x) (second_text t @ y) = (s < t \<or> s = t \<and> text_less x y)"
proof -
  have bounds: "0 \<le> s div 86400" "s div 86400 < 3652059" "0 \<le> t div 86400" "t div 86400 < 3652059"
    using assms by auto
  have "text_less (second_text s @ x) (second_text t @ y) =
     (s div 86400 < t div 86400 \<or> s div 86400 = t div 86400 \<and>
       (s mod 86400 < t mod 86400 \<or> s mod 86400 = t mod 86400 \<and> text_less x y))"
    using date_text_less [OF bounds] clock_text_less [of "s mod 86400" "t mod 86400"]
    by (simp add: second_text_def)
  then show ?thesis using div_mod_less_iff [of 86400 s t] by auto
qed

subsection \<open>Fractions\<close>

definition decimal :: "string \<Rightarrow> bool" where
  "decimal s \<longleftrightarrow> (\<forall>c\<in>set s. 48 \<le> byte c \<and> byte c \<le> 57)"

lemma decimal_simps [simp]:
  "decimal []" "decimal (c # s) \<longleftrightarrow> 48 \<le> byte c \<and> byte c \<le> 57 \<and> decimal s"
  "decimal (s @ t) \<longleftrightarrow> decimal s \<and> decimal t"
  by (auto simp: decimal_def)

lemma decimal_pad: "decimal (pad k n)"
proof (induction k arbitrary: n)
  case (Suc k)
  have "0 \<le> n mod 10" "n mod 10 < 10" by simp_all
  then show ?case using Suc by simp
qed simp

lemma takeWhile_replicate: "\<exists>k. takeWhile (\<lambda>c. c = x) s = replicate k x"
proof (induction s)
  case (Cons a s)
  then obtain k where "takeWhile (\<lambda>c. c = x) s = replicate k x" by blast
  then show ?case
    by (cases "a = x") (auto intro: exI [of _ "Suc k"])
qed simp

lemma trim_zeros_split: "\<exists>k. s = trim_zeros s @ replicate k (CHR ''0'')"
proof -
  obtain k where "takeWhile (\<lambda>c. c = CHR ''0'') (rev s) = replicate k (CHR ''0'')"
    using takeWhile_replicate [of "CHR ''0''" "rev s"] by blast
  then have "rev s = replicate k (CHR ''0'') @ dropWhile (\<lambda>c. c = CHR ''0'') (rev s)"
    by (metis takeWhile_dropWhile_id)
  then have "rev (rev s) = rev (replicate k (CHR ''0'') @ dropWhile (\<lambda>c. c = CHR ''0'') (rev s))"
    by (rule arg_cong)
  then show ?thesis by (auto simp: trim_zeros_def)
qed

lemma byte_Z [simp]: "byte (CHR ''Z'') = 90" and byte_0 [simp]: "byte (CHR ''0'') = 48"
  and byte_dot [simp]: "byte (CHR ''.'') = 46"
  by (simp_all add: byte_def)

lemma zeros_least: "decimal s \<Longrightarrow> length s = k \<Longrightarrow> \<not> text_less s (replicate k (CHR ''0''))"
  by (induction s arbitrary: k) auto

lemma text_less_before_Z:
  "decimal a \<Longrightarrow> decimal b \<Longrightarrow>
    text_less (a @ ''Z'') (b @ ''Z'') = (strict_prefix b a \<or> text_less a b \<and> \<not> prefix a b)"
proof (induction a b rule: text_less.induct)
  case (1 xs)
  then show ?case by (cases xs) auto
next
  case (3 x xs y ys)
  then show ?case by auto
qed auto

lemma text_less_drop_zeros:
  "decimal a \<Longrightarrow> decimal b \<Longrightarrow> length a + i = length b + j \<Longrightarrow>
    text_less (a @ replicate i (CHR ''0'')) (b @ replicate j (CHR ''0'')) \<Longrightarrow> text_less a b"
proof (induction a b rule: text_less.induct)
  case (1 xs)
  have "decimal (xs @ replicate i (CHR ''0''))" using 1 by (auto simp: decimal_def)
  then show ?case using 1 zeros_least [of "xs @ replicate i (CHR ''0'')" j] by simp
qed auto

lemma strict_prefix_not_less: "strict_prefix b a \<Longrightarrow> \<not> text_less a b"
proof (induction a b rule: text_less.induct)
  case (3 x xs y ys)
  then show ?case by auto
qed auto

lemma fraction_less:
  assumes "0 \<le> m" and "m < n" and "n < 1000000000"
  shows "text_less (fraction m) (fraction n) \<longleftrightarrow> \<not> prefix (trim_zeros (pad 9 m)) (trim_zeros (pad 9 n))"
    and "text_less (fraction n) (fraction m) \<longleftrightarrow> prefix (trim_zeros (pad 9 m)) (trim_zeros (pad 9 n))"
proof -
  define a where "a = trim_zeros (pad 9 m)"
  define b where "b = trim_zeros (pad 9 n)"
  obtain i j where i: "pad 9 m = a @ replicate i (CHR ''0'')" and j: "pad 9 n = b @ replicate j (CHR ''0'')"
    using trim_zeros_split a_def b_def by metis
  have dec: "decimal a" "decimal b"
    using decimal_pad [of 9 m] decimal_pad [of 9 n] by (simp_all add: i j)
  have len: "length a + i = length b + j"
    using length_pad [of 9 m] length_pad [of 9 n] by (simp add: i j)
  have "text_less (pad 9 m) (pad 9 n)"
    using pad_less [of m 9 n] assms by simp
  then have less: "text_less a b" using text_less_drop_zeros [OF dec len] by (simp add: i j)
  then have noteq: "a \<noteq> b" and "b \<noteq> []" and notpre: "\<not> strict_prefix b a"
    using strict_prefix_not_less by (auto intro: ccontr)
  have m: "fraction m = (if a = [] then [] else CHR ''.'' # a) @ ''Z''"
    and n: "fraction n = CHR ''.'' # b @ ''Z''"
    using \<open>b \<noteq> []\<close> by (simp_all add: fraction_def Let_def a_def [symmetric] b_def [symmetric])
  have *: "text_less (fraction m) (fraction n) \<longleftrightarrow> \<not> prefix a b"
    using text_less_before_Z [OF dec] less notpre by (auto simp: m n)
  moreover have "fraction m \<noteq> fraction n"
    using noteq by (auto simp: m n)
  ultimately have "text_less (fraction n) (fraction m) \<longleftrightarrow> prefix a b"
    using text_less_total text_less_asym by blast
  then show "text_less (fraction m) (fraction n) \<longleftrightarrow> \<not> prefix (trim_zeros (pad 9 m)) (trim_zeros (pad 9 n))"
    and "text_less (fraction n) (fraction m) \<longleftrightarrow> prefix (trim_zeros (pad 9 m)) (trim_zeros (pad 9 n))"
    using * by (simp_all add: a_def b_def)
qed

lemma sql_before_seconds:
  assumes "formattable a" and "formattable b"
  shows "sql_before a b \<longleftrightarrow> whole_seconds a < whole_seconds b
    \<or> whole_seconds a = whole_seconds b \<and> text_less (fraction (nanoseconds a)) (fraction (nanoseconds b))"
proof -
  have "0 \<le> whole_seconds a" "whole_seconds a < 315537897600" "0 \<le> whole_seconds b" "whole_seconds b < 315537897600"
    using assms by (auto simp: formattable_def whole_seconds_def)
  then show ?thesis
    by (simp add: sql_before_def format_workflow_state_time_def second_text_less)
qed

text \<open>The order of the stored texts, in terms of the order in time.\<close>

lemma sql_before_later:
  assumes "formattable a" and "formattable b" and "a < b"
  shows "sql_before a b \<longleftrightarrow> whole_seconds a < whole_seconds b
    \<or> \<not> prefix (trim_zeros (pad 9 (nanoseconds a))) (trim_zeros (pad 9 (nanoseconds b)))"
    and "sql_before b a \<longleftrightarrow> whole_seconds a = whole_seconds b
    \<and> prefix (trim_zeros (pad 9 (nanoseconds a))) (trim_zeros (pad 9 (nanoseconds b)))"
proof -
  have order: "whole_seconds a < whole_seconds b \<or> whole_seconds a = whole_seconds b \<and> nanoseconds a < nanoseconds b"
    using div_mod_less_iff [of 1000000000 a b] assms(3) by (simp add: whole_seconds_def nanoseconds_def)
  have range: "0 \<le> nanoseconds a" "nanoseconds b < 1000000000"
    by (simp_all add: nanoseconds_def)
  show "sql_before a b \<longleftrightarrow> whole_seconds a < whole_seconds b
    \<or> \<not> prefix (trim_zeros (pad 9 (nanoseconds a))) (trim_zeros (pad 9 (nanoseconds b)))"
    using order range fraction_less(1) sql_before_seconds [OF assms(1,2)] by auto
  show "sql_before b a \<longleftrightarrow> whole_seconds a = whole_seconds b
    \<and> prefix (trim_zeros (pad 9 (nanoseconds a))) (trim_zeros (pad 9 (nanoseconds b)))"
    using order range fraction_less(2) sql_before_seconds [OF assms(2,1)] by auto
qed

lemma sql_before_irrefl [simp]: "\<not> sql_before a a"
  by (simp add: sql_before_def)

lemma sql_before_trans: "sql_before a b \<Longrightarrow> sql_before b c \<Longrightarrow> sql_before a c"
  unfolding sql_before_def by (rule text_less_trans)

end
