(* ===== verification/Schema.thy ===== *)
theory Schema
  imports Clock "HOL-Library.Multiset"
begin

text \<open>
  The records of \<open>pkg/api\<close> the workflow repository stores, the tables of
  \<open>internal/services/db/migrations.go\<close> as a record of row lists, the errors its operations
  return, and the SQL and transaction primitives they are written with.

  A row is stored in its decoded form: JSON columns hold the record they encode, time columns
  hold the instant (their text is \<open>format_workflow_state_time\<close> of it), and a column that is
  only ever written together with the JSON it duplicates is read off the record. A statement
  whose key or foreign-key constraint fails returns \<open>SqlConstraint\<close> and, like every error,
  rolls the transaction back.
\<close>

definition max_int64 :: nat where
  "max_int64 = 9223372036854775807"

subsection \<open>Configuration activation\<close>

text \<open>\<open>ConfigActivationStatus\<close>, \<open>ConfigImpactDetail\<close> and \<open>ConfigActivation\<close> of \<open>pkg/api\<close>; impact kinds
  and failure codes are the strings the code declares them as.\<close>

datatype config_status = CfgActive | CfgPending | CfgFailed | CfgOther string

record impact_detail =
  im_kind :: string
  im_trackers :: "string list"

record config_activation =
  ca_status :: config_status
  ca_id :: string
  ca_generation :: nat
  ca_fingerprint :: string
  ca_pending_generation :: nat
  ca_failure_code :: string
  ca_impacts :: "string list"
  ca_updated_at :: time

text \<open>The one row of \<open>config_activation\<close> and the optional one of \<open>config_activation_pending\<close>; an empty
  \<open>failed_at\<close> is \<open>None\<close>.\<close>

record config_row =
  cfg_generation :: nat
  cfg_fingerprint :: string
  cfg_impacts :: "impact_detail list"
  cfg_updated_at :: time
  cfg_failed_id :: string
  cfg_failed_code :: string
  cfg_failed_impacts :: "impact_detail list"
  cfg_failed_at :: "time option"

record pending_row =
  pd_id :: string
  pd_owner :: string
  pd_base :: nat
  pd_impacts :: "impact_detail list"
  pd_candidate :: string
  pd_updated_at :: time

subsection \<open>Errors\<close>

datatype err =
    ActiveInputChanged
  | ActiveInputBusy
  | ActiveInputLeaseLost
  | InputRecordNotFound
  | StateNotFound
  | RevisionConflict
  | IdempotencyConflict
  | OperationNotFound
  | OperationConflict
  | OperationSequenceConflict
  | EffectOutcomeUnknown
  | EffectConflict
  | FenceNotFound
  | ConfigActivationChanged
  | ConfigActivationPending config_activation
  | CorrectionRevisionConflict nat nat
  | Invalid string
  | SqlConstraint
  | StorageFault

subsection \<open>Status enumerations\<close>

datatype effect_status = EffStarted | EffSucceeded | EffFailed | EffUnknown

datatype stage_status =
    StUnset | StPending | StQueued | StReady | StBlocked | StStale | StFailed | StPartial | StSkipped
  | StRunning | StCompleted | StExecuted | StInterrupted | StCanceled | StUnavailable

datatype workflow_status = WfUnset | WfDraft | WfActive | WfBlocked | WfCompleted | WfCanceled | WfFailed

datatype ai_state = AiEmpty | AiOpening | AiActive | AiSwitchPending | AiRecovering | AiOther string

subsection \<open>Records\<close>

record active_input_record =
  slot_state :: ai_state
  slot_revision :: nat
  slot_fence :: nat
  slot_owner :: string
  slot_coordinator :: string
  slot_lease_expires_at :: time
  slot_input :: string
  slot_source_version :: string
  slot_workflow :: string
  slot_reservation :: string
  slot_requested_path :: string
  slot_idempotency_key :: string
  slot_request_fingerprint :: string

record input_record =
  in_id :: string
  in_canonical_path :: string
  in_source_version :: string
  in_manifest :: string
  in_updated_at :: time

record input_association =
  ia_canonical_path :: string
  ia_owner :: string
  ia_source_version :: string
  ia_workflow :: string
  ia_audio_analysis :: string
  ia_hdr_analysis :: "string option"
  ia_updated_at :: time

record release_ref =
  rel_source_path :: string
  rel_generation :: nat

record active_input_retention =
  ret_release :: release_ref
  ret_correction_revision :: nat

record content_file =
  cf_relative_path :: string
  cf_size :: int
  cf_sha256 :: string

record content_identity =
  ci_version :: string
  ci_digest :: string
  ci_scope :: string
  ci_files :: "content_file list"

record fence_authority =
  fa_content :: content_identity
  fa_site :: string
  fa_coordinator :: string
  fa_fence :: nat

record fence_record =
  fen_content :: content_identity
  fen_site :: string
  fen_owner :: string
  fen_workflow :: string
  fen_operation :: string
  fen_effect :: string
  fen_status :: effect_status
  fen_started_at :: time
  fen_updated_at :: time
  fen_confirmed_at :: "time option"

record effect_record =
  eff_owner :: string
  eff_workflow :: string
  eff_operation :: string
  eff_id :: string
  eff_kind :: string
  eff_scope :: string
  eff_fingerprint :: string
  eff_status :: effect_status
  eff_started_at :: time
  eff_updated_at :: time
  eff_completed_at :: "time option"
  eff_submission :: "fence_authority option"

record effect_receipt =
  rc_operation :: string
  rc_effect :: string

record effect_resolution =
  er_kind :: string
  er_scope :: string
  er_expected :: "effect_receipt list"

record work_record =
  wk_owner :: string
  wk_workflow :: string
  wk_operation :: string
  wk_lease_owner :: string
  wk_lease_expires_at :: time
  wk_checkpoint :: string
  wk_updated_at :: time
  wk_completed_at :: "time option"

record operation_result =
  opr_kind :: string
  opr_workflow_revision :: nat
  opr_ref :: string
  opr_ref_revision :: nat

text \<open>\<open>WorkflowOperationStatus\<close>; its display lists (items, failures, events) are the opaque \<open>ops_details\<close>.\<close>

record operation_status =
  ops_id :: string
  ops_workflow :: string
  ops_revision :: nat
  ops_result_revision :: nat
  ops_sequence :: nat
  ops_command :: string
  ops_operation :: string
  ops_phase :: string
  ops_status :: stage_status
  ops_progress :: int
  ops_completed :: int
  ops_total :: int
  ops_message :: string
  ops_details :: string
  ops_result :: "operation_result option"
  ops_started_at :: time
  ops_updated_at :: time
  ops_completed_at :: "time option"

record operation_record =
  op_owner :: string
  op_workflow :: string
  op_id :: string
  op_expected_revision :: nat
  op_idempotency_key :: string
  op_fingerprint :: string
  op_epoch :: string
  op_status :: operation_status
  op_hdr_cleanup :: release_ref

text \<open>A row of \<open>release_workflow_operations\<close>: the command name column is written once, beside the JSON.\<close>

record operation_row = operation_record +
  opw_command :: string

text \<open>\<open>UploadTrackerResult\<close>: a failure is its operation kind and its code.\<close>

record tracker_failure =
  tf_operation :: string
  tf_code :: string

record tracker_result =
  tr_receipt :: string
  tr_operation :: string
  tr_tracker :: string
  tr_status :: stage_status
  tr_submission :: stage_status
  tr_injection :: stage_status
  tr_client_failure :: string
  tr_client_injected :: bool
  tr_cross_seeded :: bool
  tr_failures :: "tracker_failure list"

record upload_result =
  ur_workflow :: string
  ur_results :: "tracker_result list"

text \<open>
  The state payload: its bytes, the \<open>UploadResults\<close> values its JSON decodes to (\<open>None\<close> when it
  does not decode) and the value at \<open>$.Workflow.hdrAnalysis.id\<close>.
\<close>

record state_payload =
  pl_bytes :: string
  pl_uploads :: "upload_result list option"
  pl_hdr :: "string option"

record state_record =
  ws_owner :: string
  ws_id :: string
  ws_revision :: nat
  ws_status :: workflow_status
  ws_creation_key :: string
  ws_creation_fingerprint :: string
  ws_payload :: state_payload
  ws_created_at :: time
  ws_updated_at :: time
  ws_description_valid :: "bool option"
  ws_resolution :: "effect_resolution option"

record intent_record =
  it_owner :: string
  it_workflow :: string
  it_key :: string
  it_fingerprint :: string
  it_goal :: string
  it_payload :: string
  it_accepted_at :: time

record continuation_record =
  co_owner :: string
  co_workflow :: string
  co_revision :: nat
  co_payload :: string
  co_updated_at :: time

text \<open>\<open>WorkflowEvent\<close>; the presentation fields are the opaque \<open>ev_body\<close>.\<close>

record workflow_event =
  ev_workflow :: string
  ev_operation :: string
  ev_sequence :: nat
  ev_timestamp :: time
  ev_body :: string

record event_row =
  er_owner :: string
  er_workflow :: string
  er_sequence :: nat
  er_key :: string
  er_event :: workflow_event

subsection \<open>The database\<close>

record db =
  slot :: active_input_record
  inputs :: "input_record list"
  associations :: "input_association list"
  states :: "state_record list"
  operations :: "operation_row list"
  work :: "work_record list"
  effects :: "effect_record list"
  fences :: "fence_record list"
  intents :: "intent_record list"
  continuations :: "continuation_record list"
  events :: "event_row list"
  config_active :: config_row
  config_pending :: "pending_row option"
  settings :: "(string \<times> string) list"
  prepared_current :: "(string \<times> nat) list"
  corrections :: "(string \<times> nat) list"

text \<open>The row \<open>migrateAddActiveInput\<close> inserts: every field but the state is the zero value.\<close>

definition empty_slot :: active_input_record where
  "empty_slot = \<lparr>slot_state = AiEmpty, slot_revision = 0, slot_fence = 0, slot_owner = [], slot_coordinator = [],
     slot_lease_expires_at = 0, slot_input = [], slot_source_version = [], slot_workflow = [],
     slot_reservation = [], slot_requested_path = [], slot_idempotency_key = [], slot_request_fingerprint = []\<rparr>"

text \<open>The row \<open>migrateAddConfigActivation\<close> inserts, dated 1970-01-01T00:00:00Z.\<close>

definition initial_config :: config_row where
  "initial_config = \<lparr>cfg_generation = 0, cfg_fingerprint = [], cfg_impacts = [], cfg_updated_at = 62135596800000000000,
     cfg_failed_id = [], cfg_failed_code = [], cfg_failed_impacts = [], cfg_failed_at = None\<rparr>"

definition empty_db :: db where
  "empty_db = \<lparr>slot = empty_slot, inputs = [], associations = [], states = [], operations = [], work = [],
     effects = [], fences = [], intents = [], continuations = [], events = [], config_active = initial_config,
     config_pending = None, settings = [],
     prepared_current = [], corrections = []\<rparr>"

text \<open>
  What an operation reads from its context: the input and configuration authority attached to
  it, the wall clock (\<open>time.Now().UTC()\<close>), and the outcome of the snapshot synchronisation
  \<open>syncWorkflowStorage\<close> and \<open>saveReusableDescriptionTx\<close>, which this development does not model.
\<close>

record ctx =
  input_authority :: "(string \<times> nat) option"
  config_authority :: "(nat \<times> string) option"
  wall_now :: time
  sync_outcome :: "err option"

subsection \<open>Transactions\<close>

type_synonym 'a tx = "db \<Rightarrow> err + 'a \<times> db"

text \<open>\<open>withWriteTx\<close>: commit what the callback did, or roll back and return its error.\<close>

definition with_write_tx :: "(db \<Rightarrow> 'e + 'a \<times> db) \<Rightarrow> db \<Rightarrow> ('e + 'a) \<times> db" where
  "with_write_tx f d = (case f d of Inl e \<Rightarrow> (Inl e, d) | Inr (a, d') \<Rightarrow> (Inr a, d'))"

lemma with_write_tx_Inl [simp, tx_simps]: "f d = Inl e \<Longrightarrow> with_write_tx f d = (Inl e, d)"
  and with_write_tx_Inr [simp, tx_simps]: "f d = Inr (a, d') \<Longrightarrow> with_write_tx f d = (Inr a, d')"
  by (simp_all add: with_write_tx_def)

lemma with_write_tx_cases:
  obtains (error) e where "f d = Inl e" "with_write_tx f d = (Inl e, d)"
  | (commit) a d' where "f d = Inr (a, d')" "with_write_tx f d = (Inr a, d')"
  by (cases "f d") auto

lemma with_write_tx_error: "with_write_tx f d = (Inl e, d') \<Longrightarrow> f d = Inl e \<and> d' = d"
  by (auto simp: with_write_tx_def split: sum.splits prod.splits)

lemma with_write_tx_commit: "with_write_tx f d = (Inr a, d') \<longleftrightarrow> f d = Inr (a, d')"
  by (auto simp: with_write_tx_def split: sum.splits prod.splits)

lemma with_write_tx_inv:
  "P d \<Longrightarrow> (\<And>a d'. f d = Inr (a, d') \<Longrightarrow> P d') \<Longrightarrow> P (snd (with_write_tx f d))"
  by (cases "f d") auto

subsection \<open>Statements\<close>

text \<open>\<open>UPDATE ... WHERE\<close>, \<open>DELETE ... WHERE\<close> and the number of rows they affect.\<close>

definition update_where :: "('r \<Rightarrow> bool) \<Rightarrow> ('r \<Rightarrow> 'r) \<Rightarrow> 'r list \<Rightarrow> 'r list" where
  "update_where P f rows = map (\<lambda>r. if P r then f r else r) rows"

definition delete_where :: "('r \<Rightarrow> bool) \<Rightarrow> 'r list \<Rightarrow> 'r list" where
  "delete_where P rows = filter (\<lambda>r. \<not> P r) rows"

definition count_where :: "('r \<Rightarrow> bool) \<Rightarrow> 'r list \<Rightarrow> nat" where
  "count_where P rows = length (filter P rows)"

lemma in_update_where: "r \<in> set (update_where P f rows) \<longleftrightarrow> (\<exists>q\<in>set rows. r = (if P q then f q else q))"
  by (auto simp: update_where_def)

lemma in_delete_where [simp]: "r \<in> set (delete_where P rows) \<longleftrightarrow> r \<in> set rows \<and> \<not> P r"
  by (auto simp: delete_where_def)

lemma count_where_eq_0 [simp]: "count_where P rows = 0 \<longleftrightarrow> (\<forall>r\<in>set rows. \<not> P r)"
  by (simp add: count_where_def filter_empty_conv)

lemma count_where_positive: "count_where P rows = Suc n \<Longrightarrow> \<exists>r\<in>set rows. P r"
  by (metis count_where_eq_0 nat.distinct(1))

lemma update_where_none: "(\<And>r. r \<in> set rows \<Longrightarrow> \<not> P r) \<Longrightarrow> update_where P f rows = rows"
  by (simp add: update_where_def map_idI)

lemma length_update_where [simp]: "length (update_where P f rows) = length rows"
  by (simp add: update_where_def)

lemma map_update_where:
  "(\<And>r. r \<in> set rows \<Longrightarrow> P r \<Longrightarrow> k (f r) = k r) \<Longrightarrow> map k (update_where P f rows) = map k rows"
  by (auto simp: update_where_def)

lemma distinct_map_filter: "distinct (map k rows) \<Longrightarrow> distinct (map k (filter P rows))"
  by (induction rows) auto

lemma distinct_map_delete_where: "distinct (map k rows) \<Longrightarrow> distinct (map k (delete_where P rows))"
  by (simp add: delete_where_def distinct_map_filter)

lemma find_Some_in: "List.find P rows = Some r \<Longrightarrow> r \<in> set rows \<and> P r"
  by (induction rows) (auto split: if_splits)

lemma find_None: "List.find P rows = None \<longleftrightarrow> (\<forall>r\<in>set rows. \<not> P r)"
  by (auto simp: find_None_iff)

lemma distinct_map_eq: "distinct (map k rows) \<Longrightarrow> a \<in> set rows \<Longrightarrow> b \<in> set rows \<Longrightarrow> k a = k b \<Longrightarrow> a = b"
  by (auto simp: distinct_map inj_on_def)

lemma find_unique:
  "distinct (map k rows) \<Longrightarrow> r \<in> set rows \<Longrightarrow> k r = key \<Longrightarrow> List.find (\<lambda>q. k q = key) rows = Some r"
  by (induction rows) (auto simp: image_iff)

lemma find_update_where:
  "(\<And>r. k (f r) = k r) \<Longrightarrow> List.find (\<lambda>r. k r = key) (update_where P f rows)
     = map_option (\<lambda>r. if P r then f r else r) (List.find (\<lambda>r. k r = key) rows)"
  by (induction rows) (auto simp: update_where_def)

lemma find_delete_where:
  "distinct (map k rows) \<Longrightarrow> List.find (\<lambda>r. k r = key) (delete_where P rows)
     = (case List.find (\<lambda>r. k r = key) rows of None \<Rightarrow> None | Some r \<Rightarrow> if P r then None else Some r)"
proof (induction rows)
  case (Cons q rows)
  have "List.find (\<lambda>r. k r = key) (delete_where P rows) = None" if "k q = key"
  proof -
    have "\<forall>r\<in>set rows. k r \<noteq> key"
      using Cons.prems that by (metis distinct.simps(2) imageI list.set_map list.simps(9))
    then show ?thesis by (simp add: find_None)
  qed
  then show ?case using Cons by (auto simp: delete_where_def)
qed (simp add: delete_where_def)

lemma count_where_unique:
  assumes "distinct (map k rows)" and "\<And>r. P r \<Longrightarrow> k r = key"
  shows "count_where P rows \<le> 1"
  using assms(1)
proof (induction rows)
  case (Cons q rows)
  have "count_where P rows = 0" if "P q"
  proof -
    have "\<not> P r" if "r \<in> set rows" for r
      using Cons.prems that \<open>P q\<close> assms(2) by (metis distinct.simps(2) image_eqI list.set_map list.simps(9))
    then show ?thesis by simp
  qed
  then show ?case using Cons by (auto simp: count_where_def)
qed (simp add: count_where_def)

lemma find_append: "List.find P (xs @ ys) = (case List.find P xs of None \<Rightarrow> List.find P ys | Some r \<Rightarrow> Some r)"
  by (induction xs) auto

lemma find_in: "distinct (map k rows) \<Longrightarrow> List.find (\<lambda>r. k r = key) rows = Some r \<longleftrightarrow> r \<in> set rows \<and> k r = key"
  using find_Some_in [of "\<lambda>r. k r = key" rows r] find_unique [of k rows r key] by auto

text \<open>\<open>ORDER BY ... LIMIT 1\<close>: the last row in the given order.\<close>

definition top_row :: "('r \<Rightarrow> 'r \<Rightarrow> bool) \<Rightarrow> 'r list \<Rightarrow> 'r option" where
  "top_row before rows =
     (case rows of [] \<Rightarrow> None | r # rs \<Rightarrow> Some (foldl (\<lambda>a b. if before a b then b else a) r rs))"

lemma foldl_top_in: "foldl (\<lambda>a b. if before a b then b else a) r rs \<in> insert r (set rs)"
  by (induction rs arbitrary: r) (auto split: if_splits)

lemma top_row_in: "top_row before rows = Some r \<Longrightarrow> r \<in> set rows"
  using foldl_top_in by (fastforce simp: top_row_def split: list.splits)

lemma top_row_None [simp]: "top_row before rows = None \<longleftrightarrow> rows = []"
  by (simp add: top_row_def split: list.splits)

lemma foldl_top_max:
  assumes trans: "\<And>a b c. before a b \<Longrightarrow> before b c \<Longrightarrow> before a c"
    and step: "\<And>a b c. \<not> before a b \<Longrightarrow> \<not> before b c \<Longrightarrow> \<not> before a c"
    and irrefl: "\<And>a. \<not> before a a"
  shows "q \<in> insert r (set rs) \<Longrightarrow> \<not> before (foldl (\<lambda>a b. if before a b then b else a) r rs) q"
proof (induction rs arbitrary: r q)
  case Nil
  then show ?case using irrefl by simp
next
  case (Cons s rs)
  define t where "t = (if before r s then s else r)"
  define top where "top = foldl (\<lambda>a b. if before a b then b else a) t rs"
  have IH: "\<not> before top p" if "p \<in> insert t (set rs)" for p
    using Cons.IH that by (simp add: top_def)
  have "\<not> before top t" by (rule IH) simp
  moreover have "\<not> before t r" using trans [of r s r] irrefl by (auto simp: t_def)
  moreover have "\<not> before t s" using irrefl by (auto simp: t_def)
  ultimately have "\<not> before top r" and "\<not> before top s" using step by blast+
  moreover have "\<not> before top q" if "q \<in> set rs" by (rule IH) (simp add: that)
  ultimately have "\<not> before top q" using Cons.prems by auto
  then show ?case by (simp add: top_def t_def)
qed

lemma top_row_max:
  assumes "\<And>a b c. before a b \<Longrightarrow> before b c \<Longrightarrow> before a c"
    and "\<And>a b c. \<not> before a b \<Longrightarrow> \<not> before b c \<Longrightarrow> \<not> before a c"
    and "\<And>a. \<not> before a a"
    and "top_row before rows = Some r" and "q \<in> set rows"
  shows "\<not> before r q"
proof (cases rows)
  case (Cons p ps)
  then have "r = foldl (\<lambda>a b. if before a b then b else a) p ps" and "q \<in> insert p (set ps)"
    using assms(4,5) by (simp_all add: top_row_def)
  moreover have "\<not> before (foldl (\<lambda>a b. if before a b then b else a) p ps) q" if "q \<in> insert p (set ps)"
    using _ _ _ that by (rule foldl_top_max) (erule (1) assms(1) assms(2) | rule assms(3))+
  ultimately show ?thesis by simp
qed (use assms(5) in simp)

text \<open>\<open>ORDER BY\<close> over a whole result set.\<close>

fun insert_row :: "('r \<Rightarrow> 'r \<Rightarrow> bool) \<Rightarrow> 'r \<Rightarrow> 'r list \<Rightarrow> 'r list" where
  "insert_row before r [] = [r]"
| "insert_row before r (q # qs) = (if before r q then r # q # qs else q # insert_row before r qs)"

definition order_by :: "('r \<Rightarrow> 'r \<Rightarrow> bool) \<Rightarrow> 'r list \<Rightarrow> 'r list" where
  "order_by before rows = foldl (\<lambda>acc r. insert_row before r acc) [] rows"

lemma set_insert_row [simp]: "set (insert_row before r rows) = insert r (set rows)"
  by (induction rows) auto

lemma set_foldl_insert_row: "set (foldl (\<lambda>acc r. insert_row before r acc) acc rows) = set acc \<union> set rows"
  by (induction rows arbitrary: acc) auto

lemma set_order_by [simp]: "set (order_by before rows) = set rows"
  by (simp add: order_by_def set_foldl_insert_row)

lemma insert_row_perm: "mset (insert_row before r rows) = add_mset r (mset rows)"
  by (induction rows) auto

lemma mset_foldl_insert_row: "mset (foldl (\<lambda>acc r. insert_row before r acc) acc rows) = mset acc + mset rows"
  by (induction rows arbitrary: acc) (auto simp: insert_row_perm)

lemma mset_order_by [simp]: "mset (order_by before rows) = mset rows"
  by (simp add: order_by_def mset_foldl_insert_row)

lemma length_order_by [simp]: "length (order_by before rows) = length rows"
  by (metis mset_order_by size_mset)

text \<open>The rows come out in order: no row is before an earlier one.\<close>

lemma sorted_insert_row:
  assumes step: "\<And>a b c. \<not> before a b \<Longrightarrow> \<not> before b c \<Longrightarrow> \<not> before a c"
    and asym: "\<And>a b. before a b \<Longrightarrow> \<not> before b a"
  shows "sorted_wrt (\<lambda>a b. \<not> before b a) rows \<Longrightarrow> sorted_wrt (\<lambda>a b. \<not> before b a) (insert_row before r rows)"
proof (induction rows)
  case (Cons q qs)
  then show ?case
  proof (cases "before r q")
    case True
    then have "\<not> before q r" by (rule asym)
    then have "\<not> before s r" if "s \<in> set qs" for s
      using Cons.prems that step [of s q r] by auto
    then show ?thesis using True Cons.prems \<open>\<not> before q r\<close> by auto
  qed auto
qed simp

lemma sorted_order_by:
  assumes "\<And>a b c. \<not> before a b \<Longrightarrow> \<not> before b c \<Longrightarrow> \<not> before a c"
    and "\<And>a b. before a b \<Longrightarrow> \<not> before b a"
  shows "sorted_wrt (\<lambda>a b. \<not> before b a) (order_by before rows)"
proof -
  have "sorted_wrt (\<lambda>a b. \<not> before b a) acc \<Longrightarrow>
      sorted_wrt (\<lambda>a b. \<not> before b a) (foldl (\<lambda>acc r. insert_row before r acc) acc rows)" for acc
  proof (induction rows arbitrary: acc)
    case (Cons r rows)
    have "sorted_wrt (\<lambda>a b. \<not> before b a) (insert_row before r acc)"
      using _ _ Cons.prems by (rule sorted_insert_row) (erule (1) assms(1) | erule assms(2))+
    then show ?case by (simp add: Cons.IH)
  qed simp
  then show ?thesis by (simp add: order_by_def)
qed

text \<open>Sorting sorted rows changes nothing.\<close>

lemma insert_row_last: "(\<And>q. q \<in> set rows \<Longrightarrow> \<not> before r q) \<Longrightarrow> insert_row before r rows = rows @ [r]"
  by (induction rows) auto

lemma foldl_insert_sorted:
  "sorted_wrt (\<lambda>a b. \<not> before b a) (acc @ rows) \<Longrightarrow> foldl (\<lambda>acc r. insert_row before r acc) acc rows = acc @ rows"
proof (induction rows arbitrary: acc)
  case (Cons r rows)
  then have "insert_row before r acc = acc @ [r]"
    by (intro insert_row_last) (auto simp: sorted_wrt_append)
  then show ?case using Cons.IH [of "acc @ [r]"] Cons.prems by simp
qed simp

lemma order_by_sorted: "sorted_wrt (\<lambda>a b. \<not> before b a) rows \<Longrightarrow> order_by before rows = rows"
  using foldl_insert_sorted [of before "[]" rows] by (simp add: order_by_def)

text \<open>Time columns compared as text, with a tie-breaking text column.\<close>

definition row_before :: "('r \<Rightarrow> time) \<Rightarrow> ('r \<Rightarrow> string) \<Rightarrow> 'r \<Rightarrow> 'r \<Rightarrow> bool" where
  "row_before t k a b \<longleftrightarrow> sql_before (t a) (t b)
     \<or> format_workflow_state_time (t a) = format_workflow_state_time (t b) \<and> text_less (k a) (k b)"

lemma text_less_step: "\<not> text_less a b \<Longrightarrow> \<not> text_less b c \<Longrightarrow> \<not> text_less a c"
  using text_less_total [of b c] text_less_trans [of a c b] by auto

lemma text_pair_trans:
  assumes "text_less a b \<or> a = b \<and> text_less x y" and "text_less b c \<or> b = c \<and> text_less y z"
  shows "text_less a c \<or> a = c \<and> text_less x z"
  using assms(1)
proof
  assume "text_less a b"
  then show ?thesis using assms(2) text_less_trans [of a b c] by auto
next
  assume "a = b \<and> text_less x y"
  then show ?thesis using assms(2) text_less_trans [of x y z] by auto
qed

lemma text_pair_step:
  assumes "text_less b a \<or> a = b \<and> \<not> text_less x y" and "text_less c b \<or> b = c \<and> \<not> text_less y z"
  shows "text_less c a \<or> a = c \<and> \<not> text_less x z"
  using assms(1)
proof
  assume "text_less b a"
  then show ?thesis using assms(2) text_less_trans [of c b a] by auto
next
  assume "a = b \<and> \<not> text_less x y"
  then show ?thesis using assms(2) text_less_step [of x y z] by auto
qed

lemma row_before_trans: "row_before t k a b \<Longrightarrow> row_before t k b c \<Longrightarrow> row_before t k a c"
  unfolding row_before_def sql_before_def by (rule text_pair_trans)

lemma row_before_irrefl [simp]: "\<not> row_before t k a a"
  by (simp add: row_before_def)

lemma not_row_before:
  "\<not> row_before t k a b \<longleftrightarrow> sql_before (t b) (t a)
    \<or> format_workflow_state_time (t a) = format_workflow_state_time (t b) \<and> \<not> text_less (k a) (k b)"
  unfolding row_before_def sql_before_def
  using text_less_total [of "format_workflow_state_time (t a)" "format_workflow_state_time (t b)"]
    text_less_asym [of "format_workflow_state_time (t a)" "format_workflow_state_time (t b)"] text_less_irrefl
  by metis

lemma row_before_step: "\<not> row_before t k a b \<Longrightarrow> \<not> row_before t k b c \<Longrightarrow> \<not> row_before t k a c"
  unfolding not_row_before sql_before_def
  by (rule text_pair_step)

lemma top_row_before_max:
  assumes "top_row (row_before t k) rows = Some r" and "q \<in> set rows"
  shows "\<not> row_before t k r q"
  using _ _ _ assms by (rule top_row_max) (erule (1) row_before_trans row_before_step | rule row_before_irrefl)+

end
