(* ===== verification/ActiveInput.thy ===== *)
theory ActiveInput
  imports Schema
begin

text \<open>
  The database's single input slot: \<open>internal/services/db/active_input.go\<close>. A coordinator
  acquires the slot with a lease and a fence; every transition is a compare-and-swap on the
  revision, the fence and the coordinator, and every workflow mutation checks the slot in its
  own transaction. \<open>pathing.SamePath\<close> (which resolves links on disk) is the parameter
  \<open>same_path\<close>; the JSON decoding of stored corrections is not modelled, only their revision.
\<close>

subsection \<open>Reads\<close>

definition load_active_input :: "db \<Rightarrow> active_input_record" where
  "load_active_input d = slot d"

definition load_input_record :: "db \<Rightarrow> string \<Rightarrow> err + input_record" where
  "load_input_record d canonical_path =
     (case List.find (\<lambda>r. in_canonical_path r = canonical_path) (inputs d) of
        None \<Rightarrow> Inl InputRecordNotFound | Some r \<Rightarrow> Inr r)"

definition load_input_record_by_id :: "db \<Rightarrow> string \<Rightarrow> err + input_record" where
  "load_input_record_by_id d i =
     (case List.find (\<lambda>r. in_id r = i) (inputs d) of
        None \<Rightarrow> Inl InputRecordNotFound
      | Some r \<Rightarrow> load_input_record d (in_canonical_path r))"

text \<open>The association's workflow, audio and HDR identifiers; all empty when there is none.\<close>

definition load_input_workflow_association :: "db \<Rightarrow> string \<Rightarrow> string \<Rightarrow> string \<Rightarrow> string \<times> string \<times> string" where
  "load_input_workflow_association d canonical_path owner source_version =
     (case List.find (\<lambda>a. ia_canonical_path a = canonical_path \<and> ia_owner a = owner
         \<and> ia_source_version a = source_version) (associations d) of
        None \<Rightarrow> ([], [], [])
      | Some a \<Rightarrow> (ia_workflow a, ia_audio_analysis a, case ia_hdr_analysis a of None \<Rightarrow> [] | Some h \<Rightarrow> h))"

text \<open>
  \<open>loadWorkflowState\<close> of \<open>release_workflow_state.go\<close>; the snapshot references it then resolves
  (\<open>loadWorkflowSnapshotStorage\<close>) are not modelled.
\<close>

definition load_workflow_state :: "db \<Rightarrow> string \<Rightarrow> string \<Rightarrow> err + state_record" where
  "load_workflow_state d owner workflow =
     (if owner = [] \<or> blank workflow then Inl StateNotFound
      else case List.find (\<lambda>s. ws_owner s = owner \<and> ws_id s = workflow) (states d) of
          None \<Rightarrow> Inl StateNotFound | Some s \<Rightarrow> Inr s)"

subsection \<open>Conditions other tables contribute\<close>

definition effect_unresolved :: "effect_record \<Rightarrow> bool" where
  "effect_unresolved e \<longleftrightarrow> eff_status e = EffStarted \<or> eff_status e = EffUnknown"

definition fence_unresolved :: "fence_record \<Rightarrow> bool" where
  "fence_unresolved f \<longleftrightarrow> fen_status f = EffStarted \<or> fen_status f = EffUnknown"

definition operation_active :: "operation_row \<Rightarrow> bool" where
  "operation_active p \<longleftrightarrow> ops_status (op_status p) = StQueued \<or> ops_status (op_status p) = StRunning"

definition any_active_operation :: "db \<Rightarrow> bool" where
  "any_active_operation d \<longleftrightarrow> (\<exists>p\<in>set (operations d). operation_active p)"

text \<open>\<open>completed_at IS NULL AND lease_expires_at > now\<close>, compared as text.\<close>

definition any_live_work_lease :: "time \<Rightarrow> db \<Rightarrow> bool" where
  "any_live_work_lease now d \<longleftrightarrow>
     (\<exists>w\<in>set (work d). wk_completed_at w = None \<and> sql_before now (wk_lease_expires_at w))"

definition tracker_submission :: string where
  "tracker_submission = ''tracker_submission''"

definition fence_of_effect :: "fence_record \<Rightarrow> effect_record \<Rightarrow> bool" where
  "fence_of_effect f e \<longleftrightarrow> fen_owner f = eff_owner e \<and> fen_workflow f = eff_workflow e
     \<and> fen_operation f = eff_operation e \<and> fen_effect f = eff_id e"

definition protective_fence :: "db \<Rightarrow> effect_record \<Rightarrow> bool" where
  "protective_fence d e \<longleftrightarrow> (\<exists>f\<in>set (fences d). fence_of_effect f e
     \<and> (fen_status f = EffStarted \<or> fen_status f = EffUnknown \<or> fen_status f = EffSucceeded))"

text \<open>An unresolved effect that keeps the slot: not a submission, unfenced, or of the current or next workflow.\<close>

definition blocking_effect :: "db \<Rightarrow> active_input_record \<Rightarrow> active_input_record \<Rightarrow> effect_record \<Rightarrow> bool" where
  "blocking_effect d current nxt e \<longleftrightarrow> effect_unresolved e
     \<and> (eff_kind e \<noteq> tracker_submission \<or> \<not> protective_fence d e
        \<or> eff_owner e = slot_owner current \<and> eff_workflow e = slot_workflow current
        \<or> eff_owner e = slot_owner nxt \<and> eff_workflow e = slot_workflow nxt)"

subsection \<open>Admission checks of the other repositories\<close>

definition require_active_input_fence ::
    "db \<Rightarrow> string \<Rightarrow> string \<Rightarrow> string \<Rightarrow> nat \<Rightarrow> time \<Rightarrow> err option" where
  "require_active_input_fence d owner workflow coordinator fence now =
     (let s = slot d in
      if slot_state s \<noteq> AiActive \<or> slot_owner s \<noteq> owner \<or> slot_workflow s \<noteq> workflow
         \<or> slot_coordinator s \<noteq> coordinator \<or> slot_fence s \<noteq> fence \<or> \<not> slot_lease_expires_at s > now
      then Some ActiveInputLeaseLost else None)"

definition require_workflow_input_mutation :: "ctx \<Rightarrow> db \<Rightarrow> string \<Rightarrow> string \<Rightarrow> bool \<Rightarrow> err option" where
  "require_workflow_input_mutation c d owner workflow allow_pending =
     (let s = slot d in
      if slot_fence s = 0 then None
      else if input_authority c \<noteq> Some (slot_coordinator s, slot_fence s)
         \<or> owner \<noteq> slot_owner s \<or> \<not> slot_lease_expires_at s > wall_now c
      then Some ActiveInputLeaseLost
      else if slot_state s = AiActive \<and> slot_workflow s = workflow then None
      else if allow_pending \<and> (slot_state s = AiSwitchPending \<or> slot_state s = AiRecovering)
         \<and> slot_workflow s = workflow then None
      else Some ActiveInputChanged)"

definition require_legacy_input_recovery :: "ctx \<Rightarrow> db \<Rightarrow> string \<Rightarrow> string \<Rightarrow> err option" where
  "require_legacy_input_recovery c d owner workflow =
     (let s = slot d in
      if input_authority c = None \<or> slot_state s \<noteq> AiRecovering \<or> slot_input s \<noteq> [] \<or> slot_source_version s \<noteq> []
         \<or> slot_owner s \<noteq> owner \<or> slot_workflow s \<noteq> workflow
         \<or> input_authority c \<noteq> Some (slot_coordinator s, slot_fence s) \<or> \<not> slot_lease_expires_at s > wall_now c
      then Some ActiveInputLeaseLost else None)"

text \<open>\<open>execWorkflowInputWrite\<close>: one statement under the mutation check.\<close>

definition exec_workflow_input_write :: "ctx \<Rightarrow> string \<Rightarrow> string \<Rightarrow> 'a tx \<Rightarrow> db \<Rightarrow> (err + 'a) \<times> db" where
  "exec_workflow_input_write c owner workflow statement =
     with_write_tx (\<lambda>d. case require_workflow_input_mutation c d owner workflow True of
       Some e \<Rightarrow> Inl e | None \<Rightarrow> statement d)"

subsection \<open>Writes\<close>

definition write_active_input :: "active_input_record \<Rightarrow> db \<Rightarrow> db" where
  "write_active_input r d = d\<lparr>slot := r\<rparr>"

definition save_input_record_tx :: "input_record \<Rightarrow> input_record tx" where
  "save_input_record_tx r d =
     (case List.find (\<lambda>q. in_canonical_path q = in_canonical_path r) (inputs d) of
        Some q \<Rightarrow> Inr (r\<lparr>in_id := in_id q\<rparr>,
          d\<lparr>inputs := update_where (\<lambda>q. in_canonical_path q = in_canonical_path r)
            (\<lambda>q. q\<lparr>in_source_version := in_source_version r, in_manifest := in_manifest r,
                   in_updated_at := in_updated_at r\<rparr>) (inputs d)\<rparr>)
      | None \<Rightarrow> if \<exists>q\<in>set (inputs d). in_id q = in_id r then Inl SqlConstraint
          else Inr (r, d\<lparr>inputs := inputs d @ [r]\<rparr>))"

definition save_input_record :: "input_record \<Rightarrow> db \<Rightarrow> (err + input_record) \<times> db" where
  "save_input_record r d =
     (if in_id r = [] \<or> in_canonical_path r = [] \<or> in_source_version r = [] \<or> in_manifest r = [] \<or> in_updated_at r = 0
      then (Inl (Invalid ''incomplete input record''), d)
      else with_write_tx (save_input_record_tx r) d)"

definition associate_input_workflow :: "input_record \<Rightarrow> string \<Rightarrow> string \<Rightarrow> time \<Rightarrow> db \<Rightarrow> db" where
  "associate_input_workflow saved owner workflow now d =
     (let same = (\<lambda>a. ia_canonical_path a = in_canonical_path saved \<and> ia_owner a = owner) in
      if \<exists>a\<in>set (associations d). same a
      then d\<lparr>associations := update_where same
        (\<lambda>a. a\<lparr>ia_source_version := in_source_version saved, ia_workflow := workflow, ia_audio_analysis := [],
               ia_hdr_analysis := None, ia_updated_at := now\<rparr>) (associations d)\<rparr>
      else d\<lparr>associations := associations d @ [\<lparr>ia_canonical_path = in_canonical_path saved, ia_owner = owner,
        ia_source_version = in_source_version saved, ia_workflow = workflow, ia_audio_analysis = [],
        ia_hdr_analysis = None, ia_updated_at = now\<rparr>]\<rparr>)"

subsection \<open>Transitions\<close>

definition validate_active_input_transition ::
    "active_input_record \<Rightarrow> active_input_record \<Rightarrow> bool \<Rightarrow> err option" where
  "validate_active_input_transition current nxt acquiring =
     (if slot_state nxt = AiRecovering \<and> acquiring then
        (if slot_input nxt \<noteq> slot_input current \<or> slot_workflow nxt \<noteq> slot_workflow current
            \<or> slot_source_version nxt \<noteq> slot_source_version current \<or> slot_reservation nxt \<noteq> slot_reservation current
            \<or> slot_requested_path nxt \<noteq> slot_requested_path current
         then Some ActiveInputChanged else None)
      else (case slot_state nxt of
          AiRecovering \<Rightarrow> Some ActiveInputChanged
        | AiActive \<Rightarrow>
            if slot_input nxt = [] \<or> slot_source_version nxt = [] \<or> slot_workflow nxt = []
               \<or> slot_reservation nxt \<noteq> [] \<or> slot_requested_path nxt \<noteq> []
            then Some ActiveInputChanged else None
        | AiEmpty \<Rightarrow>
            if slot_input nxt \<noteq> [] \<or> slot_source_version nxt \<noteq> [] \<or> slot_workflow nxt \<noteq> []
               \<or> slot_reservation nxt \<noteq> [] \<or> slot_requested_path nxt \<noteq> []
            then Some ActiveInputChanged else None
        | AiOther _ \<Rightarrow> Some ActiveInputChanged
        | _ \<Rightarrow>
            if slot_reservation nxt = [] \<or> slot_requested_path nxt = [] \<or> slot_idempotency_key nxt = []
               \<or> slot_input nxt \<noteq> slot_input current \<or> slot_workflow nxt \<noteq> slot_workflow current
               \<or> slot_source_version nxt \<noteq> slot_source_version current
            then Some ActiveInputChanged
            else if slot_state nxt = AiOpening \<and> slot_state current \<noteq> AiEmpty
               \<or> slot_state nxt = AiSwitchPending \<and> slot_state current \<noteq> AiActive
            then Some ActiveInputChanged else None))"

definition acquiring :: "active_input_record \<Rightarrow> time \<Rightarrow> bool" where
  "acquiring current now \<longleftrightarrow> slot_state current = AiEmpty \<or> \<not> slot_lease_expires_at current > now"

text \<open>The lease part of the transition: who may take or keep the slot.\<close>

definition check_acquisition :: "active_input_record \<Rightarrow> active_input_record \<Rightarrow> time \<Rightarrow> err option" where
  "check_acquisition current nxt now =
     (if acquiring current now then
        (if slot_fence nxt \<noteq> slot_fence current + 1 \<or> slot_coordinator nxt = [] \<or> slot_owner nxt = []
            \<or> \<not> slot_lease_expires_at nxt > now then Some ActiveInputLeaseLost
         else if slot_state current \<noteq> AiEmpty \<and> slot_state nxt \<noteq> AiRecovering then Some ActiveInputLeaseLost
         else if slot_state current = AiEmpty \<and> slot_state nxt \<noteq> AiOpening \<and> slot_state nxt \<noteq> AiRecovering
         then Some ActiveInputChanged else None)
      else if slot_fence nxt \<noteq> slot_fence current \<or> slot_coordinator nxt \<noteq> slot_coordinator current
         \<or> slot_owner nxt \<noteq> slot_owner current
      then Some ActiveInputBusy else None)"

definition check_legacy_acquire :: "db \<Rightarrow> active_input_record \<Rightarrow> err option" where
  "check_legacy_acquire d nxt =
     (if slot_input nxt \<noteq> [] \<or> slot_source_version nxt \<noteq> [] \<or> slot_workflow nxt = [] \<or> slot_reservation nxt \<noteq> []
         \<or> slot_requested_path nxt \<noteq> [] \<or> slot_idempotency_key nxt \<noteq> [] then Some ActiveInputChanged
      else case load_workflow_state d (slot_owner nxt) (slot_workflow nxt) of
          Inl e \<Rightarrow> Some e
        | Inr _ \<Rightarrow>
            if \<exists>e\<in>set (effects d). eff_owner e = slot_owner nxt \<and> eff_workflow e = slot_workflow nxt \<and> effect_unresolved e
            then None else Some ActiveInputChanged)"

text \<open>What else must be idle: effects and operations, unless the transition recovers or restores.\<close>

definition check_idle :: "db \<Rightarrow> active_input_record \<Rightarrow> active_input_record \<Rightarrow> err option" where
  "check_idle d current nxt =
     (let restoring_owned_input = slot_state current = AiRecovering \<and> slot_state nxt = AiActive
            \<and> slot_input nxt = slot_input current \<and> slot_workflow nxt = slot_workflow current
            \<and> slot_source_version nxt = slot_source_version current;
          legacy_recovery_close = slot_state current = AiRecovering \<and> slot_input current = []
            \<and> slot_source_version current = [] \<and> slot_workflow current \<noteq> [] \<and> slot_state nxt = AiEmpty
      in if slot_state nxt \<noteq> AiRecovering \<and> \<not> restoring_owned_input \<and> \<not> legacy_recovery_close then
           (if \<exists>e\<in>set (effects d). blocking_effect d current nxt e then Some EffectOutcomeUnknown
            else if slot_state nxt \<noteq> AiSwitchPending \<and> any_active_operation d then Some ActiveInputBusy else None)
         else None)"

definition check_retention :: "db \<Rightarrow> input_record option \<Rightarrow> active_input_retention option \<Rightarrow> err option" where
  "check_retention d input retention =
     (case retention of
        None \<Rightarrow> None
      | Some r \<Rightarrow>
          if input = None \<or> rel_generation (ret_release r) = 0 then Some ActiveInputChanged
          else if map_of (prepared_current d) (rel_source_path (ret_release r)) \<noteq> Some (rel_generation (ret_release r))
          then Some ActiveInputChanged
          else let revision = (case map_of (corrections d) (rel_source_path (ret_release r)) of None \<Rightarrow> 0 | Some n \<Rightarrow> n)
            in if revision \<noteq> ret_correction_revision r
               then Some (CorrectionRevisionConflict (ret_correction_revision r) revision) else None)"

definition publish_input :: "active_input_record \<Rightarrow> input_record option \<Rightarrow> time \<Rightarrow> db \<Rightarrow> err + db" where
  "publish_input nxt input now d =
     (case input of
        None \<Rightarrow> Inr d
      | Some r \<Rightarrow> (case save_input_record_tx r d of
          Inl e \<Rightarrow> Inl e
        | Inr (saved, d') \<Rightarrow>
            if in_id saved \<noteq> slot_input nxt then Inl ActiveInputChanged
            else Inr (associate_input_workflow saved (slot_owner nxt) (slot_workflow nxt) now d')))"

definition publish_workflow :: "ctx \<Rightarrow> active_input_record \<Rightarrow> state_record option \<Rightarrow> db \<Rightarrow> err + db" where
  "publish_workflow c nxt workflow d =
     (case workflow of
        None \<Rightarrow> Inr d
      | Some w \<Rightarrow>
          if ws_owner w \<noteq> slot_owner nxt \<or> ws_id w \<noteq> slot_workflow nxt \<or> ws_revision w = 0 then Inl ActiveInputChanged
          else let same = (\<lambda>s. ws_owner s = ws_owner w \<and> ws_id s = ws_id w \<and> ws_revision s = ws_revision w - 1) in
            if count_where same (states d) \<noteq> 1 then Inl RevisionConflict
            else case sync_outcome c of
                Some e \<Rightarrow> Inl e
              | None \<Rightarrow> Inr (d\<lparr>states := update_where same (\<lambda>s. s\<lparr>ws_revision := ws_revision w, ws_status := ws_status w,
                  ws_payload := ws_payload w, ws_updated_at := ws_updated_at w\<rparr>) (states d)\<rparr>))"

definition transition_body ::
    "ctx \<Rightarrow> active_input_record \<Rightarrow> active_input_record \<Rightarrow> input_record option \<Rightarrow> state_record option \<Rightarrow> time
      \<Rightarrow> active_input_retention option \<Rightarrow> unit tx" where
  "transition_body c expected nxt input workflow now retention d =
     (let current = slot d;
          legacy_recovery_acquire = slot_state current = AiEmpty \<and> slot_state nxt = AiRecovering in
      if slot_revision current \<noteq> slot_revision expected \<or> slot_fence current \<noteq> slot_fence expected
         \<or> slot_coordinator current \<noteq> slot_coordinator expected then Inl ActiveInputChanged
      else if legacy_recovery_acquire \<and> any_live_work_lease now d then Inl ActiveInputBusy
      else case check_acquisition current nxt now of
          Some e \<Rightarrow> Inl e
        | None \<Rightarrow> (case (if legacy_recovery_acquire then check_legacy_acquire d nxt
                    else validate_active_input_transition current nxt (acquiring current now)) of
            Some e \<Rightarrow> Inl e
          | None \<Rightarrow> (case check_idle d current nxt of
              Some e \<Rightarrow> Inl e
            | None \<Rightarrow> (case check_retention d input retention of
                Some e \<Rightarrow> Inl e
              | None \<Rightarrow> (case publish_input nxt input now d of
                  Inl e \<Rightarrow> Inl e
                | Inr d1 \<Rightarrow> (case publish_workflow c nxt workflow d1 of
                    Inl e \<Rightarrow> Inl e
                  | Inr d2 \<Rightarrow> Inr ((), write_active_input nxt d2)))))))"

definition transition_active_input ::
    "ctx \<Rightarrow> active_input_record \<Rightarrow> active_input_record \<Rightarrow> input_record option \<Rightarrow> state_record option \<Rightarrow> time
      \<Rightarrow> active_input_retention option \<Rightarrow> db \<Rightarrow> (err + unit) \<times> db" where
  "transition_active_input c expected nxt input workflow now retention d =
     (if slot_revision expected \<ge> max_int64 \<or> slot_fence expected \<ge> max_int64
         \<or> slot_revision nxt \<noteq> slot_revision expected + 1 then (Inl ActiveInputChanged, d)
      else with_write_tx (transition_body c expected nxt input workflow now retention) d)"

definition compare_and_swap_active_input ::
    "ctx \<Rightarrow> active_input_record \<Rightarrow> active_input_record \<Rightarrow> time \<Rightarrow> db \<Rightarrow> (err + unit) \<times> db" where
  "compare_and_swap_active_input c expected nxt now = transition_active_input c expected nxt None None now None"

definition finalize_active_input ::
    "(string \<Rightarrow> string \<Rightarrow> bool) \<Rightarrow> ctx \<Rightarrow> active_input_record \<Rightarrow> active_input_record \<Rightarrow> input_record
      \<Rightarrow> state_record option \<Rightarrow> time \<Rightarrow> active_input_retention option \<Rightarrow> db \<Rightarrow> (err + unit) \<times> db" where
  "finalize_active_input same_path c expected nxt input workflow now retention d =
     (if slot_state nxt \<noteq> AiActive \<or> in_id input \<noteq> slot_input nxt \<or> in_source_version input \<noteq> slot_source_version nxt
      then (Inl ActiveInputChanged, d)
      else if in_canonical_path input = [] \<or> in_manifest input = [] \<or> in_updated_at input = 0
      then (Inl ActiveInputChanged, d)
      else if (case retention of None \<Rightarrow> False
               | Some r \<Rightarrow> \<not> same_path (rel_source_path (ret_release r)) (in_canonical_path input))
      then (Inl ActiveInputChanged, d)
      else transition_active_input c expected nxt (Some input) workflow now retention d)"

subsection \<open>Closing, renewing, relinquishing\<close>

definition close_idle_active_input :: "active_input_record \<Rightarrow> time \<Rightarrow> db \<Rightarrow> (err + unit) \<times> db" where
  "close_idle_active_input expected now d =
     (if slot_state expected \<noteq> AiActive \<or> slot_revision expected \<ge> max_int64 then (Inl ActiveInputChanged, d)
      else with_write_tx (\<lambda>d. let current = slot d in
        if slot_state current \<noteq> AiActive \<or> slot_revision current \<noteq> slot_revision expected
           \<or> slot_fence current \<noteq> slot_fence expected \<or> slot_owner current \<noteq> slot_owner expected
           \<or> slot_coordinator current \<noteq> slot_coordinator expected then Inl ActiveInputChanged
        else if any_active_operation d then Inl ActiveInputBusy
        else if any_live_work_lease now d then Inl ActiveInputBusy
        else Inr ((), write_active_input (empty_slot\<lparr>slot_revision := slot_revision current + 1,
          slot_fence := slot_fence current, slot_owner := slot_owner current,
          slot_coordinator := slot_coordinator current,
          slot_lease_expires_at := slot_lease_expires_at current\<rparr>) d)) d)"

definition renew_active_input :: "string \<Rightarrow> nat \<Rightarrow> time \<Rightarrow> time \<Rightarrow> db \<Rightarrow> (err + unit) \<times> db" where
  "renew_active_input coordinator fence now expires =
     with_write_tx (\<lambda>d. let current = slot d in
       if slot_state current = AiEmpty \<or> slot_coordinator current \<noteq> coordinator \<or> slot_fence current \<noteq> fence
          \<or> \<not> slot_lease_expires_at current > now \<or> \<not> expires > slot_lease_expires_at current
       then Inl ActiveInputLeaseLost
       else Inr ((), write_active_input (current\<lparr>slot_lease_expires_at := expires\<rparr>) d))"

definition relinquish_active_input :: "string \<Rightarrow> nat \<Rightarrow> time \<Rightarrow> db \<Rightarrow> (err + unit) \<times> db" where
  "relinquish_active_input coordinator fence now =
     with_write_tx (\<lambda>d. let current = slot d in
       if slot_state current = AiEmpty \<or> slot_coordinator current \<noteq> coordinator \<or> slot_fence current \<noteq> fence
          \<or> \<not> slot_lease_expires_at current > now
       then Inl ActiveInputLeaseLost
       else Inr ((), write_active_input (current\<lparr>slot_lease_expires_at := now\<rparr>) d))"

subsection \<open>What a committed transition did\<close>

lemma save_input_record_tx_frame:
  "save_input_record_tx r d = Inr (saved, d') \<Longrightarrow> \<exists>rs. d' = d\<lparr>inputs := rs\<rparr>"
  by (auto simp: save_input_record_tx_def split: option.splits if_splits)

lemma publish_input_frame:
  "publish_input nxt input now d = Inr d' \<Longrightarrow> \<exists>rs as. d' = d\<lparr>inputs := rs, associations := as\<rparr>"
proof -
  assume *: "publish_input nxt input now d = Inr d'"
  show ?thesis
  proof (cases input)
    case None
    then have "d' = d\<lparr>inputs := inputs d, associations := associations d\<rparr>" using * by (simp add: publish_input_def)
    then show ?thesis by blast
  next
    case (Some r)
    then obtain saved d1 where d1: "save_input_record_tx r d = Inr (saved, d1)"
      and d': "d' = associate_input_workflow saved (slot_owner nxt) (slot_workflow nxt) now d1"
      using * by (auto simp: publish_input_def split: sum.splits if_splits)
    obtain rs where "d1 = d\<lparr>inputs := rs\<rparr>" using save_input_record_tx_frame d1 by blast
    then have "\<exists>as. d' = d\<lparr>inputs := rs, associations := as\<rparr>"
      by (auto simp: d' associate_input_workflow_def Let_def)
    then show ?thesis by blast
  qed
qed

lemma publish_workflow_frame:
  assumes "publish_workflow c nxt w d = Inr d'"
  shows "\<exists>ss. d' = d\<lparr>states := ss\<rparr> \<and> map (\<lambda>s. (ws_owner s, ws_id s)) ss = map (\<lambda>s. (ws_owner s, ws_id s)) (states d)"
proof (cases w)
  case None
  then have "d' = d\<lparr>states := states d\<rparr>" using assms by (simp add: publish_workflow_def)
  then show ?thesis by blast
next
  case (Some r)
  define same where "same = (\<lambda>s::state_record. ws_owner s = ws_owner r \<and> ws_id s = ws_id r \<and> ws_revision s = ws_revision r - 1)"
  define f where "f = (\<lambda>s::state_record. s\<lparr>ws_revision := ws_revision r, ws_status := ws_status r, ws_payload := ws_payload r,
    ws_updated_at := ws_updated_at r\<rparr>)"
  have "d' = d\<lparr>states := update_where same f (states d)\<rparr>"
    using assms Some by (simp add: publish_workflow_def same_def f_def Let_def split: if_splits option.splits)
  moreover have "map (\<lambda>s. (ws_owner s, ws_id s)) (update_where same f (states d)) = map (\<lambda>s. (ws_owner s, ws_id s)) (states d)"
    by (rule map_update_where) (simp add: f_def)
  ultimately show ?thesis by blast
qed

lemma transition_committed:
  assumes "transition_active_input c expected nxt input workflow now retention d = (Inr u, d')"
  shows "slot_revision (slot d) = slot_revision expected" "slot_fence (slot d) = slot_fence expected"
    "slot_coordinator (slot d) = slot_coordinator expected" "slot_revision nxt = slot_revision expected + 1"
    "slot_revision expected < max_int64" "slot_fence expected < max_int64"
    "check_acquisition (slot d) nxt now = None"
    "(if slot_state (slot d) = AiEmpty \<and> slot_state nxt = AiRecovering
      then \<not> any_live_work_lease now d \<and> check_legacy_acquire d nxt = None
      else validate_active_input_transition (slot d) nxt (acquiring (slot d) now) = None)"
    "check_idle d (slot d) nxt = None" "check_retention d input retention = None"
    "\<exists>rs as ss. d' = d\<lparr>inputs := rs, associations := as, states := ss, slot := nxt\<rparr>
       \<and> map (\<lambda>s. (ws_owner s, ws_id s)) ss = map (\<lambda>s. (ws_owner s, ws_id s)) (states d)"
proof -
  have pre: "slot_revision expected < max_int64 \<and> slot_fence expected < max_int64 \<and> slot_revision nxt = slot_revision expected + 1"
    and body: "transition_body c expected nxt input workflow now retention d = Inr (u, d')"
    using assms by (auto simp: transition_active_input_def with_write_tx_commit split: if_splits)
  show "slot_revision nxt = slot_revision expected + 1" "slot_revision expected < max_int64"
    "slot_fence expected < max_int64"
    using pre by auto
  have cas: "slot_revision (slot d) = slot_revision expected \<and> slot_fence (slot d) = slot_fence expected
      \<and> slot_coordinator (slot d) = slot_coordinator expected"
    using body by (simp add: transition_body_def Let_def split: if_splits)
  then show "slot_revision (slot d) = slot_revision expected" "slot_fence (slot d) = slot_fence expected"
    "slot_coordinator (slot d) = slot_coordinator expected"
    by auto
  have acq: "check_acquisition (slot d) nxt now = None"
    and idle: "check_idle d (slot d) nxt = None" and ret: "check_retention d input retention = None"
    using body cas by (auto simp: transition_body_def Let_def split: if_splits option.splits)
  then show "check_acquisition (slot d) nxt now = None" "check_idle d (slot d) nxt = None"
    "check_retention d input retention = None"
    by auto
  show "(if slot_state (slot d) = AiEmpty \<and> slot_state nxt = AiRecovering
      then \<not> any_live_work_lease now d \<and> check_legacy_acquire d nxt = None
      else validate_active_input_transition (slot d) nxt (acquiring (slot d) now) = None)"
    using body cas by (auto simp: transition_body_def Let_def split: if_splits option.splits)
  obtain d1 d2 where "publish_input nxt input now d = Inr d1" "publish_workflow c nxt workflow d1 = Inr d2"
    "d' = write_active_input nxt d2"
    using body cas acq idle ret by (auto simp: transition_body_def Let_def split: if_splits option.splits sum.splits)
  moreover obtain rs as where "d1 = d\<lparr>inputs := rs, associations := as\<rparr>"
    using publish_input_frame calculation(1) by blast
  moreover obtain ss where "d2 = d1\<lparr>states := ss\<rparr>"
    "map (\<lambda>s. (ws_owner s, ws_id s)) ss = map (\<lambda>s. (ws_owner s, ws_id s)) (states d1)"
    using publish_workflow_frame calculation(2) by blast
  ultimately show "\<exists>rs as ss. d' = d\<lparr>inputs := rs, associations := as, states := ss, slot := nxt\<rparr>
       \<and> map (\<lambda>s. (ws_owner s, ws_id s)) ss = map (\<lambda>s. (ws_owner s, ws_id s)) (states d)"
    by (auto simp: write_active_input_def)
qed

lemma transition_slot:
  "transition_active_input c expected nxt input workflow now retention d = (Inr u, d') \<Longrightarrow> slot d' = nxt"
  using transition_committed(11) by fastforce

lemma close_committed:
  assumes "close_idle_active_input expected now d = (Inr u, d')"
  shows "slot_state (slot d) = AiActive" "slot_revision (slot d) = slot_revision expected"
    "slot_fence (slot d) = slot_fence expected" "\<not> any_active_operation d" "\<not> any_live_work_lease now d"
    "d' = d\<lparr>slot := empty_slot\<lparr>slot_revision := slot_revision (slot d) + 1,
          slot_fence := slot_fence (slot d), slot_owner := slot_owner (slot d),
          slot_coordinator := slot_coordinator (slot d),
          slot_lease_expires_at := slot_lease_expires_at (slot d)\<rparr>\<rparr>"
  using assms
  by (auto simp: close_idle_active_input_def with_write_tx_commit write_active_input_def Let_def split: if_splits)

lemma renew_committed:
  assumes "renew_active_input coordinator fence now expires d = (Inr u, d')"
  shows "slot_state (slot d) \<noteq> AiEmpty" "slot_coordinator (slot d) = coordinator" "slot_fence (slot d) = fence"
    "now < slot_lease_expires_at (slot d)" "slot_lease_expires_at (slot d) < expires"
    "d' = d\<lparr>slot := (slot d)\<lparr>slot_lease_expires_at := expires\<rparr>\<rparr>"
  using assms
  by (auto simp: renew_active_input_def with_write_tx_commit write_active_input_def Let_def split: if_splits)

lemma relinquish_committed:
  assumes "relinquish_active_input coordinator fence now d = (Inr u, d')"
  shows "slot_state (slot d) \<noteq> AiEmpty" "slot_coordinator (slot d) = coordinator" "slot_fence (slot d) = fence"
    "now < slot_lease_expires_at (slot d)" "d' = d\<lparr>slot := (slot d)\<lparr>slot_lease_expires_at := now\<rparr>\<rparr>"
  using assms
  by (auto simp: relinquish_active_input_def with_write_tx_commit write_active_input_def Let_def split: if_splits)

subsection \<open>Errors change nothing\<close>

lemma transition_error: "transition_active_input c expected nxt input workflow now retention d = (Inl e, d') \<Longrightarrow> d' = d"
  by (auto simp: transition_active_input_def dest: with_write_tx_error split: if_splits)

lemma close_error: "close_idle_active_input expected now d = (Inl e, d') \<Longrightarrow> d' = d"
  unfolding close_idle_active_input_def by (auto dest!: with_write_tx_error simp del: split_paired_All split: if_splits)

lemma renew_error: "renew_active_input coordinator fence now expires d = (Inl e, d') \<Longrightarrow> d' = d"
  unfolding renew_active_input_def by (drule with_write_tx_error) simp

lemma relinquish_error: "relinquish_active_input coordinator fence now d = (Inl e, d') \<Longrightarrow> d' = d"
  unfolding relinquish_active_input_def by (drule with_write_tx_error) simp

subsection \<open>The slot's shape\<close>

text \<open>What the fields mean in each state, and the fence's relation to the revision.\<close>

definition slot_ok :: "active_input_record \<Rightarrow> bool" where
  "slot_ok s \<longleftrightarrow>
     (case slot_state s of
        AiEmpty \<Rightarrow> slot_input s = [] \<and> slot_source_version s = [] \<and> slot_workflow s = []
          \<and> slot_reservation s = [] \<and> slot_requested_path s = []
      | AiOpening \<Rightarrow> slot_input s = [] \<and> slot_source_version s = [] \<and> slot_workflow s = []
          \<and> slot_reservation s \<noteq> [] \<and> slot_requested_path s \<noteq> []
      | AiActive \<Rightarrow> slot_input s \<noteq> [] \<and> slot_source_version s \<noteq> [] \<and> slot_workflow s \<noteq> []
          \<and> slot_reservation s = [] \<and> slot_requested_path s = []
      | AiSwitchPending \<Rightarrow> slot_input s \<noteq> [] \<and> slot_source_version s \<noteq> [] \<and> slot_workflow s \<noteq> []
          \<and> slot_reservation s \<noteq> [] \<and> slot_requested_path s \<noteq> []
      | AiRecovering \<Rightarrow> (slot_input s = [] \<longleftrightarrow> slot_source_version s = [])
          \<and> (slot_input s \<noteq> [] \<longrightarrow> slot_workflow s \<noteq> []) \<and> (slot_reservation s = [] \<longleftrightarrow> slot_requested_path s = [])
      | AiOther _ \<Rightarrow> False)
     \<and> slot_fence s \<le> slot_revision s
     \<and> (slot_state s \<noteq> AiEmpty \<longrightarrow> 0 < slot_fence s \<and> slot_coordinator s \<noteq> [] \<and> slot_owner s \<noteq> [])"

lemma slot_ok_empty [simp]: "slot_ok empty_slot"
  by (simp add: slot_ok_def empty_slot_def)

lemma slot_ok_lease [simp]: "slot_ok (s\<lparr>slot_lease_expires_at := t\<rparr>) = slot_ok s"
  by (cases "slot_state s") (simp_all add: slot_ok_def)

lemma acquisition_cases:
  assumes "check_acquisition current nxt now = None"
  obtains (acquire) "acquiring current now" "slot_fence nxt = slot_fence current + 1" "slot_coordinator nxt \<noteq> []"
      "slot_owner nxt \<noteq> []" "now < slot_lease_expires_at nxt"
      "slot_state current \<noteq> AiEmpty \<longrightarrow> slot_state nxt = AiRecovering"
      "slot_state current = AiEmpty \<longrightarrow> slot_state nxt = AiOpening \<or> slot_state nxt = AiRecovering"
  | (hold) "\<not> acquiring current now" "slot_fence nxt = slot_fence current"
      "slot_coordinator nxt = slot_coordinator current" "slot_owner nxt = slot_owner current"
      "slot_state current \<noteq> AiEmpty" "now < slot_lease_expires_at current"
  using assms by (auto simp: check_acquisition_def acquiring_def split: if_splits)

lemma validate_transition_shape:
  assumes "validate_active_input_transition current nxt acq = None"
  shows "slot_state nxt = AiRecovering \<and> acq \<and> slot_input nxt = slot_input current \<and> slot_workflow nxt = slot_workflow current
       \<and> slot_source_version nxt = slot_source_version current \<and> slot_reservation nxt = slot_reservation current
       \<and> slot_requested_path nxt = slot_requested_path current
   \<or> slot_state nxt = AiOpening \<and> slot_state current = AiEmpty \<and> slot_reservation nxt \<noteq> [] \<and> slot_requested_path nxt \<noteq> []
       \<and> slot_input nxt = slot_input current \<and> slot_workflow nxt = slot_workflow current
       \<and> slot_source_version nxt = slot_source_version current
   \<or> slot_state nxt = AiSwitchPending \<and> slot_state current = AiActive \<and> slot_reservation nxt \<noteq> [] \<and> slot_requested_path nxt \<noteq> []
       \<and> slot_input nxt = slot_input current \<and> slot_workflow nxt = slot_workflow current
       \<and> slot_source_version nxt = slot_source_version current
   \<or> slot_state nxt = AiActive \<and> slot_input nxt \<noteq> [] \<and> slot_source_version nxt \<noteq> [] \<and> slot_workflow nxt \<noteq> []
       \<and> slot_reservation nxt = [] \<and> slot_requested_path nxt = []
   \<or> slot_state nxt = AiEmpty \<and> slot_input nxt = [] \<and> slot_source_version nxt = [] \<and> slot_workflow nxt = []
       \<and> slot_reservation nxt = [] \<and> slot_requested_path nxt = []"
  using assms
  by (cases "slot_state nxt") (auto simp: validate_active_input_transition_def split: if_splits)

lemma legacy_acquire_shape:
  assumes "check_legacy_acquire d nxt = None"
  shows "slot_input nxt = [] \<and> slot_source_version nxt = [] \<and> slot_workflow nxt \<noteq> [] \<and> slot_reservation nxt = []
    \<and> slot_requested_path nxt = []"
    and "\<exists>e\<in>set (effects d). eff_owner e = slot_owner nxt \<and> eff_workflow e = slot_workflow nxt \<and> effect_unresolved e"
  using assms by (auto simp: check_legacy_acquire_def split: if_splits sum.splits)

lemma transition_slot_ok:
  assumes "transition_active_input c expected nxt input workflow now retention d = (Inr u, d')" and "slot_ok (slot d)"
  shows "slot_ok nxt"
proof -
  note t = transition_committed [OF assms(1)]
  have rev: "slot_revision nxt = slot_revision (slot d) + 1" using t(1,4) by simp
  show ?thesis
  proof (cases "slot_state (slot d) = AiEmpty \<and> slot_state nxt = AiRecovering")
    case True
    then have "check_legacy_acquire d nxt = None" using t(8) by simp
    note shape = legacy_acquire_shape(1) [OF this]
    show ?thesis
      using t(7)
    proof (cases rule: acquisition_cases)
      case acquire
      then show ?thesis using shape rev True assms(2) by (simp add: slot_ok_def)
    next
      case hold
      then show ?thesis using True by simp
    qed
  next
    case False
    then have "validate_active_input_transition (slot d) nxt (acquiring (slot d) now) = None" using t(8) by simp
    note shape = validate_transition_shape [OF this]
    show ?thesis
      using t(7)
    proof (cases rule: acquisition_cases)
      case acquire
      then show ?thesis
        using shape rev False assms(2) by (cases "slot_state (slot d)") (auto simp: slot_ok_def)
    next
      case hold
      then show ?thesis
        using shape rev assms(2) by (cases "slot_state (slot d)") (auto simp: slot_ok_def)
    qed
  qed
qed

subsection \<open>Properties\<close>

text \<open>A committed transition is a compare-and-swap: the stored revision, fence and coordinator were the
  expected ones, the stored slot becomes exactly the requested one, the revision advances by one,
  and the fence by one when the coordinator acquires the slot and not at all otherwise.\<close>

lemma transition_is_compare_and_swap:
  assumes "transition_active_input c expected nxt input workflow now retention d = (Inr u, d')"
  shows "slot_revision (slot d) = slot_revision expected \<and> slot_fence (slot d) = slot_fence expected
    \<and> slot_coordinator (slot d) = slot_coordinator expected \<and> slot d' = nxt
    \<and> slot_revision (slot d') = slot_revision (slot d) + 1
    \<and> slot_fence (slot d') = slot_fence (slot d) + (if acquiring (slot d) now then 1 else 0)"
  using transition_committed [OF assms] transition_slot [OF assms] by (auto elim: acquisition_cases)

definition opening_slot :: active_input_record where
  "opening_slot = empty_slot\<lparr>slot_state := AiOpening, slot_revision := 1, slot_fence := 1, slot_owner := ''owner'',
     slot_coordinator := ''c1'', slot_lease_expires_at := 100, slot_reservation := ''r1'',
     slot_requested_path := ''/in'', slot_idempotency_key := ''k1''\<rparr>"

definition active_slot :: active_input_record where
  "active_slot = empty_slot\<lparr>slot_state := AiActive, slot_revision := 2, slot_fence := 1, slot_owner := ''owner'',
     slot_coordinator := ''c1'', slot_lease_expires_at := 100, slot_input := ''i1'', slot_source_version := ''v1'',
     slot_workflow := ''w1''\<rparr>"

definition recovering_slot :: active_input_record where
  "recovering_slot = active_slot\<lparr>slot_state := AiRecovering, slot_revision := 3, slot_fence := 2,
     slot_coordinator := ''c2'', slot_lease_expires_at := 300\<rparr>"

definition quiet_ctx :: ctx where
  "quiet_ctx = \<lparr>input_authority = Some (''c1'', 1), config_authority = None, wall_now = 10, sync_outcome = None\<rparr>"

lemmas slot_runs = compare_and_swap_active_input_def transition_active_input_def with_write_tx_def transition_body_def
  check_acquisition_def acquiring_def validate_active_input_transition_def check_idle_def check_retention_def
  publish_input_def publish_workflow_def write_active_input_def any_active_operation_def max_int64_def
  opening_slot_def active_slot_def recovering_slot_def empty_db_def empty_slot_def

lemma transition_witness_runs:
  "compare_and_swap_active_input quiet_ctx empty_slot opening_slot 10 empty_db = (Inr (), empty_db\<lparr>slot := opening_slot\<rparr>)"
  "compare_and_swap_active_input quiet_ctx active_slot recovering_slot 200 (empty_db\<lparr>slot := active_slot\<rparr>)
    = (Inr (), empty_db\<lparr>slot := recovering_slot\<rparr>)"
  "compare_and_swap_active_input quiet_ctx opening_slot active_slot 20 (empty_db\<lparr>slot := opening_slot\<rparr>)
    = (Inr (), empty_db\<lparr>slot := active_slot\<rparr>)"
  by (simp_all add: slot_runs)

lemma transition_is_compare_and_swap_witness:
  "slot_fence (slot (empty_db\<lparr>slot := opening_slot\<rparr>)) = slot_fence (slot empty_db) + (if acquiring (slot empty_db) 10 then 1 else 0)"
  using transition_is_compare_and_swap [OF transition_witness_runs(1) [unfolded compare_and_swap_active_input_def]] by blast

text \<open>C9: A live lease is exclusive: while the slot is held and its lease has not expired, no committed
  transition changes its coordinator, its owner or its fence.\<close>

lemma live_lease_is_exclusive:
  assumes "transition_active_input c expected nxt input workflow now retention d = (Inr u, d')"
    and "slot_state (slot d) \<noteq> AiEmpty" and "now < slot_lease_expires_at (slot d)"
  shows "slot_coordinator (slot d') = slot_coordinator (slot d) \<and> slot_owner (slot d') = slot_owner (slot d)
    \<and> slot_fence (slot d') = slot_fence (slot d)"
  using transition_committed [OF assms(1)] transition_slot [OF assms(1)] assms(2,3)
  by (auto elim!: acquisition_cases simp: acquiring_def)

lemma live_lease_is_exclusive_witness:
  "slot_coordinator (slot (empty_db\<lparr>slot := active_slot\<rparr>)) = slot_coordinator (slot (empty_db\<lparr>slot := opening_slot\<rparr>))"
proof -
  have "slot_state (slot (empty_db\<lparr>slot := opening_slot\<rparr>)) \<noteq> AiEmpty"
    and "20 < slot_lease_expires_at (slot (empty_db\<lparr>slot := opening_slot\<rparr>))"
    by (simp_all add: opening_slot_def)
  from live_lease_is_exclusive [OF transition_witness_runs(3) [unfolded compare_and_swap_active_input_def] this]
  show ?thesis by blast
qed

text \<open>Once the lease of a held slot has expired, the only transition that commits is a takeover: it
  enters \<open>recovering\<close>, keeps the input, source version and workflow, takes the next fence, and
  has a lease that is live.\<close>

lemma expired_lease_only_recovers:
  assumes "transition_active_input c expected nxt input workflow now retention d = (Inr u, d')"
    and "slot_state (slot d) \<noteq> AiEmpty" and "\<not> now < slot_lease_expires_at (slot d)"
  shows "slot_state (slot d') = AiRecovering \<and> slot_fence (slot d') = slot_fence (slot d) + 1
    \<and> slot_input (slot d') = slot_input (slot d) \<and> slot_workflow (slot d') = slot_workflow (slot d)
    \<and> slot_source_version (slot d') = slot_source_version (slot d) \<and> now < slot_lease_expires_at (slot d')"
proof -
  note t = transition_committed [OF assms(1)]
  have "slot_fence nxt = slot_fence (slot d) + 1 \<and> slot_state nxt = AiRecovering \<and> now < slot_lease_expires_at nxt"
    using t(7) assms(2,3) by (auto elim!: acquisition_cases simp: acquiring_def)
  moreover have "validate_active_input_transition (slot d) nxt (acquiring (slot d) now) = None"
    using t(8) assms(2) by simp
  ultimately show ?thesis
    using transition_slot [OF assms(1)] by (auto dest!: validate_transition_shape)
qed

lemma expired_lease_only_recovers_witness:
  "slot_state (slot (empty_db\<lparr>slot := recovering_slot\<rparr>)) = AiRecovering"
proof -
  have "slot_state (slot (empty_db\<lparr>slot := active_slot\<rparr>)) \<noteq> AiEmpty"
    and "\<not> 200 < slot_lease_expires_at (slot (empty_db\<lparr>slot := active_slot\<rparr>))"
    by (simp_all add: active_slot_def)
  from expired_lease_only_recovers [OF transition_witness_runs(2) [unfolded compare_and_swap_active_input_def] this]
  show ?thesis by blast
qed

definition slot_edge :: "ai_state \<Rightarrow> ai_state \<Rightarrow> bool \<Rightarrow> bool" where
  "slot_edge a b acq \<longleftrightarrow>
     (case b of
        AiOpening \<Rightarrow> a = AiEmpty \<and> acq
      | AiRecovering \<Rightarrow> acq
      | AiSwitchPending \<Rightarrow> a = AiActive \<and> \<not> acq
      | AiActive \<Rightarrow> a \<noteq> AiEmpty \<and> \<not> acq
      | AiEmpty \<Rightarrow> a \<noteq> AiEmpty \<and> \<not> acq
      | AiOther _ \<Rightarrow> False)"

text \<open>A transition changes the state only along the edges of the slot's state machine: from empty to
  opening or recovering, from active to switch-pending, from any held state to active or empty,
  and to recovering exactly when the coordinator acquires a slot.\<close>

lemma transition_follows_edges:
  assumes "transition_active_input c expected nxt input workflow now retention d = (Inr u, d')"
  shows "slot_edge (slot_state (slot d)) (slot_state (slot d')) (acquiring (slot d) now)"
proof -
  note t = transition_committed [OF assms]
  have shape: "slot_state (slot d) = AiEmpty \<and> slot_state nxt = AiRecovering
      \<or> validate_active_input_transition (slot d) nxt (acquiring (slot d) now) = None"
    using t(8) by (auto split: if_splits)
  have "slot_edge (slot_state (slot d)) (slot_state nxt) (acquiring (slot d) now)"
    using t(7)
  proof (cases rule: acquisition_cases)
    case acquire
    then show ?thesis by (auto simp: slot_edge_def)
  next
    case hold
    then show ?thesis using shape by (auto simp: slot_edge_def dest!: validate_transition_shape)
  qed
  then show ?thesis by (simp add: transition_slot [OF assms])
qed

lemma transition_follows_edges_witness:
  "slot_edge AiEmpty (slot_state (slot (empty_db\<lparr>slot := opening_slot\<rparr>))) (acquiring (slot empty_db) 10)"
  using transition_follows_edges [OF transition_witness_runs(1) [unfolded compare_and_swap_active_input_def]]
  by (simp add: empty_db_def empty_slot_def)

text \<open>Renewal needs the exact coordinator and fence and a lease that has not expired, changes nothing but
  the expiry and only extends it; so a relinquished slot cannot be renewed at any later time.\<close>

lemma renewal_never_resurrects:
  assumes "renew_active_input coordinator fence now expires d = (Inr u, d')"
  shows "slot_coordinator (slot d) = coordinator \<and> slot_fence (slot d) = fence \<and> now < slot_lease_expires_at (slot d)
    \<and> slot_lease_expires_at (slot d) < expires \<and> d' = d\<lparr>slot := (slot d)\<lparr>slot_lease_expires_at := expires\<rparr>\<rparr>
    \<and> (\<forall>t e. fst (renew_active_input coordinator fence t e
         (snd (relinquish_active_input coordinator fence now d'))) = Inr () \<longrightarrow> t < now)"
proof -
  note r = renew_committed [OF assms]
  have "snd (relinquish_active_input coordinator fence now d') = d'\<lparr>slot := (slot d')\<lparr>slot_lease_expires_at := now\<rparr>\<rparr>"
    using r by (auto simp: relinquish_active_input_def with_write_tx_def write_active_input_def Let_def)
  moreover have "fst (renew_active_input coordinator fence t e (d'\<lparr>slot := (slot d')\<lparr>slot_lease_expires_at := now\<rparr>\<rparr>)) = Inr ()
      \<longrightarrow> t < now" for t e
    by (auto simp: renew_active_input_def with_write_tx_def Let_def)
  ultimately show ?thesis using r by auto
qed

lemma renewal_never_resurrects_witness:
  "10 < slot_lease_expires_at (slot (empty_db\<lparr>slot := active_slot\<rparr>))"
proof -
  have "renew_active_input ''c1'' 1 10 200 (empty_db\<lparr>slot := active_slot\<rparr>)
      = (Inr (), empty_db\<lparr>slot := active_slot\<lparr>slot_lease_expires_at := 200\<rparr>\<rparr>)"
    by (simp add: renew_active_input_def with_write_tx_def write_active_input_def active_slot_def empty_slot_def empty_db_def)
  from renewal_never_resurrects [OF this] show ?thesis by blast
qed

text \<open>Every operation on the slot keeps it well formed: the input, workflow and reservation fields a state
  needs are present and the others blank, the fence never exceeds the revision, and a held slot
  has a coordinator, an owner and a positive fence.\<close>

lemma slot_operations_keep_shape:
  assumes "slot_ok (slot d)"
  shows "slot_ok (slot (snd (transition_active_input c expected nxt input workflow now retention d)))
    \<and> slot_ok (slot (snd (close_idle_active_input expected now d)))
    \<and> slot_ok (slot (snd (renew_active_input coordinator fence now expires d)))
    \<and> slot_ok (slot (snd (relinquish_active_input coordinator fence now d)))"
proof (intro conjI)
  show "slot_ok (slot (snd (transition_active_input c expected nxt input workflow now retention d)))"
  proof (cases "transition_active_input c expected nxt input workflow now retention d")
    case (Pair a d')
    then show ?thesis
      using assms transition_error transition_slot_ok transition_slot by (cases a) fastforce+
  qed
  show "slot_ok (slot (snd (close_idle_active_input expected now d)))"
  proof (cases "close_idle_active_input expected now d")
    case (Pair a d')
    then show ?thesis
      using assms close_error [of expected now d] close_committed [of expected now d]
      by (cases a) (auto simp: slot_ok_def empty_slot_def)
  qed
  show "slot_ok (slot (snd (renew_active_input coordinator fence now expires d)))"
  proof (cases "renew_active_input coordinator fence now expires d")
    case (Pair a d')
    then show ?thesis
      using assms renew_error [of coordinator fence now expires d] renew_committed [of coordinator fence now expires d]
      by (cases a) auto
  qed
  show "slot_ok (slot (snd (relinquish_active_input coordinator fence now d)))"
  proof (cases "relinquish_active_input coordinator fence now d")
    case (Pair a d')
    then show ?thesis
      using assms relinquish_error [of coordinator fence now d] relinquish_committed [of coordinator fence now d]
      by (cases a) auto
  qed
qed

lemma slot_operations_keep_shape_witness:
  "slot_ok (slot (snd (transition_active_input quiet_ctx empty_slot opening_slot None None 10 None empty_db)))"
  using slot_operations_keep_shape [of empty_db quiet_ctx empty_slot opening_slot None None 10 None]
  by (simp add: empty_db_def)

end
