(* ===== verification/ContentIdentity.thy ===== *)
theory ContentIdentity
  imports Schema
begin

text \<open>
  The content identity a tracker submission is fenced by: \<open>pkg/api/source_identity.go\<close> (canonical
  inventories of sampled files) and the validation of \<open>pkg/api/submission_fence.go\<close>. The digest,
  SHA-256 over the version and the JSON of scope and canonical files, is a parameter \<open>digest\<close>
  of the scope and the files.
\<close>

subsection \<open>Slash paths\<close>

fun split_slash :: "string \<Rightarrow> string list" where
  "split_slash [] = [[]]"
| "split_slash (c # s) =
     (if c = CHR ''/'' then [] # split_slash s
      else (case split_slash s of [] \<Rightarrow> [[c]] | e # es \<Rightarrow> (c # e) # es))"

fun join_slash :: "string list \<Rightarrow> string" where
  "join_slash [] = []"
| "join_slash [e] = e"
| "join_slash (e # es) = e @ CHR ''/'' # join_slash es"

text \<open>
  \<open>path.Clean\<close>, element by element: empty and \<open>.\<close> elements go, \<open>..\<close> removes the element before it
  unless that is a \<open>..\<close> itself, and is dropped at the root of a rooted path.
\<close>

fun clean_elements :: "bool \<Rightarrow> string list \<Rightarrow> string list \<Rightarrow> string list" where
  "clean_elements rooted done [] = rev done"
| "clean_elements rooted done (e # es) =
     (if e = [] \<or> e = ''.'' then clean_elements rooted done es
      else if e = ''..'' then
        (case done of
            [] \<Rightarrow> clean_elements rooted (if rooted then [] else [e]) es
          | p # ps \<Rightarrow> clean_elements rooted (if p = ''..'' then e # done else ps) es)
      else clean_elements rooted (e # done) es)"

definition clean_path :: "string \<Rightarrow> string" where
  "clean_path p =
     (let rooted = (case p of [] \<Rightarrow> False | c # _ \<Rightarrow> c = CHR ''/'');
          cleaned = (if rooted then ''/'' else []) @ join_slash (clean_elements rooted [] (split_slash p))
      in if cleaned = [] then ''.'' else cleaned)"

definition has_prefix :: "string \<Rightarrow> string \<Rightarrow> bool" where
  "has_prefix s p \<longleftrightarrow> take (length p) s = p"

definition has_volume_prefix :: "string \<Rightarrow> bool" where
  "has_volume_prefix value \<longleftrightarrow>
     (case value of
        a # c # _ \<Rightarrow> (65 \<le> byte a \<and> byte a \<le> 90 \<or> 97 \<le> byte a \<and> byte a \<le> 122) \<and> c = CHR '':''
      | _ \<Rightarrow> False)"

definition slashes :: "string \<Rightarrow> string" where
  "slashes = map (\<lambda>c. if byte c = 92 then CHR ''/'' else c)"

definition canonical_identity_relative_path :: "string \<Rightarrow> err + string" where
  "canonical_identity_relative_path value0 =
     (let value1 = trim_space value0 in
      if value1 = [] then Inl (Invalid ''relative path is required'')
      else let value2 = slashes value1 in
        if has_prefix value2 ''/'' \<or> has_volume_prefix value2
        then Inl (Invalid ''relative path escapes its source root'')
        else let value3 = clean_path value2 in
          if value3 = ''.'' \<or> value3 = ''..'' \<or> has_prefix value3 ''../''
          then Inl (Invalid ''relative path escapes its source root'')
          else Inr value3)"

subsection \<open>Canonical inventories\<close>

definition hex_digit :: "char \<Rightarrow> bool" where
  "hex_digit c \<longleftrightarrow> 48 \<le> byte c \<and> byte c \<le> 57 \<or> 65 \<le> byte c \<and> byte c \<le> 70 \<or> 97 \<le> byte c \<and> byte c \<le> 102"

definition valid_sha256 :: "string \<Rightarrow> bool" where
  "valid_sha256 value \<longleftrightarrow> length value = 64 \<and> (\<forall>c\<in>set value. hex_digit c)"

definition single_file :: string where "single_file = ''single_file''"
definition file_set :: string where "file_set = ''file_set''"
definition full_disc :: string where "full_disc = ''full_disc''"

definition identity_version :: string where
  "identity_version = ''submission-content-sample-v2''"

fun canonical_files :: "string \<Rightarrow> content_file list \<Rightarrow> err + content_file list" where
  "canonical_files scope [] = Inr []"
| "canonical_files scope (f # fs) =
     (if cf_size f < 0 then Inl (Invalid ''negative size'')
      else if \<not> valid_sha256 (cf_sha256 f) then Inl (Invalid ''invalid SHA-256'')
      else case (if scope = single_file then Inr [] else canonical_identity_relative_path (cf_relative_path f)) of
          Inl e \<Rightarrow> Inl e
        | Inr p \<Rightarrow> (case canonical_files scope fs of
            Inl e \<Rightarrow> Inl e
          | Inr gs \<Rightarrow> Inr (f\<lparr>cf_sha256 := to_lower (cf_sha256 f), cf_relative_path := p\<rparr> # gs)))"

definition by_path :: "content_file \<Rightarrow> content_file \<Rightarrow> bool" where
  "by_path a b \<longleftrightarrow> text_less (cf_relative_path a) (cf_relative_path b)"

fun adjacent_duplicate :: "content_file list \<Rightarrow> bool" where
  "adjacent_duplicate (a # b # fs) = (cf_relative_path a = cf_relative_path b \<or> adjacent_duplicate (b # fs))"
| "adjacent_duplicate _ = False"

definition canonical_submission_content_files :: "string \<Rightarrow> content_file list \<Rightarrow> err + content_file list" where
  "canonical_submission_content_files scope files =
     (if files = [] then Inl (Invalid ''at least one sampled file is required'')
      else if scope \<noteq> single_file \<and> scope \<noteq> file_set \<and> scope \<noteq> full_disc
      then Inl (Invalid ''unsupported scope'')
      else if scope = single_file \<and> length files \<noteq> 1 then Inl (Invalid ''single_file requires exactly one file'')
      else case canonical_files scope files of
          Inl e \<Rightarrow> Inl e
        | Inr canonical \<Rightarrow>
            if scope = single_file then Inr canonical
            else let sorted = order_by by_path canonical in
              if adjacent_duplicate sorted then Inl (Invalid ''duplicate canonical path'') else Inr sorted)"

type_synonym digest = "string \<Rightarrow> content_file list \<Rightarrow> string"

definition new_submission_content_identity ::
    "digest \<Rightarrow> string \<Rightarrow> content_file list \<Rightarrow> err + content_identity" where
  "new_submission_content_identity digest scope files =
     (case canonical_submission_content_files scope files of
        Inl e \<Rightarrow> Inl e
      | Inr canonical \<Rightarrow> Inr \<lparr>ci_version = identity_version, ci_digest = digest scope canonical,
          ci_scope = scope, ci_files = canonical\<rparr>)"

subsection \<open>Fence authority\<close>

definition canonical_identity :: "digest \<Rightarrow> content_identity \<Rightarrow> err option" where
  "canonical_identity digest identity =
     (case new_submission_content_identity digest (ci_scope identity) (ci_files identity) of
        Inl e \<Rightarrow> Some e
      | Inr canonical \<Rightarrow>
          if ci_version identity \<noteq> ci_version canonical \<or> ci_digest identity \<noteq> ci_digest canonical
          then Some (Invalid ''submission fence content identity is not canonical'') else None)"

definition validate_submission :: "digest \<Rightarrow> fence_authority \<Rightarrow> err option" where
  "validate_submission digest a =
     (if blank (fa_site a) then Some (Invalid ''submission fence authority is incomplete'')
      else if \<exists>c\<in>set (fa_site a). byte c = 13 \<or> byte c = 10 \<or> byte c = 0
      then Some (Invalid ''submission fence tracker site is invalid'')
      else canonical_identity digest (fa_content a))"

definition validate_authority :: "digest \<Rightarrow> fence_authority \<Rightarrow> err option" where
  "validate_authority digest a =
     (case validate_submission digest a of
        Some e \<Rightarrow> Some e
      | None \<Rightarrow> if blank (fa_coordinator a) \<or> fa_fence a = 0
          then Some (Invalid ''submission fence authority is incomplete'') else None)"

definition validate_submission_fence_lookup :: "digest \<Rightarrow> content_identity \<Rightarrow> string \<Rightarrow> err option" where
  "validate_submission_fence_lookup digest identity site =
     (if blank site then Some (Invalid ''submission fence tracker site is required'')
      else canonical_identity digest identity)"

subsection \<open>Paths stay inside the source root\<close>

definition plain_element :: "string \<Rightarrow> bool" where
  "plain_element e \<longleftrightarrow> e \<noteq> [] \<and> e \<noteq> ''.'' \<and> e \<noteq> ''..'' \<and> CHR ''/'' \<notin> set e"

lemma split_slash_nonempty [simp]: "split_slash s \<noteq> []"
  by (induction s) (auto split: list.splits)

lemma split_slash_free: "e \<in> set (split_slash s) \<Longrightarrow> CHR ''/'' \<notin> set e"
  by (induction s arbitrary: e) (auto split: if_splits list.splits)

lemma split_slash_element: "CHR ''/'' \<notin> set e \<Longrightarrow> split_slash e = [e]"
  by (induction e) auto

lemma split_slash_append: "CHR ''/'' \<notin> set e \<Longrightarrow> split_slash (e @ CHR ''/'' # s) = e # split_slash s"
  by (induction e) auto

lemma split_join: "es \<noteq> [] \<Longrightarrow> (\<And>e. e \<in> set es \<Longrightarrow> CHR ''/'' \<notin> set e) \<Longrightarrow> split_slash (join_slash es) = es"
  by (induction es rule: join_slash.induct) (auto simp: split_slash_element split_slash_append)

lemma clean_elements_shape:
  assumes "\<And>e. e \<in> set es \<Longrightarrow> CHR ''/'' \<notin> set e"
    and "done = xs @ replicate n ''..''" and "\<And>e. e \<in> set xs \<Longrightarrow> plain_element e"
  shows "\<exists>m ys. clean_elements False done es = replicate m ''..'' @ ys \<and> (\<forall>e\<in>set ys. plain_element e)"
  using assms
proof (induction es arbitrary: "done" xs n)
  case Nil
  then have "clean_elements False done [] = replicate n ''..'' @ rev xs" by simp
  then show ?case using Nil.prems(3) by (metis set_rev)
next
  case (Cons e es)
  note IH = Cons.IH [OF Cons.prems(1)]
  consider (skip) "e = [] \<or> e = ''.''" | (up) "e = ''..''" | (plain) "plain_element e"
    using Cons.prems(1) by (auto simp: plain_element_def)
  then show ?case
  proof cases
    case skip
    then show ?thesis using IH [OF _ Cons.prems(2,3)] by auto
  next
    case up
    show ?thesis
    proof (cases xs)
      case Nil
      then have "clean_elements False done (e # es) = clean_elements False ([] @ replicate (Suc n) ''..'') es"
        using up Cons.prems(2) by (cases n) auto
      moreover have "\<exists>m ys. clean_elements False ([] @ replicate (Suc n) ''..'') es = replicate m ''..'' @ ys
          \<and> (\<forall>e\<in>set ys. plain_element e)"
        by (rule IH [OF _ refl]) auto
      ultimately show ?thesis by simp
    next
      case (Cons x xs')
      then have "clean_elements False done (e # es) = clean_elements False (xs' @ replicate n ''..'') es"
        using up \<open>done = xs @ replicate n ''..''\<close> Cons.prems(3) by (auto simp: plain_element_def)
      moreover have "\<exists>m ys. clean_elements False (xs' @ replicate n ''..'') es = replicate m ''..'' @ ys
          \<and> (\<forall>e\<in>set ys. plain_element e)"
        by (rule IH [OF _ refl]) (use Cons Cons.prems(3) in auto)
      ultimately show ?thesis by simp
    qed
  next
    case plain
    then have "clean_elements False done (e # es) = clean_elements False ((e # xs) @ replicate n ''..'') es"
      using Cons.prems(2) by (auto simp: plain_element_def)
    moreover have "\<exists>m ys. clean_elements False ((e # xs) @ replicate n ''..'') es = replicate m ''..'' @ ys
        \<and> (\<forall>e\<in>set ys. plain_element e)"
      by (rule IH [OF _ refl]) (use plain Cons.prems(3) in auto)
    ultimately show ?thesis by simp
  qed
qed

lemma not_rooted: "\<not> has_prefix s ''/'' \<longleftrightarrow> (case s of [] \<Rightarrow> True | c # _ \<Rightarrow> c \<noteq> CHR ''/'')"
  by (cases s) (auto simp: has_prefix_def)

lemma join_plain: "es \<noteq> [] \<Longrightarrow> (\<And>e. e \<in> set es \<Longrightarrow> e \<noteq> []) \<Longrightarrow> join_slash es \<noteq> []"
  by (induction es rule: join_slash.induct) auto

lemma join_up_prefix: "m \<noteq> 0 \<Longrightarrow> join_slash (replicate m ''..'' @ ys) = ''..'' \<or> has_prefix (join_slash (replicate m ''..'' @ ys)) ''../''"
  by (cases m; cases "replicate (m - 1) ''..'' @ ys") (auto simp: has_prefix_def)

lemma clean_path_relative:
  assumes "\<not> has_prefix v ''/''" and "clean_path v \<noteq> ''.''"
  shows "clean_path v = join_slash (clean_elements False [] (split_slash v))" and "clean_path v \<noteq> []"
proof -
  have "(case v of [] \<Rightarrow> False | c # _ \<Rightarrow> c = CHR ''/'') = False"
    using assms(1) by (cases v) (simp_all add: not_rooted)
  then have "clean_path v = (if join_slash (clean_elements False [] (split_slash v)) = [] then ''.''
      else join_slash (clean_elements False [] (split_slash v)))"
    by (simp add: clean_path_def Let_def)
  then show "clean_path v = join_slash (clean_elements False [] (split_slash v))" and "clean_path v \<noteq> []"
    using assms(2) by presburger+
qed

lemma canonical_path_elements:
  assumes "canonical_identity_relative_path value = Inr p"
  shows "\<exists>es. es \<noteq> [] \<and> (\<forall>e\<in>set es. plain_element e) \<and> p = join_slash es \<and> split_slash p = es"
proof -
  define v where "v = slashes (trim_space value)"
  have v: "\<not> has_prefix v ''/''" "p = clean_path v" "p \<noteq> ''.''" "p \<noteq> ''..''" "\<not> has_prefix p ''../''"
    using assms by (auto simp: canonical_identity_relative_path_def Let_def v_def split: if_splits)
  obtain m ys where ys: "clean_elements False [] (split_slash v) = replicate m ''..'' @ ys" "\<forall>e\<in>set ys. plain_element e"
    using clean_elements_shape [of "split_slash v" "[]" "[]" 0] split_slash_free by auto
  have p: "p = join_slash (replicate m ''..'' @ ys)" "p \<noteq> []"
    using clean_path_relative [of v] v(1,2,3) ys(1) by simp_all
  then have "m = 0" using join_up_prefix v(4,5) by metis
  then have "ys \<noteq> []" "p = join_slash ys" using p by auto
  moreover have "split_slash (join_slash ys) = ys"
    using ys(2) \<open>ys \<noteq> []\<close> by (intro split_join) (auto simp: plain_element_def)
  ultimately show ?thesis using ys(2) by auto
qed

subsection \<open>Canonicalisation again\<close>

definition stable_path :: "string \<Rightarrow> bool" where
  "stable_path p \<longleftrightarrow> trim_space p = p \<and> \<not> has_volume_prefix p"

lemma clean_elements_plain:
  "(\<And>e. e \<in> set es \<Longrightarrow> plain_element e) \<Longrightarrow> clean_elements r xs es = rev xs @ es"
  by (induction es arbitrary: xs) (auto simp: plain_element_def)

lemma clean_elements_subset: "set (clean_elements r xs es) \<subseteq> set xs \<union> set es"
proof (induction r xs es rule: clean_elements.induct)
  case (2 r xs e es)
  then show ?case by (auto split: list.splits if_splits)
qed simp

lemma join_slash_chars: "c \<in> set (join_slash es) \<Longrightarrow> c = CHR ''/'' \<or> (\<exists>e\<in>set es. c \<in> set e)"
  by (induction es rule: join_slash.induct) auto

lemma split_slash_chars: "e \<in> set (split_slash s) \<Longrightarrow> c \<in> set e \<Longrightarrow> c \<in> set s"
proof (induction s arbitrary: e)
  case (Cons a s)
  then show ?case
    by (cases "split_slash s") (fastforce split: if_splits)+
qed simp

lemma slashes_id: "(\<And>c. c \<in> set s \<Longrightarrow> byte c \<noteq> 92) \<Longrightarrow> slashes s = s"
  unfolding slashes_def by (rule map_idI) simp

lemma byte_slash [simp]: "byte (CHR ''/'') = 47"
  by (simp add: byte_def)

lemma slashes_no_backslash: "c \<in> set (slashes s) \<Longrightarrow> byte c \<noteq> 92"
  by (auto simp: slashes_def)

lemma plain_not_rooted: "plain_element e \<Longrightarrow> \<not> has_prefix (join_slash (e # es)) ''/''"
  by (cases es; cases e) (auto simp: plain_element_def has_prefix_def)

lemma canonical_path_no_backslash:
  assumes "canonical_identity_relative_path value = Inr p" and "c \<in> set p"
  shows "byte c \<noteq> 92"
proof -
  define v where "v = slashes (trim_space value)"
  have "\<not> has_prefix v ''/''" "p = clean_path v" "p \<noteq> ''.''"
    using assms(1) by (auto simp: canonical_identity_relative_path_def Let_def v_def split: if_splits)
  then have "p = join_slash (clean_elements False [] (split_slash v))"
    using clean_path_relative(1) [of v] by simp
  then have "c = CHR ''/'' \<or> c \<in> set v"
    using assms(2) join_slash_chars clean_elements_subset [of False "[]" "split_slash v"] split_slash_chars by fastforce
  then show ?thesis using slashes_no_backslash by (auto simp: v_def)
qed

lemma join_plain_not_up:
  assumes "es \<noteq> []" and "\<And>e. e \<in> set es \<Longrightarrow> plain_element e"
  shows "join_slash es \<noteq> ''.''" and "join_slash es \<noteq> ''..''" and "\<not> has_prefix (join_slash es) ''../''"
    and "join_slash es \<noteq> []"
proof -
  have free: "split_slash (join_slash es) = es"
    using assms by (intro split_join) (auto simp: plain_element_def)
  show "join_slash es \<noteq> ''.''" and "join_slash es \<noteq> ''..''" and "join_slash es \<noteq> []"
    using free assms by (auto simp: plain_element_def)
  show "\<not> has_prefix (join_slash es) ''../''"
  proof
    assume "has_prefix (join_slash es) ''../''"
    then obtain s where "join_slash es = ''..'' @ CHR ''/'' # s"
      by (metis has_prefix_def append_Cons append_Nil append_take_drop_id)
    then have "es = ''..'' # split_slash s" using free split_slash_append [of "''..''" s] by simp
    then show False using assms(2) [of "''..''"] by (simp add: plain_element_def)
  qed
qed

lemma canonical_path_again:
  assumes "canonical_identity_relative_path value = Inr p" and "stable_path p"
  shows "canonical_identity_relative_path p = Inr p"
proof -
  obtain es where es: "es \<noteq> []" "\<forall>e\<in>set es. plain_element e" "p = join_slash es" "split_slash p = es"
    using canonical_path_elements [OF assms(1)] by blast
  have "slashes p = p" using canonical_path_no_backslash [OF assms(1)] by (rule slashes_id)
  moreover have "\<not> has_prefix p ''/''"
    using es plain_not_rooted by (cases es) auto
  moreover have nots: "p \<noteq> ''.''" "p \<noteq> ''..''" "\<not> has_prefix p ''../''" "p \<noteq> []"
    using join_plain_not_up [of es] es by simp_all
  moreover have "clean_path p = p"
  proof -
    have "(case p of [] \<Rightarrow> False | c # _ \<Rightarrow> c = CHR ''/'') = False"
      using \<open>\<not> has_prefix p ''/''\<close> by (cases p) (simp_all add: not_rooted)
    then show ?thesis
      using es(2,3,4) nots(4) by (simp add: clean_path_def Let_def clean_elements_plain)
  qed
  ultimately show ?thesis
    using assms(2) by (simp add: canonical_identity_relative_path_def Let_def stable_path_def)
qed

subsection \<open>Inventories\<close>

definition file_path :: "string \<Rightarrow> content_file \<Rightarrow> err + string" where
  "file_path scope f = (if scope = single_file then Inr [] else canonical_identity_relative_path (cf_relative_path f))"

definition canonical_file :: "string \<Rightarrow> content_file \<Rightarrow> content_file" where
  "canonical_file scope f = f\<lparr>cf_sha256 := to_lower (cf_sha256 f), cf_relative_path := projr (file_path scope f)\<rparr>"

definition acceptable_file :: "string \<Rightarrow> content_file \<Rightarrow> bool" where
  "acceptable_file scope f \<longleftrightarrow> 0 \<le> cf_size f \<and> valid_sha256 (cf_sha256 f) \<and> \<not> isl (file_path scope f)"

lemma canonical_files_iff:
  "canonical_files scope fs = Inr cs \<longleftrightarrow> (\<forall>f\<in>set fs. acceptable_file scope f) \<and> cs = map (canonical_file scope) fs"
proof (induction fs arbitrary: cs)
  case (Cons f fs)
  have step: "canonical_files scope (f # fs) =
     (if cf_size f < 0 then Inl (Invalid ''negative size'')
      else if \<not> valid_sha256 (cf_sha256 f) then Inl (Invalid ''invalid SHA-256'')
      else case file_path scope f of
          Inl e \<Rightarrow> Inl e
        | Inr p \<Rightarrow> (case canonical_files scope fs of
            Inl e \<Rightarrow> Inl e
          | Inr gs \<Rightarrow> Inr (f\<lparr>cf_sha256 := to_lower (cf_sha256 f), cf_relative_path := p\<rparr> # gs)))"
    by (simp add: file_path_def)
  show ?case
  proof (cases "acceptable_file scope f")
    case False
    then have "\<exists>e. canonical_files scope (f # fs) = Inl e"
      unfolding step by (cases "file_path scope f") (auto simp: acceptable_file_def)
    then show ?thesis using False by auto
  next
    case True
    then obtain p where p: "file_path scope f = Inr p"
      by (cases "file_path scope f") (auto simp: acceptable_file_def)
    then have "canonical_files scope (f # fs) = (case canonical_files scope fs of Inl e \<Rightarrow> Inl e
        | Inr gs \<Rightarrow> Inr (canonical_file scope f # gs))"
      using True by (simp only: step) (simp add: acceptable_file_def canonical_file_def split: sum.splits)
    then show ?thesis using True Cons.IH by (cases "canonical_files scope fs") auto
  qed
qed auto

lemma canonical_submission_iff:
  "canonical_submission_content_files scope fs = Inr cs \<longleftrightarrow>
     fs \<noteq> [] \<and> scope \<in> {single_file, file_set, full_disc} \<and> (scope = single_file \<longrightarrow> length fs = 1)
     \<and> (\<forall>f\<in>set fs. acceptable_file scope f)
     \<and> (if scope = single_file then cs = map (canonical_file scope) fs
        else cs = order_by by_path (map (canonical_file scope) fs) \<and> \<not> adjacent_duplicate cs)"
  by (auto simp: canonical_submission_content_files_def canonical_files_iff Let_def split: sum.splits)
    (metis Inl_Inr_False canonical_files_iff)+

lemma by_path_step: "\<not> by_path a b \<Longrightarrow> \<not> by_path b c \<Longrightarrow> \<not> by_path a c"
  unfolding by_path_def by (rule text_less_step)

lemma by_path_asym: "by_path a b \<Longrightarrow> \<not> by_path b a"
  unfolding by_path_def by (rule text_less_asym)

lemma by_path_sorted: "sorted_wrt (\<lambda>a b. \<not> by_path b a) (order_by by_path fs)"
  by (rule sorted_order_by) (erule (1) by_path_step | erule by_path_asym)+

lemma strictly_by_path:
  "sorted_wrt (\<lambda>a b. \<not> by_path b a) fs \<Longrightarrow> \<not> adjacent_duplicate fs \<Longrightarrow> sorted_wrt by_path fs"
proof (induction fs)
  case (Cons f fs)
  show ?case
  proof (cases fs)
    case (Cons g gs)
    have sorted: "sorted_wrt by_path fs" and head: "\<forall>x\<in>set fs. \<not> by_path x f"
      using Cons.IH Cons.prems Cons by auto
    have "by_path f g"
      using Cons.prems Cons head text_less_total unfolding by_path_def by fastforce
    moreover have "by_path g x" if "x \<in> set gs" for x using sorted that Cons by simp
    ultimately have "\<forall>x\<in>set fs. by_path f x"
      using Cons text_less_trans unfolding by_path_def by fastforce
    then show ?thesis using sorted by simp
  qed simp
qed simp

lemma by_path_unique:
  "sorted_wrt by_path xs \<Longrightarrow> sorted_wrt by_path ys \<Longrightarrow> mset xs = mset ys \<Longrightarrow> xs = ys"
proof (induction xs arbitrary: ys)
  case (Cons x xs)
  then obtain y ys' where ys: "ys = y # ys'" by (cases ys) auto
  have "x = y"
  proof (rule ccontr)
    assume "x \<noteq> y"
    have "set (x # xs) = set (y # ys')" using Cons.prems(3) ys by (metis set_mset_mset)
    then have "x \<in> set ys'" and "y \<in> set xs" using \<open>x \<noteq> y\<close> by auto
    then have "by_path y x" and "by_path x y" using Cons.prems ys by auto
    then show False using by_path_asym by blast
  qed
  then show ?case using Cons ys by simp
qed simp

lemma distinct_no_duplicate: "distinct (map cf_relative_path fs) \<Longrightarrow> \<not> adjacent_duplicate fs"
  by (induction fs rule: adjacent_duplicate.induct) auto

lemma canonical_files_permuted:
  assumes "canonical_submission_content_files scope fs = Inr cs" and "mset gs = mset fs"
  shows "canonical_submission_content_files scope gs = Inr cs"
proof (cases "scope = single_file")
  case True
  then have "length fs = 1" using assms(1) canonical_submission_iff by blast
  then have "gs = fs" using assms(2) by (metis One_nat_def length_0_conv length_Suc_conv mset_single_iff_right mset.simps)
  then show ?thesis using assms(1) by simp
next
  case False
  have cs: "cs = order_by by_path (map (canonical_file scope) fs)" "\<not> adjacent_duplicate cs"
    using assms(1) False by (auto simp: canonical_submission_iff)
  define ds where "ds = order_by by_path (map (canonical_file scope) gs)"
  have m: "mset ds = mset cs" using assms(2) by (simp add: ds_def cs(1))
  have "ds = cs"
  proof -
    have strict: "sorted_wrt by_path cs" using strictly_by_path by_path_sorted cs by metis
    then have "distinct (map cf_relative_path cs)"
      by (induction cs) (auto simp: by_path_def)
    then have "distinct (map cf_relative_path ds)"
      using m by (metis mset_map mset_eq_imp_distinct_iff)
    then have "\<not> adjacent_duplicate ds" by (rule distinct_no_duplicate)
    then have "sorted_wrt by_path ds" using strictly_by_path by_path_sorted ds_def by metis
    then show ?thesis using strict m by (rule by_path_unique)
  qed
  then show ?thesis
    using assms False cs by (auto simp: canonical_submission_iff ds_def dest: mset_eq_setD)
qed

subsection \<open>An identity validates as itself\<close>

lemma to_lower_hex: "valid_sha256 s \<Longrightarrow> valid_sha256 (to_lower s)"
  by (auto simp: valid_sha256_def to_lower_def hex_digit_def byte_def)

lemma to_lower_again [simp]: "to_lower (to_lower s) = to_lower s"
  by (auto simp: to_lower_def byte_def)

lemma canonical_file_again:
  assumes "acceptable_file scope f" and "scope \<noteq> single_file \<longrightarrow> stable_path (cf_relative_path (canonical_file scope f))"
  shows "acceptable_file scope (canonical_file scope f)" and "canonical_file scope (canonical_file scope f) = canonical_file scope f"
proof -
  obtain p where p: "file_path scope f = Inr p"
    using assms(1) by (cases "file_path scope f") (auto simp: acceptable_file_def)
  have again: "file_path scope (canonical_file scope f) = Inr p"
  proof (cases "scope = single_file")
    case False
    then have "canonical_identity_relative_path (cf_relative_path f) = Inr p" "stable_path p"
      using p assms(2) by (simp_all add: file_path_def canonical_file_def)
    then show ?thesis using canonical_path_again p False by (simp add: file_path_def canonical_file_def)
  qed (use p in \<open>simp add: file_path_def\<close>)
  show "acceptable_file scope (canonical_file scope f)"
    using assms(1) again to_lower_hex by (simp add: acceptable_file_def canonical_file_def)
  show "canonical_file scope (canonical_file scope f) = canonical_file scope f"
    using again p by (simp add: canonical_file_def)
qed

lemma canonical_again:
  assumes "canonical_submission_content_files scope fs = Inr cs"
    and "scope \<noteq> single_file \<longrightarrow> (\<forall>c\<in>set cs. stable_path (cf_relative_path c))"
  shows "canonical_submission_content_files scope cs = Inr cs"
proof -
  have members: "set cs = canonical_file scope ` set fs" and len: "length cs = length fs"
    using assms(1) by (auto simp: canonical_submission_iff split: if_splits)
  have ok: "acceptable_file scope c \<and> canonical_file scope c = c" if "c \<in> set cs" for c
    using that members assms canonical_file_again by (auto simp: canonical_submission_iff)
  then have "map (canonical_file scope) cs = cs" by (simp add: map_idI)
  moreover have "cs \<noteq> [] \<and> scope \<in> {single_file, file_set, full_disc} \<and> (scope = single_file \<longrightarrow> length cs = 1)"
    using assms(1) len by (auto simp: canonical_submission_iff)
  moreover have "scope \<noteq> single_file \<longrightarrow> \<not> adjacent_duplicate cs"
    using assms(1) by (auto simp: canonical_submission_iff)
  moreover have "order_by by_path cs = cs" if "scope \<noteq> single_file"
  proof -
    have cs: "cs = order_by by_path (map (canonical_file scope) fs)" "\<not> adjacent_duplicate cs"
      using assms(1) that by (auto simp: canonical_submission_iff)
    have strict: "sorted_wrt by_path cs" using strictly_by_path by_path_sorted cs by metis
    then have "distinct (map cf_relative_path cs)" by (induction cs) (auto simp: by_path_def)
    then have "distinct (map cf_relative_path (order_by by_path cs))"
      by (metis mset_map mset_eq_imp_distinct_iff mset_order_by)
    then have "sorted_wrt by_path (order_by by_path cs)"
      using strictly_by_path by_path_sorted distinct_no_duplicate by blast
    then show ?thesis using strict by (rule by_path_unique) simp
  qed
  ultimately show ?thesis
    using ok by (cases "scope = single_file") (simp_all add: canonical_submission_iff)
qed

subsection \<open>Properties\<close>

text \<open>A relative path that canonicalises is made of at least one element, none of which is
  empty, \<open>.\<close> or \<open>..\<close>, so it names something strictly below the source root.\<close>

lemma canonical_path_stays_inside:
  "canonical_identity_relative_path value = Inr p \<Longrightarrow>
     split_slash p \<noteq> [] \<and> list_all (\<lambda>e. e \<noteq> [] \<and> e \<noteq> ''.'' \<and> e \<noteq> ''..'') (split_slash p)"
  using canonical_path_elements [of "value" p] by (auto simp: plain_element_def list_all_iff)

lemma canonical_path_stays_inside_witness:
  "canonical_identity_relative_path ''a/./b//../c'' = Inr ''a/c''
   \<and> split_slash ''a/c'' \<noteq> [] \<and> list_all (\<lambda>e. e \<noteq> [] \<and> e \<noteq> ''.'' \<and> e \<noteq> ''..'') (split_slash ''a/c'')"
proof -
  have "canonical_identity_relative_path ''a/./b//../c'' = Inr ''a/c''" by code_simp
  then show ?thesis using canonical_path_stays_inside by blast
qed

text \<open>The identity of an inventory does not depend on the order in which its files are listed.\<close>

lemma identity_ignores_file_order:
  assumes "new_submission_content_identity digest scope fs = Inr i" and "mset gs = mset fs"
  shows "new_submission_content_identity digest scope gs = Inr i"
proof -
  obtain cs where cs: "canonical_submission_content_files scope fs = Inr cs"
    using assms(1) by (auto simp: new_submission_content_identity_def split: sum.splits)
  then have "canonical_submission_content_files scope gs = Inr cs"
    using canonical_files_permuted assms(2) by blast
  then show ?thesis using assms(1) cs by (simp add: new_submission_content_identity_def)
qed

definition sample_file :: "string \<Rightarrow> content_file" where
  "sample_file path = \<lparr>cf_relative_path = path, cf_size = 5, cf_sha256 = replicate 64 (CHR ''a'')\<rparr>"

definition sample_identity :: "digest \<Rightarrow> string list \<Rightarrow> content_identity" where
  "sample_identity digest paths = \<lparr>ci_version = identity_version,
     ci_digest = digest file_set (map sample_file paths), ci_scope = file_set, ci_files = map sample_file paths\<rparr>"

lemma sample_identity_paths:
  "canonical_submission_content_files file_set (map sample_file [''b'', ''./a'']) = Inr (map sample_file [''a'', ''b''])"
  "canonical_submission_content_files file_set (map sample_file [''./C:/x'']) = Inr (map sample_file [''C:/x''])"
  "canonical_submission_content_files file_set (map sample_file [''C:/x'']) = Inl (Invalid ''relative path escapes its source root'')"
  by code_simp+

lemma identity_ignores_file_order_witness:
  "new_submission_content_identity (\<lambda>_ _. ''d'') file_set (map sample_file [''./a'', ''b'']) =
     Inr (sample_identity (\<lambda>_ _. ''d'') [''a'', ''b''])"
proof (rule identity_ignores_file_order)
  show "new_submission_content_identity (\<lambda>_ _. ''d'') file_set (map sample_file [''b'', ''./a'']) =
     Inr (sample_identity (\<lambda>_ _. ''d'') [''a'', ''b''])"
    by (simp only: new_submission_content_identity_def sample_identity_paths sample_identity_def) simp
qed simp

text \<open>C10: An identity \<open>NewSubmissionContentIdentity\<close> builds passes the check \<open>ValidateSubmission\<close> and the
  fence lookup make of it (the identity recomputed from its own scope and files), provided its
  canonical paths are stable: no surrounding white space and no volume prefix.\<close>

lemma identity_validates_itself:
  assumes "new_submission_content_identity digest scope fs = Inr i"
    and "scope = single_file \<or> list_all (\<lambda>f. stable_path (cf_relative_path f)) (ci_files i)"
  shows "canonical_identity digest i = None"
proof -
  obtain cs where cs: "canonical_submission_content_files scope fs = Inr cs"
    and i: "i = \<lparr>ci_version = identity_version, ci_digest = digest scope cs, ci_scope = scope, ci_files = cs\<rparr>"
    using assms(1) by (auto simp: new_submission_content_identity_def split: sum.splits)
  have "canonical_submission_content_files scope cs = Inr cs"
    using cs assms(2) by (intro canonical_again) (auto simp: i list_all_iff)
  then show ?thesis by (simp add: canonical_identity_def new_submission_content_identity_def i)
qed

lemma identity_validates_itself_witness:
  "canonical_identity (\<lambda>_ _. ''d'') (sample_identity (\<lambda>_ _. ''d'') [''a'', ''b'']) = None"
proof (rule identity_validates_itself)
  show "new_submission_content_identity (\<lambda>_ _. ''d'') file_set (map sample_file [''b'', ''./a'']) =
     Inr (sample_identity (\<lambda>_ _. ''d'') [''a'', ''b''])"
    by (simp only: new_submission_content_identity_def sample_identity_paths sample_identity_def) simp
  show "file_set = single_file \<or>
     list_all (\<lambda>f. stable_path (cf_relative_path f)) (ci_files (sample_identity (\<lambda>_ _. ''d'') [''a'', ''b'']))"
    by code_simp
qed

text \<open>C11: Without that proviso it need not: the path \<open>./C:/x\<close> is accepted as \<open>C:/x\<close>, and the
  identity built from it is then refused as escaping, whatever the digest function.\<close>

lemma identity_can_reject_itself:
  "new_submission_content_identity digest file_set (map sample_file [''./C:/x'']) = Inr (sample_identity digest [''C:/x''])
   \<and> canonical_identity digest (sample_identity digest [''C:/x'']) = Some (Invalid ''relative path escapes its source root'')"
proof
  show "new_submission_content_identity digest file_set (map sample_file [''./C:/x'']) = Inr (sample_identity digest [''C:/x''])"
    by (simp only: new_submission_content_identity_def sample_identity_paths sample_identity_def) simp
  have "ci_scope (sample_identity digest [''C:/x'']) = file_set"
    "ci_files (sample_identity digest [''C:/x'']) = map sample_file [''C:/x'']"
    by (simp_all only: sample_identity_def content_identity.simps)
  then show "canonical_identity digest (sample_identity digest [''C:/x'']) = Some (Invalid ''relative path escapes its source root'')"
    by (simp only: canonical_identity_def new_submission_content_identity_def sample_identity_paths) simp
qed

end
