(* ===== verification/ConfigState.thy ===== *)
theory ConfigState
  imports Schema
begin

text \<open>
  What \<open>internal/services/db/config_activation.go\<close> reads: the normal form of configuration
  impacts, and the activation status decoded from the singleton row and its pending candidate.
  Impacts are stored as JSON and normalised again on every read; a read fails when the pending
  candidate is not based on the active generation or a failure code is not one of the six.
\<close>

subsection \<open>Impacts\<close>

definition normalize_tracker_ids :: "string list \<Rightarrow> string list" where
  "normalize_tracker_ids ids = order_by text_less
     (foldl (\<lambda>acc i. let v = to_upper (trim_space i) in if v \<noteq> [] \<and> v \<notin> set acc then acc @ [v] else acc) [] ids)"

text \<open>\<open>strings.Join(ids, ",")\<close>.\<close>

fun join_comma :: "string list \<Rightarrow> string" where
  "join_comma [] = []"
| "join_comma [x] = x"
| "join_comma (x # y # ys) = x @ '','' @ join_comma (y # ys)"

definition impact_before :: "impact_detail \<Rightarrow> impact_detail \<Rightarrow> bool" where
  "impact_before a b \<longleftrightarrow> text_less (im_kind a) (im_kind b)
     \<or> im_kind a = im_kind b \<and> text_less (join_comma (im_trackers a)) (join_comma (im_trackers b))"

text \<open>
  Sorting is stable here; \<open>slices.SortFunc\<close> is not, which only shows on tracker ids that
  contain a comma. \<open>slices.CompactFunc\<close> drops an element equal to the one before it.
\<close>

definition normalize_impacts :: "impact_detail list \<Rightarrow> impact_detail list" where
  "normalize_impacts impacts =
     remdups_adj (order_by impact_before (map (\<lambda>i. i\<lparr>im_trackers := normalize_tracker_ids (im_trackers i)\<rparr>) impacts))"

definition config_impact_kinds :: "impact_detail list \<Rightarrow> string list" where
  "config_impact_kinds impacts = foldl (\<lambda>acc i. if im_kind i \<in> set acc then acc else acc @ [im_kind i]) [] impacts"

subsection \<open>The activation status\<close>

definition valid_failure_code :: "string \<Rightarrow> bool" where
  "valid_failure_code code \<longleftrightarrow> code \<in> set [''normalize'', ''validate_stored'', ''validate_runtime'', ''build'', ''cookies'', ''persist'']"

definition active_status :: "config_row \<Rightarrow> config_activation" where
  "active_status r = \<lparr>ca_status = CfgActive, ca_id = [], ca_generation = cfg_generation r, ca_fingerprint = cfg_fingerprint r,
     ca_pending_generation = 0, ca_failure_code = [], ca_impacts = config_impact_kinds (normalize_impacts (cfg_impacts r)),
     ca_updated_at = cfg_updated_at r\<rparr>"

definition load_config_activation :: "db \<Rightarrow> err + config_activation" where
  "load_config_activation d = (let r = config_active d; active = active_status r in
     case config_pending d of
       None \<Rightarrow>
         if cfg_failed_id r = [] then Inr active
         else if \<not> valid_failure_code (cfg_failed_code r) then Inl (Invalid ''failure code is invalid'')
         else (case cfg_failed_at r of
             None \<Rightarrow> Inl StorageFault
           | Some failed \<Rightarrow> Inr (active\<lparr>ca_status := CfgFailed, ca_id := cfg_failed_id r, ca_failure_code := cfg_failed_code r,
               ca_impacts := config_impact_kinds (normalize_impacts (cfg_failed_impacts r)), ca_updated_at := failed\<rparr>))
     | Some p \<Rightarrow>
         if pd_base p \<noteq> cfg_generation r \<or> cfg_generation r = max_int64 then Inl (Invalid ''pending generation is invalid'')
         else Inr (active\<lparr>ca_status := CfgPending, ca_id := pd_id p, ca_pending_generation := cfg_generation r + 1,
           ca_impacts := config_impact_kinds (normalize_impacts (pd_impacts p)), ca_updated_at := pd_updated_at p\<rparr>))"

lemma load_generation:
  "load_config_activation d = Inr a \<Longrightarrow> ca_generation a = cfg_generation (config_active d) \<and> ca_fingerprint a = cfg_fingerprint (config_active d)"
  by (auto simp: load_config_activation_def active_status_def Let_def split: option.splits if_splits)

lemma load_config_frame:
  "config_active d' = config_active d \<Longrightarrow> config_pending d' = config_pending d \<Longrightarrow> load_config_activation d' = load_config_activation d"
  by (simp add: load_config_activation_def)

end
