(* ===== verification/Effects.thy ===== *)
theory Effects
  imports ActiveInput ContentIdentity ConfigState
begin

text \<open>
  External effects and their receipts: the effect half of
  \<open>internal/services/db/release_workflow_durability.go\<close>. A tracker submission holds two rows, the
  workflow's effect receipt and the repository-wide fence of its content and site; other
  effects hold the receipt only. \<open>digest\<close> is the content digest of \<open>ContentIdentity\<close>.
\<close>

subsection \<open>Retained upload evidence\<close>

definition confirms_submission :: "upload_result \<Rightarrow> effect_record \<Rightarrow> bool" where
  "confirms_submission r e \<longleftrightarrow>
     \<not> (eff_kind e \<noteq> tracker_submission \<or> ur_workflow r \<noteq> eff_workflow e \<or> eff_operation e = [] \<or> eff_id e = [])
     \<and> (\<exists>t\<in>set (ur_results r). tr_submission t = StCompleted \<and> tr_receipt t = eff_id e
          \<and> tr_operation t = eff_operation e \<and> equal_fold (tr_tracker t) (eff_scope e))"

subsection \<open>Validation\<close>

definition validate_effect_record :: "digest \<Rightarrow> effect_record \<Rightarrow> bool \<Rightarrow> err option" where
  "validate_effect_record digest r terminal =
     (if blank (eff_owner r) \<or> eff_workflow r = [] \<or> eff_operation r = [] \<or> blank (eff_id r) \<or> blank (eff_kind r)
         \<or> blank (eff_scope r) \<or> eff_fingerprint r = [] \<or> eff_started_at r = 0 \<or> eff_updated_at r < eff_started_at r
      then Some (Invalid ''effect is incomplete'')
      else if terminal \<and> eff_completed_at r = None then Some (Invalid ''terminal timestamp is required'')
      else case eff_submission r of
          None \<Rightarrow> None
        | Some a \<Rightarrow>
            if eff_kind r \<noteq> tracker_submission then Some (Invalid ''fence requires tracker submission'')
            else validate_authority digest a)"

text \<open>\<open>requireConfigActivationGeneration\<close> of \<open>config_activation.go\<close>.\<close>

definition require_config_activation_generation :: "ctx \<Rightarrow> db \<Rightarrow> err option" where
  "require_config_activation_generation c d =
     (case config_authority c of
        None \<Rightarrow> None
      | Some (generation, fingerprint) \<Rightarrow>
          if fingerprint = [] then Some ConfigActivationChanged
          else case load_config_activation d of
              Inl e \<Rightarrow> Some e
            | Inr a \<Rightarrow> if ca_generation a \<noteq> generation \<or> ca_fingerprint a \<noteq> fingerprint then Some ConfigActivationChanged else None)"

subsection \<open>Reads\<close>

definition effect_in_scope :: "string \<Rightarrow> string \<Rightarrow> string \<Rightarrow> string \<Rightarrow> effect_record \<Rightarrow> bool" where
  "effect_in_scope owner workflow kind scope e \<longleftrightarrow>
     eff_owner e = owner \<and> eff_workflow e = workflow \<and> eff_kind e = kind \<and> eff_scope e = scope"

text \<open>\<open>ORDER BY started_at DESC, effect_id DESC LIMIT 1\<close>, the times as text.\<close>

definition load_latest_effect :: "db \<Rightarrow> string \<Rightarrow> string \<Rightarrow> string \<Rightarrow> string \<Rightarrow> effect_record option" where
  "load_latest_effect d owner workflow kind scope =
     top_row (row_before eff_started_at eff_id) (filter (effect_in_scope owner workflow kind scope) (effects d))"

definition fence_key :: "content_identity \<Rightarrow> string \<Rightarrow> string \<times> string \<times> string" where
  "fence_key identity site = (ci_version identity, ci_digest identity, site)"

definition key_of_fence :: "fence_record \<Rightarrow> string \<times> string \<times> string" where
  "key_of_fence f = fence_key (fen_content f) (fen_site f)"

definition load_submission_fence_row :: "digest \<Rightarrow> db \<Rightarrow> content_identity \<Rightarrow> string \<Rightarrow> err + fence_record" where
  "load_submission_fence_row digest d identity site =
     (case List.find (\<lambda>f. key_of_fence f = fence_key identity (trim_space site)) (fences d) of
        None \<Rightarrow> Inl FenceNotFound
      | Some f \<Rightarrow> (case validate_submission_fence_lookup digest (fen_content f) (fen_site f) of
          Some e \<Rightarrow> Inl e | None \<Rightarrow> Inr f))"

definition load_submission_fence :: "digest \<Rightarrow> db \<Rightarrow> content_identity \<Rightarrow> string \<Rightarrow> err + fence_record" where
  "load_submission_fence digest d identity site =
     (case validate_submission_fence_lookup digest identity site of
        Some e \<Rightarrow> Inl e | None \<Rightarrow> load_submission_fence_row digest d identity site)"

subsection \<open>Beginning an effect\<close>

definition state_exists :: "db \<Rightarrow> string \<Rightarrow> string \<Rightarrow> bool" where
  "state_exists d owner workflow \<longleftrightarrow> (\<exists>s\<in>set (states d). ws_owner s = owner \<and> ws_id s = workflow)"

definition insert_effect :: "effect_record \<Rightarrow> db \<Rightarrow> err + db" where
  "insert_effect r d =
     (if (\<exists>e\<in>set (effects d). eff_owner e = eff_owner r \<and> eff_workflow e = eff_workflow r \<and> eff_id e = eff_id r)
         \<or> \<not> state_exists d (eff_owner r) (eff_workflow r)
      then Inl SqlConstraint
      else Inr (d\<lparr>effects := effects d
        @ [r\<lparr>eff_status := EffStarted, eff_completed_at := None, eff_submission := None\<rparr>]\<rparr>))"

definition insert_fence :: "fence_authority \<Rightarrow> effect_record \<Rightarrow> db \<Rightarrow> err + db" where
  "insert_fence a r d =
     (let f = \<lparr>fen_content = fa_content a, fen_site = fa_site a, fen_owner = eff_owner r, fen_workflow = eff_workflow r,
            fen_operation = eff_operation r, fen_effect = eff_id r, fen_status = EffStarted,
            fen_started_at = eff_started_at r, fen_updated_at = eff_updated_at r, fen_confirmed_at = None\<rparr>
      in if \<exists>g\<in>set (fences d). key_of_fence g = key_of_fence f then Inl SqlConstraint
         else Inr (d\<lparr>fences := fences d @ [f]\<rparr>))"

text \<open>
  Both begin operations return the record and whether it was already there, or the error and,
  for an unknown outcome, the record that blocks.
\<close>

type_synonym begin_result = "(err \<times> effect_record option) + effect_record \<times> bool"

definition begin_body :: "ctx \<Rightarrow> effect_record \<Rightarrow> db \<Rightarrow> (err \<times> effect_record option) + (effect_record \<times> bool) \<times> db" where
  "begin_body c r d =
     (case require_config_activation_generation c d of
        Some e \<Rightarrow> Inl (e, None)
      | None \<Rightarrow> (case require_workflow_input_mutation c d (eff_owner r) (eff_workflow r) False of
          Some e \<Rightarrow> Inl (e, None)
        | None \<Rightarrow>
            let prior = load_latest_effect d (eff_owner r) (eff_workflow r) (eff_kind r) (eff_scope r);
                admit = (case insert_effect r d of
                    Inl e \<Rightarrow> Inl (e, None)
                  | Inr d' \<Rightarrow> Inr ((r\<lparr>eff_status := EffStarted\<rparr>, False), d'))
            in case prior of
                None \<Rightarrow> admit
              | Some p \<Rightarrow>
                  if eff_status p = EffStarted \<or> eff_status p = EffUnknown then Inl (EffectOutcomeUnknown, Some p)
                  else if eff_status p = EffSucceeded \<and> eff_fingerprint p = eff_fingerprint r then Inr ((p, True), d)
                  else admit))"

definition begin_fence_body :: "digest \<Rightarrow> ctx \<Rightarrow> fence_authority \<Rightarrow> effect_record \<Rightarrow> db
    \<Rightarrow> (err \<times> effect_record option) + (effect_record \<times> bool) \<times> db" where
  "begin_fence_body digest c a r d =
     (case require_config_activation_generation c d of
        Some e \<Rightarrow> Inl (e, None)
      | None \<Rightarrow> (case require_workflow_input_mutation c d (eff_owner r) (eff_workflow r) False of
          Some e \<Rightarrow> Inl (e, None)
        | None \<Rightarrow> (case require_active_input_fence d (eff_owner r) (eff_workflow r) (fa_coordinator a) (fa_fence a)
                  (eff_updated_at r) of
            Some e \<Rightarrow> Inl (e, None)
          | None \<Rightarrow> (case load_submission_fence_row digest d (fa_content a) (fa_site a) of
              Inr prior \<Rightarrow>
                if fen_status prior = EffSucceeded then
                  Inr ((r\<lparr>eff_id := fen_effect prior, eff_operation := fen_operation prior, eff_status := fen_status prior\<rparr>,
                        True), d)
                else if fen_status prior = EffStarted \<or> fen_status prior = EffUnknown then
                  Inl (EffectOutcomeUnknown,
                    if fen_owner prior = eff_owner r \<and> fen_workflow prior = eff_workflow r then
                      (case load_latest_effect d (eff_owner r) (eff_workflow r) (eff_kind r) (eff_scope r) of
                         None \<Rightarrow> None
                       | Some l \<Rightarrow> if eff_id l = fen_effect prior \<and> eff_operation l = fen_operation prior
                             \<and> (eff_status l = EffStarted \<or> eff_status l = EffUnknown) then Some l else None)
                    else None)
                else Inl (EffectConflict, None)
            | Inl e \<Rightarrow>
                if e \<noteq> FenceNotFound then Inl (e, None)
                else (case insert_fence a r d of
                    Inl e \<Rightarrow> Inl (e, None)
                  | Inr d1 \<Rightarrow> (case insert_effect r d1 of
                      Inl e \<Rightarrow> Inl (e, None)
                    | Inr d2 \<Rightarrow> Inr ((r\<lparr>eff_status := EffStarted\<rparr>, False), d2)))))))"

definition begin_submission_fence :: "digest \<Rightarrow> ctx \<Rightarrow> fence_authority \<Rightarrow> effect_record \<Rightarrow> db \<Rightarrow> begin_result \<times> db" where
  "begin_submission_fence digest c a0 r =
     with_write_tx (begin_fence_body digest c (a0\<lparr>fa_site := trim_space (fa_site a0)\<rparr>) r)"

definition begin_release_workflow_effect :: "digest \<Rightarrow> ctx \<Rightarrow> effect_record \<Rightarrow> db \<Rightarrow> begin_result \<times> db" where
  "begin_release_workflow_effect digest c r d =
     (case validate_effect_record digest r False of
        Some e \<Rightarrow> (Inl (e, None), d)
      | None \<Rightarrow> (case eff_submission r of
          Some a \<Rightarrow> begin_submission_fence digest c a r d
        | None \<Rightarrow> with_write_tx (begin_body c r) d))"

subsection \<open>Completing an effect\<close>

definition exact_effect :: "string \<Rightarrow> string \<Rightarrow> string \<Rightarrow> string \<Rightarrow> effect_record \<Rightarrow> bool" where
  "exact_effect owner workflow operation effect e \<longleftrightarrow> eff_owner e = owner \<and> eff_workflow e = workflow
     \<and> eff_operation e = operation \<and> eff_id e = effect"

definition exact_fence :: "string \<Rightarrow> string \<Rightarrow> string \<Rightarrow> string \<Rightarrow> fence_record \<Rightarrow> bool" where
  "exact_fence owner workflow operation effect f \<longleftrightarrow> fen_owner f = owner \<and> fen_workflow f = workflow
     \<and> fen_operation f = operation \<and> fen_effect f = effect"

definition settle_effect :: "effect_status \<Rightarrow> time \<Rightarrow> time \<Rightarrow> effect_record \<Rightarrow> effect_record" where
  "settle_effect status updated completed e =
     e\<lparr>eff_status := status, eff_updated_at := updated, eff_completed_at := Some completed\<rparr>"

definition complete_effect_tx :: "effect_status \<Rightarrow> effect_record \<Rightarrow> time \<Rightarrow> unit tx" where
  "complete_effect_tx status r completed d =
     (let confirmed = (if status = EffSucceeded \<and> eff_submission r = None then EffUnknown else EffStarted);
          target = (\<lambda>e. exact_effect (eff_owner r) (eff_workflow r) (eff_operation r) (eff_id r) e
             \<and> (eff_status e = EffStarted \<or> eff_status e = confirmed))
      in if count_where target (effects d) \<noteq> 1 then Inl EffectConflict
         else Inr ((), d\<lparr>effects := update_where target (settle_effect status (eff_updated_at r) completed) (effects d)\<rparr>))"

definition complete_fence_body :: "ctx \<Rightarrow> effect_status \<Rightarrow> fence_authority \<Rightarrow> effect_record \<Rightarrow> time \<Rightarrow> unit tx" where
  "complete_fence_body c status a r completed d =
     (case require_workflow_input_mutation c d (eff_owner r) (eff_workflow r) True of
        Some e \<Rightarrow> Inl e
      | None \<Rightarrow> (case require_active_input_fence d (eff_owner r) (eff_workflow r) (fa_coordinator a) (fa_fence a)
              (eff_updated_at r) of
          Some e \<Rightarrow> Inl e
        | None \<Rightarrow>
            let target = (\<lambda>f. key_of_fence f = fence_key (fa_content a) (fa_site a)
                  \<and> exact_fence (eff_owner r) (eff_workflow r) (eff_operation r) (eff_id r) f \<and> fen_status f = EffStarted);
                d1 = (if status = EffSucceeded
                  then d\<lparr>fences := update_where target (\<lambda>f. f\<lparr>fen_status := status, fen_updated_at := eff_updated_at r,
                         fen_confirmed_at := Some completed\<rparr>) (fences d)\<rparr>
                  else d\<lparr>fences := delete_where target (fences d)\<rparr>)
            in if count_where target (fences d) \<noteq> 1 then Inl EffectConflict
               else complete_effect_tx status r completed d1))"

definition complete_release_workflow_effect ::
    "digest \<Rightarrow> ctx \<Rightarrow> effect_status \<Rightarrow> effect_record \<Rightarrow> db \<Rightarrow> (err + unit) \<times> db" where
  "complete_release_workflow_effect digest c status r0 d =
     (if status \<noteq> EffSucceeded \<and> status \<noteq> EffFailed then (Inl (Invalid ''terminal status is invalid''), d)
      else let r = r0\<lparr>eff_status := status\<rparr> in
        case validate_effect_record digest r True of
          Some e \<Rightarrow> (Inl e, d)
        | None \<Rightarrow> (case eff_completed_at r of
            None \<Rightarrow> (Inl (Invalid ''terminal timestamp is required''), d)
          | Some completed \<Rightarrow> (case eff_submission r of
              Some a \<Rightarrow> with_write_tx (complete_fence_body c status (a\<lparr>fa_site := trim_space (fa_site a)\<rparr>) r completed) d
            | None \<Rightarrow> with_write_tx (\<lambda>d. case require_workflow_input_mutation c d (eff_owner r) (eff_workflow r) True of
                  Some e \<Rightarrow> Inl e | None \<Rightarrow> complete_effect_tx status r completed d) d)))"

subsection \<open>Interrupted effects\<close>

definition mark_effects_unknown_tx :: "string \<Rightarrow> string \<Rightarrow> string \<Rightarrow> time \<Rightarrow> db \<Rightarrow> db" where
  "mark_effects_unknown_tx owner workflow operation now d =
     d\<lparr>fences := update_where (\<lambda>f. fen_owner f = trim_space owner \<and> fen_workflow f = workflow
            \<and> fen_operation f = operation \<and> fen_status f = EffStarted)
          (\<lambda>f. f\<lparr>fen_status := EffUnknown, fen_updated_at := now\<rparr>) (fences d),
       effects := update_where (\<lambda>e. eff_owner e = trim_space owner \<and> eff_workflow e = workflow
            \<and> eff_operation e = operation \<and> eff_status e = EffStarted) (settle_effect EffUnknown now now) (effects d)\<rparr>"

definition mark_operation_effects_unknown ::
    "ctx \<Rightarrow> string \<Rightarrow> string \<Rightarrow> string \<Rightarrow> time \<Rightarrow> db \<Rightarrow> (err + unit) \<times> db" where
  "mark_operation_effects_unknown c owner workflow operation now d =
     (if blank owner \<or> workflow = [] \<or> operation = [] \<or> now = 0
      then (Inl (Invalid ''unknown effect identity and timestamp are required''), d)
      else with_write_tx (\<lambda>d. case require_workflow_input_mutation c d owner workflow True of
          Some e \<Rightarrow> Inl e
        | None \<Rightarrow> Inr ((), mark_effects_unknown_tx owner workflow operation now d)) d)"

definition recover_legacy_effects ::
    "ctx \<Rightarrow> string \<Rightarrow> string \<Rightarrow> time \<Rightarrow> db \<Rightarrow> (err + effect_record list) \<times> db" where
  "recover_legacy_effects c owner0 workflow now d =
     (let owner = trim_space owner0 in
      if owner = [] \<or> workflow = [] \<or> now = 0
      then (Inl (Invalid ''legacy recovery owner, workflow, and timestamp are required''), d)
      else with_write_tx (\<lambda>d. case require_legacy_input_recovery c d owner workflow of
          Some e \<Rightarrow> Inl e
        | None \<Rightarrow>
            let d' = d\<lparr>fences := update_where (\<lambda>f. fen_owner f = owner \<and> fen_workflow f = workflow \<and> fen_status f = EffStarted)
                    (\<lambda>f. f\<lparr>fen_status := EffUnknown, fen_updated_at := now\<rparr>) (fences d),
                  effects := update_where (\<lambda>e. eff_owner e = owner \<and> eff_workflow e = workflow \<and> eff_status e = EffStarted)
                    (settle_effect EffUnknown now now) (effects d)\<rparr>
            in Inr (order_by (row_before eff_started_at eff_id)
                 (filter (\<lambda>e. eff_owner e = owner \<and> eff_workflow e = workflow \<and> eff_status e = EffUnknown) (effects d')), d')) d)"

definition scope_before :: "string \<times> string \<Rightarrow> string \<times> string \<Rightarrow> bool" where
  "scope_before a b \<longleftrightarrow> text_less (fst a) (fst b) \<or> fst a = fst b \<and> text_less (snd a) (snd b)"

definition list_recovery_scopes :: "db \<Rightarrow> (string \<times> string) list" where
  "list_recovery_scopes d = order_by scope_before (remdups
     (map (\<lambda>e. (eff_owner e, eff_workflow e)) (filter effect_unresolved (effects d))
      @ map (\<lambda>f. (fen_owner f, fen_workflow f)) (filter fence_unresolved (fences d))))"

definition list_legacy_recovery_workflow_ids :: "db \<Rightarrow> string \<Rightarrow> err + string list" where
  "list_legacy_recovery_workflow_ids d owner0 =
     (let owner = trim_space owner0 in
      if owner = [] then Inl StateNotFound
      else Inr (order_by text_less (remdups
        (map eff_workflow (filter (\<lambda>e. eff_owner e = owner \<and> effect_unresolved e) (effects d))))))"

subsection \<open>Resolving an unknown outcome\<close>

definition resolve_effect_unknown_tx ::
    "ctx \<Rightarrow> string \<Rightarrow> string \<Rightarrow> string \<Rightarrow> string \<Rightarrow> time \<Rightarrow> effect_receipt list \<Rightarrow> unit tx" where
  "resolve_effect_unknown_tx c owner0 workflow kind scope0 now expected d =
     (let owner = trim_space owner0; scope = trim_space scope0 in
      if owner = [] \<or> workflow = [] \<or> kind = [] \<or> scope = [] \<or> now = 0
      then Inl (Invalid ''reconciliation identity and timestamp are required'')
      else case require_workflow_input_mutation c d owner workflow True of
          Some e \<Rightarrow> Inl e
        | None \<Rightarrow> (case load_latest_effect d owner workflow kind scope of
            None \<Rightarrow> Inl StateNotFound
          | Some latest \<Rightarrow>
              if kind = tracker_submission \<and> length expected \<noteq> 1 \<or> length expected > 1
                 \<or> length expected = 1 \<and> (rc_effect (hd expected) \<noteq> eff_id latest
                      \<or> rc_operation (hd expected) \<noteq> eff_operation latest)
              then Inl EffectConflict
              else case (if kind \<noteq> tracker_submission then None
                    else case load_workflow_state d owner workflow of
                        Inl e \<Rightarrow> Some e
                      | Inr s \<Rightarrow> (case pl_uploads (ws_payload s) of
                          None \<Rightarrow> Some (Invalid ''read retained submission evidence'')
                        | Some uploads \<Rightarrow> if \<exists>u\<in>set uploads. confirms_submission u latest
                            then Some EffectConflict else None)) of
                  Some e \<Rightarrow> Inl e
                | None \<Rightarrow> (case eff_status latest of
                    EffFailed \<Rightarrow> Inr ((), d)
                  | EffUnknown \<Rightarrow>
                      let target = (\<lambda>e. exact_effect owner workflow (eff_operation latest) (eff_id latest) e
                            \<and> eff_status e = EffUnknown)
                      in if count_where target (effects d) \<noteq> 1 then Inl EffectConflict
                         else Inr ((), d\<lparr>fences := delete_where
                             (\<lambda>f. exact_fence owner workflow (eff_operation latest) (eff_id latest) f
                               \<and> fen_status f = EffUnknown) (fences d),
                           effects := update_where target (settle_effect EffFailed now now) (effects d)\<rparr>)
                  | _ \<Rightarrow> Inl EffectConflict)))"

definition resolve_effect_unknown ::
    "ctx \<Rightarrow> string \<Rightarrow> string \<Rightarrow> string \<Rightarrow> string \<Rightarrow> time \<Rightarrow> effect_receipt list \<Rightarrow> db \<Rightarrow> (err + unit) \<times> db" where
  "resolve_effect_unknown c owner workflow kind scope now expected =
     with_write_tx (resolve_effect_unknown_tx c owner workflow kind scope now expected)"

subsection \<open>The rows effects live in\<close>

definition effect_key :: "effect_record \<Rightarrow> string \<times> string \<times> string" where
  "effect_key e = (eff_owner e, eff_workflow e, eff_id e)"

text \<open>The receipt of a fence: the submission effect it was begun with, succeeded when the fence is.\<close>

definition has_receipt :: "db \<Rightarrow> fence_record \<Rightarrow> bool" where
  "has_receipt d f \<longleftrightarrow> (\<exists>e\<in>set (effects d). fence_of_effect f e \<and> eff_kind e = tracker_submission
     \<and> (fen_status f = EffSucceeded \<longrightarrow> eff_status e = EffSucceeded))"

definition effects_ok :: "db \<Rightarrow> bool" where
  "effects_ok d \<longleftrightarrow> distinct (map effect_key (effects d)) \<and> distinct (map key_of_fence (fences d))
     \<and> (\<forall>f\<in>set (fences d). fen_status f \<noteq> EffFailed \<and> has_receipt d f)
     \<and> (\<forall>e\<in>set (effects d). state_exists d (eff_owner e) (eff_workflow e))"

lemma effect_key_settle [simp]: "effect_key (settle_effect status t u e) = effect_key e"
  by (simp add: effect_key_def settle_effect_def)

lemma settle_effect_simps [simp]:
  "eff_owner (settle_effect status t u e) = eff_owner e" "eff_workflow (settle_effect status t u e) = eff_workflow e"
  "eff_operation (settle_effect status t u e) = eff_operation e" "eff_id (settle_effect status t u e) = eff_id e"
  "eff_kind (settle_effect status t u e) = eff_kind e" "eff_scope (settle_effect status t u e) = eff_scope e"
  "eff_status (settle_effect status t u e) = status" "eff_started_at (settle_effect status t u e) = eff_started_at e"
  "eff_submission (settle_effect status t u e) = eff_submission e"
  "fence_of_effect f (settle_effect status t u e) = fence_of_effect f e"
  by (simp_all add: settle_effect_def fence_of_effect_def)

text \<open>
  One lemma carries the preservation proofs: effects are settled, never re-keyed, and only if
  not succeeded; every remaining fence is an old one, possibly with a new status.
\<close>

lemma effects_ok_settle:
  assumes ok: "effects_ok d"
    and eff: "effects d' = update_where P (settle_effect status t u) (effects d)"
    and unsettled: "\<And>e. P e \<Longrightarrow> eff_status e \<noteq> EffSucceeded"
    and keys: "distinct (map key_of_fence (fences d'))"
    and fen: "\<And>f'. f' \<in> set (fences d') \<Longrightarrow> fen_status f' \<noteq> EffFailed
      \<and> (\<exists>f\<in>set (fences d). (\<forall>e. fence_of_effect f' e \<longleftrightarrow> fence_of_effect f e)
          \<and> (fen_status f' = EffSucceeded \<longrightarrow> fen_status f = EffSucceeded
              \<or> status = EffSucceeded \<and> (\<forall>e. fence_of_effect f e \<longrightarrow> e \<in> set (effects d) \<longrightarrow> P e)))"
    and states: "\<And>x w. state_exists d' x w = state_exists d x w"
  shows "effects_ok d'"
proof -
  have "map effect_key (effects d') = map effect_key (effects d)"
    unfolding eff by (rule map_update_where) simp
  then have "distinct (map effect_key (effects d'))" using ok by (simp add: effects_ok_def)
  moreover have "fen_status f' \<noteq> EffFailed \<and> has_receipt d' f'" if f': "f' \<in> set (fences d')" for f'
  proof
    show "fen_status f' \<noteq> EffFailed" using fen f' by blast
    obtain f where f: "f \<in> set (fences d)" "\<forall>e. fence_of_effect f' e \<longleftrightarrow> fence_of_effect f e"
      "fen_status f' = EffSucceeded \<longrightarrow> fen_status f = EffSucceeded
              \<or> status = EffSucceeded \<and> (\<forall>e. fence_of_effect f e \<longrightarrow> e \<in> set (effects d) \<longrightarrow> P e)"
      using fen f' by blast
    then obtain e where e: "e \<in> set (effects d)" "fence_of_effect f e" "eff_kind e = tracker_submission"
      "fen_status f = EffSucceeded \<longrightarrow> eff_status e = EffSucceeded"
      using ok by (auto simp: effects_ok_def has_receipt_def)
    define e' where "e' = (if P e then settle_effect status t u e else e)"
    have "e' \<in> set (effects d')" using e(1) by (auto simp: eff in_update_where e'_def)
    moreover have "fence_of_effect f' e'" "eff_kind e' = tracker_submission" using e f(2) by (simp_all add: e'_def)
    moreover have "fen_status f' = EffSucceeded \<longrightarrow> eff_status e' = EffSucceeded"
      using f(3) e unsettled by (auto simp: e'_def)
    ultimately show "has_receipt d' f'" by (auto simp: has_receipt_def)
  qed
  moreover have "state_exists d' (eff_owner e) (eff_workflow e)" if "e \<in> set (effects d')" for e
    using that ok by (auto simp: eff in_update_where states effects_ok_def)
  ultimately show ?thesis using keys by (simp add: effects_ok_def)
qed

subsection \<open>What committed operations did\<close>

lemma insert_effect_committed:
  assumes "insert_effect r d = Inr d'"
  shows "d' = d\<lparr>effects := effects d @ [r\<lparr>eff_status := EffStarted, eff_completed_at := None, eff_submission := None\<rparr>]\<rparr>"
    "effect_key r \<notin> effect_key ` set (effects d)" "state_exists d (eff_owner r) (eff_workflow r)"
  using assms by (auto simp: insert_effect_def effect_key_def split: if_splits)

definition admitted_fence :: "fence_authority \<Rightarrow> effect_record \<Rightarrow> fence_record" where
  "admitted_fence a r = \<lparr>fen_content = fa_content a, fen_site = fa_site a, fen_owner = eff_owner r,
     fen_workflow = eff_workflow r, fen_operation = eff_operation r, fen_effect = eff_id r, fen_status = EffStarted,
     fen_started_at = eff_started_at r, fen_updated_at = eff_updated_at r, fen_confirmed_at = None\<rparr>"

lemma insert_fence_committed:
  assumes "insert_fence a r d = Inr d'"
  shows "d' = d\<lparr>fences := fences d @ [admitted_fence a r]\<rparr>"
    "key_of_fence (admitted_fence a r) \<notin> key_of_fence ` set (fences d)"
  using assms by (auto simp: insert_fence_def admitted_fence_def Let_def split: if_splits)

lemma begin_body_committed:
  assumes "begin_body c r d = Inr ((r', idempotent), d')"
  shows "require_workflow_input_mutation c d (eff_owner r) (eff_workflow r) False = None"
    "require_config_activation_generation c d = None"
    "if idempotent then d' = d \<and> load_latest_effect d (eff_owner r) (eff_workflow r) (eff_kind r) (eff_scope r) = Some r'
        \<and> eff_status r' = EffSucceeded \<and> eff_fingerprint r' = eff_fingerprint r
     else insert_effect r d = Inr d' \<and> r' = r\<lparr>eff_status := EffStarted\<rparr>
        \<and> (\<forall>p. load_latest_effect d (eff_owner r) (eff_workflow r) (eff_kind r) (eff_scope r) = Some p
              \<longrightarrow> \<not> effect_unresolved p)"
  using assms
  by (auto simp: begin_body_def Let_def effect_unresolved_def split: option.splits sum.splits if_splits)

lemma begin_fence_body_committed:
  assumes "begin_fence_body digest c a r d = Inr ((r', idempotent), d')"
  shows "require_workflow_input_mutation c d (eff_owner r) (eff_workflow r) False = None"
    "require_config_activation_generation c d = None"
    "require_active_input_fence d (eff_owner r) (eff_workflow r) (fa_coordinator a) (fa_fence a) (eff_updated_at r) = None"
    "if idempotent then d' = d \<and> (\<exists>p. load_submission_fence_row digest d (fa_content a) (fa_site a) = Inr p
        \<and> fen_status p = EffSucceeded)
     else load_submission_fence_row digest d (fa_content a) (fa_site a) = Inl FenceNotFound
        \<and> r' = r\<lparr>eff_status := EffStarted\<rparr>
        \<and> (\<exists>d1. insert_fence a r d = Inr d1 \<and> insert_effect r d1 = Inr d')"
  using assms
  by (auto simp: begin_fence_body_def split: option.splits sum.splits if_splits)

lemma begin_committed_cases:
  assumes "begin_release_workflow_effect digest c r d = (Inr (r', idempotent), d')"
  obtains (unfenced) "eff_submission r = None" "begin_body c r d = Inr ((r', idempotent), d')"
  | (fenced) a where "eff_submission r = Some a" "eff_kind r = tracker_submission" "validate_authority digest a = None"
      "begin_fence_body digest c (a\<lparr>fa_site := trim_space (fa_site a)\<rparr>) r d = Inr ((r', idempotent), d')"
  using assms
  by (auto simp: begin_release_workflow_effect_def begin_submission_fence_def with_write_tx_commit validate_effect_record_def
      split: option.splits if_splits)

lemma begin_error: "begin_release_workflow_effect digest c r d = (Inl e, d') \<Longrightarrow> d' = d"
  by (auto simp: begin_release_workflow_effect_def begin_submission_fence_def dest: with_write_tx_error split: option.splits)

lemma complete_effect_tx_committed:
  assumes "complete_effect_tx status r completed d = Inr (u, d')"
  shows "d' = d\<lparr>effects := update_where (\<lambda>e. exact_effect (eff_owner r) (eff_workflow r) (eff_operation r) (eff_id r) e
       \<and> (eff_status e = EffStarted \<or> eff_status e = (if status = EffSucceeded \<and> eff_submission r = None then EffUnknown else EffStarted)))
      (settle_effect status (eff_updated_at r) completed) (effects d)\<rparr>"
    "\<exists>e\<in>set (effects d). exact_effect (eff_owner r) (eff_workflow r) (eff_operation r) (eff_id r) e
       \<and> (eff_status e = EffStarted \<or> eff_status e = (if status = EffSucceeded \<and> eff_submission r = None then EffUnknown else EffStarted))"
  using assms by (auto simp: complete_effect_tx_def Let_def split: if_splits dest!: count_where_positive [of _ _ 0, simplified])

lemma complete_committed_cases:
  assumes "complete_release_workflow_effect digest c status r d = (Inr u, d')"
  obtains (unfenced) completed where "eff_submission r = None" "eff_completed_at r = Some completed"
      "status = EffSucceeded \<or> status = EffFailed"
      "require_workflow_input_mutation c d (eff_owner r) (eff_workflow r) True = None"
      "complete_effect_tx status (r\<lparr>eff_status := status\<rparr>) completed d = Inr (u, d')"
  | (fenced) a completed where "eff_submission r = Some a" "eff_completed_at r = Some completed"
      "status = EffSucceeded \<or> status = EffFailed"
      "complete_fence_body c status (a\<lparr>fa_site := trim_space (fa_site a)\<rparr>) (r\<lparr>eff_status := status\<rparr>) completed d = Inr (u, d')"
  using assms
  by (auto simp: complete_release_workflow_effect_def with_write_tx_commit Let_def split: option.splits if_splits)

lemma complete_error: "complete_release_workflow_effect digest c status r d = (Inl e, d') \<Longrightarrow> d' = d"
  by (auto simp: complete_release_workflow_effect_def Let_def dest: with_write_tx_error split: option.splits if_splits)

definition completed_target :: "fence_authority \<Rightarrow> effect_record \<Rightarrow> fence_record \<Rightarrow> bool" where
  "completed_target a r f \<longleftrightarrow> key_of_fence f = fence_key (fa_content a) (fa_site a)
     \<and> exact_fence (eff_owner r) (eff_workflow r) (eff_operation r) (eff_id r) f \<and> fen_status f = EffStarted"

definition confirm_fence :: "effect_record \<Rightarrow> time \<Rightarrow> fence_record \<Rightarrow> fence_record" where
  "confirm_fence r completed f = f\<lparr>fen_status := EffSucceeded, fen_updated_at := eff_updated_at r, fen_confirmed_at := Some completed\<rparr>"

definition fences_after_completion ::
    "effect_status \<Rightarrow> fence_authority \<Rightarrow> effect_record \<Rightarrow> time \<Rightarrow> fence_record list \<Rightarrow> fence_record list" where
  "fences_after_completion status a r completed fs =
     (if status = EffSucceeded then update_where (completed_target a r) (confirm_fence r completed) fs
      else delete_where (completed_target a r) fs)"

lemma complete_fence_body_committed:
  assumes "complete_fence_body c status a r completed d = Inr (u, d')"
  shows "require_workflow_input_mutation c d (eff_owner r) (eff_workflow r) True = None"
    "require_active_input_fence d (eff_owner r) (eff_workflow r) (fa_coordinator a) (fa_fence a) (eff_updated_at r) = None"
    "\<exists>f\<in>set (fences d). completed_target a r f"
    "complete_effect_tx status r completed (d\<lparr>fences := fences_after_completion status a r completed (fences d)\<rparr>) = Inr (u, d')"
  using assms
  by (auto simp: complete_fence_body_def Let_def fences_after_completion_def completed_target_def [abs_def] confirm_fence_def [abs_def]
      split: option.splits if_splits dest!: count_where_positive [of _ _ 0, simplified])

subsection \<open>Every operation keeps the rows consistent\<close>

lemma state_exists_frame [simp]:
  "state_exists (d\<lparr>effects := es\<rparr>) x w = state_exists d x w" "state_exists (d\<lparr>fences := fs\<rparr>) x w = state_exists d x w"
  "state_exists (d\<lparr>slot := s\<rparr>) x w = state_exists d x w"
  by (simp_all add: state_exists_def)

lemma insert_effect_ok:
  assumes "insert_effect r d = Inr d'" and "effects_ok d"
  shows "effects_ok d'"
proof -
  note i = insert_effect_committed [OF assms(1)]
  have "has_receipt d' f" if "has_receipt d f" for f
    using that by (auto simp: i(1) has_receipt_def)
  then show ?thesis
    using assms(2) i(2,3) by (auto simp: effects_ok_def i(1) effect_key_def)
qed

lemma begin_fence_ok:
  assumes "insert_fence a r d = Inr d1" and "insert_effect r d1 = Inr d'" and "eff_kind r = tracker_submission"
    and "effects_ok d"
  shows "effects_ok d'"
proof -
  note f = insert_fence_committed [OF assms(1)] and e = insert_effect_committed [OF assms(2)]
  have "has_receipt d' (admitted_fence a r)"
    by (auto simp: e(1) has_receipt_def fence_of_effect_def admitted_fence_def assms(3))
  moreover have "has_receipt d' g" if "has_receipt d g" for g
    using that by (auto simp: e(1) f(1) has_receipt_def)
  ultimately show ?thesis
    using assms(4) f(2) e(2,3) by (auto simp: effects_ok_def f(1) e(1) effect_key_def admitted_fence_def)
qed

lemma begin_ok: "effects_ok d \<Longrightarrow> effects_ok (snd (begin_release_workflow_effect digest c r d))"
proof (cases "begin_release_workflow_effect digest c r d")
  case (Pair a d')
  assume ok: "effects_ok d"
  show ?thesis
  proof (cases a)
    case (Inl e)
    then show ?thesis using Pair ok begin_error by (metis snd_conv)
  next
    case (Inr b)
    then obtain r' i where "begin_release_workflow_effect digest c r d = (Inr (r', i), d')"
      using Pair by (cases b) auto
    then have "effects_ok d'"
    proof (cases rule: begin_committed_cases)
      case unfenced
      then show ?thesis using begin_body_committed(3) [OF unfenced(2)] ok insert_effect_ok by (auto split: if_splits)
    next
      case (fenced au)
      then show ?thesis using begin_fence_body_committed(4) [OF fenced(4)] ok begin_fence_ok by (auto split: if_splits)
    qed
    then show ?thesis using Pair by simp
  qed
qed

lemma complete_effect_tx_ok:
  assumes "complete_effect_tx status r completed d = Inr (u, d')" and "effects_ok d"
    and "status = EffSucceeded \<or> status = EffFailed"
  shows "effects_ok d'"
proof (rule effects_ok_settle [OF assms(2)])
  show "effects d' = update_where (\<lambda>e. exact_effect (eff_owner r) (eff_workflow r) (eff_operation r) (eff_id r) e
       \<and> (eff_status e = EffStarted \<or> eff_status e = (if status = EffSucceeded \<and> eff_submission r = None then EffUnknown else EffStarted)))
      (settle_effect status (eff_updated_at r) completed) (effects d)"
    using complete_effect_tx_committed(1) [OF assms(1)] by simp
  show "distinct (map key_of_fence (fences d'))"
    using assms(2) complete_effect_tx_committed(1) [OF assms(1)] by (simp add: effects_ok_def)
  show "fen_status f' \<noteq> EffFailed \<and> (\<exists>f\<in>set (fences d). (\<forall>e. fence_of_effect f' e \<longleftrightarrow> fence_of_effect f e)
          \<and> (fen_status f' = EffSucceeded \<longrightarrow> fen_status f = EffSucceeded
              \<or> status = EffSucceeded \<and> (\<forall>e. fence_of_effect f e \<longrightarrow> e \<in> set (effects d) \<longrightarrow>
                  exact_effect (eff_owner r) (eff_workflow r) (eff_operation r) (eff_id r) e
       \<and> (eff_status e = EffStarted \<or> eff_status e = (if status = EffSucceeded \<and> eff_submission r = None then EffUnknown else EffStarted)))))"
    if "f' \<in> set (fences d')" for f'
    using that assms(2) complete_effect_tx_committed(1) [OF assms(1)] by (auto simp: effects_ok_def)
qed (use complete_effect_tx_committed(1) [OF assms(1)] in \<open>auto split: if_splits\<close>)

lemma confirm_fence_simps [simp]:
  "key_of_fence (confirm_fence r t f) = key_of_fence f" "fen_status (confirm_fence r t f) = EffSucceeded"
  "fence_of_effect (confirm_fence r t f) e = fence_of_effect f e"
  by (simp_all add: confirm_fence_def key_of_fence_def fence_of_effect_def)

lemma distinct_keys_after_completion:
  "distinct (map key_of_fence fs) \<Longrightarrow> distinct (map key_of_fence (fences_after_completion status a r completed fs))"
  using map_update_where [of fs "completed_target a r" key_of_fence "confirm_fence r completed"]
  by (simp add: fences_after_completion_def distinct_map_delete_where)

lemma complete_fence_ok:
  assumes "complete_fence_body c status a r completed d = Inr (u, d')" and "effects_ok d"
    and status: "status = EffSucceeded \<or> status = EffFailed" and sub: "eff_submission r \<noteq> None"
  shows "effects_ok d'"
proof -
  define P where "P = (\<lambda>e. exact_effect (eff_owner r) (eff_workflow r) (eff_operation r) (eff_id r) e \<and> eff_status e = EffStarted)"
  define d1 where "d1 = d\<lparr>fences := fences_after_completion status a r completed (fences d)\<rparr>"
  have tx: "complete_effect_tx status r completed d1 = Inr (u, d')"
    using complete_fence_body_committed(4) [OF assms(1)] by (simp add: d1_def)
  have eff: "d' = d1\<lparr>effects := update_where P (settle_effect status (eff_updated_at r) completed) (effects d)\<rparr>"
    using complete_effect_tx_committed(1) [OF tx] sub by (auto simp: d1_def P_def)
  obtain e0 where e0: "e0 \<in> set (effects d)" "P e0"
    using complete_effect_tx_committed(2) [OF tx] sub by (auto simp: d1_def P_def)
  have exact: "P e" if "completed_target a r f" "fence_of_effect f e" "e \<in> set (effects d)" for f e
  proof -
    have "effect_key e = effect_key e0"
      using that e0(2) by (simp add: completed_target_def fence_of_effect_def exact_fence_def P_def exact_effect_def effect_key_def)
    then have "e = e0" using assms(2) that(3) e0(1) by (auto simp: effects_ok_def dest: distinct_map_eq)
    then show ?thesis using e0 by simp
  qed
  show ?thesis
  proof (rule effects_ok_settle [OF assms(2)])
    show "effects d' = update_where P (settle_effect status (eff_updated_at r) completed) (effects d)"
      by (simp add: eff)
    show "distinct (map key_of_fence (fences d'))"
      using assms(2) distinct_keys_after_completion by (simp add: eff d1_def effects_ok_def)
    show "fen_status f' \<noteq> EffFailed \<and> (\<exists>f\<in>set (fences d). (\<forall>e. fence_of_effect f' e \<longleftrightarrow> fence_of_effect f e)
          \<and> (fen_status f' = EffSucceeded \<longrightarrow> fen_status f = EffSucceeded
              \<or> status = EffSucceeded \<and> (\<forall>e. fence_of_effect f e \<longrightarrow> e \<in> set (effects d) \<longrightarrow> P e)))"
      if f': "f' \<in> set (fences d')" for f'
    proof (cases "status = EffSucceeded")
      case True
      then obtain f where f: "f \<in> set (fences d)" "f' = (if completed_target a r f then confirm_fence r completed f else f)"
        using f' by (auto simp: eff d1_def fences_after_completion_def in_update_where)
      have "fen_status f' \<noteq> EffFailed" using f assms(2) by (simp add: effects_ok_def)
      moreover have "\<forall>e. fence_of_effect f' e \<longleftrightarrow> fence_of_effect f e" using f(2) by simp
      moreover have "fen_status f' = EffSucceeded \<longrightarrow> fen_status f = EffSucceeded
          \<or> status = EffSucceeded \<and> (\<forall>e. fence_of_effect f e \<longrightarrow> e \<in> set (effects d) \<longrightarrow> P e)"
        using True f(2) exact by auto
      ultimately show ?thesis using f(1) by blast
    next
      case False
      then have "f' \<in> set (fences d)" using f' by (simp add: eff d1_def fences_after_completion_def)
      then show ?thesis using assms(2) by (auto simp: effects_ok_def)
    qed
  qed (auto simp: P_def eff d1_def)
qed

lemma complete_ok: "effects_ok d \<Longrightarrow> effects_ok (snd (complete_release_workflow_effect digest c status r d))"
proof (cases "complete_release_workflow_effect digest c status r d")
  case (Pair a d')
  assume ok: "effects_ok d"
  show ?thesis
  proof (cases a)
    case (Inl e)
    then show ?thesis using Pair ok complete_error by (metis snd_conv)
  next
    case (Inr u)
    then have "complete_release_workflow_effect digest c status r d = (Inr u, d')" using Pair by simp
    then have "effects_ok d'"
    proof (cases rule: complete_committed_cases)
      case (unfenced completed)
      then show ?thesis using complete_effect_tx_ok ok by blast
    next
      case (fenced au completed)
      then show ?thesis using complete_fence_ok [OF fenced(4) ok fenced(3)] by simp
    qed
    then show ?thesis using Pair by simp
  qed
qed

text \<open>Interruption: the fences and effects a condition selects turn from started to unknown.\<close>

definition interrupt :: "(fence_record \<Rightarrow> bool) \<Rightarrow> (effect_record \<Rightarrow> bool) \<Rightarrow> time \<Rightarrow> db \<Rightarrow> db" where
  "interrupt F E now d = d\<lparr>
     fences := update_where (\<lambda>f. F f \<and> fen_status f = EffStarted)
       (\<lambda>f. f\<lparr>fen_status := EffUnknown, fen_updated_at := now\<rparr>) (fences d),
     effects := update_where (\<lambda>e. E e \<and> eff_status e = EffStarted) (settle_effect EffUnknown now now) (effects d)\<rparr>"

lemma interrupt_fence_simps [simp]:
  "key_of_fence (f\<lparr>fen_status := st, fen_updated_at := now\<rparr>) = key_of_fence f"
  "fence_of_effect (f\<lparr>fen_status := st, fen_updated_at := now\<rparr>) e = fence_of_effect f e"
  by (simp_all add: key_of_fence_def fence_of_effect_def)

lemma interrupt_ok: "effects_ok d \<Longrightarrow> effects_ok (interrupt F E now d)"
proof -
  assume ok: "effects_ok d"
  have "map key_of_fence (fences (interrupt F E now d)) = map key_of_fence (fences d)"
    unfolding interrupt_def by (simp add: map_update_where)
  show ?thesis
  proof (rule effects_ok_settle [OF ok])
    show "effects (interrupt F E now d) =
        update_where (\<lambda>e. E e \<and> eff_status e = EffStarted) (settle_effect EffUnknown now now) (effects d)"
      by (simp add: interrupt_def)
    show "distinct (map key_of_fence (fences (interrupt F E now d)))"
      using ok \<open>map key_of_fence (fences (interrupt F E now d)) = map key_of_fence (fences d)\<close>
      by (simp add: effects_ok_def)
    show "fen_status f' \<noteq> EffFailed \<and> (\<exists>f\<in>set (fences d). (\<forall>e. fence_of_effect f' e \<longleftrightarrow> fence_of_effect f e)
          \<and> (fen_status f' = EffSucceeded \<longrightarrow> fen_status f = EffSucceeded
              \<or> EffUnknown = EffSucceeded \<and> (\<forall>e. fence_of_effect f e \<longrightarrow> e \<in> set (effects d) \<longrightarrow> E e \<and> eff_status e = EffStarted)))"
      if member: "f' \<in> set (fences (interrupt F E now d))" for f'
    proof -
      obtain f where f: "f \<in> set (fences d)"
        "f' = (if F f \<and> fen_status f = EffStarted then f\<lparr>fen_status := EffUnknown, fen_updated_at := now\<rparr> else f)"
        using member by (auto simp: interrupt_def in_update_where)
      then have "fen_status f' \<noteq> EffFailed" "\<forall>e. fence_of_effect f' e \<longleftrightarrow> fence_of_effect f e"
        "fen_status f' = EffSucceeded \<longrightarrow> fen_status f = EffSucceeded"
        using ok by (cases "F f \<and> fen_status f = EffStarted"; force simp: effects_ok_def)+
      then show ?thesis using f(1) by blast
    qed
  qed (auto simp: interrupt_def state_exists_def)
qed

lemma mark_effects_unknown_interrupt:
  "mark_effects_unknown_tx owner workflow operation now d =
     interrupt (\<lambda>f. fen_owner f = trim_space owner \<and> fen_workflow f = workflow \<and> fen_operation f = operation)
       (\<lambda>e. eff_owner e = trim_space owner \<and> eff_workflow e = workflow \<and> eff_operation e = operation) now d"
  by (simp add: mark_effects_unknown_tx_def interrupt_def)

lemma mark_committed:
  assumes "mark_operation_effects_unknown c owner workflow operation now d = (Inr u, d')"
  shows "require_workflow_input_mutation c d owner workflow True = None"
    "d' = mark_effects_unknown_tx owner workflow operation now d"
  using assms by (auto simp: mark_operation_effects_unknown_def with_write_tx_commit split: if_splits option.splits)

lemma mark_error: "mark_operation_effects_unknown c owner workflow operation now d = (Inl e, d') \<Longrightarrow> d' = d"
  by (auto simp: mark_operation_effects_unknown_def dest: with_write_tx_error split: if_splits)

lemma mark_ok: "effects_ok d \<Longrightarrow> effects_ok (snd (mark_operation_effects_unknown c owner workflow operation now d))"
  by (cases "mark_operation_effects_unknown c owner workflow operation now d"; cases "fst (mark_operation_effects_unknown c owner workflow operation now d)")
    (auto dest!: mark_error mark_committed(2) simp: mark_effects_unknown_interrupt interrupt_ok)

lemma recover_committed:
  assumes "recover_legacy_effects c owner workflow now d = (Inr es, d')"
  shows "require_legacy_input_recovery c d (trim_space owner) workflow = None"
    "d' = interrupt (\<lambda>f. fen_owner f = trim_space owner \<and> fen_workflow f = workflow)
       (\<lambda>e. eff_owner e = trim_space owner \<and> eff_workflow e = workflow) now d"
    "es = order_by (row_before eff_started_at eff_id)
       (filter (\<lambda>e. eff_owner e = trim_space owner \<and> eff_workflow e = workflow \<and> eff_status e = EffUnknown) (effects d'))"
  using assms
  by (auto simp: recover_legacy_effects_def with_write_tx_commit Let_def interrupt_def conj_assoc split: if_splits option.splits)

lemma recover_error: "recover_legacy_effects c owner workflow now d = (Inl e, d') \<Longrightarrow> d' = d"
  by (auto simp: recover_legacy_effects_def Let_def dest: with_write_tx_error split: if_splits)

lemma recover_ok: "effects_ok d \<Longrightarrow> effects_ok (snd (recover_legacy_effects c owner workflow now d))"
  by (cases "recover_legacy_effects c owner workflow now d"; cases "fst (recover_legacy_effects c owner workflow now d)")
    (auto dest!: recover_error recover_committed(2) simp: interrupt_ok)

definition resolved_db :: "string \<Rightarrow> string \<Rightarrow> effect_record \<Rightarrow> time \<Rightarrow> db \<Rightarrow> db" where
  "resolved_db owner workflow l now d = d\<lparr>
     fences := delete_where (\<lambda>f. exact_fence owner workflow (eff_operation l) (eff_id l) f
       \<and> fen_status f = EffUnknown) (fences d),
     effects := update_where (\<lambda>e. exact_effect owner workflow (eff_operation l) (eff_id l) e
       \<and> eff_status e = EffUnknown) (settle_effect EffFailed now now) (effects d)\<rparr>"

lemma resolve_committed:
  assumes "resolve_effect_unknown_tx c owner workflow kind scope now expected d = Inr (u, d')"
  shows "require_workflow_input_mutation c d (trim_space owner) workflow True = None"
    "\<exists>l. load_latest_effect d (trim_space owner) workflow kind (trim_space scope) = Some l
       \<and> (kind = tracker_submission \<longrightarrow> length expected = 1 \<and> rc_effect (hd expected) = eff_id l
            \<and> rc_operation (hd expected) = eff_operation l
            \<and> (\<exists>s us. load_workflow_state d (trim_space owner) workflow = Inr s \<and> pl_uploads (ws_payload s) = Some us
                  \<and> (\<forall>r\<in>set us. \<not> confirms_submission r l)))
       \<and> (eff_status l = EffFailed \<and> d' = d
          \<or> eff_status l = EffUnknown \<and> d' = resolved_db (trim_space owner) workflow l now d)"
proof -
  show "require_workflow_input_mutation c d (trim_space owner) workflow True = None"
    using assms by (auto simp: resolve_effect_unknown_tx_def Let_def split: if_splits option.splits)
  obtain l where l: "load_latest_effect d (trim_space owner) workflow kind (trim_space scope) = Some l"
    using assms by (auto simp: resolve_effect_unknown_tx_def Let_def split: if_splits option.splits)
  have evidence: "kind = tracker_submission \<longrightarrow> length expected = 1 \<and> rc_effect (hd expected) = eff_id l
            \<and> rc_operation (hd expected) = eff_operation l
            \<and> (\<exists>s us. load_workflow_state d (trim_space owner) workflow = Inr s \<and> pl_uploads (ws_payload s) = Some us
                  \<and> (\<forall>r\<in>set us. \<not> confirms_submission r l))"
    using assms l by (auto simp: resolve_effect_unknown_tx_def Let_def split: if_splits option.splits sum.splits)
  have outcome: "eff_status l = EffFailed \<and> d' = d
          \<or> eff_status l = EffUnknown \<and> d' = resolved_db (trim_space owner) workflow l now d"
    using assms l by (cases "eff_status l") (auto simp: resolve_effect_unknown_tx_def resolved_db_def Let_def split: if_splits option.splits sum.splits)
  show "\<exists>l. load_latest_effect d (trim_space owner) workflow kind (trim_space scope) = Some l
       \<and> (kind = tracker_submission \<longrightarrow> length expected = 1 \<and> rc_effect (hd expected) = eff_id l
            \<and> rc_operation (hd expected) = eff_operation l
            \<and> (\<exists>s us. load_workflow_state d (trim_space owner) workflow = Inr s \<and> pl_uploads (ws_payload s) = Some us
                  \<and> (\<forall>r\<in>set us. \<not> confirms_submission r l)))
       \<and> (eff_status l = EffFailed \<and> d' = d
          \<or> eff_status l = EffUnknown \<and> d' = resolved_db (trim_space owner) workflow l now d)"
    using l evidence outcome by blast
qed

lemma resolve_tx_ok:
  assumes "resolve_effect_unknown_tx c owner workflow kind scope now expected d = Inr (u, d')" and "effects_ok d"
  shows "effects_ok d'"
proof -
  obtain l where "d' = d \<or> d' = resolved_db (trim_space owner) workflow l now d"
    using resolve_committed(2) [OF assms(1)] by metis
  then show ?thesis
  proof
    assume *: "d' = resolved_db (trim_space owner) workflow l now d"
    show ?thesis
      by (rule effects_ok_settle [OF assms(2), where status = EffFailed and t = now and u = now
            and P = "\<lambda>e. exact_effect (trim_space owner) workflow (eff_operation l) (eff_id l) e \<and> eff_status e = EffUnknown"])
        (use assms(2) * in \<open>auto simp: resolved_db_def effects_ok_def distinct_map_delete_where\<close>)
  qed (use assms(2) in simp)
qed

lemma resolve_ok: "effects_ok d \<Longrightarrow> effects_ok (snd (resolve_effect_unknown c owner workflow kind scope now expected d))"
  unfolding resolve_effect_unknown_def by (rule with_write_tx_inv) (auto dest: resolve_tx_ok)

subsection \<open>The life of a fence\<close>

definition fence_status_at :: "db \<Rightarrow> string \<times> string \<times> string \<Rightarrow> effect_status option" where
  "fence_status_at d k = map_option fen_status (List.find (\<lambda>f. key_of_fence f = k) (fences d))"

subsection \<open>Samples\<close>

definition sample_content :: content_identity where
  "sample_content = sample_identity (\<lambda>_ _. ''d'') [''a'', ''b'']"

definition sample_authority :: fence_authority where
  "sample_authority = \<lparr>fa_content = sample_content, fa_site = ''site'', fa_coordinator = ''c1'', fa_fence = 1\<rparr>"

definition sample_effect :: "string \<Rightarrow> time \<Rightarrow> effect_record" where
  "sample_effect i t = \<lparr>eff_owner = ''owner'', eff_workflow = ''w1'', eff_operation = ''op1'', eff_id = i,
     eff_kind = tracker_submission, eff_scope = ''trk'', eff_fingerprint = ''fp'', eff_status = EffStarted,
     eff_started_at = t, eff_updated_at = t, eff_completed_at = None, eff_submission = None\<rparr>"

definition sample_submission :: "string \<Rightarrow> effect_record" where
  "sample_submission i = (sample_effect i 10)\<lparr>eff_completed_at := Some 12, eff_submission := Some sample_authority\<rparr>"

definition sample_state :: state_record where
  "sample_state = \<lparr>ws_owner = ''owner'', ws_id = ''w1'', ws_revision = 1, ws_status = WfActive, ws_creation_key = [],
     ws_creation_fingerprint = [], ws_payload = \<lparr>pl_bytes = ''{}'', pl_uploads = Some [], pl_hdr = None\<rparr>,
     ws_created_at = 1, ws_updated_at = 1, ws_description_valid = None, ws_resolution = None\<rparr>"

definition sample_db :: "effect_record list \<Rightarrow> fence_record list \<Rightarrow> db" where
  "sample_db es fs = empty_db\<lparr>slot := active_slot, states := [sample_state], effects := es, fences := fs\<rparr>"

definition sample_fence :: "effect_status \<Rightarrow> fence_record" where
  "sample_fence st = (admitted_fence sample_authority (sample_submission ''e1''))\<lparr>fen_status := st\<rparr>"

lemma sample_authority_valid [simp]: "validate_authority (\<lambda>_ _. ''d'') sample_authority = None"
  by code_simp

lemma sample_lookup_valid [simp]: "validate_submission_fence_lookup (\<lambda>_ _. ''d'') sample_content ''site'' = None"
  by code_simp

lemma sample_blanks [simp]: "\<not> blank ''owner''" "\<not> blank ''w1''" "\<not> blank tracker_submission" "\<not> blank ''trk''"
  "\<not> blank ''e1''" "\<not> blank ''e2''" "trim_space ''site'' = ''site''" "trim_space ''owner'' = ''owner''" "trim_space ''trk'' = ''trk''"
  by code_simp+

lemmas effect_runs = sample_db_def sample_effect_def sample_submission_def sample_fence_def sample_state_def
  admitted_fence_def empty_db_def active_slot_def empty_slot_def quiet_ctx_def with_write_tx_def
  require_config_activation_generation_def require_workflow_input_mutation_def require_active_input_fence_def
  key_of_fence_def fence_key_def exact_effect_def exact_fence_def count_where_def update_where_def delete_where_def
  settle_effect_def state_exists_def load_submission_fence_row_def

lemma sample_authority_fields [simp]:
  "fa_content sample_authority = sample_content" "fa_site sample_authority = ''site''"
  "fa_coordinator sample_authority = ''c1''" "fa_fence sample_authority = 1"
  "sample_authority\<lparr>fa_site := ''site''\<rparr> = sample_authority"
  by (simp_all add: sample_authority_def)

lemma sample_begin:
  "begin_release_workflow_effect (\<lambda>_ _. ''d'') quiet_ctx (sample_submission ''e1'') (sample_db [] [])
     = (Inr (sample_submission ''e1'', False), sample_db [sample_effect ''e1'' 10] [sample_fence EffStarted])"
  by (simp add: begin_release_workflow_effect_def validate_effect_record_def begin_submission_fence_def begin_fence_body_def
      insert_fence_def insert_effect_def Let_def effect_runs)

lemma sample_complete:
  "complete_release_workflow_effect (\<lambda>_ _. ''d'') quiet_ctx EffSucceeded (sample_submission ''e1'')
     (sample_db [sample_effect ''e1'' 10] [sample_fence EffStarted])
   = (Inr (), sample_db [settle_effect EffSucceeded 10 12 (sample_effect ''e1'' 10)]
       [(sample_fence EffSucceeded)\<lparr>fen_confirmed_at := Some 12\<rparr>])"
  by (simp add: complete_release_workflow_effect_def validate_effect_record_def complete_fence_body_def complete_effect_tx_def
      Let_def effect_runs)

subsection \<open>Properties\<close>

lemma admitted_submission:
  assumes "begin_release_workflow_effect digest c r d = (Inr (r', False), d')" and "eff_submission r = Some a"
  shows "fence_status_at d (fence_key (fa_content a) (trim_space (fa_site a))) = None
    \<and> fence_status_at d' (fence_key (fa_content a) (trim_space (fa_site a))) = Some EffStarted
    \<and> slot_state (slot d) = AiActive \<and> slot_owner (slot d) = eff_owner r \<and> slot_workflow (slot d) = eff_workflow r
    \<and> slot_coordinator (slot d) = fa_coordinator a \<and> slot_fence (slot d) = fa_fence a
    \<and> eff_updated_at r < slot_lease_expires_at (slot d)
    \<and> d' = d\<lparr>fences := fences d @ [admitted_fence (a\<lparr>fa_site := trim_space (fa_site a)\<rparr>) r],
         effects := effects d @ [r\<lparr>eff_status := EffStarted, eff_completed_at := None, eff_submission := None\<rparr>]\<rparr>"
  using assms(1)
proof (cases rule: begin_committed_cases)
  case unfenced
  then show ?thesis using assms(2) by simp
next
  case (fenced b)
  define a' where "a' = a\<lparr>fa_site := trim_space (fa_site a)\<rparr>"
  have body: "begin_fence_body digest c a' r d = Inr ((r', False), d')"
    using fenced(1,4) assms(2) by (simp add: a'_def)
  obtain d1 where d1: "insert_fence a' r d = Inr d1" "insert_effect r d1 = Inr d'"
    using begin_fence_body_committed(4) [OF body] by auto
  note f = insert_fence_committed [OF d1(1)] and e = insert_effect_committed [OF d1(2)]
  have key: "key_of_fence (admitted_fence a' r) = fence_key (fa_content a) (trim_space (fa_site a))"
    by (simp add: key_of_fence_def admitted_fence_def a'_def)
  have absent: "List.find (\<lambda>f. key_of_fence f = fence_key (fa_content a) (trim_space (fa_site a))) (fences d) = None"
    using f(2) by (auto simp: find_None key image_iff)
  then have "fence_status_at d (fence_key (fa_content a) (trim_space (fa_site a))) = None"
    by (simp add: fence_status_at_def)
  moreover have d': "d' = d\<lparr>fences := fences d @ [admitted_fence a' r],
         effects := effects d @ [r\<lparr>eff_status := EffStarted, eff_completed_at := None, eff_submission := None\<rparr>]\<rparr>"
    using e(1) f(1) by simp
  moreover have "fence_status_at d' (fence_key (fa_content a) (trim_space (fa_site a))) = Some EffStarted"
    using absent key by (simp add: fence_status_at_def d' find_append) (simp add: admitted_fence_def)
  moreover have "slot_state (slot d) = AiActive \<and> slot_owner (slot d) = eff_owner r \<and> slot_workflow (slot d) = eff_workflow r
    \<and> slot_coordinator (slot d) = fa_coordinator a \<and> slot_fence (slot d) = fa_fence a
    \<and> eff_updated_at r < slot_lease_expires_at (slot d)"
    using begin_fence_body_committed(3) [OF body]
    by (simp add: require_active_input_fence_def Let_def a'_def split: if_splits)
  ultimately show ?thesis by (simp add: a'_def)
qed

text \<open>C8: A tracker submission is admitted only when no fence exists for its content and site, the slot is
  active on its workflow under its exact coordinator and fence, and the lease is live; the commit adds
  exactly one started fence and one started receipt for it.\<close>

lemma submission_admission:
  assumes "begin_release_workflow_effect digest c r d = (Inr (r', False), d')" and "eff_submission r = Some a"
  shows "fence_status_at d (fence_key (fa_content a) (trim_space (fa_site a))) = None
    \<and> fence_status_at d' (fence_key (fa_content a) (trim_space (fa_site a))) = Some EffStarted
    \<and> slot_state (slot d) = AiActive \<and> slot_owner (slot d) = eff_owner r \<and> slot_workflow (slot d) = eff_workflow r
    \<and> slot_coordinator (slot d) = fa_coordinator a \<and> slot_fence (slot d) = fa_fence a
    \<and> eff_updated_at r < slot_lease_expires_at (slot d)
    \<and> d' = d\<lparr>fences := fences d @ [admitted_fence (a\<lparr>fa_site := trim_space (fa_site a)\<rparr>) r],
         effects := effects d @ [r\<lparr>eff_status := EffStarted, eff_completed_at := None, eff_submission := None\<rparr>]\<rparr>"
  using assms by (rule admitted_submission)

lemma submission_admission_witness:
  "fence_status_at (sample_db [] []) (fence_key sample_content ''site'') = None
   \<and> fence_status_at (sample_db [sample_effect ''e1'' 10] [sample_fence EffStarted]) (fence_key sample_content ''site'') = Some EffStarted"
proof -
  have "eff_submission (sample_submission ''e1'') = Some sample_authority" by (simp add: sample_submission_def)
  from submission_admission [OF sample_begin this] show ?thesis unfolding sample_authority_fields sample_blanks by blast
qed

lemma held_fence_begin:
  assumes "eff_submission r = Some a"
    and "fence_status_at d (fence_key (fa_content a) (trim_space (fa_site a))) = Some st"
  shows "snd (begin_release_workflow_effect digest c r d) = d
    \<and> (\<forall>r'. fst (begin_release_workflow_effect digest c r d) \<noteq> Inr (r', False))
    \<and> (st = EffSucceeded \<or> isl (fst (begin_release_workflow_effect digest c r d)))"
proof (cases "begin_release_workflow_effect digest c r d")
  case (Pair b d')
  show ?thesis
  proof (cases b)
    case (Inl e)
    then show ?thesis using Pair begin_error by fastforce
  next
    case (Inr p)
    then obtain r' i where p: "p = (r', i)" "begin_release_workflow_effect digest c r d = (Inr (r', i), d')"
      using Pair by (cases p) auto
    have "i" using admitted_submission [of digest c r d r' d' a] p(2) assms by (cases i) auto
    have "d' = d \<and> st = EffSucceeded"
      using p(2)
    proof (cases rule: begin_committed_cases)
      case unfenced
      then show ?thesis using assms(1) by simp
    next
      case (fenced a')
      then obtain q where "load_submission_fence_row digest d (fa_content a) (trim_space (fa_site a)) = Inr q"
        "fen_status q = EffSucceeded" "d' = d"
        using begin_fence_body_committed(4) [OF fenced(4)] \<open>i\<close> assms(1) by auto
      then show ?thesis
        using assms(2) by (auto simp: load_submission_fence_row_def fence_status_at_def split: option.splits)
    qed
    then show ?thesis using Inr p Pair \<open>i\<close> by simp
  qed
qed

text \<open>C7: A fence admits nothing while it exists: a begin for its content and site changes no row and never
  returns a new attempt, and it returns an error unless the fence has succeeded.\<close>

lemma held_fence_admits_nothing:
  assumes "eff_submission r = Some a"
    and "fence_status_at d (fence_key (fa_content a) (trim_space (fa_site a))) = Some st"
  shows "snd (begin_release_workflow_effect digest c r d) = d
    \<and> (\<forall>r'. fst (begin_release_workflow_effect digest c r d) \<noteq> Inr (r', False))
    \<and> (st = EffSucceeded \<or> isl (fst (begin_release_workflow_effect digest c r d)))"
  using held_fence_begin [OF assms] .

lemma held_fence_admits_nothing_witness:
  "\<forall>r'. fst (begin_release_workflow_effect (\<lambda>_ _. ''d'') quiet_ctx (sample_submission ''e2'')
     (sample_db [sample_effect ''e1'' 10] [sample_fence EffUnknown])) \<noteq> Inr (r', False)"
proof -
  have "eff_submission (sample_submission ''e2'') = Some sample_authority" by (simp add: sample_submission_def)
  moreover have "fence_status_at (sample_db [sample_effect ''e1'' 10] [sample_fence EffUnknown])
      (fence_key (fa_content sample_authority) (trim_space (fa_site sample_authority))) = Some EffUnknown"
    by (simp add: fence_status_at_def effect_runs)
  ultimately show ?thesis using held_fence_admits_nothing by blast
qed

lemma sample_db_ok: "effects_ok (sample_db [] [])" "effects_ok (sample_db [sample_effect ''e1'' 10] [sample_fence EffStarted])"
  by (simp_all add: effects_ok_def has_receipt_def fence_of_effect_def effect_runs)

text \<open>Every operation on effects keeps the rows consistent: effect and fence keys stay unique, no fence is
  failed, every effect has its workflow, and every fence has its submission receipt, which has
  succeeded if the fence has.\<close>

lemma effect_operations_keep_receipts:
  assumes "effects_ok d"
  shows "effects_ok (snd (begin_release_workflow_effect digest c r d))
    \<and> effects_ok (snd (complete_release_workflow_effect digest c status r d))
    \<and> effects_ok (snd (mark_operation_effects_unknown c owner workflow operation now d))
    \<and> effects_ok (snd (recover_legacy_effects c owner workflow now d))
    \<and> effects_ok (snd (resolve_effect_unknown c owner workflow kind scope now expected d))"
  by (intro conjI begin_ok complete_ok mark_ok recover_ok resolve_ok assms)

lemma effect_operations_keep_receipts_witness:
  "effects_ok (snd (complete_release_workflow_effect (\<lambda>_ _. ''d'') quiet_ctx EffSucceeded (sample_submission ''e1'')
     (sample_db [sample_effect ''e1'' 10] [sample_fence EffStarted])))"
  using effect_operations_keep_receipts [OF sample_db_ok(2)] by blast

text \<open>Completing a tracker submission needs the live slot it was admitted under and settles its fence and
  its receipt together: success leaves a succeeded fence, failure frees the content and site, and
  in both cases the receipt had been started and gets the status.\<close>

lemma submission_completion:
  assumes "complete_release_workflow_effect digest c status r d = (Inr u, d')" and "eff_submission r = Some a"
    and "effects_ok d"
  shows "fence_status_at d (fence_key (fa_content a) (trim_space (fa_site a))) = Some EffStarted
    \<and> fence_status_at d' (fence_key (fa_content a) (trim_space (fa_site a)))
        = (if status = EffSucceeded then Some EffSucceeded else None)
    \<and> slot_coordinator (slot d) = fa_coordinator a \<and> slot_fence (slot d) = fa_fence a
    \<and> eff_updated_at r < slot_lease_expires_at (slot d)
    \<and> (\<exists>e\<in>set (effects d). exact_effect (eff_owner r) (eff_workflow r) (eff_operation r) (eff_id r) e
         \<and> eff_status e = EffStarted)
    \<and> (\<exists>e\<in>set (effects d'). exact_effect (eff_owner r) (eff_workflow r) (eff_operation r) (eff_id r) e
         \<and> eff_status e = status)"
  using assms(1)
proof (cases rule: complete_committed_cases)
  case (unfenced completed)
  then show ?thesis using assms(2) by simp
next
  case (fenced b completed)
  define a' where "a' = a\<lparr>fa_site := trim_space (fa_site a)\<rparr>"
  define r' where "r' = r\<lparr>eff_status := status\<rparr>"
  define k where "k = fence_key (fa_content a) (trim_space (fa_site a))"
  define d1 where "d1 = d\<lparr>fences := fences_after_completion status a' r' completed (fences d)\<rparr>"
  have body: "complete_fence_body c status a' r' completed d = Inr (u, d')"
    using fenced(1,4) assms(2) by (simp add: a'_def r'_def)
  note b = complete_fence_body_committed [OF body]
  obtain f where f: "f \<in> set (fences d)" "completed_target a' r' f" using b(3) by blast
  have keyf: "key_of_fence f = k" "fen_status f = EffStarted"
    using f(2) by (simp_all add: completed_target_def a'_def k_def)
  have dk: "distinct (map key_of_fence (fences d))" using assms(3) by (simp add: effects_ok_def)
  then have find: "List.find (\<lambda>g. key_of_fence g = k) (fences d) = Some f" using f(1) keyf(1) by (simp add: find_in)
  have tx: "complete_effect_tx status r' completed d1 = Inr (u, d')" using b(4) by (simp add: d1_def)
  note e = complete_effect_tx_committed [OF tx]
  have fs: "fences d' = fences_after_completion status a' r' completed (fences d)" using e(1) by (simp add: d1_def)
  have "List.find (\<lambda>g. key_of_fence g = k) (fences d')
      = (if status = EffSucceeded then Some (confirm_fence r' completed f) else None)"
    using find f(2) find_delete_where [OF dk, of k "completed_target a' r'"]
      find_update_where [of key_of_fence "confirm_fence r' completed" k "completed_target a' r'" "fences d"]
    by (simp add: fs fences_after_completion_def)
  then have "fence_status_at d' k = (if status = EffSucceeded then Some EffSucceeded else None)"
    by (simp add: fence_status_at_def)
  moreover have "fence_status_at d k = Some EffStarted" using find keyf(2) by (simp add: fence_status_at_def)
  moreover have "slot_coordinator (slot d) = fa_coordinator a \<and> slot_fence (slot d) = fa_fence a
    \<and> eff_updated_at r < slot_lease_expires_at (slot d)"
    using b(2) by (simp add: require_active_input_fence_def Let_def a'_def r'_def split: if_splits)
  moreover obtain e0 where e0: "e0 \<in> set (effects d)"
    "exact_effect (eff_owner r) (eff_workflow r) (eff_operation r) (eff_id r) e0" "eff_status e0 = EffStarted"
    using e(2) assms(2) by (auto simp: d1_def r'_def)
  moreover have "settle_effect status (eff_updated_at r') completed e0 \<in> set (effects d')"
    using e(1) e0 assms(2) by (auto simp: d1_def r'_def in_update_where intro!: bexI [of _ e0])
  moreover have "exact_effect (eff_owner r) (eff_workflow r) (eff_operation r) (eff_id r)
      (settle_effect status (eff_updated_at r') completed e0)"
    using e0(2) by (simp add: exact_effect_def)
  ultimately show ?thesis unfolding k_def by fastforce
qed

lemma submission_completion_witness:
  "fence_status_at (sample_db [settle_effect EffSucceeded 10 12 (sample_effect ''e1'' 10)]
     [(sample_fence EffSucceeded)\<lparr>fen_confirmed_at := Some 12\<rparr>]) (fence_key sample_content ''site'') = Some EffSucceeded"
proof -
  have "eff_submission (sample_submission ''e1'') = Some sample_authority" by (simp add: sample_submission_def)
  from submission_completion [OF sample_complete this sample_db_ok(2)] show ?thesis
    unfolding sample_authority_fields sample_blanks by simp
qed

end
