(* ===== verification/Reconcile.thy ===== *)
theory Reconcile
  imports Effects
begin

text \<open>
  What remains of an attempt: settled receipts are final, interruption leaves nothing started,
  a resolution needs the exact unconfirmed attempt, and a new attempt waits for the latest one,
  where \<open>latest\<close> is the order of the stored texts.
\<close>

lemma update_where_untouched: "r \<in> set rows \<Longrightarrow> \<not> P r \<Longrightarrow> r \<in> set (update_where P f rows)"
  by (force simp: in_update_where)

lemma update_where_touched: "r \<in> set rows \<Longrightarrow> P r \<Longrightarrow> f r \<in> set (update_where P f rows)"
  by (force simp: in_update_where)

lemma update_where_cases:
  assumes "r \<in> set (update_where P f rows)"
  obtains (touched) q where "q \<in> set rows" "P q" "r = f q" | (untouched) "r \<in> set rows" "\<not> P r"
  using assms by (auto simp: in_update_where split: if_splits)

subsection \<open>Settled receipts\<close>

definition settled :: "effect_record \<Rightarrow> bool" where
  "settled e \<longleftrightarrow> eff_status e = EffSucceeded \<or> eff_status e = EffFailed"

definition keeps_settled :: "db \<Rightarrow> db \<Rightarrow> bool" where
  "keeps_settled d d' \<longleftrightarrow> (\<forall>e\<in>set (effects d). settled e \<longrightarrow> e \<in> set (effects d'))"

lemma keeps_settled_refl [simp]: "keeps_settled d d"
  by (simp add: keeps_settled_def)

lemma keeps_settled_update:
  "effects d' = update_where P f (effects d) \<Longrightarrow> (\<And>e. P e \<Longrightarrow> \<not> settled e) \<Longrightarrow> keeps_settled d d'"
  by (auto simp: keeps_settled_def in_update_where)

lemma keeps_settled_append: "effects d' = effects d @ es \<Longrightarrow> keeps_settled d d'"
  by (simp add: keeps_settled_def)

lemma begin_keeps_settled: "keeps_settled d (snd (begin_release_workflow_effect digest c r d))"
proof (cases "begin_release_workflow_effect digest c r d")
  case (Pair a d')
  show ?thesis
  proof (cases a)
    case (Inl e)
    then show ?thesis using Pair begin_error by fastforce
  next
    case (Inr b)
    then obtain r' i where "begin_release_workflow_effect digest c r d = (Inr (r', i), d')"
      using Pair by (cases b) auto
    then have "keeps_settled d d'"
    proof (cases rule: begin_committed_cases)
      case unfenced
      then show ?thesis using begin_body_committed(3) [OF unfenced(2)]
        by (auto dest!: insert_effect_committed(1) intro: keeps_settled_append split: if_splits)
    next
      case (fenced au)
      then show ?thesis using begin_fence_body_committed(4) [OF fenced(4)]
        by (auto dest!: insert_fence_committed(1) insert_effect_committed(1) intro: keeps_settled_append split: if_splits)
    qed
    then show ?thesis using Pair by simp
  qed
qed

lemma complete_tx_keeps_settled:
  assumes "complete_effect_tx status r completed d1 = Inr (u, d')" and "effects d1 = effects d"
  shows "keeps_settled d d'"
proof -
  have "effects d' = update_where (\<lambda>e. exact_effect (eff_owner r) (eff_workflow r) (eff_operation r) (eff_id r) e
       \<and> (eff_status e = EffStarted \<or> eff_status e = (if status = EffSucceeded \<and> eff_submission r = None then EffUnknown else EffStarted)))
      (settle_effect status (eff_updated_at r) completed) (effects d)"
    using complete_effect_tx_committed(1) [OF assms(1)] assms(2) by simp
  then show ?thesis by (rule keeps_settled_update) (auto simp: settled_def split: if_splits)
qed

lemma complete_keeps_settled: "keeps_settled d (snd (complete_release_workflow_effect digest c status r d))"
proof (cases "complete_release_workflow_effect digest c status r d")
  case (Pair a d')
  show ?thesis
  proof (cases a)
    case (Inl e)
    then show ?thesis using Pair complete_error by fastforce
  next
    case (Inr u)
    then have "complete_release_workflow_effect digest c status r d = (Inr u, d')" using Pair by simp
    then have "keeps_settled d d'"
    proof (cases rule: complete_committed_cases)
      case (unfenced completed)
      then show ?thesis using complete_tx_keeps_settled by blast
    next
      case (fenced au completed)
      then show ?thesis using complete_tx_keeps_settled [OF complete_fence_body_committed(4)] by fastforce
    qed
    then show ?thesis using Pair by simp
  qed
qed

lemma interrupt_keeps_settled: "keeps_settled d (interrupt F E now d)"
proof -
  have "effects (interrupt F E now d) =
      update_where (\<lambda>e. E e \<and> eff_status e = EffStarted) (settle_effect EffUnknown now now) (effects d)"
    by (simp add: interrupt_def)
  then show ?thesis by (rule keeps_settled_update) (auto simp: settled_def)
qed

lemma mark_keeps_settled: "keeps_settled d (snd (mark_operation_effects_unknown c owner workflow operation now d))"
  by (cases "mark_operation_effects_unknown c owner workflow operation now d";
      cases "fst (mark_operation_effects_unknown c owner workflow operation now d)")
    (auto dest!: mark_error mark_committed(2) simp: mark_effects_unknown_interrupt interrupt_keeps_settled)

lemma recover_keeps_settled: "keeps_settled d (snd (recover_legacy_effects c owner workflow now d))"
  by (cases "recover_legacy_effects c owner workflow now d"; cases "fst (recover_legacy_effects c owner workflow now d)")
    (auto dest!: recover_error recover_committed(2) simp: interrupt_keeps_settled)

lemma resolve_tx_keeps_settled:
  assumes "resolve_effect_unknown_tx c owner workflow kind scope now expected d = Inr (u, d')"
  shows "keeps_settled d d'"
proof -
  obtain l where "d' = d \<or> d' = resolved_db (trim_space owner) workflow l now d"
    using resolve_committed(2) [OF assms] by metis
  then show ?thesis
  proof
    assume *: "d' = resolved_db (trim_space owner) workflow l now d"
    show ?thesis
      by (rule keeps_settled_update [where f = "settle_effect EffFailed now now"
            and P = "\<lambda>e. exact_effect (trim_space owner) workflow (eff_operation l) (eff_id l) e \<and> eff_status e = EffUnknown"])
        (auto simp: * resolved_db_def settled_def)
  qed simp
qed

lemma resolve_keeps_settled: "keeps_settled d (snd (resolve_effect_unknown c owner workflow kind scope now expected d))"
  by (cases "resolve_effect_unknown_tx c owner workflow kind scope now expected d")
    (auto simp: resolve_effect_unknown_def dest: resolve_tx_keeps_settled)

lemma mark_tx_leaves_nothing_started:
  assumes "d' = mark_effects_unknown_tx owner workflow operation now d"
  shows "(\<forall>e\<in>set (effects d'). eff_owner e = trim_space owner \<and> eff_workflow e = workflow \<and> eff_operation e = operation
           \<longrightarrow> eff_status e \<noteq> EffStarted)
    \<and> (\<forall>f\<in>set (fences d'). fen_owner f = trim_space owner \<and> fen_workflow f = workflow \<and> fen_operation f = operation
           \<longrightarrow> fen_status f \<noteq> EffStarted)
    \<and> (\<forall>e\<in>set (effects d). eff_status e \<noteq> EffStarted \<longrightarrow> e \<in> set (effects d'))
    \<and> (\<forall>f\<in>set (fences d). fen_status f \<noteq> EffStarted \<longrightarrow> f \<in> set (fences d'))"
proof -
  have d': "d' = mark_effects_unknown_tx owner workflow operation now d" using assms .
  have eff: "effects d' = update_where (\<lambda>e. eff_owner e = trim_space owner \<and> eff_workflow e = workflow
      \<and> eff_operation e = operation \<and> eff_status e = EffStarted) (settle_effect EffUnknown now now) (effects d)"
    by (simp add: d' mark_effects_unknown_tx_def)
  have fen: "fences d' = update_where (\<lambda>f. fen_owner f = trim_space owner \<and> fen_workflow f = workflow
      \<and> fen_operation f = operation \<and> fen_status f = EffStarted) (\<lambda>f. f\<lparr>fen_status := EffUnknown, fen_updated_at := now\<rparr>) (fences d)"
    by (simp add: d' mark_effects_unknown_tx_def)
  have "eff_status e \<noteq> EffStarted" if "e \<in> set (effects d')" "eff_owner e = trim_space owner" "eff_workflow e = workflow"
    "eff_operation e = operation" for e
    using that(1) unfolding eff by (rule update_where_cases) (use that in auto)
  moreover have "fen_status f \<noteq> EffStarted" if "f \<in> set (fences d')" "fen_owner f = trim_space owner" "fen_workflow f = workflow"
    "fen_operation f = operation" for f
    using that(1) unfolding fen by (rule update_where_cases) (use that in auto)
  moreover have "e \<in> set (effects d')" if "e \<in> set (effects d)" "eff_status e \<noteq> EffStarted" for e
    unfolding eff by (rule update_where_untouched) (use that in auto)
  moreover have "f \<in> set (fences d')" if "f \<in> set (fences d)" "fen_status f \<noteq> EffStarted" for f
    unfolding fen by (rule update_where_untouched) (use that in auto)
  ultimately show ?thesis by blast
qed

subsection \<open>Properties\<close>

text \<open>A settled receipt is final: no operation on effects changes or removes the row of an effect that
  has succeeded or failed.\<close>

lemma settled_receipts_are_final:
  "keeps_settled d (snd (begin_release_workflow_effect digest c r d))
   \<and> keeps_settled d (snd (complete_release_workflow_effect digest c status r d))
   \<and> keeps_settled d (snd (mark_operation_effects_unknown c owner workflow operation now d))
   \<and> keeps_settled d (snd (recover_legacy_effects c owner workflow now d))
   \<and> keeps_settled d (snd (resolve_effect_unknown c owner workflow kind scope now expected d))"
  by (intro conjI begin_keeps_settled complete_keeps_settled mark_keeps_settled recover_keeps_settled resolve_keeps_settled)

text \<open>Interrupting an operation leaves nothing of it started: each of its receipts and fences is settled or
  unknown afterwards, and rows that were not started are untouched.\<close>

lemma interruption_leaves_nothing_started:
  assumes "mark_operation_effects_unknown c owner workflow operation now d = (Inr u, d')"
  shows "(\<forall>e\<in>set (effects d'). eff_owner e = trim_space owner \<and> eff_workflow e = workflow \<and> eff_operation e = operation
           \<longrightarrow> eff_status e \<noteq> EffStarted)
    \<and> (\<forall>f\<in>set (fences d'). fen_owner f = trim_space owner \<and> fen_workflow f = workflow \<and> fen_operation f = operation
           \<longrightarrow> fen_status f \<noteq> EffStarted)
    \<and> (\<forall>e\<in>set (effects d). eff_status e \<noteq> EffStarted \<longrightarrow> e \<in> set (effects d'))
    \<and> (\<forall>f\<in>set (fences d). fen_status f \<noteq> EffStarted \<longrightarrow> f \<in> set (fences d'))"
  using mark_tx_leaves_nothing_started [OF mark_committed(2) [OF assms]] .

lemma interruption_leaves_nothing_started_witness:
  "EffStarted \<notin> eff_status ` set (effects (snd (mark_operation_effects_unknown quiet_ctx ''owner'' ''w1'' ''op1'' 20
      (sample_db [sample_effect ''e1'' 10] [sample_fence EffStarted]))))"
proof -
  have "\<exists>d'. mark_operation_effects_unknown quiet_ctx ''owner'' ''w1'' ''op1'' 20
      (sample_db [sample_effect ''e1'' 10] [sample_fence EffStarted]) = (Inr (), d')
      \<and> (\<forall>e\<in>set (effects d'). eff_owner e = ''owner'' \<and> eff_workflow e = ''w1'' \<and> eff_operation e = ''op1'')"
    by (simp add: mark_operation_effects_unknown_def mark_effects_unknown_tx_def effect_runs)
  then obtain d' where d': "mark_operation_effects_unknown quiet_ctx ''owner'' ''w1'' ''op1'' 20
      (sample_db [sample_effect ''e1'' 10] [sample_fence EffStarted]) = (Inr (), d')"
    "\<forall>e\<in>set (effects d'). eff_owner e = ''owner'' \<and> eff_workflow e = ''w1'' \<and> eff_operation e = ''op1''" by blast
  then show ?thesis using interruption_leaves_nothing_started [OF d'(1)] by auto
qed

text \<open>A tracker submission is released for another attempt only after an exact reconciliation: the caller
  names the latest attempt of the tracker by operation and effect, no retained upload result confirms
  it, it is unknown or already failed, and the only fences removed are that attempt's unknown ones.\<close>

lemma resolution_is_exact:
  assumes "resolve_effect_unknown c owner workflow tracker_submission scope now expected d = (Inr u, d')"
  shows "\<exists>l s us. load_latest_effect d (trim_space owner) workflow tracker_submission (trim_space scope) = Some l
    \<and> expected = [\<lparr>rc_operation = eff_operation l, rc_effect = eff_id l\<rparr>]
    \<and> load_workflow_state d (trim_space owner) workflow = Inr s \<and> pl_uploads (ws_payload s) = Some us
    \<and> \<not> list_ex (\<lambda>r. confirms_submission r l) us \<and> (eff_status l = EffFailed \<or> eff_status l = EffUnknown)
    \<and> set (fences d) - set (fences d') \<subseteq>
        {f. exact_fence (trim_space owner) workflow (eff_operation l) (eff_id l) f \<and> fen_status f = EffUnknown}"
proof -
  have "resolve_effect_unknown_tx c owner workflow tracker_submission scope now expected d = Inr (u, d')"
    using assms by (simp add: resolve_effect_unknown_def with_write_tx_commit)
  from resolve_committed(2) [OF this] obtain l s us where
    l: "load_latest_effect d (trim_space owner) workflow tracker_submission (trim_space scope) = Some l"
    and ex: "length expected = 1" "rc_effect (hd expected) = eff_id l" "rc_operation (hd expected) = eff_operation l"
    and s: "load_workflow_state d (trim_space owner) workflow = Inr s" "pl_uploads (ws_payload s) = Some us"
    "\<forall>r\<in>set us. \<not> confirms_submission r l"
    and out: "eff_status l = EffFailed \<and> d' = d \<or> eff_status l = EffUnknown \<and> d' = resolved_db (trim_space owner) workflow l now d"
    by auto
  have "expected = [\<lparr>rc_operation = eff_operation l, rc_effect = eff_id l\<rparr>]"
    using ex by (cases expected) auto
  moreover have "set (fences d) - set (fences d') \<subseteq>
        {f. exact_fence (trim_space owner) workflow (eff_operation l) (eff_id l) f \<and> fen_status f = EffUnknown}"
    using out by (auto simp: resolved_db_def)
  ultimately show ?thesis using l s out by (auto simp: list_ex_iff)
qed

lemma sample_resolve:
  "resolve_effect_unknown quiet_ctx ''owner'' ''w1'' tracker_submission ''trk'' 20 [\<lparr>rc_operation = ''op1'', rc_effect = ''e1''\<rparr>]
     (sample_db [settle_effect EffUnknown 12 12 (sample_effect ''e1'' 10)] [sample_fence EffUnknown])
   = (Inr (), sample_db [settle_effect EffFailed 20 20 (sample_effect ''e1'' 10)] [])"
  by (simp add: resolve_effect_unknown_def resolve_effect_unknown_tx_def load_latest_effect_def top_row_def effect_in_scope_def
      load_workflow_state_def Let_def effect_runs tracker_submission_def)

lemma resolution_is_exact_witness:
  "\<exists>l. load_latest_effect (sample_db [settle_effect EffUnknown 12 12 (sample_effect ''e1'' 10)] [sample_fence EffUnknown])
     ''owner'' ''w1'' tracker_submission ''trk'' = Some l \<and> eff_id l = ''e1''"
  using resolution_is_exact [OF sample_resolve] by fastforce

text \<open>An attempt whose outcome is open blocks the next one: while the row of the scope whose stored start time
  is last (ties by identifier) is started or unknown, beginning another effect of the scope fails
  and changes nothing.\<close>

lemma unresolved_latest_blocks:
  assumes "eff_submission r = None" and "e \<in> set (effects d)"
    and "effect_in_scope (eff_owner r) (eff_workflow r) (eff_kind r) (eff_scope r) e" and "effect_unresolved e"
    and "list_all (\<lambda>q. effect_in_scope (eff_owner r) (eff_workflow r) (eff_kind r) (eff_scope r) q \<longrightarrow>
           q = e \<or> row_before eff_started_at eff_id q e) (effects d)"
  shows "isl (fst (begin_release_workflow_effect digest c r d)) \<and> snd (begin_release_workflow_effect digest c r d) = d"
proof (cases "begin_release_workflow_effect digest c r d")
  case (Pair a d')
  obtain t where t: "load_latest_effect d (eff_owner r) (eff_workflow r) (eff_kind r) (eff_scope r) = Some t"
    using assms(2,3) by (cases "load_latest_effect d (eff_owner r) (eff_workflow r) (eff_kind r) (eff_scope r)")
      (auto simp: load_latest_effect_def filter_empty_conv)
  have "\<not> row_before eff_started_at eff_id t e" and "t \<in> set (effects d)"
    "effect_in_scope (eff_owner r) (eff_workflow r) (eff_kind r) (eff_scope r) t"
    using t assms(2,3) top_row_before_max [of eff_started_at eff_id _ t e] top_row_in
    by (fastforce simp: load_latest_effect_def)+
  then have "t = e" using assms(5) by (auto simp: list_all_iff)
  show ?thesis
  proof (cases a)
    case (Inl x)
    then show ?thesis using Pair begin_error by fastforce
  next
    case (Inr b)
    then obtain r' i where "begin_release_workflow_effect digest c r d = (Inr (r', i), d')"
      using Pair by (cases b) auto
    then have False
    proof (cases rule: begin_committed_cases)
      case unfenced
      then show False using begin_body_committed(3) [OF unfenced(2)] t \<open>t = e\<close> assms(4)
        by (auto simp: effect_unresolved_def split: if_splits)
    qed (use assms(1) in simp)
    then show ?thesis ..
  qed
qed

lemma unresolved_latest_blocks_witness:
  "isl (fst (begin_release_workflow_effect (\<lambda>_ _. ''d'') quiet_ctx (sample_effect ''e2'' 30)
     (sample_db [sample_effect ''e1'' 10] [])))"
proof -
  have "list_all (\<lambda>q. effect_in_scope (eff_owner (sample_effect ''e2'' 30)) (eff_workflow (sample_effect ''e2'' 30))
      (eff_kind (sample_effect ''e2'' 30)) (eff_scope (sample_effect ''e2'' 30)) q \<longrightarrow>
      q = sample_effect ''e1'' 10 \<or> row_before eff_started_at eff_id q (sample_effect ''e1'' 10)) (effects (sample_db [sample_effect ''e1'' 10] []))"
    by (simp add: sample_db_def)
  then show ?thesis
    using unresolved_latest_blocks [of "sample_effect ''e2'' 30" "sample_effect ''e1'' 10" "sample_db [sample_effect ''e1'' 10] []"]
    by (simp add: sample_db_def sample_effect_def effect_in_scope_def effect_unresolved_def)
qed

text \<open>C12: The order of the stored texts is not the order in time: an effect that failed at half past a second
  sorts after one started ten milliseconds later in that second whose outcome is unknown, and a third
  attempt is then admitted although the last one may have reached the remote side.\<close>

lemma text_order_hides_unknown_attempt:
  "let failed = settle_effect EffFailed 505000000 505000000 ((sample_effect ''e1'' 500000000)\<lparr>eff_kind := ''image_upload''\<rparr>);
       unknown = settle_effect EffUnknown 520000000 520000000 ((sample_effect ''e2'' 510000000)\<lparr>eff_kind := ''image_upload''\<rparr>);
       third = (sample_effect ''e3'' 600000000)\<lparr>eff_kind := ''image_upload''\<rparr>;
       d = (sample_db [failed, unknown] [])\<lparr>slot := empty_slot\<rparr>
   in eff_started_at failed < eff_started_at unknown
     \<and> begin_release_workflow_effect (\<lambda>_ _. ''d'') quiet_ctx third d
         = (Inr (third, False), d\<lparr>effects := [failed, unknown, third]\<rparr>)"
proof -
  have blanks: "\<not> blank ''image_upload''" "\<not> blank ''e3''" by code_simp+
  have "sql_before 500000000 510000000 = False" and "sql_before 510000000 500000000 = True"
    and "format_workflow_state_time 500000000 = format_workflow_state_time 510000000 \<longleftrightarrow> False"
    by code_simp+
  then show ?thesis
    by (simp add: Let_def begin_release_workflow_effect_def validate_effect_record_def begin_body_def load_latest_effect_def
        top_row_def row_before_def effect_in_scope_def insert_effect_def effect_runs blanks tracker_submission_def)
qed

end
