(* ===== verification/Work.thy ===== *)
theory Work
  imports Reconcile
begin

text \<open>
  Work leases: \<open>internal/services/db/release_workflow_work.go\<close>. One row per operation holds the
  lease and the latest checkpoint; completing it fences the operation's open effects in the same
  transaction.
\<close>

subsection \<open>Operations\<close>

definition validate_work_record :: "work_record \<Rightarrow> bool \<Rightarrow> err option" where
  "validate_work_record r terminal =
     (if blank (wk_owner r) \<or> wk_workflow r = [] \<or> wk_operation r = [] \<or> blank (wk_lease_owner r) \<or> wk_updated_at r = 0
         \<or> \<not> wk_lease_expires_at r > wk_updated_at r \<or> wk_checkpoint r = []
      then Some (Invalid ''work lease and checkpoint are incomplete'')
      else if terminal \<and> wk_completed_at r = None then Some (Invalid ''work completion timestamp is required'')
      else None)"

definition work_of :: "string \<Rightarrow> string \<Rightarrow> string \<Rightarrow> work_record \<Rightarrow> bool" where
  "work_of owner workflow operation w \<longleftrightarrow> wk_owner w = owner \<and> wk_workflow w = workflow \<and> wk_operation w = operation"

definition load_release_workflow_work :: "db \<Rightarrow> string \<Rightarrow> string \<Rightarrow> string \<Rightarrow> err + work_record" where
  "load_release_workflow_work d owner0 workflow operation =
     (let owner = trim_space owner0 in
      if owner = [] \<or> workflow = [] \<or> operation = [] then Inl OperationNotFound
      else case List.find (work_of owner workflow operation) (work d) of
          None \<Rightarrow> Inl OperationNotFound | Some w \<Rightarrow> Inr w)"

definition operation_exists :: "db \<Rightarrow> string \<Rightarrow> string \<Rightarrow> string \<Rightarrow> bool" where
  "operation_exists d owner workflow operation \<longleftrightarrow>
     (\<exists>p\<in>set (operations d). op_owner p = owner \<and> op_workflow p = workflow \<and> op_id p = operation)"

text \<open>\<open>requireSingleReleaseWorkflowWorkRow\<close> after an \<open>UPDATE\<close> of the rows a condition selects.\<close>

definition update_single_work :: "(work_record \<Rightarrow> bool) \<Rightarrow> (work_record \<Rightarrow> work_record) \<Rightarrow> unit tx" where
  "update_single_work P f d =
     (if count_where P (work d) \<noteq> 1 then Inl OperationConflict else Inr ((), d\<lparr>work := update_where P f (work d)\<rparr>))"

definition claim_body :: "ctx \<Rightarrow> work_record \<Rightarrow> unit tx" where
  "claim_body c r d =
     (case (case require_workflow_input_mutation c d (wk_owner r) (wk_workflow r) False of
              None \<Rightarrow> None
            | Some e \<Rightarrow> if require_legacy_input_recovery c d (wk_owner r) (wk_workflow r) = None then None else Some e) of
        Some e \<Rightarrow> Inl e
      | None \<Rightarrow> (case List.find (work_of (wk_owner r) (wk_workflow r) (wk_operation r)) (work d) of
          None \<Rightarrow>
            if \<not> operation_exists d (wk_owner r) (wk_workflow r) (wk_operation r) then Inl SqlConstraint
            else Inr ((), d\<lparr>work := work d @ [r\<lparr>wk_completed_at := None\<rparr>]\<rparr>)
        | Some w \<Rightarrow>
            if wk_completed_at w \<noteq> None then Inl OperationConflict
            else if wk_lease_owner w \<noteq> wk_lease_owner r \<and> wk_lease_expires_at w > wk_updated_at r then Inl OperationConflict
            else update_single_work
              (\<lambda>q. work_of (wk_owner r) (wk_workflow r) (wk_operation r) q \<and> wk_completed_at q = None)
              (\<lambda>q. q\<lparr>wk_lease_owner := wk_lease_owner r, wk_lease_expires_at := wk_lease_expires_at r,
                     wk_checkpoint := wk_checkpoint r, wk_updated_at := wk_updated_at r\<rparr>) d))"

definition claim_release_workflow_work :: "ctx \<Rightarrow> work_record \<Rightarrow> db \<Rightarrow> (err + unit) \<times> db" where
  "claim_release_workflow_work c r d =
     (case validate_work_record r False of
        Some e \<Rightarrow> (Inl e, d) | None \<Rightarrow> with_write_tx (claim_body c r) d)"

definition owned_work :: "work_record \<Rightarrow> work_record \<Rightarrow> bool" where
  "owned_work r q \<longleftrightarrow> work_of (wk_owner r) (wk_workflow r) (wk_operation r) q
     \<and> wk_lease_owner q = wk_lease_owner r \<and> wk_completed_at q = None"

text \<open>
  \<open>execWorkflowInputWrite\<close> commits the update before the row count is checked, so a count other
  than one is an error after the commit. The count is at most one (the key is unique) and an
  update of no row changes nothing.
\<close>

definition write_owned_work :: "ctx \<Rightarrow> work_record \<Rightarrow> (work_record \<Rightarrow> work_record) \<Rightarrow> db \<Rightarrow> (err + unit) \<times> db" where
  "write_owned_work c r f d =
     (case exec_workflow_input_write c (wk_owner r) (wk_workflow r)
         (\<lambda>d. Inr (count_where (owned_work r) (work d), d\<lparr>work := update_where (owned_work r) f (work d)\<rparr>)) d of
        (Inl e, d') \<Rightarrow> (Inl e, d')
      | (Inr n, d') \<Rightarrow> (if n \<noteq> 1 then Inl OperationConflict else Inr (), d'))"

definition renew_release_workflow_work :: "ctx \<Rightarrow> work_record \<Rightarrow> db \<Rightarrow> (err + unit) \<times> db" where
  "renew_release_workflow_work c r d =
     (case validate_work_record r False of
        Some e \<Rightarrow> (Inl e, d)
      | None \<Rightarrow> write_owned_work c r
          (\<lambda>q. q\<lparr>wk_lease_expires_at := wk_lease_expires_at r, wk_updated_at := wk_updated_at r\<rparr>) d)"

definition checkpoint_release_workflow_work :: "ctx \<Rightarrow> work_record \<Rightarrow> db \<Rightarrow> (err + unit) \<times> db" where
  "checkpoint_release_workflow_work c r d =
     (case validate_work_record r False of
        Some e \<Rightarrow> (Inl e, d)
      | None \<Rightarrow> write_owned_work c r
          (\<lambda>q. q\<lparr>wk_lease_expires_at := wk_lease_expires_at r, wk_checkpoint := wk_checkpoint r,
                 wk_updated_at := wk_updated_at r\<rparr>) d)"

definition complete_work_body :: "ctx \<Rightarrow> work_record \<Rightarrow> time \<Rightarrow> unit tx" where
  "complete_work_body c r completed d =
     (case require_workflow_input_mutation c d (wk_owner r) (wk_workflow r) True of
        Some e \<Rightarrow> Inl e
      | None \<Rightarrow> (case update_single_work (owned_work r)
            (\<lambda>q. q\<lparr>wk_lease_expires_at := wk_lease_expires_at r, wk_checkpoint := wk_checkpoint r,
                   wk_updated_at := wk_updated_at r, wk_completed_at := Some completed\<rparr>) d of
          Inl e \<Rightarrow> Inl e
        | Inr (_, d') \<Rightarrow> Inr ((), mark_effects_unknown_tx (wk_owner r) (wk_workflow r) (wk_operation r) completed d')))"

definition complete_release_workflow_work :: "ctx \<Rightarrow> work_record \<Rightarrow> db \<Rightarrow> (err + unit) \<times> db" where
  "complete_release_workflow_work c r d =
     (case validate_work_record r True of
        Some e \<Rightarrow> (Inl e, d)
      | None \<Rightarrow> (case wk_completed_at r of
          None \<Rightarrow> (Inl (Invalid ''work completion timestamp is required''), d)
        | Some completed \<Rightarrow> with_write_tx (complete_work_body c r completed) d))"

subsection \<open>Rows\<close>

definition work_key :: "work_record \<Rightarrow> string \<times> string \<times> string" where
  "work_key w = (wk_owner w, wk_workflow w, wk_operation w)"

definition work_ok :: "db \<Rightarrow> bool" where
  "work_ok d \<longleftrightarrow> distinct (map work_key (work d))
     \<and> (\<forall>w\<in>set (work d). operation_exists d (wk_owner w) (wk_workflow w) (wk_operation w))"

lemma work_of_key: "work_of owner workflow operation w \<longleftrightarrow> work_key w = (owner, workflow, operation)"
  by (simp add: work_of_def work_key_def)

lemma operation_exists_frame [simp]:
  "operation_exists (d\<lparr>work := ws\<rparr>) x y z = operation_exists d x y z"
  "operation_exists (d\<lparr>effects := es\<rparr>) x y z = operation_exists d x y z"
  "operation_exists (d\<lparr>fences := fs\<rparr>) x y z = operation_exists d x y z"
  by (simp_all add: operation_exists_def)

lemma work_ok_update:
  assumes "work_ok d" and "\<And>w. work_key (f w) = work_key w"
  shows "work_ok (d\<lparr>work := update_where P f (work d)\<rparr>)"
proof -
  have "map work_key (update_where P f (work d)) = map work_key (work d)"
    by (rule map_update_where) (rule assms(2))
  moreover have "operation_exists d (wk_owner w) (wk_workflow w) (wk_operation w)"
    if "w \<in> set (update_where P f (work d))" for w
  proof -
    have "work_key w \<in> work_key ` set (work d)"
      using that calculation by (metis image_eqI image_set)
    then show ?thesis using assms(1) by (auto simp: work_ok_def work_key_def)
  qed
  ultimately show ?thesis using assms(1) by (simp add: work_ok_def)
qed

lemma claim_committed:
  assumes "claim_release_workflow_work c r d = (Inr u, d')"
  obtains (fresh) "List.find (work_of (wk_owner r) (wk_workflow r) (wk_operation r)) (work d) = None"
      "operation_exists d (wk_owner r) (wk_workflow r) (wk_operation r)"
      "d' = d\<lparr>work := work d @ [r\<lparr>wk_completed_at := None\<rparr>]\<rparr>"
  | (held) w where "List.find (work_of (wk_owner r) (wk_workflow r) (wk_operation r)) (work d) = Some w"
      "wk_completed_at w = None" "wk_lease_owner w = wk_lease_owner r \<or> wk_lease_expires_at w \<le> wk_updated_at r"
      "d' = d\<lparr>work := update_where (\<lambda>q. work_of (wk_owner r) (wk_workflow r) (wk_operation r) q \<and> wk_completed_at q = None)
              (\<lambda>q. q\<lparr>wk_lease_owner := wk_lease_owner r, wk_lease_expires_at := wk_lease_expires_at r,
                     wk_checkpoint := wk_checkpoint r, wk_updated_at := wk_updated_at r\<rparr>) (work d)\<rparr>"
  using assms
  by (auto simp: claim_release_workflow_work_def with_write_tx_commit claim_body_def update_single_work_def
      split: option.splits if_splits)

lemma claim_valid:
  "claim_release_workflow_work c r d = (Inr u, d') \<Longrightarrow> validate_work_record r False = None"
  by (auto simp: claim_release_workflow_work_def split: option.splits)

lemma claim_error: "claim_release_workflow_work c r d = (Inl e, d') \<Longrightarrow> d' = d"
  by (auto simp: claim_release_workflow_work_def dest: with_write_tx_error split: option.splits)

lemma owned_work_count: "work_ok d \<Longrightarrow> count_where (owned_work r) (work d) \<le> 1"
  by (rule count_where_unique [of work_key]) (auto simp: work_ok_def owned_work_def work_of_key)

lemma write_owned_cases:
  assumes "write_owned_work c r f d = (a, d')" and "work_ok d"
  obtains (refused) e where "a = Inl e" "d' = d"
  | (written) w where "a = Inr ()" "w \<in> set (work d)" "owned_work r w" "d' = d\<lparr>work := update_where (owned_work r) f (work d)\<rparr>"
proof (cases "require_workflow_input_mutation c d (wk_owner r) (wk_workflow r) True")
  case (Some e)
  then show thesis using assms(1) refused by (auto simp: write_owned_work_def exec_workflow_input_write_def with_write_tx_def)
next
  case None
  then have a: "a = (if count_where (owned_work r) (work d) \<noteq> 1 then Inl OperationConflict else Inr ())"
    and d': "d' = d\<lparr>work := update_where (owned_work r) f (work d)\<rparr>"
    using assms(1) by (simp_all add: write_owned_work_def exec_workflow_input_write_def with_write_tx_def)
  show thesis
  proof (cases "count_where (owned_work r) (work d) = 1")
    case True
    then obtain w where "w \<in> set (work d)" "owned_work r w"
      using count_where_positive [of "owned_work r" "work d" 0] by auto
    then show thesis using written a d' True by simp
  next
    case False
    then have "count_where (owned_work r) (work d) = 0" using owned_work_count [OF assms(2), of r] by linarith
    then have "d' = d" using d' by (simp add: update_where_none)
    then show thesis using refused a False by simp
  qed
qed

lemma complete_work_committed:
  assumes "complete_release_workflow_work c r d = (Inr u, d')"
  obtains completed w where "wk_completed_at r = Some completed" "w \<in> set (work d)" "owned_work r w"
    "require_workflow_input_mutation c d (wk_owner r) (wk_workflow r) True = None"
    "d' = mark_effects_unknown_tx (wk_owner r) (wk_workflow r) (wk_operation r) completed
       (d\<lparr>work := update_where (owned_work r)
            (\<lambda>q. q\<lparr>wk_lease_expires_at := wk_lease_expires_at r, wk_checkpoint := wk_checkpoint r,
                   wk_updated_at := wk_updated_at r, wk_completed_at := Some completed\<rparr>) (work d)\<rparr>)"
  using assms
  by (auto simp: complete_release_workflow_work_def with_write_tx_commit complete_work_body_def update_single_work_def
      split: option.splits if_splits dest!: count_where_positive [of _ _ 0, simplified])

lemma complete_work_error: "complete_release_workflow_work c r d = (Inl e, d') \<Longrightarrow> d' = d"
  by (auto simp: complete_release_workflow_work_def dest: with_write_tx_error split: option.splits)

lemma renew_work_error: "work_ok d \<Longrightarrow> renew_release_workflow_work c r d = (Inl e, d') \<Longrightarrow> d' = d"
  by (auto simp: renew_release_workflow_work_def split: option.splits elim: write_owned_cases)

lemma checkpoint_work_error: "work_ok d \<Longrightarrow> checkpoint_release_workflow_work c r d = (Inl e, d') \<Longrightarrow> d' = d"
  by (auto simp: checkpoint_release_workflow_work_def split: option.splits elim: write_owned_cases)

lemma renew_work_committed:
  assumes "renew_release_workflow_work c r d = (Inr u, d')" and "work_ok d"
  obtains w where "w \<in> set (work d)" "owned_work r w"
    "d' = d\<lparr>work := update_where (owned_work r)
          (\<lambda>q. q\<lparr>wk_lease_expires_at := wk_lease_expires_at r, wk_updated_at := wk_updated_at r\<rparr>) (work d)\<rparr>"
  using assms by (auto simp: renew_release_workflow_work_def split: option.splits elim: write_owned_cases)

lemma checkpoint_work_committed:
  assumes "checkpoint_release_workflow_work c r d = (Inr u, d')" and "work_ok d"
  obtains w where "w \<in> set (work d)" "owned_work r w"
    "d' = d\<lparr>work := update_where (owned_work r)
          (\<lambda>q. q\<lparr>wk_lease_expires_at := wk_lease_expires_at r, wk_checkpoint := wk_checkpoint r,
                 wk_updated_at := wk_updated_at r\<rparr>) (work d)\<rparr>"
  using assms by (auto simp: checkpoint_release_workflow_work_def split: option.splits elim: write_owned_cases)

lemma work_mark [simp]: "work (mark_effects_unknown_tx owner workflow operation now d) = work d"
  "operations (mark_effects_unknown_tx owner workflow operation now d) = operations d"
  "slot (mark_effects_unknown_tx owner workflow operation now d) = slot d"
  "states (mark_effects_unknown_tx owner workflow operation now d) = states d"
  by (simp_all add: mark_effects_unknown_tx_def)

subsection \<open>Every operation keeps the rows consistent\<close>

lemma claim_work_ok:
  assumes "claim_release_workflow_work c r d = (Inr u, d')" and "work_ok d"
  shows "work_ok d'"
  using assms(1)
proof (cases rule: claim_committed)
  case fresh
  then have "work_key r \<notin> work_key ` set (work d)"
    by (auto simp: find_None work_of_key) (auto simp: work_key_def)
  then show ?thesis using fresh assms(2) by (auto simp: work_ok_def work_key_def)
next
  case (held w)
  then show ?thesis using work_ok_update [OF assms(2)] by (simp add: work_key_def)
qed

lemma complete_work_ok:
  assumes "complete_release_workflow_work c r d = (Inr u, d')" and "work_ok d"
  shows "work_ok d'"
  using assms(1)
proof (rule complete_work_committed)
  fix completed w
  assume d': "d' = mark_effects_unknown_tx (wk_owner r) (wk_workflow r) (wk_operation r) completed
       (d\<lparr>work := update_where (owned_work r)
            (\<lambda>q. q\<lparr>wk_lease_expires_at := wk_lease_expires_at r, wk_checkpoint := wk_checkpoint r,
                   wk_updated_at := wk_updated_at r, wk_completed_at := Some completed\<rparr>) (work d)\<rparr>)"
  have "work_ok (d\<lparr>work := update_where (owned_work r)
            (\<lambda>q. q\<lparr>wk_lease_expires_at := wk_lease_expires_at r, wk_checkpoint := wk_checkpoint r,
                   wk_updated_at := wk_updated_at r, wk_completed_at := Some completed\<rparr>) (work d)\<rparr>)"
    by (rule work_ok_update [OF assms(2)]) (simp add: work_key_def)
  then show ?thesis by (simp add: d' work_ok_def operation_exists_def)
qed

lemma renew_work_ok:
  assumes "renew_release_workflow_work c r d = (Inr u, d')" and "work_ok d"
  shows "work_ok d'"
  using assms by (rule renew_work_committed) (use work_ok_update [OF assms(2)] in \<open>simp add: work_key_def\<close>)

lemma checkpoint_work_ok:
  assumes "checkpoint_release_workflow_work c r d = (Inr u, d')" and "work_ok d"
  shows "work_ok d'"
  using assms by (rule checkpoint_work_committed) (use work_ok_update [OF assms(2)] in \<open>simp add: work_key_def\<close>)

subsection \<open>Properties\<close>

definition sample_status :: operation_status where
  "sample_status = \<lparr>ops_id = ''op1'', ops_workflow = ''w1'', ops_revision = 1, ops_result_revision = 0, ops_sequence = 1,
     ops_command = ''continue'', ops_operation = ''upload'', ops_phase = [], ops_status = StRunning, ops_progress = 0,
     ops_completed = 0, ops_total = 0, ops_message = [], ops_details = [], ops_result = None, ops_started_at = 5,
     ops_updated_at = 5, ops_completed_at = None\<rparr>"

definition sample_operation :: operation_row where
  "sample_operation = \<lparr>op_owner = ''owner'', op_workflow = ''w1'', op_id = ''op1'', op_expected_revision = 1,
     op_idempotency_key = ''k'', op_fingerprint = ''fp'', op_epoch = ''ep'', op_status = sample_status,
     op_hdr_cleanup = \<lparr>rel_source_path = [], rel_generation = 0\<rparr>, opw_command = ''continue''\<rparr>"

definition sample_work :: "string \<Rightarrow> time \<Rightarrow> time \<Rightarrow> time option \<Rightarrow> work_record" where
  "sample_work lease_owner updated expires completed = \<lparr>wk_owner = ''owner'', wk_workflow = ''w1'', wk_operation = ''op1'',
     wk_lease_owner = lease_owner, wk_lease_expires_at = expires, wk_checkpoint = ''{}'', wk_updated_at = updated,
     wk_completed_at = completed\<rparr>"

definition work_db :: "work_record list \<Rightarrow> effect_record list \<Rightarrow> fence_record list \<Rightarrow> db" where
  "work_db ws es fs = (sample_db es fs)\<lparr>operations := [sample_operation], work := ws\<rparr>"

lemma sample_worker_blanks [simp]: "\<not> blank ''worker''" "\<not> blank ''other''"
  by code_simp+

lemmas work_runs = work_db_def sample_work_def sample_operation_def sample_status_def effect_runs
  validate_work_record_def work_of_def operation_exists_def update_single_work_def

lemma work_db_ok: "work_ok (work_db [] es fs)" "work_ok (work_db [sample_work a t u x] es fs)"
  by (simp_all add: work_ok_def work_runs)

text \<open>C13: A claim is exclusive: when it commits, any row of the operation was unfinished and either held by the
  same lease owner or expired when the claim was made, and afterwards the operation's row is
  unfinished, held by the claimant, with a lease that outlives the claim.\<close>

lemma work_claim_is_exclusive:
  assumes "claim_release_workflow_work c r d = (Inr u, d')" and "work_ok d"
  shows "(\<forall>w. List.find (work_of (wk_owner r) (wk_workflow r) (wk_operation r)) (work d) = Some w \<longrightarrow>
           wk_completed_at w = None \<and> (wk_lease_owner w = wk_lease_owner r \<or> wk_lease_expires_at w \<le> wk_updated_at r))
    \<and> (\<exists>w. List.find (work_of (wk_owner r) (wk_workflow r) (wk_operation r)) (work d') = Some w
         \<and> wk_completed_at w = None \<and> wk_lease_owner w = wk_lease_owner r \<and> wk_updated_at r < wk_lease_expires_at w)"
proof -
  have lease: "wk_updated_at r < wk_lease_expires_at r"
    using claim_valid [OF assms(1)] by (auto simp: validate_work_record_def split: if_splits)
  show ?thesis
    using assms(1)
  proof (cases rule: claim_committed)
    case fresh
    then show ?thesis using lease by (auto simp: find_append work_of_def)
  next
    case (held w)
    define P where "P = (\<lambda>q. work_of (wk_owner r) (wk_workflow r) (wk_operation r) q \<and> wk_completed_at q = None)"
    define f where "f = (\<lambda>q::work_record. q\<lparr>wk_lease_owner := wk_lease_owner r, wk_lease_expires_at := wk_lease_expires_at r,
                     wk_checkpoint := wk_checkpoint r, wk_updated_at := wk_updated_at r\<rparr>)"
    have "List.find (\<lambda>q. work_key q = (wk_owner r, wk_workflow r, wk_operation r)) (update_where P f (work d)) =
        map_option (\<lambda>q. if P q then f q else q)
          (List.find (\<lambda>q. work_key q = (wk_owner r, wk_workflow r, wk_operation r)) (work d))"
      by (rule find_update_where) (simp add: f_def work_key_def)
    moreover have d': "d' = d\<lparr>work := update_where P f (work d)\<rparr>" using held(4) by (simp add: P_def f_def)
    moreover have "P w" using held find_Some_in by (fastforce simp: P_def)
    ultimately have "List.find (work_of (wk_owner r) (wk_workflow r) (wk_operation r)) (work d') = Some (f w)"
      using held(1) by (simp add: work_of_key [abs_def])
    then show ?thesis using held lease by (simp add: f_def)
  qed
qed

lemma sample_claim:
  "claim_release_workflow_work quiet_ctx (sample_work ''worker'' 20 40 None) (work_db [sample_work ''other'' 5 15 None] [] [])
     = (Inr (), work_db [sample_work ''worker'' 20 40 None] [] [])"
  by (simp add: claim_release_workflow_work_def claim_body_def work_runs)

lemma work_claim_is_exclusive_witness:
  "wk_lease_expires_at (sample_work ''other'' 5 15 None) \<le> 20"
  using work_claim_is_exclusive [OF sample_claim work_db_ok(2)] by (simp add: work_runs)

lemma unfinished_update_keeps_completed:
  "w \<in> set rows \<Longrightarrow> wk_completed_at w \<noteq> None \<Longrightarrow> (\<And>q. P q \<Longrightarrow> wk_completed_at q = None) \<Longrightarrow> w \<in> set (update_where P f rows)"
  by (rule update_where_untouched) auto

lemma owned_update_keeps_completed:
  "w \<in> set rows \<Longrightarrow> wk_completed_at w \<noteq> None \<Longrightarrow> w \<in> set (update_where (owned_work r) f rows)"
  by (rule unfinished_update_keeps_completed) (auto simp: owned_work_def)

lemma claim_keeps_completed:
  assumes "w \<in> set (work d)" "wk_completed_at w \<noteq> None" and run: "claim_release_workflow_work c r d = (Inr u, d')"
  shows "w \<in> set (work d')"
  using run
proof (cases rule: claim_committed)
  case fresh
  then show ?thesis using assms(1) by simp
next
  case (held v)
  then show ?thesis
    using unfinished_update_keeps_completed [OF assms(1,2),
        of "\<lambda>q. work_of (wk_owner r) (wk_workflow r) (wk_operation r) q \<and> wk_completed_at q = None"]
    by simp
qed

lemma renew_keeps_completed:
  "w \<in> set (work d) \<Longrightarrow> wk_completed_at w \<noteq> None \<Longrightarrow> work_ok d \<Longrightarrow> renew_release_workflow_work c r d = (Inr u, d')
     \<Longrightarrow> w \<in> set (work d')"
  by (elim renew_work_committed) (simp_all add: owned_update_keeps_completed)

lemma checkpoint_keeps_completed:
  "w \<in> set (work d) \<Longrightarrow> wk_completed_at w \<noteq> None \<Longrightarrow> work_ok d \<Longrightarrow> checkpoint_release_workflow_work c r d = (Inr u, d')
     \<Longrightarrow> w \<in> set (work d')"
  by (elim checkpoint_work_committed) (simp_all add: owned_update_keeps_completed)

lemma complete_keeps_completed:
  "w \<in> set (work d) \<Longrightarrow> wk_completed_at w \<noteq> None \<Longrightarrow> complete_release_workflow_work c r d = (Inr u, d')
     \<Longrightarrow> w \<in> set (work d')"
  by (elim complete_work_committed) (simp_all add: owned_update_keeps_completed)

lemma committed_or_unchanged:
  assumes "\<And>e d'. f d = (Inl e, d') \<Longrightarrow> d' = d" and "\<And>d'. f d = (Inr (), d') \<Longrightarrow> Q d'" and "Q d"
  shows "Q (snd (f d))"
proof (cases "f d")
  case (Pair a d')
  then show ?thesis using assms by (cases a) auto
qed

text \<open>Completed work is final: no claim, renewal, checkpoint or completion changes the row of an operation
  that has completed.\<close>

lemma completed_work_is_final:
  assumes "w \<in> set (work d)" and "wk_completed_at w \<noteq> None" and "work_ok d"
  shows "w \<in> set (work (snd (claim_release_workflow_work c r d)))
    \<and> w \<in> set (work (snd (renew_release_workflow_work c r d)))
    \<and> w \<in> set (work (snd (checkpoint_release_workflow_work c r d)))
    \<and> w \<in> set (work (snd (complete_release_workflow_work c r d)))"
proof (intro conjI)
  note keep = committed_or_unchanged [where Q = "\<lambda>d'. w \<in> set (work d')" and d = d]
  show "w \<in> set (work (snd (claim_release_workflow_work c r d)))"
    by (rule keep) (use assms claim_error claim_keeps_completed in blast)+
  show "w \<in> set (work (snd (renew_release_workflow_work c r d)))"
    by (rule keep) (use assms renew_work_error renew_keeps_completed in blast)+
  show "w \<in> set (work (snd (checkpoint_release_workflow_work c r d)))"
    by (rule keep) (use assms checkpoint_work_error checkpoint_keeps_completed in blast)+
  show "w \<in> set (work (snd (complete_release_workflow_work c r d)))"
    by (rule keep) (use assms complete_work_error complete_keeps_completed in blast)+
qed

lemma completed_work_is_final_witness:
  "sample_work ''other'' 5 15 (Some 9) \<in> set (work (snd (claim_release_workflow_work quiet_ctx (sample_work ''worker'' 20 40 None)
     (work_db [sample_work ''other'' 5 15 (Some 9)] [] []))))"
  using completed_work_is_final [OF _ _ work_db_ok(2) [of "''other''" 5 15 "Some 9" "[]" "[]"], of "sample_work ''other'' 5 15 (Some 9)"]
  by (simp add: work_runs)

text \<open>Completing work leaves no effect or fence of its operation started: in the same commit each becomes
  unknown unless it was settled, so a crash after an external call cannot be mistaken for no call.\<close>

lemma completed_work_has_no_started_effect:
  assumes "complete_release_workflow_work c r d = (Inr u, d')" and "trim_space (wk_owner r) = wk_owner r"
  shows "(\<forall>e\<in>set (effects d'). eff_owner e = wk_owner r \<and> eff_workflow e = wk_workflow r \<and> eff_operation e = wk_operation r
           \<longrightarrow> eff_status e \<noteq> EffStarted)
    \<and> (\<forall>f\<in>set (fences d'). fen_owner f = wk_owner r \<and> fen_workflow f = wk_workflow r \<and> fen_operation f = wk_operation r
           \<longrightarrow> fen_status f \<noteq> EffStarted)"
  using assms(1)
proof (rule complete_work_committed)
  fix completed w
  assume "d' = mark_effects_unknown_tx (wk_owner r) (wk_workflow r) (wk_operation r) completed
       (d\<lparr>work := update_where (owned_work r)
            (\<lambda>q. q\<lparr>wk_lease_expires_at := wk_lease_expires_at r, wk_checkpoint := wk_checkpoint r,
                   wk_updated_at := wk_updated_at r, wk_completed_at := Some completed\<rparr>) (work d)\<rparr>)"
  then show ?thesis
    using mark_tx_leaves_nothing_started [of d'] assms(2) by metis
qed

lemma sample_complete_work:
  "complete_release_workflow_work quiet_ctx (sample_work ''worker'' 20 40 (Some 20))
     (work_db [sample_work ''worker'' 5 15 None] [sample_effect ''e1'' 10] [sample_fence EffStarted])
   = (Inr (), work_db [sample_work ''worker'' 20 40 (Some 20)] [settle_effect EffUnknown 20 20 (sample_effect ''e1'' 10)]
       [(sample_fence EffUnknown)\<lparr>fen_updated_at := 20\<rparr>])"
  by (simp add: complete_release_workflow_work_def complete_work_body_def owned_work_def mark_effects_unknown_tx_def work_runs)

lemma completed_work_has_no_started_effect_witness:
  "eff_status (settle_effect EffUnknown 20 20 (sample_effect ''e1'' 10)) \<noteq> EffStarted"
  using completed_work_has_no_started_effect [OF sample_complete_work] by (simp add: work_runs)

text \<open>A lease is kept only by its owner: a renewal or checkpoint that commits found the operation's row
  unfinished under the caller's lease owner and left it so; otherwise it changes nothing.\<close>

lemma work_lease_kept_by_owner:
  assumes "work_ok d"
  shows "(snd (renew_release_workflow_work c r d) \<noteq> d \<or> fst (renew_release_workflow_work c r d) = Inr () \<longrightarrow>
            list_ex (owned_work r) (work d) \<and> list_ex (owned_work r) (work (snd (renew_release_workflow_work c r d))))
    \<and> (snd (checkpoint_release_workflow_work c r d) \<noteq> d \<or> fst (checkpoint_release_workflow_work c r d) = Inr () \<longrightarrow>
            list_ex (owned_work r) (work d) \<and> list_ex (owned_work r) (work (snd (checkpoint_release_workflow_work c r d))))"
proof -
  have kept: "list_ex (owned_work r) (work d) \<and> list_ex (owned_work r) (work d')"
    if "w \<in> set (work d)" "owned_work r w" "d' = d\<lparr>work := update_where (owned_work r) f (work d)\<rparr>"
      "\<And>q. owned_work r (f q) = owned_work r q" for w f d'
    using that update_where_touched [of w "work d" "owned_work r" f] by (auto simp: list_ex_iff)
  have "list_ex (owned_work r) (work d) \<and> list_ex (owned_work r) (work d')"
    if "renew_release_workflow_work c r d = (Inr u, d')" for u d'
    using that assms
    by (rule renew_work_committed) (erule (2) kept, simp add: owned_work_def work_of_def)
  moreover have "list_ex (owned_work r) (work d) \<and> list_ex (owned_work r) (work d')"
    if "checkpoint_release_workflow_work c r d = (Inr u, d')" for u d'
    using that assms
    by (rule checkpoint_work_committed) (erule (2) kept, simp add: owned_work_def work_of_def)
  moreover obtain a d1 where r1: "renew_release_workflow_work c r d = (a, d1)" by fastforce
  moreover obtain b d2 where r2: "checkpoint_release_workflow_work c r d = (b, d2)" by fastforce
  ultimately show ?thesis
    using renew_work_error [OF assms, of c r] checkpoint_work_error [OF assms, of c r]
    by (cases a; cases b) auto
qed

lemma work_lease_kept_by_owner_witness:
  "list_ex (owned_work (sample_work ''worker'' 20 40 None)) (work (work_db [sample_work ''worker'' 5 15 None] [] []))"
proof -
  have "fst (renew_release_workflow_work quiet_ctx (sample_work ''worker'' 20 40 None) (work_db [sample_work ''worker'' 5 15 None] [] [])) = Inr ()"
    by (simp add: renew_release_workflow_work_def write_owned_work_def exec_workflow_input_write_def owned_work_def work_runs)
  then show ?thesis
    using work_lease_kept_by_owner [OF work_db_ok(2) [of "''worker''" 5 15 None "[]" "[]"], of quiet_ctx "sample_work ''worker'' 20 40 None"] by blast
qed

end
