(* ===== verification/Operations.thy ===== *)
theory Operations
  imports Work
begin

text \<open>
  Workflow operations: \<open>internal/services/db/release_workflow_operation.go\<close>. An operation is the
  durable progress of one accepted command. Two partial unique indexes carry its contract: a
  workflow has at most one queued or running operation, and an idempotency key names at most one
  operation of a command. Every save is a compare-and-swap on the row's sequence.

  The JSON column holds the status and the HDR clean-up release; the other columns, the command
  name included, are written by the insert only (\<open>process_epoch\<close> apart).
\<close>

subsection \<open>Validation\<close>

definition terminal_stage :: "stage_status \<Rightarrow> bool" where
  "terminal_stage s \<longleftrightarrow> s = StCompleted \<or> s = StPartial \<or> s = StFailed \<or> s = StInterrupted \<or> s = StExecuted
     \<or> s = StCanceled \<or> s = StBlocked \<or> s = StStale \<or> s = StUnavailable"

definition validate_operation_result :: "operation_status \<Rightarrow> err option" where
  "validate_operation_result s =
     (case ops_result s of
        None \<Rightarrow> None
      | Some r \<Rightarrow>
          if opr_kind r = [] \<or> blank (opr_ref r) \<or> opr_workflow_revision r = 0 \<or> opr_ref_revision r = 0
          then Some (Invalid ''result requires kind, workflow revision, and exact ref'')
          else if ops_result_revision s \<noteq> 0 \<and> ops_result_revision s \<noteq> opr_workflow_revision r
          then Some (Invalid ''result revision mismatch'') else None)"

definition validate_operation_status :: "operation_status \<Rightarrow> err option" where
  "validate_operation_status s =
     (if blank (ops_id s) then Some (Invalid ''workflow operation id is required'')
      else if ops_revision s = 0 then Some (Invalid ''workflow operation revision must be positive'')
      else if blank (ops_workflow s) \<or> blank (ops_command s) \<or> ops_started_at s = 0 \<or> ops_updated_at s = 0
      then Some (Invalid ''workflow id, command, and timestamps'')
      else if ops_sequence s = 0 then Some (Invalid ''sequence must be positive'')
      else if ops_progress s < 0 \<or> ops_progress s > 100 then Some (Invalid ''progress must be between 0 and 100'')
      else if ops_completed s < 0 \<or> ops_total s < 0 \<or> ops_total s > 0 \<and> ops_completed s > ops_total s
      then Some (Invalid ''counts are invalid'')
      else if terminal_stage (ops_status s) \<and> ops_completed_at s = None then Some (Invalid ''requires completion time'')
      else if \<not> terminal_stage (ops_status s) \<and> ops_completed_at s \<noteq> None then Some (Invalid ''cannot have completion time'')
      else validate_operation_result s)"

definition validate_operation_record :: "operation_record \<Rightarrow> err option" where
  "validate_operation_record r =
     (if blank (op_owner r) \<or> blank (op_workflow r) \<or> blank (op_id r) \<or> blank (op_epoch r)
      then Some (Invalid ''operation owner, identity, and process epoch are required'')
      else if op_expected_revision r = 0 \<or> op_expected_revision r > max_int64
         \<or> ops_revision (op_status r) \<noteq> op_expected_revision r
      then Some (Invalid ''operation revision is invalid'')
      else if op_fingerprint r = [] \<or> ops_id (op_status r) \<noteq> op_id r \<or> ops_workflow (op_status r) \<noteq> op_workflow r
      then Some (Invalid ''operation binding is invalid'')
      else validate_operation_status (op_status r))"

subsection \<open>Reads\<close>

definition operation_of :: "string \<Rightarrow> string \<Rightarrow> string \<Rightarrow> operation_row \<Rightarrow> bool" where
  "operation_of owner workflow operation p \<longleftrightarrow> op_owner p = owner \<and> op_workflow p = workflow \<and> op_id p = operation"

definition scan_operation :: "operation_row option \<Rightarrow> err + operation_record" where
  "scan_operation r = (case r of None \<Rightarrow> Inl OperationNotFound | Some p \<Rightarrow> Inr (operation_record.truncate p))"

definition load_workflow_operation :: "db \<Rightarrow> string \<Rightarrow> string \<Rightarrow> string \<Rightarrow> err + operation_record" where
  "load_workflow_operation d owner workflow operation =
     (if owner = [] \<or> blank workflow \<or> blank operation then Inl OperationNotFound
      else scan_operation (List.find (operation_of owner workflow operation) (operations d)))"

definition load_active_operation :: "db \<Rightarrow> string \<Rightarrow> string \<Rightarrow> err + operation_record" where
  "load_active_operation d owner workflow =
     scan_operation (List.find (\<lambda>p. op_owner p = owner \<and> op_workflow p = workflow \<and> operation_active p) (operations d))"

definition command_receipt :: "string \<Rightarrow> string \<Rightarrow> string \<Rightarrow> string \<Rightarrow> operation_row \<Rightarrow> bool" where
  "command_receipt owner workflow command key p \<longleftrightarrow>
     op_owner p = owner \<and> op_workflow p = workflow \<and> opw_command p = command \<and> op_idempotency_key p = key"

definition load_operation_by_idempotency :: "db \<Rightarrow> string \<Rightarrow> string \<Rightarrow> string \<Rightarrow> string \<Rightarrow> err + operation_record" where
  "load_operation_by_idempotency d owner workflow command key =
     scan_operation (List.find (command_receipt owner workflow command key) (operations d))"

definition load_release_workflow_operation :: "db \<Rightarrow> string \<Rightarrow> string \<Rightarrow> string \<Rightarrow> err + operation_record" where
  "load_release_workflow_operation d owner workflow operation = load_workflow_operation d (trim_space owner) workflow operation"

definition load_release_workflow_operation_by_idempotency ::
    "db \<Rightarrow> string \<Rightarrow> string \<Rightarrow> string \<Rightarrow> string \<Rightarrow> err + operation_record" where
  "load_release_workflow_operation_by_idempotency d owner workflow command key =
     load_operation_by_idempotency d (trim_space owner) workflow (trim_space command) (trim_space key)"

abbreviation operation_before :: "operation_row \<Rightarrow> operation_row \<Rightarrow> bool" where
  "operation_before \<equiv> row_before (\<lambda>p. ops_updated_at (op_status p)) op_id"

definition load_latest_operation :: "db \<Rightarrow> string \<Rightarrow> string \<Rightarrow> err + operation_record" where
  "load_latest_operation d owner workflow =
     scan_operation (top_row operation_before
       (filter (\<lambda>p. op_owner p = trim_space owner \<and> op_workflow p = workflow) (operations d)))"

definition list_active_operations :: "db \<Rightarrow> operation_record list" where
  "list_active_operations d =
     map operation_record.truncate (order_by operation_before (filter operation_active (operations d)))"

definition has_incomplete_work :: "db \<Rightarrow> operation_row \<Rightarrow> bool" where
  "has_incomplete_work d p \<longleftrightarrow>
     (\<exists>w\<in>set (work d). work_of (op_owner p) (op_workflow p) (op_id p) w \<and> wk_completed_at w = None)"

definition list_interrupted_with_incomplete_work :: "db \<Rightarrow> string \<Rightarrow> string \<Rightarrow> operation_record list" where
  "list_interrupted_with_incomplete_work d owner workflow =
     map operation_record.truncate (order_by operation_before
       (filter (\<lambda>p. op_owner p = trim_space owner \<and> op_workflow p = workflow
          \<and> ops_status (op_status p) = StInterrupted \<and> has_incomplete_work d p) (operations d)))"

subsection \<open>Create\<close>

text \<open>The indexes of \<open>release_workflow_operations\<close>, as the keys a row occupies.\<close>

definition operation_key :: "operation_row \<Rightarrow> string \<times> string \<times> string" where
  "operation_key p = (op_owner p, op_workflow p, op_id p)"

definition active_key :: "operation_row \<Rightarrow> (string \<times> string) option" where
  "active_key p = (if operation_active p then Some (op_owner p, op_workflow p) else None)"

definition receipt_key :: "operation_row \<Rightarrow> (string \<times> string \<times> string \<times> string) option" where
  "receipt_key p = (if op_idempotency_key p \<noteq> [] then Some (op_owner p, op_workflow p, opw_command p, op_idempotency_key p) else None)"

definition indexes_clash :: "operation_row \<Rightarrow> operation_row \<Rightarrow> bool" where
  "indexes_clash p q \<longleftrightarrow> operation_key p = operation_key q
     \<or> active_key p \<noteq> None \<and> active_key p = active_key q \<or> receipt_key p \<noteq> None \<and> receipt_key p = receipt_key q"

definition operation_row_of :: "operation_record \<Rightarrow> operation_row" where
  "operation_row_of r = operation_record.extend r (operation_row.fields (ops_command (op_status r)))"

definition insert_operation :: "operation_record \<Rightarrow> db \<Rightarrow> err + db" where
  "insert_operation r d = (let p = operation_row_of r in
     if ops_sequence (op_status r) > max_int64 then Inl StorageFault
     else if (\<exists>q\<in>set (operations d). indexes_clash p q) \<or> \<not> state_exists d (op_owner r) (op_workflow r)
     then Inl SqlConstraint
     else Inr (d\<lparr>operations := operations d @ [p]\<rparr>))"

definition create_fresh :: "operation_record \<Rightarrow> (operation_record \<times> bool) tx" where
  "create_fresh r d =
     (case load_active_operation d (op_owner r) (op_workflow r) of
        Inr _ \<Rightarrow> Inl OperationConflict
      | Inl _ \<Rightarrow> (case load_workflow_operation d (op_owner r) (op_workflow r) (op_id r) of
          Inr _ \<Rightarrow> Inl OperationConflict
        | Inl _ \<Rightarrow> (case insert_operation r d of Inl e \<Rightarrow> Inl e | Inr d' \<Rightarrow> Inr ((r, False), d'))))"

definition create_operation_body :: "ctx \<Rightarrow> operation_record \<Rightarrow> (operation_record \<times> bool) tx" where
  "create_operation_body c r d =
     (case require_workflow_input_mutation c d (op_owner r) (op_workflow r) False of
        Some e \<Rightarrow> Inl e
      | None \<Rightarrow>
          if op_idempotency_key r \<noteq> [] then
            (case load_operation_by_idempotency d (op_owner r) (op_workflow r) (ops_command (op_status r)) (op_idempotency_key r) of
               Inr prior \<Rightarrow> if op_fingerprint prior \<noteq> op_fingerprint r then Inl OperationConflict else Inr ((prior, True), d)
             | Inl _ \<Rightarrow> create_fresh r d)
          else create_fresh r d)"

definition create_release_workflow_operation ::
    "ctx \<Rightarrow> operation_record \<Rightarrow> db \<Rightarrow> (err + operation_record \<times> bool) \<times> db" where
  "create_release_workflow_operation c r d =
     (case validate_operation_record r of Some e \<Rightarrow> (Inl e, d) | None \<Rightarrow> with_write_tx (create_operation_body c r) d)"

subsection \<open>Save\<close>

text \<open>
  The statement's columns; an update that would make a second operation of the workflow active
  violates the partial index.
\<close>

definition saved_row :: "operation_record \<Rightarrow> operation_row \<Rightarrow> operation_row" where
  "saved_row r p = p\<lparr>op_epoch := op_epoch r, op_status := op_status r, op_hdr_cleanup := op_hdr_cleanup r\<rparr>"

definition save_target :: "nat \<Rightarrow> operation_record \<Rightarrow> operation_row \<Rightarrow> bool" where
  "save_target expected r p \<longleftrightarrow> operation_of (op_owner r) (op_workflow r) (op_id r) p \<and> ops_sequence (op_status p) = expected"

definition save_operation_body :: "ctx \<Rightarrow> nat \<Rightarrow> operation_record \<Rightarrow> unit tx" where
  "save_operation_body c expected r d =
     (case require_workflow_input_mutation c d (op_owner r) (op_workflow r) True of
        Some e \<Rightarrow> Inl e
      | None \<Rightarrow>
          if ops_sequence (op_status r) > max_int64 then Inl StorageFault
          else if \<exists>p\<in>set (operations d). save_target expected r p
             \<and> (\<exists>q\<in>set (operations d). operation_key q \<noteq> operation_key p \<and> indexes_clash (saved_row r p) q)
          then Inl SqlConstraint
          else if count_where (save_target expected r) (operations d) = 1
          then Inr ((), d\<lparr>operations := update_where (save_target expected r) (saved_row r) (operations d)\<rparr>)
          else case load_workflow_operation d (op_owner r) (op_workflow r) (op_id r) of
              Inl e \<Rightarrow> Inl e | Inr _ \<Rightarrow> Inl OperationSequenceConflict)"

text \<open>\<open>expectedSequence + 1\<close> wraps at \<open>2 ^ 64\<close>.\<close>

definition save_release_workflow_operation :: "ctx \<Rightarrow> nat \<Rightarrow> operation_record \<Rightarrow> db \<Rightarrow> (err + unit) \<times> db" where
  "save_release_workflow_operation c expected r d =
     (case validate_operation_record r of
        Some e \<Rightarrow> (Inl e, d)
      | None \<Rightarrow>
          if ops_sequence (op_status r) \<noteq> (expected + 1) mod 2 ^ 64 then (Inl (Invalid ''sequence must advance by one''), d)
          else with_write_tx (save_operation_body c expected r) d)"

subsection \<open>Retention\<close>

text \<open>Deleting operations deletes their work rows (\<open>ON DELETE CASCADE\<close>).\<close>

definition delete_operations :: "(operation_row \<Rightarrow> bool) \<Rightarrow> db \<Rightarrow> db" where
  "delete_operations P d = d\<lparr>operations := delete_where P (operations d),
     work := delete_where (\<lambda>w. \<exists>p\<in>set (operations d). P p \<and> work_of (op_owner p) (op_workflow p) (op_id p) w) (work d)\<rparr>"

definition expired_operation :: "time \<Rightarrow> operation_row \<Rightarrow> bool" where
  "expired_operation before p \<longleftrightarrow> \<not> operation_active p \<and> sql_before (ops_updated_at (op_status p)) before"

definition delete_terminal_operations_before :: "time \<Rightarrow> db \<Rightarrow> (err + nat) \<times> db" where
  "delete_terminal_operations_before before d =
     (if before = 0 then (Inl (Invalid ''retention cutoff is required''), d)
      else (Inr (count_where (expired_operation before) (operations d)), delete_operations (expired_operation before) d))"

subsection \<open>What committed operations did\<close>

lemma operation_row_of_simps [simp]:
  "operation_record.truncate (operation_row_of r) = operation_record.truncate r"
  "op_owner (operation_row_of r) = op_owner r" "op_workflow (operation_row_of r) = op_workflow r"
  "op_id (operation_row_of r) = op_id r" "op_status (operation_row_of r) = op_status r"
  "op_idempotency_key (operation_row_of r) = op_idempotency_key r" "op_fingerprint (operation_row_of r) = op_fingerprint r"
  "opw_command (operation_row_of r) = ops_command (op_status r)"
  by (simp_all add: operation_row_of_def operation_record.extend_def operation_row.fields_def operation_record.truncate_def)

lemma truncate_record [simp]: "operation_record.truncate (r :: operation_record) = r"
  by (simp add: operation_record.truncate_def)

lemma saved_row_simps [simp]:
  "operation_key (saved_row r p) = operation_key p" "receipt_key (saved_row r p) = receipt_key p"
  "op_status (saved_row r p) = op_status r" "op_fingerprint (saved_row r p) = op_fingerprint p"
  by (simp_all add: saved_row_def operation_key_def receipt_key_def)

lemma operation_of_key: "operation_of owner workflow operation p \<longleftrightarrow> operation_key p = (owner, workflow, operation)"
  by (simp add: operation_of_def operation_key_def)

lemma scan_Inl [simp]: "scan_operation q = Inl e \<longleftrightarrow> q = None \<and> e = OperationNotFound"
  and scan_Inr: "scan_operation q = Inr r \<longleftrightarrow> (\<exists>p. q = Some p \<and> r = operation_record.truncate p)"
  by (auto simp: scan_operation_def split: option.splits)

lemma indexes_clash_sym: "indexes_clash p q \<Longrightarrow> indexes_clash q p"
  unfolding indexes_clash_def by metis

lemma create_committed:
  assumes "create_release_workflow_operation c r d = (Inr (res, again), d')"
  obtains (repeat) p where "op_idempotency_key r \<noteq> []" "again" "d' = d"
      "List.find (command_receipt (op_owner r) (op_workflow r) (ops_command (op_status r)) (op_idempotency_key r)) (operations d) = Some p"
      "res = operation_record.truncate p" "op_fingerprint p = op_fingerprint r"
  | (fresh) "\<not> again" "res = r" "d' = d\<lparr>operations := operations d @ [operation_row_of r]\<rparr>"
      "\<forall>q\<in>set (operations d). \<not> indexes_clash (operation_row_of r) q"
      "\<forall>q\<in>set (operations d). op_owner q = op_owner r \<and> op_workflow q = op_workflow r \<longrightarrow> \<not> operation_active q"
      "op_idempotency_key r \<noteq> [] \<longrightarrow>
         List.find (command_receipt (op_owner r) (op_workflow r) (ops_command (op_status r)) (op_idempotency_key r)) (operations d) = None"
      "state_exists d (op_owner r) (op_workflow r)"
proof -
  let ?receipt = "command_receipt (op_owner r) (op_workflow r) (ops_command (op_status r)) (op_idempotency_key r)"
  have body: "create_operation_body c r d = Inr ((res, again), d')"
    using assms by (simp add: create_release_workflow_operation_def with_write_tx_commit split: option.splits)
  show thesis
  proof (cases "op_idempotency_key r \<noteq> [] \<and> List.find ?receipt (operations d) \<noteq> None")
    case True
    then obtain p where p: "List.find ?receipt (operations d) = Some p" by blast
    then have "d' = d \<and> again \<and> res = operation_record.truncate p \<and> op_fingerprint p = op_fingerprint r"
      using True body by (simp add: create_operation_body_def load_operation_by_idempotency_def scan_operation_def
          operation_record.truncate_def split: option.splits if_splits)
    then show thesis using True p by (intro repeat [of p]) blast+
  next
    case False
    then have made: "create_fresh r d = Inr ((res, again), d')"
      using body by (auto simp: create_operation_body_def load_operation_by_idempotency_def scan_operation_def split: option.splits if_splits)
    then have "\<forall>q\<in>set (operations d). op_owner q = op_owner r \<and> op_workflow q = op_workflow r \<longrightarrow> \<not> operation_active q"
      by (auto simp: create_fresh_def load_active_operation_def find_None split: sum.splits)
    moreover obtain d0 where "insert_operation r d = Inr d0" "again = False" "res = r" "d' = d0"
      using made by (auto simp: create_fresh_def split: sum.splits)
    ultimately show thesis using False
      by (intro fresh) (auto simp: insert_operation_def Let_def split: if_splits)
  qed
qed

lemma create_error: "create_release_workflow_operation c r d = (Inl e, d') \<Longrightarrow> d' = d"
  by (auto simp: create_release_workflow_operation_def dest: with_write_tx_error split: option.splits)

lemma save_committed:
  assumes "save_release_workflow_operation c expected r d = (Inr u, d')"
  shows "d' = d\<lparr>operations := update_where (save_target expected r) (saved_row r) (operations d)\<rparr>"
    and "count_where (save_target expected r) (operations d) = 1"
    and "ops_sequence (op_status r) = (expected + 1) mod 2 ^ 64" and "ops_sequence (op_status r) \<le> max_int64"
    and "validate_operation_record r = None"
    and "\<And>p q. p \<in> set (operations d) \<Longrightarrow> save_target expected r p \<Longrightarrow> q \<in> set (operations d)
           \<Longrightarrow> operation_key q \<noteq> operation_key p \<Longrightarrow> \<not> indexes_clash (saved_row r p) q"
proof -
  have valid: "validate_operation_record r = None" and step: "ops_sequence (op_status r) = (expected + 1) mod 2 ^ 64"
    and body: "save_operation_body c expected r d = Inr (u, d')"
    using assms by (simp_all add: save_release_workflow_operation_def with_write_tx_commit split: option.splits if_splits)
  from valid step show "validate_operation_record r = None" "ops_sequence (op_status r) = (expected + 1) mod 2 ^ 64" .
  have "\<not> (\<exists>p\<in>set (operations d). save_target expected r p
      \<and> (\<exists>q\<in>set (operations d). operation_key q \<noteq> operation_key p \<and> indexes_clash (saved_row r p) q))"
    using body by (simp add: save_operation_body_def split: option.splits if_splits)
  then show "\<And>p q. p \<in> set (operations d) \<Longrightarrow> save_target expected r p \<Longrightarrow> q \<in> set (operations d)
           \<Longrightarrow> operation_key q \<noteq> operation_key p \<Longrightarrow> \<not> indexes_clash (saved_row r p) q" by blast
  show "d' = d\<lparr>operations := update_where (save_target expected r) (saved_row r) (operations d)\<rparr>"
    and "count_where (save_target expected r) (operations d) = 1" and "ops_sequence (op_status r) \<le> max_int64"
    using body by (simp_all add: save_operation_body_def split: option.splits if_splits sum.splits)
qed

lemma save_error: "save_release_workflow_operation c expected r d = (Inl e, d') \<Longrightarrow> d' = d"
  by (auto simp: save_release_workflow_operation_def dest: with_write_tx_error split: option.splits if_splits)

subsection \<open>The indexes hold\<close>

lemma outcome_inv:
  assumes "\<And>e d'. run = (Inl e, d') \<Longrightarrow> d' = d" and "\<And>a d'. run = (Inr a, d') \<Longrightarrow> Q d'" and "Q d"
  shows "Q (snd run)"
  using assms by (cases run; cases "fst run") auto

definition operations_ok :: "db \<Rightarrow> bool" where
  "operations_ok d \<longleftrightarrow> sorted_wrt (\<lambda>p q. \<not> indexes_clash p q) (operations d)"

lemma no_clash_distinct: "sorted_wrt (\<lambda>p q. \<not> indexes_clash p q) ps \<Longrightarrow> distinct (map operation_key ps)"
  by (induction ps) (auto simp: indexes_clash_def)

lemma no_clash_eq:
  "sorted_wrt (\<lambda>p q. \<not> indexes_clash p q) ps \<Longrightarrow> p \<in> set ps \<Longrightarrow> q \<in> set ps \<Longrightarrow> indexes_clash p q \<Longrightarrow> p = q"
  by (induction ps) (auto dest: indexes_clash_sym)

lemma update_keeps_no_clash:
  assumes "\<And>p q. p \<in> set ps \<Longrightarrow> P p \<Longrightarrow> q \<in> set ps \<Longrightarrow> operation_key q \<noteq> operation_key p \<Longrightarrow> \<not> indexes_clash (f p) q"
    and "\<And>p q. P p \<Longrightarrow> P q \<Longrightarrow> operation_key p = operation_key q"
  shows "sorted_wrt (\<lambda>p q. \<not> indexes_clash p q) ps \<Longrightarrow> sorted_wrt (\<lambda>p q. \<not> indexes_clash p q) (update_where P f ps)"
  using assms(1)
proof (induction ps)
  case (Cons p ps)
  have key: "operation_key q \<noteq> operation_key p" if "q \<in> set ps" for q
    using Cons.prems(1) that by (auto simp: indexes_clash_def)
  have "\<not> indexes_clash (if P p then f p else p) (if P q then f q else q)" if "q \<in> set ps" for q
  proof -
    have "\<not> indexes_clash (f p) q" if "P p" using Cons.prems(2) [of p q] that key \<open>q \<in> set ps\<close> by simp
    moreover have "\<not> indexes_clash (f q) p" if "P q" using Cons.prems(2) [of q p] that key \<open>q \<in> set ps\<close> by force
    moreover have "\<not> (P p \<and> P q)" using key [OF that] assms(2) by metis
    moreover have "\<not> indexes_clash p q" using Cons.prems(1) that by simp
    ultimately show ?thesis using indexes_clash_sym by auto
  qed
  then have "\<forall>q\<in>set (update_where P f ps). \<not> indexes_clash (if P p then f p else p) q"
    unfolding in_update_where Ball_def by blast
  moreover have "sorted_wrt (\<lambda>p q. \<not> indexes_clash p q) (update_where P f ps)"
    using Cons by auto
  moreover have "update_where P f (p # ps) = (if P p then f p else p) # update_where P f ps"
    by (simp add: update_where_def)
  ultimately show ?case by simp
qed (simp add: update_where_def)

lemma create_ok:
  assumes "create_release_workflow_operation c r d = (Inr x, d')" and "operations_ok d"
  shows "operations_ok d'"
  using assms(1)
  by (cases x, hypsubst, elim create_committed) (use assms(2) in \<open>auto simp: operations_ok_def sorted_wrt_append dest: indexes_clash_sym\<close>)

lemma save_ok:
  assumes "save_release_workflow_operation c expected r d = (Inr u, d')" and "operations_ok d"
  shows "operations_ok d'"
proof -
  have "sorted_wrt (\<lambda>p q. \<not> indexes_clash p q) (update_where (save_target expected r) (saved_row r) (operations d))"
    using save_committed(6) [OF assms(1)]
    by (rule update_keeps_no_clash) (use assms(2) in \<open>auto simp: save_target_def operation_of_key operations_ok_def\<close>)
  then show ?thesis by (simp add: save_committed(1) [OF assms(1)] operations_ok_def)
qed

lemma delete_operations_ok: "operations_ok d \<Longrightarrow> operations_ok (delete_operations P d)"
  by (simp add: operations_ok_def delete_operations_def delete_where_def sorted_wrt_filter)

lemma in_delete_operations [simp]:
  "p \<in> set (operations (delete_operations P d)) \<longleftrightarrow> p \<in> set (operations d) \<and> \<not> P p"
  "w \<in> set (work (delete_operations P d)) \<longleftrightarrow> w \<in> set (work d)
     \<and> (\<forall>p\<in>set (operations d). P p \<longrightarrow> \<not> work_of (op_owner p) (op_workflow p) (op_id p) w)"
  by (auto simp: delete_operations_def)

lemma delete_operations_work_ok:
  assumes "work_ok d"
  shows "work_ok (delete_operations P d)"
proof -
  have "operation_exists (delete_operations P d) (wk_owner w) (wk_workflow w) (wk_operation w)"
    if w: "w \<in> set (work (delete_operations P d))" for w
  proof -
    obtain p where "p \<in> set (operations d)" "op_owner p = wk_owner w" "op_workflow p = wk_workflow w" "op_id p = wk_operation w"
      using w assms by (auto simp: work_ok_def operation_exists_def)
    moreover have "\<not> P p"
      using w calculation by (auto simp: work_of_def)
    ultimately show ?thesis unfolding operation_exists_def by (intro bexI [of _ p]) auto
  qed
  moreover have "distinct (map work_key (work (delete_operations P d)))"
    using assms by (simp add: work_ok_def delete_operations_def distinct_map_delete_where)
  ultimately show ?thesis by (simp add: work_ok_def)
qed

subsection \<open>Properties\<close>

definition operation_db :: "operation_row list \<Rightarrow> work_record list \<Rightarrow> db" where
  "operation_db ps ws = (work_db ws [] [])\<lparr>operations := ps\<rparr>"

definition operation_record_1 :: operation_record where
  "operation_record_1 = operation_record.truncate sample_operation"

lemmas operation_runs = operation_db_def operation_record_1_def sample_operation_def sample_status_def work_db_def effect_runs
  create_release_workflow_operation_def create_operation_body_def create_fresh_def insert_operation_def operation_row_of_def
  load_operation_by_idempotency_def load_active_operation_def load_workflow_operation_def scan_operation_def
  save_release_workflow_operation_def save_operation_body_def saved_row_def save_target_def operation_of_def
  validate_operation_record_def validate_operation_status_def validate_operation_result_def terminal_stage_def
  operation_active_def command_receipt_def max_int64_def
  operation_record.defs operation_row.defs

lemma trim_space_Nil [simp]: "trim_space [] = []"
  by code_simp

lemma operation_blanks [simp]: "\<not> blank ''op1''" "\<not> blank ''ep''" "\<not> blank ''continue''"
  by code_simp+

text \<open>Whatever operations run, a workflow has at most one queued or running operation and an idempotency key
  names at most one operation of its command: creating, saving and retention all keep the rows free of
  index clashes, on every outcome.\<close>

lemma operation_indexes_hold:
  assumes "operations_ok d"
  shows "operations_ok (snd (create_release_workflow_operation c r d))
    \<and> operations_ok (snd (save_release_workflow_operation c expected r d))
    \<and> operations_ok (snd (delete_terminal_operations_before before d))
    \<and> (\<forall>p\<in>set (operations d). \<forall>q\<in>set (operations d). operation_active p \<and> operation_active q
         \<and> op_owner p = op_owner q \<and> op_workflow p = op_workflow q \<longrightarrow> p = q)"
proof (intro conjI)
  show "operations_ok (snd (create_release_workflow_operation c r d))"
    by (rule outcome_inv) (use assms create_ok create_error in blast)+
  show "operations_ok (snd (save_release_workflow_operation c expected r d))"
    by (rule outcome_inv) (use assms save_ok save_error in blast)+
  show "operations_ok (snd (delete_terminal_operations_before before d))"
    using assms delete_operations_ok by (simp add: delete_terminal_operations_before_def)
  show "\<forall>p\<in>set (operations d). \<forall>q\<in>set (operations d). operation_active p \<and> operation_active q
      \<and> op_owner p = op_owner q \<and> op_workflow p = op_workflow q \<longrightarrow> p = q"
    using assms no_clash_eq by (fastforce simp: operations_ok_def indexes_clash_def active_key_def)
qed

lemma sample_operations_ok: "operations_ok (operation_db [] ws)" "operations_ok (operation_db [sample_operation] ws)"
  by (simp_all add: operations_ok_def operation_runs)

lemma operation_indexes_hold_witness:
  "operations_ok (snd (delete_terminal_operations_before 9 (operation_db [sample_operation] [])))"
  using operation_indexes_hold [OF sample_operations_ok(2) [of "[]"]] by blast

text \<open>Creating an operation is idempotent: once a command with an idempotency key has committed, whether it
  made the operation or found it, every valid repeat with the same key and fingerprint, under an
  authority that may still mutate the workflow, returns the stored operation and changes nothing, and
  one with another fingerprint is refused.\<close>

lemma create_is_idempotent:
  assumes "create_release_workflow_operation c r d = (Inr (res, again), d')" and "op_idempotency_key r \<noteq> []"
    and "op_owner q = op_owner r" "op_workflow q = op_workflow r" "op_idempotency_key q = op_idempotency_key r"
    and "ops_command (op_status q) = ops_command (op_status r)" and "validate_operation_record q = None"
    and "require_workflow_input_mutation c' d' (op_owner r) (op_workflow r) False = None"
  shows "create_release_workflow_operation c' q d'
    = (if op_fingerprint q = op_fingerprint r then Inr (res, True) else Inl OperationConflict, d')"
proof -
  let ?receipt = "command_receipt (op_owner r) (op_workflow r) (ops_command (op_status r)) (op_idempotency_key r)"
  have "\<exists>p. List.find ?receipt (operations d') = Some p \<and> operation_record.truncate p = res \<and> op_fingerprint res = op_fingerprint r"
    using assms(1)
  proof (rule create_committed)
    fix p
    assume "List.find ?receipt (operations d) = Some p" "res = operation_record.truncate p" "op_fingerprint p = op_fingerprint r" "d' = d"
    then show ?thesis by (simp add: operation_record.truncate_def)
  next
    assume new: "res = r" "d' = d\<lparr>operations := operations d @ [operation_row_of r]\<rparr>"
      and "op_idempotency_key r \<noteq> [] \<longrightarrow> List.find ?receipt (operations d) = None"
    then have "List.find ?receipt (operations d) = None" using assms(2) by simp
    moreover have "?receipt (operation_row_of r)" by (simp add: command_receipt_def)
    ultimately show ?thesis using new by (simp add: find_append)
  qed
  then obtain p where p: "List.find ?receipt (operations d') = Some p" "operation_record.truncate p = res"
    "op_fingerprint res = op_fingerprint r" by blast
  then have "load_operation_by_idempotency d' (op_owner r) (op_workflow r) (ops_command (op_status r)) (op_idempotency_key r) = Inr res"
    by (simp add: load_operation_by_idempotency_def scan_operation_def)
  then show ?thesis
    using assms(2-8) p by (simp add: create_release_workflow_operation_def create_operation_body_def)
qed

lemma create_is_idempotent_witness:
  "create_release_workflow_operation quiet_ctx operation_record_1 (operation_db [sample_operation] [])
     = (Inr (operation_record_1, True), operation_db [sample_operation] [])"
proof -
  have made: "create_release_workflow_operation quiet_ctx operation_record_1 (operation_db [] []) =
      (Inr (operation_record_1, False), operation_db [sample_operation] [])"
    by (simp add: operation_runs)
  show ?thesis
    using create_is_idempotent [OF made, of operation_record_1 quiet_ctx] by (simp add: operation_runs require_workflow_input_mutation_def)
qed

text \<open>A new operation starts alone: when a create commits a new row, no queued or running operation of the
  workflow and no row with its id or its idempotency key existed, only that row is added, the workflow
  exists, and the row is then found under its key with the record as given.\<close>

lemma create_needs_idle_workflow:
  assumes "create_release_workflow_operation c r d = (Inr (res, False), d')"
  shows "load_active_operation d (op_owner r) (op_workflow r) = Inl OperationNotFound
    \<and> load_workflow_operation d (op_owner r) (op_workflow r) (op_id r) = Inl OperationNotFound
    \<and> (op_idempotency_key r \<noteq> [] \<longrightarrow> load_operation_by_idempotency d (op_owner r) (op_workflow r)
          (ops_command (op_status r)) (op_idempotency_key r) = Inl OperationNotFound)
    \<and> state_exists d (op_owner r) (op_workflow r)
    \<and> d' = d\<lparr>operations := operations d @ [operation_row_of r]\<rparr>
    \<and> load_workflow_operation d' (op_owner r) (op_workflow r) (op_id r) = Inr r"
  using assms
proof (rule create_committed)
  assume d': "d' = d\<lparr>operations := operations d @ [operation_row_of r]\<rparr>"
    and clash: "\<forall>q\<in>set (operations d). \<not> indexes_clash (operation_row_of r) q"
    and idle: "\<forall>q\<in>set (operations d). op_owner q = op_owner r \<and> op_workflow q = op_workflow r \<longrightarrow> \<not> operation_active q"
    and "state_exists d (op_owner r) (op_workflow r)"
    and "op_idempotency_key r \<noteq> [] \<longrightarrow>
         List.find (command_receipt (op_owner r) (op_workflow r) (ops_command (op_status r)) (op_idempotency_key r)) (operations d) = None"
  moreover have "validate_operation_record r = None"
    using assms by (auto simp: create_release_workflow_operation_def split: option.splits)
  then have names: "op_owner r \<noteq> [] \<and> \<not> blank (op_workflow r) \<and> \<not> blank (op_id r)"
    by (cases "op_owner r = []") (auto simp: validate_operation_record_def blank_def split: if_splits)
  moreover have "List.find (operation_of (op_owner r) (op_workflow r) (op_id r)) (operations d) = None"
    using clash by (auto simp: find_None operation_of_def indexes_clash_def operation_key_def)
  moreover have "List.find (\<lambda>p. op_owner p = op_owner r \<and> op_workflow p = op_workflow r \<and> operation_active p) (operations d) = None"
    using idle by (simp add: find_None)
  moreover have "operation_of (op_owner r) (op_workflow r) (op_id r) (operation_row_of r)"
    by (simp add: operation_of_def)
  ultimately show ?thesis
    by (simp add: load_active_operation_def load_workflow_operation_def load_operation_by_idempotency_def scan_operation_def find_append)
qed simp

lemma create_needs_idle_workflow_witness:
  "load_workflow_operation (operation_db [sample_operation] []) ''owner'' ''w1'' ''op1'' = Inr operation_record_1"
proof -
  have made: "create_release_workflow_operation quiet_ctx operation_record_1 (operation_db [] []) =
      (Inr (operation_record_1, False), operation_db [sample_operation] [])"
    by (simp add: operation_runs)
  have "load_workflow_operation (operation_db [sample_operation] []) (op_owner operation_record_1) (op_workflow operation_record_1)
      (op_id operation_record_1) = Inr operation_record_1"
    using create_needs_idle_workflow [OF made] by blast
  then show ?thesis by (simp add: operation_record_1_def sample_operation_def operation_record.defs)
qed

text \<open>C14: A save is a compare-and-swap: it commits only on the row whose sequence the caller expected, replaces
  that row's status with one whose sequence is one higher and leaves every other row alone; so two
  saves based on the same sequence never both commit and no update is lost.\<close>

lemma save_is_compare_and_swap:
  assumes "save_release_workflow_operation c expected r d = (Inr u, d')" and "operations_ok d" and "expected < 2 ^ 64"
  shows "(\<exists>p\<in>set (operations d). operation_key p = (op_owner r, op_workflow r, op_id r)
       \<and> ops_sequence (op_status p) = expected \<and> ops_sequence (op_status r) = expected + 1
       \<and> set (operations d') = insert (saved_row r p) (set (operations d) - {p}))
    \<and> (\<forall>c' q v d''. op_owner q = op_owner r \<and> op_workflow q = op_workflow r \<and> op_id q = op_id r
       \<longrightarrow> save_release_workflow_operation c' expected q d' \<noteq> (Inr v, d''))"
proof -
  note saved = save_committed [OF assms(1)]
  obtain p where p: "p \<in> set (operations d)" "save_target expected r p"
    using count_where_positive [of "save_target expected r" "operations d" 0] saved(2) by auto
  have only: "q = p" if "q \<in> set (operations d)" "operation_key q = operation_key p" for q
    using that p(1) assms(2) no_clash_eq by (fastforce simp: operations_ok_def indexes_clash_def)
  have key: "operation_key p = (op_owner r, op_workflow r, op_id r)" "ops_sequence (op_status p) = expected"
    using p(2) by (simp_all add: save_target_def operation_of_key)
  have rows: "set (operations d') = insert (saved_row r p) (set (operations d) - {p})"
  proof -
    have "save_target expected r q \<longleftrightarrow> q = p" if "q \<in> set (operations d)" for q
      using only [OF that] p(2) key by (auto simp: save_target_def operation_of_key)
    then have "set (operations d') = (\<lambda>q. if q = p then saved_row r q else q) ` set (operations d)"
      by (auto simp: saved(1) update_where_def intro!: image_cong)
    then show ?thesis using p(1) by auto
  qed
  have "ops_sequence (op_status r) \<noteq> 0"
    using saved(5) by (auto simp: validate_operation_record_def validate_operation_status_def split: if_splits)
  then have step: "ops_sequence (op_status r) = expected + 1"
    using saved(3) assms(3) by (cases "expected + 1 = 2 ^ 64") simp_all
  have "save_release_workflow_operation c' expected q d' \<noteq> (Inr v, d'')"
    if "op_owner q = op_owner r" "op_workflow q = op_workflow r" "op_id q = op_id r" for c' q v d''
  proof
    assume "save_release_workflow_operation c' expected q d' = (Inr v, d'')"
    from save_committed(2) [OF this] obtain s where s: "s \<in> set (operations d')" "save_target expected q s"
      using count_where_positive [of "save_target expected q" "operations d'" 0] by auto
    then have "operation_key s = operation_key p" "ops_sequence (op_status s) = expected"
      using that key by (simp_all add: save_target_def operation_of_key)
    then show False using s(1) step only by (auto simp: rows)
  qed
  then show ?thesis using p(1) key step rows by blast
qed

lemma sample_save:
  "save_release_workflow_operation quiet_ctx 1 (operation_record_1\<lparr>op_status := sample_status\<lparr>ops_sequence := 2\<rparr>\<rparr>)
     (operation_db [sample_operation] [])
   = (Inr (), operation_db [sample_operation\<lparr>op_status := sample_status\<lparr>ops_sequence := 2\<rparr>\<rparr>] [])"
  by (simp add: operation_runs)

lemma save_is_compare_and_swap_witness:
  "save_release_workflow_operation quiet_ctx 1 (operation_record_1\<lparr>op_status := sample_status\<lparr>ops_sequence := 2\<rparr>\<rparr>)
     (operation_db [sample_operation\<lparr>op_status := sample_status\<lparr>ops_sequence := 2\<rparr>\<rparr>] []) \<noteq> (Inr (), empty_db)"
  using save_is_compare_and_swap [OF sample_save sample_operations_ok(2)] by simp

text \<open>Retention never touches unfinished work: it deletes no queued or running operation and no work lease of
  one, deletes an operation only when its stored update time is before the cutoff, reports how many it
  deleted, and leaves no work row without its operation.\<close>

lemma operation_retention_is_safe:
  assumes "delete_terminal_operations_before before d = (Inr n, d')" and "work_ok d" and "operations_ok d"
  shows "(\<forall>p\<in>set (operations d). p \<in> set (operations d')
       \<longleftrightarrow> operation_active p \<or> \<not> sql_before (ops_updated_at (op_status p)) before)
    \<and> (\<forall>p\<in>set (operations d'). \<forall>w\<in>set (work d). work_of (op_owner p) (op_workflow p) (op_id p) w \<longrightarrow> w \<in> set (work d'))
    \<and> length (operations d) = length (operations d') + n \<and> work_ok d' \<and> operations_ok d'"
proof -
  have d': "d' = delete_operations (expired_operation before) d" and n: "n = count_where (expired_operation before) (operations d)"
    using assms(1) by (auto simp: delete_terminal_operations_before_def split: if_splits)
  have "length (operations d) = length (operations d') + n"
    by (simp add: d' n delete_operations_def delete_where_def count_where_def sum_length_filter_compl add.commute)
  moreover have "w \<in> set (work d')"
    if p: "p \<in> set (operations d')" and w: "w \<in> set (work d)" "work_of (op_owner p) (op_workflow p) (op_id p) w" for p w
  proof -
    have "q = p" if "q \<in> set (operations d)" "work_of (op_owner q) (op_workflow q) (op_id q) w" for q
      using that p w assms(3) no_clash_eq
      by (fastforce simp: d' operations_ok_def indexes_clash_def operation_key_def work_of_def)
    then show ?thesis using p w by (auto simp: d')
  qed
  moreover have "\<forall>p\<in>set (operations d). p \<in> set (operations d')
       \<longleftrightarrow> operation_active p \<or> \<not> sql_before (ops_updated_at (op_status p)) before"
    by (auto simp: d' expired_operation_def)
  ultimately show ?thesis
    using assms(2,3) delete_operations_ok delete_operations_work_ok by (auto simp: d')
qed

lemma operation_retention_is_safe_witness:
  "operations_ok (snd (delete_terminal_operations_before 9 (operation_db [sample_operation] [])))"
proof -
  have "delete_terminal_operations_before 9 (operation_db [sample_operation] []) =
      (Inr 0, delete_operations (expired_operation 9) (operation_db [sample_operation] []))"
    by (simp add: delete_terminal_operations_before_def expired_operation_def operation_runs)
  moreover have "work_ok (operation_db [sample_operation] [])" by (simp add: work_ok_def operation_db_def work_db_def sample_db_def empty_db_def)
  ultimately show ?thesis
    using operation_retention_is_safe [OF _ _ sample_operations_ok(2)] by (metis snd_conv)
qed

end
