(* ===== verification/DurableLog.thy ===== *)
theory DurableLog
  imports Operations
begin

text \<open>
  The durable log of a workflow, from \<open>internal/services/db/release_workflow_durability.go\<close>:
  accepted intents, the latest continuation, and the immutable events with their workflow-global
  sequence. Appending events runs under the busy-lock retry of \<open>sqlite.go\<close>, and the slice it
  returns lives outside the transaction: \<open>lock_fate\<close> says where an attempt meets a lock.
\<close>

subsection \<open>Intents\<close>

definition validate_intent_record :: "intent_record \<Rightarrow> err option" where
  "validate_intent_record r =
     (if blank (it_owner r) \<or> it_workflow r = [] \<or> blank (it_key r) \<or> it_fingerprint r = [] \<or> it_goal r = []
         \<or> it_payload r = [] \<or> it_accepted_at r = 0
      then Some (Invalid ''accepted intent is incomplete'') else None)"

definition intent_of :: "string \<Rightarrow> string \<Rightarrow> string \<Rightarrow> intent_record \<Rightarrow> bool" where
  "intent_of owner workflow key r \<longleftrightarrow> it_owner r = owner \<and> it_workflow r = workflow \<and> it_key r = key"

definition load_intent :: "db \<Rightarrow> string \<Rightarrow> string \<Rightarrow> string \<Rightarrow> intent_record option" where
  "load_intent d owner workflow key = List.find (intent_of owner workflow key) (intents d)"

definition accept_intent_body :: "ctx \<Rightarrow> intent_record \<Rightarrow> (intent_record \<times> bool) tx" where
  "accept_intent_body c r d =
     (case require_workflow_input_mutation c d (it_owner r) (it_workflow r) False of
        Some e \<Rightarrow> Inl e
      | None \<Rightarrow> (case load_intent d (it_owner r) (it_workflow r) (it_key r) of
          Some prior \<Rightarrow> if it_fingerprint prior \<noteq> it_fingerprint r then Inl IdempotencyConflict else Inr ((prior, True), d)
        | None \<Rightarrow> if \<not> state_exists d (it_owner r) (it_workflow r) then Inl SqlConstraint
            else Inr ((r, False), d\<lparr>intents := intents d @ [r]\<rparr>)))"

definition accept_release_workflow_intent :: "ctx \<Rightarrow> intent_record \<Rightarrow> db \<Rightarrow> (err + intent_record \<times> bool) \<times> db" where
  "accept_release_workflow_intent c r d =
     (case validate_intent_record r of Some e \<Rightarrow> (Inl e, d) | None \<Rightarrow> with_write_tx (accept_intent_body c r) d)"

subsection \<open>Continuations\<close>

definition validate_continuation_record :: "continuation_record \<Rightarrow> err option" where
  "validate_continuation_record r =
     (if blank (co_owner r) \<or> co_workflow r = [] \<or> co_revision r = 0 \<or> co_revision r > max_int64
         \<or> co_payload r = [] \<or> co_updated_at r = 0
      then Some (Invalid ''continuation is incomplete'') else None)"

definition continuation_of :: "string \<Rightarrow> string \<Rightarrow> continuation_record \<Rightarrow> bool" where
  "continuation_of owner workflow r \<longleftrightarrow> co_owner r = owner \<and> co_workflow r = workflow"

text \<open>\<open>INSERT ... ON CONFLICT DO UPDATE ... WHERE excluded.revision >= revision\<close>.\<close>

definition upsert_continuation :: "continuation_record \<Rightarrow> unit tx" where
  "upsert_continuation r d =
     (if \<not> state_exists d (co_owner r) (co_workflow r) then Inl SqlConstraint
      else case List.find (continuation_of (co_owner r) (co_workflow r)) (continuations d) of
          None \<Rightarrow> Inr ((), d\<lparr>continuations := continuations d @ [r]\<rparr>)
        | Some _ \<Rightarrow> Inr ((), d\<lparr>continuations :=
            update_where (\<lambda>q. continuation_of (co_owner r) (co_workflow r) q \<and> co_revision r \<ge> co_revision q)
              (\<lambda>_. r) (continuations d)\<rparr>))"

definition save_release_workflow_continuation :: "ctx \<Rightarrow> continuation_record \<Rightarrow> db \<Rightarrow> (err + unit) \<times> db" where
  "save_release_workflow_continuation c r d =
     (case validate_continuation_record r of
        Some e \<Rightarrow> (Inl e, d)
      | None \<Rightarrow> exec_workflow_input_write c (co_owner r) (co_workflow r) (upsert_continuation r) d)"

subsection \<open>Events\<close>

text \<open>\<open>fmt.Sprintf("%s:%d", operation, sequence)\<close>.\<close>

fun decimal_text :: "nat \<Rightarrow> string" where
  "decimal_text n = (if n < 10 then [digit (int n)] else decimal_text (n div 10) @ [digit (int (n mod 10))])"

declare decimal_text.simps [simp del]

definition event_key :: "workflow_event \<Rightarrow> string" where
  "event_key e = ev_operation e @ '':'' @ decimal_text (ev_sequence e)"

definition event_in :: "string \<Rightarrow> string \<Rightarrow> event_row \<Rightarrow> bool" where
  "event_in owner workflow r \<longleftrightarrow> er_owner r = owner \<and> er_workflow r = workflow"

definition load_event_by_key :: "db \<Rightarrow> string \<Rightarrow> string \<Rightarrow> string \<Rightarrow> workflow_event option" where
  "load_event_by_key d owner workflow key =
     map_option er_event (List.find (\<lambda>r. event_in owner workflow r \<and> er_key r = key) (events d))"

definition event_cursor :: "db \<Rightarrow> string \<Rightarrow> string \<Rightarrow> nat" where
  "event_cursor d owner workflow = fold max (map er_sequence (filter (event_in owner workflow) (events d))) 0"

definition insert_event :: "event_row \<Rightarrow> db \<Rightarrow> err + db" where
  "insert_event r d =
     (if \<not> state_exists d (er_owner r) (er_workflow r)
         \<or> (\<exists>q\<in>set (events d). event_in (er_owner r) (er_workflow r) q \<and> (er_sequence q = er_sequence r \<or> er_key q = er_key r))
      then Inl SqlConstraint
      else Inr (d\<lparr>events := events d @ [r]\<rparr>))"

definition valid_source_event :: "string \<Rightarrow> workflow_event \<Rightarrow> bool" where
  "valid_source_event workflow e \<longleftrightarrow>
     ev_workflow e = workflow \<and> ev_operation e \<noteq> [] \<and> ev_sequence e \<noteq> 0 \<and> ev_timestamp e \<noteq> 0"

text \<open>The loop over the events: the cursor, the slice appended so far and the transaction's rows.\<close>

fun append_events :: "string \<Rightarrow> string \<Rightarrow> workflow_event list \<Rightarrow> nat \<Rightarrow> workflow_event list \<Rightarrow> db
    \<Rightarrow> (err + db) \<times> workflow_event list" where
  "append_events owner workflow [] cursor appended d = (Inr d, appended)"
| "append_events owner workflow (e # es) cursor appended d =
     (if \<not> valid_source_event workflow e then (Inl (Invalid ''event identity is required''), appended)
      else case load_event_by_key d owner workflow (event_key e) of
          Some prior \<Rightarrow> append_events owner workflow es cursor (appended @ [prior]) d
        | None \<Rightarrow>
            if cursor = max_int64 then (Inl (Invalid ''event cursor exhausted''), appended)
            else (let stored = e\<lparr>ev_sequence := cursor + 1\<rparr> in
              case insert_event \<lparr>er_owner = owner, er_workflow = workflow, er_sequence = cursor + 1,
                  er_key = event_key e, er_event = stored\<rparr> d of
                Inl err \<Rightarrow> (Inl err, appended)
              | Inr d' \<Rightarrow> append_events owner workflow es (cursor + 1) (appended @ [stored]) d'))"

definition append_body :: "ctx \<Rightarrow> string \<Rightarrow> string \<Rightarrow> workflow_event list \<Rightarrow> workflow_event list \<Rightarrow> db
    \<Rightarrow> (err + db) \<times> workflow_event list" where
  "append_body c owner workflow es appended d =
     (case require_workflow_input_mutation c d owner workflow True of
        Some e \<Rightarrow> (Inl e, appended)
      | None \<Rightarrow> append_events owner workflow es (event_cursor d owner workflow) appended d)"

text \<open>
  \<open>retryBusyContext\<close> around the transaction. An attempt that meets a lock after \<open>k\<close> events (0: at
  its start, the number of events: at the commit) rolls its rows back but keeps its slice. At most
  three attempts are made; without a fate an attempt meets no lock.
\<close>

datatype lock_fate = NoLock | LockedAfter nat

fun append_attempts :: "nat \<Rightarrow> lock_fate list \<Rightarrow> ctx \<Rightarrow> string \<Rightarrow> string \<Rightarrow> workflow_event list \<Rightarrow> workflow_event list
    \<Rightarrow> db \<Rightarrow> (err + workflow_event list) \<times> db" where
  "append_attempts 0 fates c owner workflow es appended d = (Inl StorageFault, d)"
| "append_attempts (Suc n) (LockedAfter k # fates) c owner workflow es appended d =
     (if k = 0 then append_attempts n fates c owner workflow es appended d
      else case append_body c owner workflow (take k es) appended d of
          (Inl e, _) \<Rightarrow> (Inl e, d)
        | (Inr _, kept) \<Rightarrow> append_attempts n fates c owner workflow es kept d)"
| "append_attempts (Suc n) fates c owner workflow es appended d =
     (case append_body c owner workflow es appended d of
        (Inl e, _) \<Rightarrow> (Inl e, d)
      | (Inr d', out) \<Rightarrow> (Inr out, d'))"

definition sqlite_retry_attempts :: nat where
  "sqlite_retry_attempts = 3"

definition append_release_workflow_events ::
    "lock_fate list \<Rightarrow> ctx \<Rightarrow> string \<Rightarrow> string \<Rightarrow> workflow_event list \<Rightarrow> db \<Rightarrow> (err + workflow_event list) \<times> db" where
  "append_release_workflow_events fates c owner workflow es d = (let owner = trim_space owner in
     if owner = [] \<or> blank workflow then (Inl (Invalid ''event owner and workflow are required''), d)
     else if es = [] then (Inr [], d)
     else append_attempts sqlite_retry_attempts fates c owner workflow es [] d)"

definition load_release_workflow_events :: "db \<Rightarrow> string \<Rightarrow> string \<Rightarrow> nat \<Rightarrow> int \<Rightarrow> err + workflow_event list" where
  "load_release_workflow_events d owner workflow after limit = (let owner = trim_space owner in
     if owner = [] \<or> workflow = [] then Inl (Invalid ''event owner and workflow are required'')
     else if after > max_int64 then Inl StorageFault
     else let n = (if limit \<le> 0 \<or> limit > 1000 then 1000 else nat limit) in
       Inr (map er_event (take n (order_by (\<lambda>a b. er_sequence a < er_sequence b)
         (filter (\<lambda>r. event_in owner workflow r \<and> after < er_sequence r) (events d))))))"

subsection \<open>Event keys\<close>

lemma digit_eq:
  assumes "m < 10" "n < 10"
  shows "digit (int m) = digit (int n) \<longleftrightarrow> m = n"
proof
  assume "digit (int m) = digit (int n)"
  then have "byte (digit (int m)) = byte (digit (int n))" by (rule arg_cong)
  then show "m = n" using assms by simp
qed simp

lemma decimal_text_ne [simp]: "decimal_text n \<noteq> []" "[] \<noteq> decimal_text n"
  by (subst decimal_text.simps, simp)+

lemma takeWhile_up_to: "c \<notin> set s \<Longrightarrow> takeWhile (\<lambda>x. x \<noteq> c) (s @ c # t) = s"
  by (induction s) auto

lemma decimal_text_inj: "decimal_text m = decimal_text n \<Longrightarrow> m = n"
proof (induction m arbitrary: n rule: decimal_text.induct)
  case (1 m)
  show ?case
  proof (cases "m < 10"; cases "n < 10")
    assume "m < 10" "n < 10"
    then show ?thesis using 1(2) by (simp add: decimal_text.simps [of m] decimal_text.simps [of n] digit_eq)
  next
    assume "m < 10" "\<not> n < 10"
    then show ?thesis using 1(2) by (simp add: decimal_text.simps [of m] decimal_text.simps [of n])
  next
    assume "\<not> m < 10" "n < 10"
    then show ?thesis using 1(2) by (simp add: decimal_text.simps [of m] decimal_text.simps [of n])
  next
    assume "\<not> m < 10" "\<not> n < 10"
    then have "decimal_text (m div 10) = decimal_text (n div 10)" "m mod 10 = n mod 10"
      using 1(2) digit_eq [of "m mod 10" "n mod 10"]
      by (simp_all add: decimal_text.simps [of m] decimal_text.simps [of n])
    then have "m div 10 = n div 10" using 1(1) \<open>\<not> m < 10\<close> by blast
    then show ?thesis using \<open>m mod 10 = n mod 10\<close> by (metis div_mult_mod_eq)
  qed
qed

lemma decimal_decimal_text: "decimal (decimal_text n)"
proof (induction n rule: decimal_text.induct)
  case (1 n)
  then show ?case
    by (subst decimal_text.simps) (auto simp: byte_digit)
qed

lemma last_colon:
  assumes "a @ '':'' @ s = b @ '':'' @ t" and "decimal s" "decimal t"
  shows "a = b \<and> s = t"
proof -
  have colon: "CHR '':'' \<notin> set s" "CHR '':'' \<notin> set t"
    using assms(2,3) by (auto simp: decimal_def byte_def)
  have "takeWhile (\<lambda>c. c \<noteq> CHR '':'') (rev (a @ '':'' @ s)) = rev s"
    "takeWhile (\<lambda>c. c \<noteq> CHR '':'') (rev (b @ '':'' @ t)) = rev t"
    using colon by (simp_all add: takeWhile_up_to)
  then have "s = t" using assms(1) by (metis rev_is_rev_conv)
  then show ?thesis using assms(1) by simp
qed

lemma event_key_inj: "event_key e = event_key f \<Longrightarrow> ev_operation e = ev_operation f \<and> ev_sequence e = ev_sequence f"
  unfolding event_key_def using last_colon decimal_decimal_text decimal_text_inj by metis

subsection \<open>What appending does\<close>

lemma load_event_append:
  "load_event_by_key d owner workflow key = Some e \<Longrightarrow> load_event_by_key (d\<lparr>events := events d @ rs\<rparr>) owner workflow key = Some e"
  by (auto simp: load_event_by_key_def find_append)

text \<open>The rows a source event list finds or makes, one per event.\<close>

definition stored_as :: "db \<Rightarrow> string \<Rightarrow> string \<Rightarrow> workflow_event \<Rightarrow> workflow_event \<Rightarrow> bool" where
  "stored_as d owner workflow e r \<longleftrightarrow> load_event_by_key d owner workflow (event_key e) = Some r"

lemma append_events_result:
  assumes "append_events owner workflow es cursor appended d = (Inr d', out)"
  shows "\<exists>new rs. out = appended @ new \<and> d' = d\<lparr>events := events d @ rs\<rparr> \<and> list_all2 (stored_as d' owner workflow) es new
    \<and> list_all (valid_source_event workflow) es"
  using assms
proof (induction es arbitrary: cursor appended d)
  case Nil
  then show ?case by (auto intro: exI [of _ "[]"])
next
  case (Cons e es)
  have valid: "valid_source_event workflow e" using Cons.prems by (auto split: if_splits)
  show ?case
  proof (cases "load_event_by_key d owner workflow (event_key e)")
    case (Some prior)
    then have "append_events owner workflow es cursor (appended @ [prior]) d = (Inr d', out)"
      using Cons.prems valid by simp
    from Cons.IH [OF this] obtain new rs where IH: "out = (appended @ [prior]) @ new" "d' = d\<lparr>events := events d @ rs\<rparr>"
      "list_all2 (stored_as d' owner workflow) es new" "list_all (valid_source_event workflow) es" by blast
    have "stored_as d' owner workflow e prior"
      unfolding stored_as_def IH(2) by (rule load_event_append) (rule Some)
    then show ?thesis using IH valid by (intro exI [of _ "prior # new"] exI [of _ rs]) simp
  next
    case None
    define stored where "stored = e\<lparr>ev_sequence := cursor + 1\<rparr>"
    define row where "row = \<lparr>er_owner = owner, er_workflow = workflow, er_sequence = cursor + 1, er_key = event_key e, er_event = stored\<rparr>"
    have rest: "append_events owner workflow es (cursor + 1) (appended @ [stored]) (d\<lparr>events := events d @ [row]\<rparr>) = (Inr d', out)"
      using Cons.prems valid None by (auto simp: insert_event_def stored_def row_def Let_def split: if_splits)
    from Cons.IH [OF this] obtain new rs where IH: "out = (appended @ [stored]) @ new"
      "d' = d\<lparr>events := (events d @ [row]) @ rs\<rparr>"
      "list_all2 (stored_as d' owner workflow) es new" "list_all (valid_source_event workflow) es" by auto
    have "load_event_by_key (d\<lparr>events := events d @ [row]\<rparr>) owner workflow (event_key e) = Some stored"
      using None by (auto simp: load_event_by_key_def find_append row_def event_in_def)
    from load_event_append [OF this, of rs] have "stored_as d' owner workflow e stored"
      by (simp add: stored_as_def IH(2))
    then show ?thesis using IH valid by (intro exI [of _ "stored # new"] exI [of _ "row # rs"]) simp
  qed
qed

lemma append_events_again:
  "list_all2 (stored_as d owner workflow) es new \<Longrightarrow> list_all (valid_source_event workflow) es
    \<Longrightarrow> append_events owner workflow es cursor appended d = (Inr d, appended @ new)"
  by (induction es new arbitrary: appended rule: list_all2_induct) (simp_all add: stored_as_def)

text \<open>The rows do not depend on the slice the closure carries between attempts.\<close>

lemma append_events_slice:
  "append_events owner workflow es cursor appended d
    = (fst (append_events owner workflow es cursor [] d), appended @ snd (append_events owner workflow es cursor [] d))"
proof (induction es arbitrary: cursor appended d)
  case (Cons e es)
  show ?case
    using Cons.IH [of _ "appended @ [_]"] Cons.IH [of _ "[_]"]
    by (auto simp: Let_def split: option.splits sum.splits)
qed simp

lemma append_body_slice:
  "append_body c owner workflow es appended d
    = (fst (append_body c owner workflow es [] d), appended @ snd (append_body c owner workflow es [] d))"
  using append_events_slice [of owner workflow es _ appended d]
  by (simp add: append_body_def split: option.splits) 

lemma append_body_last:
  assumes "(case append_body c owner workflow es appended d of (Inl e, _) \<Rightarrow> (Inl e, d) | (Inr d', out) \<Rightarrow> (Inr out, d')) = (Inr out, d')"
  shows "\<exists>stale new. out = appended @ stale @ new \<and> append_body c owner workflow es [] d = (Inr d', new) \<and> (fates = [] \<longrightarrow> stale = [])"
proof -
  have "append_body c owner workflow es appended d = (Inr d', out)"
    using assms by (simp split: prod.splits sum.splits)
  then have "fst (append_body c owner workflow es [] d) = Inr d'" "out = appended @ snd (append_body c owner workflow es [] d)"
    using append_body_slice [of c owner workflow es appended d] by simp_all
  then show ?thesis by (intro exI [of _ "[]"] exI [of _ "snd (append_body c owner workflow es [] d)"]) (simp add: prod_eq_iff)
qed

lemma append_attempts_result:
  assumes "append_attempts n fates c owner workflow es appended d = (Inr out, d')"
  shows "\<exists>stale new. out = appended @ stale @ new \<and> append_body c owner workflow es [] d = (Inr d', new)
    \<and> (fates = [] \<longrightarrow> stale = [])"
  using assms
proof (induction n fates c owner workflow es appended d rule: append_attempts.induct)
  case (2 n k fates c owner workflow es appended d)
  show ?case
  proof (cases "k = 0")
    case True
    then show ?thesis using 2 by auto
  next
    case False
    obtain d1 kept where body: "append_body c owner workflow (take k es) appended d = (Inr d1, kept)"
      and run: "append_attempts n fates c owner workflow es kept d = (Inr out, d')"
      using 2(3) False by (auto split: prod.splits sum.splits)
    from 2(2) [OF False body [symmetric] refl run] obtain stale new where
      "out = kept @ stale @ new" "append_body c owner workflow es [] d = (Inr d', new)" by blast
    moreover have "kept = appended @ snd (append_body c owner workflow (take k es) [] d)"
      using body append_body_slice [of c owner workflow "take k es" appended d] by (metis snd_conv)
    ultimately show ?thesis by auto
  qed
qed (simp, (simp only: append_attempts.simps, erule append_body_last)+)

lemma append_attempts_error: "append_attempts n fates c owner workflow es appended d = (Inl e, d') \<Longrightarrow> d' = d"
  by (induction n fates c owner workflow es appended d rule: append_attempts.induct)
    (auto split: prod.splits sum.splits if_splits)

subsection \<open>The event log is contiguous\<close>

definition event_rows :: "db \<Rightarrow> string \<Rightarrow> string \<Rightarrow> event_row list" where
  "event_rows d owner workflow = filter (event_in owner workflow) (events d)"

definition row_key :: "event_row \<Rightarrow> string \<times> string \<times> string" where
  "row_key r = (er_owner r, er_workflow r, er_key r)"

definition events_ok :: "db \<Rightarrow> bool" where
  "events_ok d \<longleftrightarrow>
     (\<forall>owner workflow. map er_sequence (event_rows d owner workflow) = [1..<Suc (length (event_rows d owner workflow))])
     \<and> distinct (map row_key (events d)) \<and> (\<forall>r\<in>set (events d). ev_sequence (er_event r) = er_sequence r)"

lemma fold_max_upt: "fold max [1..<Suc n] 0 = n"
  by (induction n) simp_all

lemma event_cursor_rows: "events_ok d \<Longrightarrow> event_cursor d owner workflow = length (event_rows d owner workflow)"
  unfolding event_cursor_def event_rows_def [symmetric] events_ok_def by (metis fold_max_upt)

lemma insert_event_ok:
  assumes "insert_event r d = Inr d'" and "events_ok d" and "er_sequence r = Suc (length (event_rows d (er_owner r) (er_workflow r)))"
    and "ev_sequence (er_event r) = er_sequence r"
  shows "events_ok d'"
proof -
  have d': "d' = d\<lparr>events := events d @ [r]\<rparr>" and new: "\<forall>q\<in>set (events d). row_key q \<noteq> row_key r"
    using assms(1) by (auto simp: insert_event_def event_in_def row_key_def split: if_splits)
  have "map er_sequence (event_rows d' owner workflow) = [1..<Suc (length (event_rows d' owner workflow))]" for owner workflow
    using assms(2,3) by (auto simp: events_ok_def event_rows_def d' event_in_def)
  then show ?thesis using assms(2,4) new by (auto simp: events_ok_def d')
qed

lemma append_events_ok:
  assumes "append_events owner workflow es cursor appended d = (Inr d', out)" and "events_ok d"
    and "cursor = length (event_rows d owner workflow)"
  shows "events_ok d'"
  using assms
proof (induction es arbitrary: cursor appended d)
  case (Cons e es)
  show ?case
  proof (cases "load_event_by_key d owner workflow (event_key e)")
    case (Some prior)
    then show ?thesis using Cons by (auto split: if_splits)
  next
    case None
    define row where "row = \<lparr>er_owner = owner, er_workflow = workflow, er_sequence = cursor + 1, er_key = event_key e,
      er_event = e\<lparr>ev_sequence := cursor + 1\<rparr>\<rparr>"
    obtain d1 where ins: "insert_event row d = Inr d1"
      and rest: "append_events owner workflow es (cursor + 1) (appended @ [e\<lparr>ev_sequence := cursor + 1\<rparr>]) d1 = (Inr d', out)"
      using Cons.prems(1) None by (auto simp: Let_def row_def split: if_splits sum.splits)
    have "events_ok d1"
      using ins by (rule insert_event_ok) (use Cons.prems in \<open>simp_all add: row_def\<close>)
    moreover have "cursor + 1 = length (event_rows d1 owner workflow)"
      using ins Cons.prems(3) by (auto simp: insert_event_def event_rows_def event_in_def row_def split: if_splits)
    ultimately show ?thesis using rest Cons.IH by blast
  qed
qed simp

lemma append_body_ok:
  "append_body c owner workflow es appended d = (Inr d', out) \<Longrightarrow> events_ok d \<Longrightarrow> events_ok d'"
  by (auto simp: append_body_def event_cursor_rows split: option.splits dest: append_events_ok)

lemma append_committed:
  assumes "append_release_workflow_events fates c owner workflow es d = (Inr out, d')" and "es \<noteq> []"
  obtains stale new where "out = stale @ new" "append_body c (trim_space owner) workflow es [] d = (Inr d', new)"
    "fates = [] \<longrightarrow> stale = []" "trim_space owner \<noteq> []" "\<not> blank workflow"
  using assms append_attempts_result [of sqlite_retry_attempts fates c "trim_space owner" workflow es "[]" d out d']
  by (auto simp: append_release_workflow_events_def Let_def split: if_splits)

lemma append_error: "append_release_workflow_events fates c owner workflow es d = (Inl e, d') \<Longrightarrow> d' = d"
  by (auto simp: append_release_workflow_events_def Let_def dest: append_attempts_error split: if_splits)

lemma append_without_lock:
  "append_release_workflow_events [] c owner workflow es d =
    (if trim_space owner = [] \<or> blank workflow then (Inl (Invalid ''event owner and workflow are required''), d)
     else if es = [] then (Inr [], d)
     else case append_body c (trim_space owner) workflow es [] d of (Inl e, _) \<Rightarrow> (Inl e, d) | (Inr d', out) \<Rightarrow> (Inr out, d'))"
  by (simp add: append_release_workflow_events_def Let_def sqlite_retry_attempts_def numeral_3_eq_3)

lemma append_body_result:
  assumes "append_body c owner workflow es [] d = (Inr d', new)"
  shows "\<exists>rs. d' = d\<lparr>events := events d @ rs\<rparr>" "list_all2 (stored_as d' owner workflow) es new"
    "list_all (valid_source_event workflow) es"
  using assms append_events_result [of owner workflow es _ "[]" d d' new] by (auto simp: append_body_def split: option.splits)

subsection \<open>Properties\<close>

definition sample_event :: workflow_event where
  "sample_event = \<lparr>ev_workflow = ''w1'', ev_operation = ''op1'', ev_sequence = 7, ev_timestamp = 5, ev_body = ''{}''\<rparr>"

definition log_db :: "event_row list \<Rightarrow> db" where
  "log_db rs = (operation_db [sample_operation] [])\<lparr>events := rs\<rparr>"

definition sample_event_row :: event_row where
  "sample_event_row = \<lparr>er_owner = ''owner'', er_workflow = ''w1'', er_sequence = 1, er_key = event_key sample_event,
     er_event = sample_event\<lparr>ev_sequence := 1\<rparr>\<rparr>"

lemmas log_runs = log_db_def operation_db_def work_db_def effect_runs sample_event_def sample_event_row_def
  append_without_lock append_body_def require_workflow_input_mutation_def event_cursor_def insert_event_def
  load_event_by_key_def valid_source_event_def event_in_def Let_def

lemma sample_append:
  "append_release_workflow_events [] quiet_ctx ''owner'' ''w1'' [sample_event] (log_db [])
     = (Inr [sample_event\<lparr>ev_sequence := 1\<rparr>], log_db [sample_event_row])"
  by (simp add: log_runs max_int64_def)

lemma log_db_ok: "events_ok (log_db [])" "events_ok (log_db [sample_event_row])"
  by (auto simp: events_ok_def event_rows_def log_db_def operation_db_def work_db_def sample_db_def empty_db_def
      sample_event_row_def event_in_def)

text \<open>The event log only grows and stays contiguous: whatever locks the attempts meet, and whether the call
  succeeds, appending keeps the events of each workflow numbered 1, 2, 3, ... in the order they were
  stored, under distinct keys, and changes no stored event.\<close>

lemma event_log_is_contiguous:
  assumes "events_ok d"
  shows "events_ok (snd (append_release_workflow_events fates c owner workflow es d))
    \<and> (\<exists>rs. events (snd (append_release_workflow_events fates c owner workflow es d)) = events d @ rs)"
proof (rule outcome_inv [of _ d])
  fix out d'
  assume run: "append_release_workflow_events fates c owner workflow es d = (Inr out, d')"
  show "events_ok d' \<and> (\<exists>rs. events d' = events d @ rs)"
  proof (cases "es = []")
    case True
    then show ?thesis using run assms by (auto simp: append_release_workflow_events_def Let_def split: if_splits)
  next
    case False
    with run obtain new where "append_body c (trim_space owner) workflow es [] d = (Inr d', new)"
      by (rule append_committed)
    then show ?thesis using append_body_ok append_body_result(1) assms by fastforce
  qed
qed (use append_error assms in auto)

lemma event_log_is_contiguous_witness: "events_ok (log_db [sample_event_row])"
  using event_log_is_contiguous [OF log_db_ok(1), of "[]" quiet_ctx "''owner''" "''w1''" "[sample_event]"]
  by (simp only: sample_append snd_conv)

text \<open>C36: Appending is idempotent: without locks, the result lists for each source event, in order, the event
  stored under its operation and source sequence, and appending the same events again returns the
  same list and stores nothing.\<close>

lemma append_is_idempotent:
  assumes "append_release_workflow_events [] c owner workflow es d = (Inr out, d')" and "es \<noteq> []"
    and "require_workflow_input_mutation c' d' (trim_space owner) workflow True = None"
  shows "list_all2 (stored_as d' (trim_space owner) workflow) es out
    \<and> append_release_workflow_events [] c' owner workflow es d' = (Inr out, d')"
proof -
  obtain new where "out = new" and body: "append_body c (trim_space owner) workflow es [] d = (Inr d', new)"
    and names: "trim_space owner \<noteq> []" "\<not> blank workflow"
    using append_committed [OF assms(1,2)] by (metis append_Nil)
  note result = append_body_result [OF body]
  have "append_body c' (trim_space owner) workflow es [] d' = (Inr d', new)"
    using append_events_again [OF result(2,3)] assms(3) by (simp add: append_body_def)
  then show ?thesis using result names assms(2) \<open>out = new\<close> by (simp add: append_without_lock)
qed

lemma append_is_idempotent_witness:
  "append_release_workflow_events [] quiet_ctx ''owner'' ''w1'' [sample_event] (log_db [sample_event_row])
     = (Inr [sample_event\<lparr>ev_sequence := 1\<rparr>], log_db [sample_event_row])"
  using append_is_idempotent [OF sample_append, of quiet_ctx] by (simp add: log_runs)

text \<open>Retries never change what is stored: if an append succeeds after attempts that met a lock, it stored
  exactly the rows an append without locks stores, and its result ends with the list that append
  returns.\<close>

lemma retries_store_the_same:
  assumes "append_release_workflow_events fates c owner workflow es d = (Inr out, d')"
  shows "\<exists>stale exact. out = stale @ exact \<and> append_release_workflow_events [] c owner workflow es d = (Inr exact, d')"
proof (cases "es = []")
  case True
  then show ?thesis using assms by (auto simp: append_release_workflow_events_def Let_def split: if_splits)
next
  case False
  then obtain stale new where "out = stale @ new" "append_body c (trim_space owner) workflow es [] d = (Inr d', new)"
    "trim_space owner \<noteq> []" "\<not> blank workflow"
    using append_committed [OF assms] by metis
  then show ?thesis using False by (auto simp: append_without_lock)
qed

lemma sample_retry:
  "append_release_workflow_events [LockedAfter 1] quiet_ctx ''owner'' ''w1'' [sample_event] (log_db [])
     = (Inr [sample_event\<lparr>ev_sequence := 1\<rparr>, sample_event\<lparr>ev_sequence := 1\<rparr>], log_db [sample_event_row])"
  by (simp add: log_runs append_release_workflow_events_def sqlite_retry_attempts_def numeral_3_eq_3 max_int64_def)

lemma retries_store_the_same_witness:
  "\<exists>stale exact. [sample_event\<lparr>ev_sequence := 1\<rparr>, sample_event\<lparr>ev_sequence := 1\<rparr>] = stale @ exact
     \<and> append_release_workflow_events [] quiet_ctx ''owner'' ''w1'' [sample_event] (log_db []) = (Inr exact, log_db [sample_event_row])"
  by (rule retries_store_the_same [OF sample_retry])

text \<open>The slice of an attempt that stops after \<open>k\<close> events: the first \<open>k\<close> results of the whole append.\<close>

lemma append_events_prefix:
  "append_events owner workflow es cursor appended d = (Inr d', out)
    \<Longrightarrow> \<exists>d1. append_events owner workflow (take k es) cursor appended d = (Inr d1, take (length appended + k) out)"
proof (induction es arbitrary: cursor appended d k)
  case (Cons e es)
  show ?case
  proof (cases k)
    case 0
    have "\<exists>new. out = appended @ new" using append_events_result [OF Cons.prems] by blast
    then show ?thesis using 0 by auto
  next
    case (Suc m)
    then show ?thesis
      using Cons.prems Cons.IH [of _ "appended @ [_]" _ m]
      by (auto simp: Let_def split: if_splits option.splits sum.splits)
  qed
qed auto

lemma append_body_prefix:
  "append_body c owner workflow es [] d = (Inr d', out)
    \<Longrightarrow> \<exists>d1. append_body c owner workflow (take k es) appended d = (Inr d1, appended @ take k out)"
  using append_events_prefix [of owner workflow es "event_cursor d owner workflow" "[]" d d' out k]
    append_body_slice [of c owner workflow "take k es" appended d]
  by (auto simp: append_body_def split: option.splits)

lemma append_attempt_locked:
  assumes "append_body c owner workflow es [] d = (Inr d', out)"
  shows "append_attempts (Suc n) (LockedAfter k # fates) c owner workflow es appended d
    = append_attempts n fates c owner workflow es (appended @ take k out) d"
  using append_body_prefix [OF assms, of k appended] by auto

lemma append_attempt_free:
  assumes "append_body c owner workflow es [] d = (Inr d', out)"
  shows "append_attempts (Suc n) [] c owner workflow es appended d = (Inr (appended @ out), d')"
  using append_body_slice [of c owner workflow es appended d] assms by simp

text \<open>C37: A retried append returns events twice: whenever an append succeeds without locks, the same append whose first
  attempt meets a lock after \<open>k\<close> events (at most as many as there are; at the commit, all of them) stores the same rows but
  returns the first \<open>k\<close> results a second time in front of the list, and with two locked attempts the prefixes of both, so
  that more results come back than events were given.\<close>

lemma retry_duplicates_returned_events:
  assumes "append_release_workflow_events [] c owner workflow es d = (Inr out, d')"
  shows "append_release_workflow_events [LockedAfter k] c owner workflow es d = (Inr (take k out @ out), d')
    \<and> append_release_workflow_events [LockedAfter j, LockedAfter k] c owner workflow es d = (Inr (take j out @ take k out @ out), d')
    \<and> length out = length es"
proof (cases "es = []")
  case True
  then show ?thesis using assms by (auto simp: append_release_workflow_events_def Let_def split: if_splits)
next
  case False
  from append_committed [OF assms False] obtain stale new where "out = stale @ new"
    "append_body c (trim_space owner) workflow es [] d = (Inr d', new)" "stale = []"
    and names: "trim_space owner \<noteq> []" "\<not> blank workflow" by metis
  then have body: "append_body c (trim_space owner) workflow es [] d = (Inr d', out)" by simp
  have "length out = length es" using append_body_result(2) [OF body] by (simp add: list_all2_lengthD)
  then show ?thesis
    using False names append_attempt_locked [OF body] append_attempt_free [OF body]
    by (simp add: append_release_workflow_events_def Let_def sqlite_retry_attempts_def numeral_3_eq_3 del: append_attempts.simps)
qed

lemma retry_duplicates_returned_events_witness:
  "append_release_workflow_events [LockedAfter 1] quiet_ctx ''owner'' ''w1'' [sample_event] (log_db [])
     = (Inr [sample_event\<lparr>ev_sequence := 1\<rparr>, sample_event\<lparr>ev_sequence := 1\<rparr>], log_db [sample_event_row])"
  using retry_duplicates_returned_events [OF sample_append, of 1] by simp

text \<open>Reading: the rows after a cursor, which the index scan returns in sequence order.\<close>

definition events_after :: "db \<Rightarrow> string \<Rightarrow> string \<Rightarrow> nat \<Rightarrow> workflow_event list" where
  "events_after d owner workflow after = map er_event (filter (\<lambda>r. after < er_sequence r) (event_rows d owner workflow))"

lemma rows_after: "map k xs = [1..<Suc (length xs)] \<Longrightarrow> filter (\<lambda>r. a < k r) xs = drop a xs"
proof (induction xs rule: rev_induct)
  case (snoc x xs)
  then have "map k xs = [1..<Suc (length xs)]" and "k x = Suc (length xs)" by simp_all
  then show ?case using snoc.IH by simp
qed simp

lemma event_rows_after:
  assumes "events_ok d"
  shows "events_after d owner workflow after = drop after (map er_event (event_rows d owner workflow))"
  using assms rows_after [of er_sequence "event_rows d owner workflow" after]
  by (simp add: events_ok_def events_after_def drop_map)

lemma event_rows_sorted:
  assumes "events_ok d"
  shows "sorted_wrt (\<lambda>a b. \<not> er_sequence b < er_sequence a) (event_rows d owner workflow)"
proof -
  have "sorted (map er_sequence (event_rows d owner workflow))"
    using assms by (simp add: events_ok_def del: upt_Suc)
  then show ?thesis by (simp add: sorted_map not_less)
qed

lemma load_events_after:
  assumes "events_ok d" and "trim_space owner \<noteq> []" "workflow \<noteq> []" "after \<le> max_int64"
  shows "load_release_workflow_events d owner workflow after limit
    = Inr (take (if limit \<le> 0 \<or> limit > 1000 then 1000 else nat limit) (events_after d (trim_space owner) workflow after))"
proof -
  have rows: "filter (\<lambda>r. event_in (trim_space owner) workflow r \<and> after < er_sequence r) (events d)
      = filter (\<lambda>r. after < er_sequence r) (event_rows d (trim_space owner) workflow)"
    by (simp add: event_rows_def conj_commute)
  have "sorted_wrt (\<lambda>a b. \<not> er_sequence b < er_sequence a) (filter (\<lambda>r. after < er_sequence r) (event_rows d (trim_space owner) workflow))"
    using event_rows_sorted [OF assms(1)] by (rule sorted_wrt_filter)
  then show ?thesis
    using assms(2-4) by (simp add: load_release_workflow_events_def Let_def rows order_by_sorted events_after_def take_map)
qed

text \<open>Paging by cursor loses and repeats nothing: a page is an initial part of the events after its cursor, it
  is empty only when there are none, and what follows the sequence of its last event is exactly the
  rest.\<close>

lemma event_pages_are_exact:
  assumes "events_ok d" and "load_release_workflow_events d owner workflow after limit = Inr page"
  shows "\<exists>rest. events_after d (trim_space owner) workflow after = page @ rest
    \<and> (page = [] \<longrightarrow> rest = []) \<and> (page \<noteq> [] \<longrightarrow> events_after d (trim_space owner) workflow (ev_sequence (last page)) = rest)"
proof -
  define n where "n = (if limit \<le> 0 \<or> limit > 1000 then 1000 else nat limit)"
  define all where "all = map er_event (event_rows d (trim_space owner) workflow)"
  have positive: "0 < n" by (auto simp: n_def)
  have "trim_space owner \<noteq> []" "workflow \<noteq> []" "after \<le> max_int64"
    using assms(2) by (auto simp: load_release_workflow_events_def Let_def split: if_splits)
  then have page: "page = take n (drop after all)"
    using load_events_after [OF assms(1)] assms(2) event_rows_after [OF assms(1)] by (simp add: n_def all_def)
  have seq: "ev_sequence (all ! i) = Suc i" if "i < length all" for i
  proof -
    have "er_sequence (event_rows d (trim_space owner) workflow ! i)
        = map er_sequence (event_rows d (trim_space owner) workflow) ! i"
      using that by (simp add: all_def)
    also have "\<dots> = [1..<Suc (length (event_rows d (trim_space owner) workflow))] ! i"
      using assms(1) by (simp only: events_ok_def)
    also have "\<dots> = Suc i" using that by (simp add: all_def del: upt_Suc)
    finally have "er_sequence (event_rows d (trim_space owner) workflow ! i) = Suc i" .
    moreover have "event_rows d (trim_space owner) workflow ! i \<in> set (events d)"
      using that nth_mem by (fastforce simp: event_rows_def all_def)
    ultimately show ?thesis using assms(1) that by (simp add: events_ok_def all_def)
  qed
  have "drop (ev_sequence (last page)) all = drop n (drop after all)" if "page \<noteq> []"
  proof -
    have len: "length page = min n (length all - after)" "0 < length page"
      using that by (simp_all add: page)
    have "last page = page ! (length page - 1)" using that by (simp add: last_conv_nth)
    also have "\<dots> = drop after all ! (length page - 1)"
      by (subst page, rule nth_take) (use len positive in linarith)
    also have "\<dots> = all ! (after + (length page - 1))" by (rule nth_drop) (use len in linarith)
    finally have "last page = all ! (after + length page - 1)" using len(2) by simp
    then have "ev_sequence (last page) = after + length page"
      using len seq [of "after + length page - 1"] by auto
    then show ?thesis using len by (auto simp: min_def add.commute)
  qed
  moreover have "drop n (drop after all) = []" if "page = []"
    using that positive by (simp add: page)
  ultimately show ?thesis
    using append_take_drop_id [of n "drop after all"] event_rows_after [OF assms(1)]
    by (intro exI [of _ "drop n (drop after all)"]) (simp add: page all_def)
qed

lemma event_pages_are_exact_witness:
  "\<exists>rest. events_after (log_db [sample_event_row]) ''owner'' ''w1'' 0 = [sample_event\<lparr>ev_sequence := 1\<rparr>] @ rest"
proof -
  have "load_release_workflow_events (log_db [sample_event_row]) ''owner'' ''w1'' 0 10 = Inr [sample_event\<lparr>ev_sequence := 1\<rparr>]"
    by (simp add: load_release_workflow_events_def order_by_def log_runs)
  from event_pages_are_exact [OF log_db_ok(2) this] show ?thesis by (auto simp: effect_runs)
qed

text \<open>The stored continuation never goes back: a save leaves the workflow with a projection whose revision is
  at least the saved and the previous one; a save of an older revision commits and changes nothing.\<close>

lemma continuation_never_goes_back:
  assumes "save_release_workflow_continuation c r d = (Inr u, d')"
  shows "(\<exists>q\<in>set (continuations d'). continuation_of (co_owner r) (co_workflow r) q \<and> co_revision r \<le> co_revision q)
    \<and> (\<forall>q\<in>set (continuations d). \<exists>s\<in>set (continuations d'). continuation_of (co_owner q) (co_workflow q) s \<and> co_revision q \<le> co_revision s)
    \<and> ((\<exists>q\<in>set (continuations d). continuation_of (co_owner r) (co_workflow r) q)
       \<and> (\<forall>q\<in>set (continuations d). continuation_of (co_owner r) (co_workflow r) q \<longrightarrow> co_revision r < co_revision q) \<longrightarrow> d' = d)"
proof -
  have run: "upsert_continuation r d = Inr (u, d')"
    using assms by (auto simp: save_release_workflow_continuation_def exec_workflow_input_write_def with_write_tx_commit split: option.splits)
  define P where "P = (\<lambda>q. continuation_of (co_owner r) (co_workflow r) q \<and> co_revision r \<ge> co_revision q)"
  show ?thesis
  proof (cases "List.find (continuation_of (co_owner r) (co_workflow r)) (continuations d)")
    case None
    then have "d' = d\<lparr>continuations := continuations d @ [r]\<rparr>"
      using run by (simp add: upsert_continuation_def split: if_splits)
    then show ?thesis using None by (auto simp: find_None continuation_of_def)
  next
    case (Some q)
    then have d': "d' = d\<lparr>continuations := update_where P (\<lambda>_. r) (continuations d)\<rparr>"
      using run by (simp add: upsert_continuation_def P_def split: if_splits)
    have q: "q \<in> set (continuations d)" "continuation_of (co_owner r) (co_workflow r) q"
      using find_Some_in [OF Some] by simp_all
    have image: "(if P s then r else s) \<in> set (continuations d')" if "s \<in> set (continuations d)" for s
      using that by (auto simp: d' in_update_where)
    have "\<exists>s\<in>set (continuations d'). continuation_of (co_owner r) (co_workflow r) s \<and> co_revision r \<le> co_revision s"
      using image [OF q(1)] q(2) by (intro bexI [of _ "if P q then r else q"]) (auto simp: P_def continuation_of_def)
    moreover have "\<exists>t\<in>set (continuations d'). continuation_of (co_owner s) (co_workflow s) t \<and> co_revision s \<le> co_revision t"
      if "s \<in> set (continuations d)" for s
      using image [OF that] by (intro bexI [of _ "if P s then r else s"]) (auto simp: P_def continuation_of_def)
    moreover have "d' = d" if "\<forall>q\<in>set (continuations d). continuation_of (co_owner r) (co_workflow r) q \<longrightarrow> co_revision r < co_revision q"
      using that by (subst d', subst update_where_none) (auto simp: P_def)
    ultimately show ?thesis by blast
  qed
qed

definition sample_continuation :: "nat \<Rightarrow> continuation_record" where
  "sample_continuation n = \<lparr>co_owner = ''owner'', co_workflow = ''w1'', co_revision = n, co_payload = ''{}'', co_updated_at = 5\<rparr>"

lemma continuation_never_goes_back_witness:
  "save_release_workflow_continuation quiet_ctx (sample_continuation 3) ((log_db [])\<lparr>continuations := [sample_continuation 4]\<rparr>)
     = (Inr (), (log_db [])\<lparr>continuations := [sample_continuation 4]\<rparr>)"
proof -
  have "fst (save_release_workflow_continuation quiet_ctx (sample_continuation 3) ((log_db [])\<lparr>continuations := [sample_continuation 4]\<rparr>)) = Inr ()"
    by (simp add: save_release_workflow_continuation_def validate_continuation_record_def exec_workflow_input_write_def
        upsert_continuation_def continuation_of_def sample_continuation_def log_runs max_int64_def)
  then obtain d' where run: "save_release_workflow_continuation quiet_ctx (sample_continuation 3)
      ((log_db [])\<lparr>continuations := [sample_continuation 4]\<rparr>) = (Inr (), d')" by (metis prod.collapse)
  show ?thesis using continuation_never_goes_back [OF run] run by (simp add: sample_continuation_def continuation_of_def)
qed

text \<open>An accepted intent is kept: after an accept commits, the intent under its key has the accepted
  fingerprint, and every valid repeat by a current authority returns the stored intent or, with another
  fingerprint, an idempotency conflict, and changes nothing.\<close>

lemma accepted_intent_is_kept:
  assumes "accept_release_workflow_intent c r d = (Inr (res, again), d')"
    and "it_owner q = it_owner r" "it_workflow q = it_workflow r" "it_key q = it_key r" "validate_intent_record q = None"
    and "require_workflow_input_mutation c' d' (it_owner r) (it_workflow r) False = None"
  shows "load_intent d' (it_owner r) (it_workflow r) (it_key r) = Some res \<and> it_fingerprint res = it_fingerprint r
    \<and> accept_release_workflow_intent c' q d'
       = (if it_fingerprint q = it_fingerprint r then Inr (res, True) else Inl IdempotencyConflict, d')"
proof -
  have "accept_intent_body c r d = Inr ((res, again), d')"
    using assms(1) by (auto simp: accept_release_workflow_intent_def with_write_tx_commit split: option.splits)
  then have stored: "load_intent d' (it_owner r) (it_workflow r) (it_key r) = Some res" "it_fingerprint res = it_fingerprint r"
    by (auto simp: accept_intent_body_def load_intent_def find_append intent_of_def split: option.splits if_splits)
  then show ?thesis
    using assms(2-6) by (simp add: accept_release_workflow_intent_def accept_intent_body_def)
qed

definition sample_intent :: intent_record where
  "sample_intent = \<lparr>it_owner = ''owner'', it_workflow = ''w1'', it_key = ''k'', it_fingerprint = ''fp'', it_goal = ''upload'',
     it_payload = ''{}'', it_accepted_at = 5\<rparr>"

lemma intent_blanks [simp]: "\<not> blank ''k''"
  by code_simp

lemma accepted_intent_is_kept_witness:
  "accept_release_workflow_intent quiet_ctx sample_intent ((log_db [])\<lparr>intents := [sample_intent]\<rparr>)
     = (Inr (sample_intent, True), (log_db [])\<lparr>intents := [sample_intent]\<rparr>)"
proof -
  have run: "accept_release_workflow_intent quiet_ctx sample_intent (log_db [])
      = (Inr (sample_intent, False), (log_db [])\<lparr>intents := [sample_intent]\<rparr>)"
    by (simp add: accept_release_workflow_intent_def validate_intent_record_def accept_intent_body_def load_intent_def
        sample_intent_def intent_of_def log_runs)
  have "validate_intent_record sample_intent = None"
    and "require_workflow_input_mutation quiet_ctx ((log_db [])\<lparr>intents := [sample_intent]\<rparr>) ''owner'' ''w1'' False = None"
    by (simp_all add: validate_intent_record_def sample_intent_def log_runs)
  then show ?thesis using accepted_intent_is_kept [OF run, of sample_intent quiet_ctx] by (simp add: sample_intent_def)
qed

end
