(* ===== verification/States.thy ===== *)
theory States
  imports DurableLog
begin

text \<open>
  Workflow states: \<open>internal/services/db/release_workflow_state.go\<close>. A state row is the root of a
  workflow: it is created under the opening input slot, saved by compare-and-swap on its revision,
  and its deletion cascades to every dependent table. A workflow with a submission fence, and the
  slot's own workflow, cannot be deleted here. The snapshot tables \<open>syncWorkflowStorage\<close> writes and the
  reusable description are not modelled beyond their outcome.
\<close>

subsection \<open>Create\<close>

definition validate_workflow_state_record :: "state_record \<Rightarrow> err option" where
  "validate_workflow_state_record r =
     (if blank (ws_owner r) \<or> blank (ws_id r) then Some (Invalid ''workflow owner and id are required'')
      else if ws_revision r = 0 \<or> ws_revision r > max_int64 then Some (Invalid ''workflow revision is invalid'')
      else if ws_status r = WfUnset \<or> pl_bytes (ws_payload r) = [] \<or> ws_created_at r = 0 \<or> ws_updated_at r < ws_created_at r
      then Some (Invalid ''status, payload, and timestamps are required'')
      else if ws_creation_key r \<noteq> [] \<and> ws_creation_fingerprint r = [] then Some (Invalid ''creation fingerprint is required'')
      else if ws_description_valid r = Some False then Some (Invalid ''reusable description is invalid'') else None)"

definition load_state_by_creation_key :: "db \<Rightarrow> string \<Rightarrow> string \<Rightarrow> state_record option" where
  "load_state_by_creation_key d owner key = List.find (\<lambda>s. ws_owner s = owner \<and> ws_creation_key s = key) (states d)"

text \<open>Once the slot was ever acquired, a state is created only by its live coordinator while it opens or switches.\<close>

definition check_creation_slot :: "ctx \<Rightarrow> state_record \<Rightarrow> db \<Rightarrow> err option" where
  "check_creation_slot c r d = (let s = load_active_input d in
     if slot_fence s \<noteq> 0 \<and> (input_authority c \<noteq> Some (slot_coordinator s, slot_fence s) \<or> slot_owner s \<noteq> ws_owner r
         \<or> \<not> slot_lease_expires_at s > wall_now c \<or> slot_state s \<noteq> AiOpening \<and> slot_state s \<noteq> AiSwitchPending)
     then Some ActiveInputLeaseLost else None)"

text \<open>The columns of a row: the reusable description and the effect resolution are not among them.\<close>

definition state_row :: "state_record \<Rightarrow> state_record" where
  "state_row r = r\<lparr>ws_description_valid := None, ws_resolution := None\<rparr>"

definition insert_state :: "ctx \<Rightarrow> state_record \<Rightarrow> db \<Rightarrow> err + db" where
  "insert_state c r d =
     (if \<exists>s\<in>set (states d). ws_owner s = ws_owner r
         \<and> (ws_id s = ws_id r \<or> ws_creation_key r \<noteq> [] \<and> ws_creation_key s = ws_creation_key r)
      then Inl SqlConstraint
      else case sync_outcome c of Some e \<Rightarrow> Inl e | None \<Rightarrow> Inr (d\<lparr>states := states d @ [state_row r]\<rparr>))"

definition create_new_state :: "ctx \<Rightarrow> state_record \<Rightarrow> (state_record \<times> bool) tx" where
  "create_new_state c r d =
     (case load_workflow_state d (ws_owner r) (ws_id r) of
        Inr _ \<Rightarrow> Inl RevisionConflict
      | Inl _ \<Rightarrow> (case insert_state c r d of Inl e \<Rightarrow> Inl e | Inr d' \<Rightarrow> Inr ((r, False), d')))"

definition create_state_body :: "ctx \<Rightarrow> state_record \<Rightarrow> (state_record \<times> bool) tx" where
  "create_state_body c r d =
     (case check_creation_slot c r d of
        Some e \<Rightarrow> Inl e
      | None \<Rightarrow>
          if ws_creation_key r \<noteq> [] then
            (case load_state_by_creation_key d (ws_owner r) (ws_creation_key r) of
               Some prior \<Rightarrow> if ws_creation_fingerprint prior \<noteq> ws_creation_fingerprint r then Inl IdempotencyConflict
                 else Inr ((prior, True), d)
             | None \<Rightarrow> create_new_state c r d)
          else create_new_state c r d)"

definition create_release_workflow_state :: "ctx \<Rightarrow> state_record \<Rightarrow> db \<Rightarrow> (err + state_record \<times> bool) \<times> db" where
  "create_release_workflow_state c r d =
     (case validate_workflow_state_record r of Some e \<Rightarrow> (Inl e, d) | None \<Rightarrow> with_write_tx (create_state_body c r) d)"

definition load_release_workflow_state :: "db \<Rightarrow> string \<Rightarrow> string \<Rightarrow> err + state_record" where
  "load_release_workflow_state d owner workflow = load_workflow_state d (trim_space owner) workflow"

subsection \<open>Save\<close>

definition state_of :: "string \<Rightarrow> string \<Rightarrow> state_record \<Rightarrow> bool" where
  "state_of owner workflow s \<longleftrightarrow> ws_owner s = owner \<and> ws_id s = workflow"

definition apply_resolution :: "ctx \<Rightarrow> state_record \<Rightarrow> unit tx" where
  "apply_resolution c r d =
     (case ws_resolution r of
        None \<Rightarrow> Inr ((), d)
      | Some x \<Rightarrow> resolve_effect_unknown_tx c (ws_owner r) (ws_id r) (er_kind x) (er_scope x) (ws_updated_at r) (er_expected x) d)"

definition saved_state :: "state_record \<Rightarrow> state_record \<Rightarrow> state_record" where
  "saved_state r s = s\<lparr>ws_revision := ws_revision r, ws_status := ws_status r, ws_payload := ws_payload r, ws_updated_at := ws_updated_at r\<rparr>"

definition retain_hdr_association :: "state_record \<Rightarrow> db \<Rightarrow> db" where
  "retain_hdr_association r d = d\<lparr>associations := update_where (\<lambda>a. ia_owner a = ws_owner r \<and> ia_workflow a = ws_id r)
     (\<lambda>a. a\<lparr>ia_hdr_analysis := pl_hdr (ws_payload r)\<rparr>) (associations d)\<rparr>"

definition save_state_body :: "ctx \<Rightarrow> nat \<Rightarrow> state_record \<Rightarrow> unit tx" where
  "save_state_body c expected r d =
     (case require_workflow_input_mutation c d (ws_owner r) (ws_id r) True of
        Some e \<Rightarrow> Inl e
      | None \<Rightarrow> (case apply_resolution c r d of
          Inl e \<Rightarrow> Inl e
        | Inr (_, d1) \<Rightarrow>
            let target = (\<lambda>s. state_of (ws_owner r) (ws_id r) s \<and> ws_revision s = expected) in
            if count_where target (states d1) = 1 then
              (case sync_outcome c of
                 Some e \<Rightarrow> Inl e
               | None \<Rightarrow> Inr ((), retain_hdr_association r (d1\<lparr>states := update_where target (saved_state r) (states d1)\<rparr>)))
            else case load_workflow_state d1 (ws_owner r) (ws_id r) of Inl e \<Rightarrow> Inl e | Inr _ \<Rightarrow> Inl RevisionConflict))"

definition save_release_workflow_state :: "ctx \<Rightarrow> nat \<Rightarrow> state_record \<Rightarrow> db \<Rightarrow> (err + unit) \<times> db" where
  "save_release_workflow_state c expected r d =
     (case validate_workflow_state_record r of
        Some e \<Rightarrow> (Inl e, d)
      | None \<Rightarrow>
          if ws_revision r \<noteq> (expected + 1) mod 2 ^ 64 then (Inl (Invalid ''revision must advance by one''), d)
          else with_write_tx (save_state_body c expected r) d)"

subsection \<open>Delete\<close>

text \<open>\<open>DELETE FROM release_workflow_states\<close> with its cascades; submission fences have no foreign key.\<close>

definition delete_states :: "(state_record \<Rightarrow> bool) \<Rightarrow> db \<Rightarrow> db" where
  "delete_states P d = (let gone = (\<lambda>owner workflow. \<exists>s\<in>set (states d). P s \<and> state_of owner workflow s);
       d1 = delete_operations (\<lambda>p. gone (op_owner p) (op_workflow p)) d in
     d1\<lparr>states := delete_where P (states d),
        effects := delete_where (\<lambda>e. gone (eff_owner e) (eff_workflow e)) (effects d),
        intents := delete_where (\<lambda>i. gone (it_owner i) (it_workflow i)) (intents d),
        continuations := delete_where (\<lambda>k. gone (co_owner k) (co_workflow k)) (continuations d),
        events := delete_where (\<lambda>r. gone (er_owner r) (er_workflow r)) (events d)\<rparr>)"

definition fenced_workflow :: "db \<Rightarrow> string \<Rightarrow> string \<Rightarrow> bool" where
  "fenced_workflow d owner workflow \<longleftrightarrow> (\<exists>f\<in>set (fences d). fen_owner f = owner \<and> fen_workflow f = workflow)"

definition delete_state_body :: "string \<Rightarrow> string \<Rightarrow> unit tx" where
  "delete_state_body owner workflow d = (let s = load_active_input d in
     if slot_state s \<noteq> AiEmpty \<and> slot_owner s = owner \<and> slot_workflow s = workflow then Inl ActiveInputBusy
     else if fenced_workflow d owner workflow then Inl EffectConflict
     else if count_where (state_of owner workflow) (states d) = 0 then Inl StateNotFound
     else Inr ((), delete_states (state_of owner workflow) d))"

definition delete_release_workflow_state :: "string \<Rightarrow> string \<Rightarrow> db \<Rightarrow> (err + unit) \<times> db" where
  "delete_release_workflow_state owner0 workflow d = (let owner = trim_space owner0 in
     if owner = [] \<or> blank workflow then (Inl (Invalid ''workflow owner and id are required''), d)
     else with_write_tx (delete_state_body owner workflow) d)"

definition expired_state :: "time \<Rightarrow> db \<Rightarrow> state_record \<Rightarrow> bool" where
  "expired_state before d s \<longleftrightarrow>
     (ws_status s = WfCompleted \<or> ws_status s = WfCanceled \<or> ws_status s = WfFailed)
     \<and> sql_before (ws_updated_at s) before \<and> \<not> fenced_workflow d (ws_owner s) (ws_id s)
     \<and> \<not> (slot_state (slot d) \<noteq> AiEmpty \<and> slot_owner (slot d) \<noteq> [] \<and> slot_workflow (slot d) \<noteq> []
          \<and> state_of (slot_owner (slot d)) (slot_workflow (slot d)) s)"

definition delete_terminal_states_before :: "time \<Rightarrow> db \<Rightarrow> (err + nat) \<times> db" where
  "delete_terminal_states_before before d =
     (if before = 0 then (Inl (Invalid ''retention cutoff is required''), d)
      else with_write_tx (\<lambda>d. Inr (count_where (expired_state before d) (states d), delete_states (expired_state before d) d)) d)"

subsection \<open>What committed operations did\<close>

lemma state_of_state_row [simp]:
  "state_of owner workflow (state_row r) = state_of owner workflow r"
  "ws_owner (state_row r) = ws_owner r" "ws_id (state_row r) = ws_id r" "ws_revision (state_row r) = ws_revision r"
  "ws_creation_key (state_row r) = ws_creation_key r" "ws_creation_fingerprint (state_row r) = ws_creation_fingerprint r"
  by (simp_all add: state_row_def state_of_def)

lemma saved_state_simps [simp]:
  "ws_owner (saved_state r s) = ws_owner s" "ws_id (saved_state r s) = ws_id s" "ws_revision (saved_state r s) = ws_revision r"
  "state_of owner workflow (saved_state r s) = state_of owner workflow s"
  "ws_creation_key (saved_state r s) = ws_creation_key s" "ws_creation_fingerprint (saved_state r s) = ws_creation_fingerprint s"
  by (simp_all add: saved_state_def state_of_def)

lemma state_exists_of: "state_exists d owner workflow \<longleftrightarrow> (\<exists>s\<in>set (states d). state_of owner workflow s)"
  by (simp add: state_exists_def state_of_def)

lemma create_state_committed:
  assumes "create_release_workflow_state c r d = (Inr (res, again), d')"
  obtains (repeat) "ws_creation_key r \<noteq> []" "again" "d' = d" "check_creation_slot c r d = None"
      "load_state_by_creation_key d (ws_owner r) (ws_creation_key r) = Some res"
      "ws_creation_fingerprint res = ws_creation_fingerprint r"
  | (fresh) "\<not> again" "res = r" "d' = d\<lparr>states := states d @ [state_row r]\<rparr>" "check_creation_slot c r d = None"
      "ws_creation_key r \<noteq> [] \<longrightarrow> load_state_by_creation_key d (ws_owner r) (ws_creation_key r) = None"
      "\<forall>s\<in>set (states d). \<not> state_of (ws_owner r) (ws_id r) s"
proof -
  have body: "create_state_body c r d = Inr ((res, again), d')"
    using assms by (simp add: create_release_workflow_state_def with_write_tx_commit split: option.splits)
  then have slot: "check_creation_slot c r d = None" by (simp add: create_state_body_def split: option.splits)
  show thesis
  proof (cases "ws_creation_key r \<noteq> [] \<and> load_state_by_creation_key d (ws_owner r) (ws_creation_key r) \<noteq> None")
    case True
    then show thesis using body slot by (intro repeat) (auto simp: create_state_body_def split: if_splits)
  next
    case False
    then have "create_new_state c r d = Inr ((res, again), d')"
      using body slot by (auto simp: create_state_body_def split: if_splits option.splits)
    then have "insert_state c r d = Inr d' \<and> \<not> again \<and> res = r"
      by (auto simp: create_new_state_def split: sum.splits)
    then have "d' = d\<lparr>states := states d @ [state_row r]\<rparr> \<and> \<not> again \<and> res = r
        \<and> (\<forall>s\<in>set (states d). \<not> state_of (ws_owner r) (ws_id r) s)"
      by (auto simp: insert_state_def state_of_def split: if_splits option.splits)
    then show thesis using False slot by (intro fresh) auto
  qed
qed

lemma create_state_error: "create_release_workflow_state c r d = (Inl e, d') \<Longrightarrow> d' = d"
  by (auto simp: create_release_workflow_state_def dest: with_write_tx_error split: option.splits)

lemma apply_resolution_cases:
  assumes "apply_resolution c r d = Inr (u, d1)"
  shows "d1 = d \<or> (\<exists>x l. ws_resolution r = Some x \<and> load_latest_effect d (trim_space (ws_owner r)) (ws_id r) (er_kind x) (trim_space (er_scope x)) = Some l
     \<and> eff_status l = EffUnknown \<and> d1 = resolved_db (trim_space (ws_owner r)) (ws_id r) l (ws_updated_at r) d)"
  using assms resolve_committed(2) [of c "ws_owner r" "ws_id r" _ _ "ws_updated_at r" _ d u d1]
  by (fastforce simp: apply_resolution_def split: option.splits)

lemma resolved_db_frame [simp]:
  "states (resolved_db owner workflow l now d) = states d" "operations (resolved_db owner workflow l now d) = operations d"
  "work (resolved_db owner workflow l now d) = work d" "slot (resolved_db owner workflow l now d) = slot d"
  "intents (resolved_db owner workflow l now d) = intents d" "continuations (resolved_db owner workflow l now d) = continuations d"
  "events (resolved_db owner workflow l now d) = events d"
  by (simp_all add: resolved_db_def)

lemma apply_resolution_frame:
  assumes "apply_resolution c r d = Inr (u, d1)"
  shows "states d1 = states d" "operations d1 = operations d" "work d1 = work d" "slot d1 = slot d"
    "intents d1 = intents d" "continuations d1 = continuations d" "events d1 = events d"
  using apply_resolution_cases [OF assms] by auto

abbreviation save_state_target :: "nat \<Rightarrow> state_record \<Rightarrow> state_record \<Rightarrow> bool" where
  "save_state_target expected r s \<equiv> state_of (ws_owner r) (ws_id r) s \<and> ws_revision s = expected"

lemma save_state_committed:
  assumes "save_release_workflow_state c expected r d = (Inr u, d')"
  obtains d1 where "apply_resolution c r d = Inr ((), d1)"
    "d' = retain_hdr_association r (d1\<lparr>states := update_where (save_state_target expected r) (saved_state r) (states d)\<rparr>)"
    "count_where (save_state_target expected r) (states d) = 1" "ws_revision r = (expected + 1) mod 2 ^ 64"
    "0 < ws_revision r" "require_workflow_input_mutation c d (ws_owner r) (ws_id r) True = None"
proof -
  have valid: "0 < ws_revision r" and step: "ws_revision r = (expected + 1) mod 2 ^ 64"
    and body: "save_state_body c expected r d = Inr (u, d')"
    using assms by (simp_all add: save_release_workflow_state_def validate_workflow_state_record_def with_write_tx_commit
        split: option.splits if_splits)
  have authority: "require_workflow_input_mutation c d (ws_owner r) (ws_id r) True = None"
    using body by (simp add: save_state_body_def split: option.splits)
  then obtain d1 where d1: "apply_resolution c r d = Inr ((), d1)"
    using body by (auto simp: save_state_body_def split: sum.splits)
  note states = apply_resolution_frame(1) [OF d1]
  have count: "count_where (save_state_target expected r) (states d) = 1"
    using body authority d1 by (auto simp: save_state_body_def Let_def states split: if_splits sum.splits)
  moreover have "d' = retain_hdr_association r (d1\<lparr>states := update_where (save_state_target expected r) (saved_state r) (states d)\<rparr>)"
    using body authority d1 count by (simp add: save_state_body_def Let_def states split: option.splits)
  ultimately show thesis using that d1 step valid authority by blast
qed

lemma save_state_error: "save_release_workflow_state c expected r d = (Inl e, d') \<Longrightarrow> d' = d"
  by (auto simp: save_release_workflow_state_def dest: with_write_tx_error split: option.splits if_splits)

lemma delete_state_error: "delete_release_workflow_state owner workflow d = (Inl e, d') \<Longrightarrow> d' = d"
  by (auto simp: delete_release_workflow_state_def Let_def dest: with_write_tx_error split: if_splits)

lemma delete_state_committed:
  assumes "delete_release_workflow_state owner workflow d = (Inr u, d')"
  shows "d' = delete_states (state_of (trim_space owner) workflow) d" "\<not> fenced_workflow d (trim_space owner) workflow"
    "\<not> (slot_state (slot d) \<noteq> AiEmpty \<and> slot_owner (slot d) = trim_space owner \<and> slot_workflow (slot d) = workflow)"
  using assms
  by (auto simp: delete_release_workflow_state_def delete_state_body_def load_active_input_def Let_def with_write_tx_commit split: if_splits)

subsection \<open>No row outlives its workflow\<close>

definition gone :: "(state_record \<Rightarrow> bool) \<Rightarrow> db \<Rightarrow> string \<Rightarrow> string \<Rightarrow> bool" where
  "gone P d owner workflow \<longleftrightarrow> (\<exists>s\<in>set (states d). P s \<and> state_of owner workflow s)"

lemma in_delete_states [simp]:
  "s \<in> set (states (delete_states P d)) \<longleftrightarrow> s \<in> set (states d) \<and> \<not> P s"
  "p \<in> set (operations (delete_states P d)) \<longleftrightarrow> p \<in> set (operations d) \<and> \<not> gone P d (op_owner p) (op_workflow p)"
  "e \<in> set (effects (delete_states P d)) \<longleftrightarrow> e \<in> set (effects d) \<and> \<not> gone P d (eff_owner e) (eff_workflow e)"
  "i \<in> set (intents (delete_states P d)) \<longleftrightarrow> i \<in> set (intents d) \<and> \<not> gone P d (it_owner i) (it_workflow i)"
  "k \<in> set (continuations (delete_states P d)) \<longleftrightarrow> k \<in> set (continuations d) \<and> \<not> gone P d (co_owner k) (co_workflow k)"
  "v \<in> set (events (delete_states P d)) \<longleftrightarrow> v \<in> set (events d) \<and> \<not> gone P d (er_owner v) (er_workflow v)"
  "w \<in> set (work (delete_states P d)) \<longleftrightarrow> w \<in> set (work d)
     \<and> (\<forall>p\<in>set (operations d). gone P d (op_owner p) (op_workflow p) \<longrightarrow> \<not> work_of (op_owner p) (op_workflow p) (op_id p) w)"
  by (auto simp: delete_states_def gone_def Let_def delete_operations_def)

lemma delete_states_frame [simp]:
  "fences (delete_states P d) = fences d" "slot (delete_states P d) = slot d" "inputs (delete_states P d) = inputs d"
  "associations (delete_states P d) = associations d" "config_active (delete_states P d) = config_active d"
  "config_pending (delete_states P d) = config_pending d"
  by (simp_all add: delete_states_def Let_def delete_operations_def)

lemma delete_states_exists:
  "state_exists d owner workflow \<Longrightarrow> \<not> gone P d owner workflow \<Longrightarrow> state_exists (delete_states P d) owner workflow"
  unfolding state_exists_of gone_def by (metis in_delete_states(1))

definition rows_owned :: "db \<Rightarrow> bool" where
  "rows_owned d \<longleftrightarrow>
     (\<forall>p\<in>set (operations d). state_exists d (op_owner p) (op_workflow p))
     \<and> (\<forall>e\<in>set (effects d). state_exists d (eff_owner e) (eff_workflow e))
     \<and> (\<forall>i\<in>set (intents d). state_exists d (it_owner i) (it_workflow i))
     \<and> (\<forall>k\<in>set (continuations d). state_exists d (co_owner k) (co_workflow k))
     \<and> (\<forall>v\<in>set (events d). state_exists d (er_owner v) (er_workflow v))
     \<and> (\<forall>f\<in>set (fences d). state_exists d (fen_owner f) (fen_workflow f))"

lemma delete_states_owned:
  assumes "rows_owned d" and "\<And>f. f \<in> set (fences d) \<Longrightarrow> \<not> gone P d (fen_owner f) (fen_workflow f)"
  shows "rows_owned (delete_states P d)"
  using assms by (auto simp: rows_owned_def intro!: delete_states_exists)

lemma delete_states_work_ok:
  assumes "work_ok d"
  shows "work_ok (delete_states P d)"
proof -
  let ?Q = "\<lambda>p. gone P d (op_owner p) (op_workflow p)"
  have "work_ok (delete_operations ?Q d)" using assms by (rule delete_operations_work_ok)
  moreover have "work (delete_states P d) = work (delete_operations ?Q d)" "operations (delete_states P d) = operations (delete_operations ?Q d)"
    by (simp_all add: delete_states_def gone_def Let_def)
  ultimately show ?thesis by (simp add: work_ok_def operation_exists_def)
qed

lemma delete_states_operations_ok: "operations_ok d \<Longrightarrow> operations_ok (delete_states P d)"
  by (simp add: operations_ok_def delete_states_def Let_def delete_operations_def delete_where_def sorted_wrt_filter)

lemma delete_states_events_ok:
  assumes "events_ok d"
  shows "events_ok (delete_states P d)"
proof -
  have "event_rows (delete_states P d) owner workflow = (if gone P d owner workflow then [] else event_rows d owner workflow)"
    for owner workflow
  proof -
    have events: "events (delete_states P d) = filter (\<lambda>r. \<not> gone P d (er_owner r) (er_workflow r)) (events d)"
      by (simp add: delete_states_def gone_def Let_def delete_where_def)
    show ?thesis
      unfolding event_rows_def events filter_filter event_in_def
      by (cases "gone P d owner workflow") (auto simp: filter_empty_conv intro!: filter_cong)
  qed
  moreover have "distinct (map row_key (events (delete_states P d)))"
    using assms by (simp add: events_ok_def delete_states_def Let_def distinct_map_delete_where)
  ultimately show ?thesis using assms by (simp add: events_ok_def del: upt_Suc)
qed

lemma delete_states_effects_ok:
  assumes "effects_ok d" and "\<And>f. f \<in> set (fences d) \<Longrightarrow> \<not> gone P d (fen_owner f) (fen_workflow f)"
  shows "effects_ok (delete_states P d)"
proof -
  have "has_receipt (delete_states P d) f" if held: "f \<in> set (fences d)" for f
  proof -
    obtain e where "e \<in> set (effects d)" "fence_of_effect f e" "eff_kind e = tracker_submission"
      "fen_status f = EffSucceeded \<longrightarrow> eff_status e = EffSucceeded"
      using assms(1) held by (auto simp: effects_ok_def has_receipt_def)
    moreover have "e \<in> set (effects (delete_states P d))"
      using calculation assms(2) [OF held] by (simp add: fence_of_effect_def)
    ultimately show ?thesis unfolding has_receipt_def by blast
  qed
  moreover have "distinct (map effect_key (effects (delete_states P d)))"
    using assms(1) by (simp add: effects_ok_def delete_states_def Let_def distinct_map_delete_where)
  ultimately show ?thesis using assms(1) by (auto simp: effects_ok_def intro: delete_states_exists)
qed

lemma expired_state_not_fenced: "f \<in> set (fences d) \<Longrightarrow> \<not> gone (expired_state before d) d (fen_owner f) (fen_workflow f)"
  by (auto simp: gone_def expired_state_def fenced_workflow_def state_of_def)

lemma deleted_state_not_fenced:
  "\<not> fenced_workflow d owner workflow \<Longrightarrow> f \<in> set (fences d) \<Longrightarrow> \<not> gone (state_of owner workflow) d (fen_owner f) (fen_workflow f)"
  by (auto simp: gone_def fenced_workflow_def state_of_def)

subsection \<open>Properties\<close>

definition new_state :: state_record where
  "new_state = sample_state\<lparr>ws_id := ''w2'', ws_creation_key := ''ck'', ws_creation_fingerprint := ''cf''\<rparr>"

definition opening_db :: "state_record list \<Rightarrow> db" where
  "opening_db ss = (log_db [])\<lparr>slot := opening_slot, states := ss\<rparr>"

lemmas state_runs = new_state_def opening_db_def sample_state_def opening_slot_def log_db_def operation_db_def work_db_def sample_db_def
  empty_db_def quiet_ctx_def
  create_release_workflow_state_def create_state_body_def create_new_state_def insert_state_def check_creation_slot_def
  load_active_input_def load_state_by_creation_key_def load_workflow_state_def validate_workflow_state_record_def state_row_def

lemma state_blanks [simp]: "\<not> blank ''w2''"
  by code_simp

lemma sample_create_state:
  "create_release_workflow_state quiet_ctx new_state (opening_db [sample_state]) = (Inr (new_state, False), opening_db [sample_state, new_state])"
  by (simp add: state_runs empty_slot_def max_int64_def)

text \<open>Creating a workflow needs the slot: once the slot was ever acquired, a state is created or returned only
  to the coordinator that holds it, for the slot's owner, before its lease expires and while it opens
  or switches; a new row has a fresh identifier and changes nothing else.\<close>

lemma state_creation_needs_the_slot:
  assumes "create_release_workflow_state c r d = (Inr (res, again), d')"
  shows "(slot_fence (slot d) = 0 \<or> input_authority c = Some (slot_coordinator (slot d), slot_fence (slot d))
       \<and> slot_owner (slot d) = ws_owner r \<and> wall_now c < slot_lease_expires_at (slot d)
       \<and> (slot_state (slot d) = AiOpening \<or> slot_state (slot d) = AiSwitchPending))
    \<and> (if again then d' = d else d' = d\<lparr>states := states d @ [state_row r]\<rparr> \<and> \<not> state_exists d (ws_owner r) (ws_id r))"
  using assms
  by (rule create_state_committed)
    (auto simp: check_creation_slot_def load_active_input_def Let_def state_exists_of split: if_splits)

lemma state_creation_needs_the_slot_witness:
  "input_authority quiet_ctx = Some (slot_coordinator (slot (opening_db [sample_state])), slot_fence (slot (opening_db [sample_state])))"
  using state_creation_needs_the_slot [OF sample_create_state] by (simp add: state_runs empty_slot_def)

text \<open>Creating a workflow is idempotent: after a create with a creation key commits, repeating it under a slot
  that still admits creation returns the stored workflow and changes nothing, and the same key with
  another fingerprint is refused.\<close>

lemma state_creation_is_idempotent:
  assumes "create_release_workflow_state c r d = (Inr (res, again), d')" and "ws_creation_key r \<noteq> []"
    and "ws_owner q = ws_owner r" "ws_creation_key q = ws_creation_key r" "validate_workflow_state_record q = None"
    and "check_creation_slot c' q d' = None"
  shows "create_release_workflow_state c' q d'
    = (if ws_creation_fingerprint q = ws_creation_fingerprint r then Inr (if again then res else state_row r, True)
       else Inl IdempotencyConflict, d')"
proof -
  have "load_state_by_creation_key d' (ws_owner r) (ws_creation_key r) = Some (if again then res else state_row r)
      \<and> ws_creation_fingerprint (if again then res else state_row r) = ws_creation_fingerprint r"
    using assms(1)
    by (rule create_state_committed) (use assms(2) in \<open>auto simp: load_state_by_creation_key_def find_append\<close>)
  then show ?thesis
    using assms(2-6) by (simp add: create_release_workflow_state_def create_state_body_def)
qed

lemma state_creation_is_idempotent_witness:
  "create_release_workflow_state quiet_ctx new_state (opening_db [sample_state, new_state])
     = (Inr (new_state, True), opening_db [sample_state, new_state])"
proof -
  have "validate_workflow_state_record new_state = None" "check_creation_slot quiet_ctx new_state (opening_db [sample_state, new_state]) = None"
    by (simp_all add: state_runs empty_slot_def max_int64_def)
  then show ?thesis
    using state_creation_is_idempotent [OF sample_create_state, of new_state quiet_ctx]
    by (simp add: new_state_def state_row_def sample_state_def)
qed

text \<open>Saving a workflow is a compare-and-swap: it commits only on the stored revision the caller expected,
  leaves the row one revision higher and every other row as it was, applies its effect resolution in the
  same commit, and no second save based on the same revision commits afterwards.\<close>

lemma state_save_is_compare_and_swap:
  assumes "save_release_workflow_state c expected r d = (Inr u, d')" and "expected < 2 ^ 64"
    and "distinct (map (\<lambda>s. (ws_owner s, ws_id s)) (states d))"
  shows "(\<exists>s\<in>set (states d). state_of (ws_owner r) (ws_id r) s \<and> ws_revision s = expected \<and> ws_revision r = expected + 1
       \<and> set (states d') = insert (saved_state r s) (set (states d) - {s}))
    \<and> (\<exists>d1. apply_resolution c r d = Inr ((), d1) \<and> effects d' = effects d1 \<and> fences d' = fences d1)
    \<and> (\<forall>c' q v d''. ws_owner q = ws_owner r \<and> ws_id q = ws_id r \<longrightarrow> save_release_workflow_state c' expected q d' \<noteq> (Inr v, d''))"
  using assms(1)
proof (rule save_state_committed)
  fix d1
  assume d1: "apply_resolution c r d = Inr ((), d1)"
    and d': "d' = retain_hdr_association r (d1\<lparr>states := update_where (save_state_target expected r) (saved_state r) (states d)\<rparr>)"
    and count: "count_where (save_state_target expected r) (states d) = 1"
    and step: "ws_revision r = (expected + 1) mod 2 ^ 64" and "0 < ws_revision r"
  then have step: "ws_revision r = expected + 1"
    using assms(2) by (cases "expected + 1 = 2 ^ 64") simp_all
  obtain s where s: "s \<in> set (states d)" "save_state_target expected r s"
    using count_where_positive [of "save_state_target expected r" "states d" 0] count by auto
  have only: "t = s" if "t \<in> set (states d)" "state_of (ws_owner r) (ws_id r) t" for t
    using distinct_map_eq [OF assms(3) that(1) s(1)] that(2) s(2) by (simp add: state_of_def)
  have "set (states d') = (\<lambda>t. if t = s then saved_state r t else t) ` set (states d)"
    using only s(2) by (auto simp: d' retain_hdr_association_def update_where_def intro!: image_cong)
  then have rows: "set (states d') = insert (saved_state r s) (set (states d) - {s})"
    using s(1) by auto
  have "save_release_workflow_state c' expected q d' \<noteq> (Inr v, d'')" if q: "ws_owner q = ws_owner r" "ws_id q = ws_id r" for c' q v d''
  proof
    assume "save_release_workflow_state c' expected q d' = (Inr v, d'')"
    then have "count_where (save_state_target expected q) (states d') = 1" by (rule save_state_committed)
    then obtain t where t: "t \<in> set (states d')" "save_state_target expected q t"
      using count_where_positive [of "save_state_target expected q" "states d'" 0] by auto
    then show False using q step only by (auto simp: rows)
  qed
  then show ?thesis using s rows step d1 by (auto simp: d' retain_hdr_association_def)
qed

definition active_db :: "state_record list \<Rightarrow> db" where
  "active_db ss = (log_db [])\<lparr>states := ss\<rparr>"

lemma sample_save_state:
  "save_release_workflow_state quiet_ctx 1 (sample_state\<lparr>ws_revision := 2\<rparr>) (active_db [sample_state])
     = (Inr (), active_db [sample_state\<lparr>ws_revision := 2\<rparr>])"
  by (simp add: save_release_workflow_state_def save_state_body_def apply_resolution_def retain_hdr_association_def saved_state_def
      state_of_def Let_def validate_workflow_state_record_def max_int64_def active_db_def log_db_def operation_db_def work_db_def effect_runs)

lemma state_save_is_compare_and_swap_witness:
  "save_release_workflow_state quiet_ctx 1 (sample_state\<lparr>ws_revision := 2\<rparr>) (active_db [sample_state\<lparr>ws_revision := 2\<rparr>]) \<noteq> (Inr (), empty_db)"
  using state_save_is_compare_and_swap [OF sample_save_state] by (simp add: active_db_def)

text \<open>C38: Fenced workflows survive: neither deletion nor retention removes a workflow that has a submission fence
  or the one the slot holds, and both leave every fence, and the slot, as they are; retention removes
  only completed, canceled or failed workflows stored as updated before the cutoff.\<close>

lemma fenced_workflows_survive:
  assumes "delete_release_workflow_state owner workflow d = (Inr u, d') \<or> delete_terminal_states_before before d = (Inr n, d')"
  shows "fences d' = fences d \<and> slot d' = slot d
    \<and> (\<forall>f\<in>set (fences d). \<forall>s\<in>set (states d). state_of (fen_owner f) (fen_workflow f) s \<longrightarrow> s \<in> set (states d'))
    \<and> (slot_state (slot d) \<noteq> AiEmpty \<and> slot_owner (slot d) \<noteq> [] \<and> slot_workflow (slot d) \<noteq> [] \<longrightarrow>
        (\<forall>s\<in>set (states d). state_of (slot_owner (slot d)) (slot_workflow (slot d)) s \<longrightarrow> s \<in> set (states d')))
    \<and> (delete_terminal_states_before before d = (Inr n, d') \<longrightarrow>
        (\<forall>s\<in>set (states d). s \<notin> set (states d') \<longrightarrow> sql_before (ws_updated_at s) before
           \<and> ws_status s \<in> {WfCompleted, WfCanceled, WfFailed}))"
proof -
  have deleted: "d' = delete_states (state_of (trim_space owner) workflow) d \<and> \<not> fenced_workflow d (trim_space owner) workflow
      \<and> \<not> (slot_state (slot d) \<noteq> AiEmpty \<and> slot_owner (slot d) = trim_space owner \<and> slot_workflow (slot d) = workflow)"
    if "delete_release_workflow_state owner workflow d = (Inr u, d')"
    using delete_state_committed [OF that] by blast
  have expired: "d' = delete_states (expired_state before d) d" if "delete_terminal_states_before before d = (Inr n, d')"
    using that by (auto simp: delete_terminal_states_before_def split: if_splits)
  have "\<forall>s\<in>set (states d). s \<notin> set (states d') \<longrightarrow> sql_before (ws_updated_at s) before
       \<and> ws_status s \<in> {WfCompleted, WfCanceled, WfFailed}" if "delete_terminal_states_before before d = (Inr n, d')"
    using expired [OF that] by (auto simp: expired_state_def)
  moreover have "d' = delete_states (state_of (trim_space owner) workflow) d \<and> \<not> fenced_workflow d (trim_space owner) workflow
      \<and> \<not> (slot_state (slot d) \<noteq> AiEmpty \<and> slot_owner (slot d) = trim_space owner \<and> slot_workflow (slot d) = workflow)
      \<or> d' = delete_states (expired_state before d) d"
    using assms deleted expired by blast
  ultimately show ?thesis by (elim disjE) (auto simp: fenced_workflow_def expired_state_def state_of_def)
qed

lemma fenced_workflows_survive_witness:
  "sample_state \<in> set (states (snd (delete_terminal_states_before 9 (active_db [sample_state]))))"
proof -
  have run: "delete_terminal_states_before 9 (active_db [sample_state])
      = (Inr (count_where (expired_state 9 (active_db [sample_state])) [sample_state]),
         delete_states (expired_state 9 (active_db [sample_state])) (active_db [sample_state]))"
    by (simp add: delete_terminal_states_before_def active_db_def)
  have slot: "slot_state (slot (active_db [sample_state])) = AiActive" "slot_owner (slot (active_db [sample_state])) = ''owner''"
    "slot_workflow (slot (active_db [sample_state])) = ''w1''" "sample_state \<in> set (states (active_db [sample_state]))"
    "state_of ''owner'' ''w1'' sample_state"
    by (simp_all add: active_db_def log_db_def operation_db_def work_db_def sample_db_def active_slot_def empty_slot_def
        state_of_def sample_state_def)
  then have "sample_state \<in> set (states (delete_states (expired_state 9 (active_db [sample_state])) (active_db [sample_state])))"
    using fenced_workflows_survive [OF disjI2 [OF run]] by (metis ai_state.distinct(3) list.distinct(1))
  then show ?thesis by (simp only: run snd_conv)
qed

text \<open>Deletion leaves no orphans: deleting a workflow, workflow retention and operation retention keep every
  operation, effect, intent, continuation, event and fence attached to a stored workflow, every work
  lease to a stored operation, and the fences' receipts and the event numbering intact.\<close>

lemma deletion_leaves_no_orphans:
  assumes "rows_owned d" "work_ok d" "effects_ok d" "events_ok d"
    and "d' = snd (delete_release_workflow_state owner workflow d) \<or> d' = snd (delete_terminal_states_before before d)
      \<or> d' = snd (delete_terminal_operations_before before d)"
  shows "rows_owned d' \<and> work_ok d' \<and> effects_ok d' \<and> events_ok d'"
proof -
  have states: "rows_owned (delete_states P d) \<and> work_ok (delete_states P d) \<and> effects_ok (delete_states P d) \<and> events_ok (delete_states P d)"
    if "\<And>f. f \<in> set (fences d) \<Longrightarrow> \<not> gone P d (fen_owner f) (fen_workflow f)" for P
    using delete_states_owned delete_states_work_ok delete_states_effects_ok delete_states_events_ok assms(1-4) that by blast
  have operations: "rows_owned (delete_operations P d) \<and> work_ok (delete_operations P d)
      \<and> effects_ok (delete_operations P d) \<and> events_ok (delete_operations P d)" for P
    using assms(1-4) delete_operations_work_ok [OF assms(2)]
    by (auto simp: rows_owned_def effects_ok_def events_ok_def event_rows_def has_receipt_def state_exists_def delete_operations_def)
  from assms(5) show ?thesis
  proof (elim disjE)
    assume "d' = snd (delete_release_workflow_state owner workflow d)"
    moreover have "rows_owned (snd (delete_release_workflow_state owner workflow d)) \<and> work_ok (snd (delete_release_workflow_state owner workflow d))
        \<and> effects_ok (snd (delete_release_workflow_state owner workflow d)) \<and> events_ok (snd (delete_release_workflow_state owner workflow d))"
    proof (cases "delete_release_workflow_state owner workflow d")
      case (Pair a d2)
      then show ?thesis
      proof (cases a)
        case (Inl e)
        then show ?thesis using Pair delete_state_error assms(1-4) by fastforce
      next
        case (Inr u)
        then have run: "delete_release_workflow_state owner workflow d = (Inr u, d2)" using Pair by simp
        show ?thesis
          using states [OF deleted_state_not_fenced [OF delete_state_committed(2) [OF run]]]
          by (simp add: run delete_state_committed(1) [OF run])
      qed
    qed
    ultimately show ?thesis by simp
  next
    assume "d' = snd (delete_terminal_states_before before d)"
    then show ?thesis
      using states expired_state_not_fenced assms(1-4) by (cases "before = 0") (simp_all add: delete_terminal_states_before_def)
  next
    assume "d' = snd (delete_terminal_operations_before before d)"
    then show ?thesis
      using operations assms(1-4) by (cases "before = 0") (simp_all add: delete_terminal_operations_before_def)
  qed
qed

lemma deletion_leaves_no_orphans_witness: "rows_owned (snd (delete_terminal_states_before 9 (active_db [sample_state])))"
proof -
  have "rows_owned (active_db [sample_state])" "work_ok (active_db [sample_state])" "effects_ok (active_db [sample_state])"
    "events_ok (active_db [sample_state])"
    by (simp_all add: rows_owned_def work_ok_def effects_ok_def events_ok_def event_rows_def state_exists_def
        active_db_def log_db_def operation_db_def work_db_def sample_db_def empty_db_def sample_operation_def sample_state_def)
  from deletion_leaves_no_orphans [OF this] show ?thesis by blast
qed

end
