(* ===== verification/Impacts.thy ===== *)
theory Impacts
  imports ConfigState
begin

text \<open>
  The normal form of configuration impacts: trimmed, upper-case, distinct and sorted tracker
  identifiers, impacts sorted by kind and tracker list, adjacent equals dropped. The code
  normalises on every write and again on every read; here the second normalisation is shown to be
  the identity, so that a status read back is the status that was written.
\<close>

definition upper :: "char \<Rightarrow> char" where
  "upper c = (if 97 \<le> byte c \<and> byte c \<le> 122 then char_of (byte c - 32) else c)"

lemma to_upper_map: "to_upper s = map upper s"
  by (simp add: to_upper_def upper_def)

lemma byte_upper: "byte (upper c) = (if 97 \<le> byte c \<and> byte c \<le> 122 then byte c - 32 else byte c)"
proof -
  have "byte (char_of (byte c - 32)) = byte c - 32" if "byte c \<le> 122"
  proof -
    have "byte (char_of (byte c - 32)) = (byte c - 32) mod 256" by (simp add: byte_def)
    also have "\<dots> = byte c - 32" using that by (intro mod_less) linarith
    finally show ?thesis .
  qed
  then show ?thesis by (simp add: upper_def)
qed

lemma upper_again [simp]: "to_upper (to_upper s) = to_upper s"
proof -
  have "byte (upper (upper c)) = byte (upper c)" for c unfolding byte_upper by auto
  then show ?thesis by (simp add: to_upper_map)
qed

lemma spaces_upper [simp]:
  "ascii_space (byte (upper a)) = ascii_space (byte a)"
  "space2 (byte (upper a)) (byte (upper b)) = space2 (byte a) (byte b)"
  "space3 (byte (upper a)) (byte (upper b)) (byte (upper c)) = space3 (byte a) (byte b) (byte c)"
  unfolding byte_upper ascii_space_def space2_def space3_def by (simp_all split: if_splits) (presburger+)?

lemma trim_left_upper: "trim_left (map upper s) = map upper (trim_left s)"
proof (induction s rule: trim_left.induct)
  case (2 a s)
  show ?case
  proof (cases s)
    case Nil
    then show ?thesis by simp
  next
    case (Cons b t)
    then show ?thesis using 2 by (cases t) simp_all
  qed
qed simp

lemma trim_right_rev_upper: "trim_right_rev (map upper s) = map upper (trim_right_rev s)"
proof (induction s rule: trim_right_rev.induct)
  case (2 a s)
  show ?case
  proof (cases s)
    case Nil
    then show ?thesis by simp
  next
    case (Cons b t)
    then show ?thesis using 2 by (cases t) simp_all
  qed
qed simp

lemma trim_upper: "trim_space (to_upper s) = to_upper (trim_space s)"
  by (simp add: trim_space_def to_upper_map trim_left_upper rev_map trim_right_rev_upper)

definition tracker_name :: "string \<Rightarrow> string" where
  "tracker_name i = to_upper (trim_space i)"

lemma tracker_name_again [simp]: "tracker_name (tracker_name i) = tracker_name i"
  by (simp add: tracker_name_def trim_upper)

definition distinct_names :: "string list \<Rightarrow> string list" where
  "distinct_names ids = foldl (\<lambda>acc i. let v = tracker_name i in if v \<noteq> [] \<and> v \<notin> set acc then acc @ [v] else acc) [] ids"

lemma normalize_tracker_ids_names: "normalize_tracker_ids ids = order_by text_less (distinct_names ids)"
  by (simp add: normalize_tracker_ids_def distinct_names_def tracker_name_def)

lemma foldl_names_set:
  "distinct acc \<Longrightarrow> let r = foldl (\<lambda>acc i. let v = tracker_name i in if v \<noteq> [] \<and> v \<notin> set acc then acc @ [v] else acc) acc ids in
     distinct r \<and> set r = set acc \<union> (tracker_name ` set ids - {[]})"
  by (induction ids arbitrary: acc) (auto simp: Let_def)

lemma distinct_names: "distinct (distinct_names ids)" "set (distinct_names ids) = tracker_name ` set ids - {[]}"
  using foldl_names_set [of "[]" ids] by (simp_all add: distinct_names_def Let_def)

lemma foldl_names_fixed:
  "(\<And>i. i \<in> set ids \<Longrightarrow> tracker_name i = i \<and> i \<noteq> []) \<Longrightarrow> distinct (acc @ ids) \<Longrightarrow>
     foldl (\<lambda>acc i. let v = tracker_name i in if v \<noteq> [] \<and> v \<notin> set acc then acc @ [v] else acc) acc ids = acc @ ids"
  by (induction ids arbitrary: acc) (auto simp: Let_def)

lemma text_sorted: "sorted_wrt (\<lambda>a b. \<not> text_less b a) (order_by text_less xs)"
  by (rule sorted_order_by) (erule (1) text_less_step | erule text_less_asym)+

lemma normalize_tracker_ids_again [simp]: "normalize_tracker_ids (normalize_tracker_ids ids) = normalize_tracker_ids ids"
proof -
  define ns where "ns = order_by text_less (distinct_names ids)"
  have "mset ns = mset (distinct_names ids)" by (simp add: ns_def)
  then have "distinct ns" using distinct_names(1) by (metis mset_eq_imp_distinct_iff)
  moreover have "tracker_name i = i \<and> i \<noteq> []" if "i \<in> set ns" for i
    using that distinct_names(2) [of ids] by (auto simp: ns_def)
  ultimately have "distinct_names ns = ns"
    using foldl_names_fixed [of ns "[]"] by (simp add: distinct_names_def)
  moreover have "order_by text_less ns = ns"
    unfolding ns_def by (rule order_by_sorted) (rule text_sorted)
  ultimately show ?thesis by (simp add: normalize_tracker_ids_names ns_def [symmetric])
qed

lemma impact_step: "\<not> impact_before a b \<Longrightarrow> \<not> impact_before b c \<Longrightarrow> \<not> impact_before a c"
proof -
  have *: "\<not> impact_before x y \<longleftrightarrow> text_less (im_kind y) (im_kind x)
      \<or> im_kind x = im_kind y \<and> \<not> text_less (join_comma (im_trackers x)) (join_comma (im_trackers y))" for x y
    unfolding impact_before_def using text_less_total text_less_asym text_less_irrefl by metis
  show "\<not> impact_before a b \<Longrightarrow> \<not> impact_before b c \<Longrightarrow> \<not> impact_before a c"
    unfolding * by (rule text_pair_step)
qed

lemma impact_asym: "impact_before a b \<Longrightarrow> \<not> impact_before b a"
  unfolding impact_before_def using text_less_asym text_less_irrefl by metis

lemma sorted_wrt_remdups_adj: "sorted_wrt P xs \<Longrightarrow> sorted_wrt P (remdups_adj xs)"
  by (induction xs rule: remdups_adj.induct) auto

lemma normalize_impacts_again: "normalize_impacts (normalize_impacts impacts) = normalize_impacts impacts"
proof -
  define f where "f = (\<lambda>i::impact_detail. i\<lparr>im_trackers := normalize_tracker_ids (im_trackers i)\<rparr>)"
  define xs where "xs = order_by impact_before (map f impacts)"
  have "f i = i" if "i \<in> set (remdups_adj xs)" for i
    using that by (auto simp: xs_def f_def)
  then have "map f (remdups_adj xs) = remdups_adj xs" by (rule map_idI)
  moreover have "sorted_wrt (\<lambda>a b. \<not> impact_before b a) xs"
    unfolding xs_def by (rule sorted_order_by) (erule (1) impact_step | erule impact_asym)+
  then have "order_by impact_before (remdups_adj xs) = remdups_adj xs"
    by (intro order_by_sorted sorted_wrt_remdups_adj)
  ultimately show ?thesis
    unfolding normalize_impacts_def f_def [symmetric] xs_def [symmetric] by (simp add: distinct_adj_altdef [symmetric])
qed

end
