(* ===== verification/ConfigActivation.thy ===== *)
theory ConfigActivation
  imports States Impacts
begin

text \<open>
  Configuration activation: \<open>internal/services/db/config_activation.go\<close> and the comparison of
  \<open>config_compare.go\<close>. One row holds the active generation, at most one pending candidate waits for
  running work, and a candidate that cannot be built leaves a failure until it is acknowledged. The
  workflow transform, which the caller passes, and the random candidate id are arguments. The stored
  and expected configuration are compared as compacted sections; \<open>None\<close> is a snapshot that does not
  decode.
\<close>

type_synonym transform = "state_record \<Rightarrow> impact_detail \<Rightarrow> err + state_record"

subsection \<open>When activation is safe\<close>

definition legacy_recovery :: "active_input_record \<Rightarrow> bool" where
  "legacy_recovery s \<longleftrightarrow> slot_state s = AiRecovering \<and> slot_input s = [] \<and> slot_source_version s = []
     \<and> slot_workflow s \<noteq> [] \<and> slot_reservation s = [] \<and> slot_requested_path s = []"

definition live_operation_lease :: "db \<Rightarrow> time \<Rightarrow> bool" where
  "live_operation_lease d now \<longleftrightarrow> (\<exists>p\<in>set (operations d). \<exists>w\<in>set (work d). operation_active p
     \<and> work_of (op_owner p) (op_workflow p) (op_id p) w \<and> wk_completed_at w = None \<and> wk_lease_expires_at w > now)"

definition check_running_operations :: "db \<Rightarrow> active_input_record \<Rightarrow> time \<Rightarrow> bool \<Rightarrow> err option" where
  "check_running_operations d s now startup =
     (if \<not> any_active_operation d then None
      else if \<not> startup \<or> slot_input s = [] \<and> \<not> legacy_recovery s \<or> slot_workflow s = [] \<or> slot_lease_expires_at s > now
      then Some ActiveInputBusy
      else if \<exists>p\<in>set (operations d). operation_active p \<and> (op_owner p \<noteq> slot_owner s \<or> op_workflow p \<noteq> slot_workflow s)
      then Some ActiveInputBusy
      else if live_operation_lease d now then Some ActiveInputBusy else None)"

definition require_config_safe :: "ctx \<Rightarrow> db \<Rightarrow> bool \<Rightarrow> err + active_input_record" where
  "require_config_safe c d startup = (let s = load_active_input d; now = wall_now c in
     if slot_state s \<noteq> AiEmpty \<and> slot_state s \<noteq> AiActive \<and> (\<not> startup \<or> slot_lease_expires_at s > now) then Inl ActiveInputBusy
     else case check_running_operations d s now startup of
         Some e \<Rightarrow> Inl e
       | None \<Rightarrow>
           if \<exists>e\<in>set (effects d). effect_unresolved e then Inl EffectOutcomeUnknown
           else if startup \<and> (\<exists>f\<in>set (fences d). fence_unresolved f) then Inl EffectOutcomeUnknown
           else Inr s)"

definition config_activation_safe :: "ctx \<Rightarrow> db \<Rightarrow> err + bool" where
  "config_activation_safe c d =
     (case require_config_safe c d False of
        Inr _ \<Rightarrow> Inr True
      | Inl e \<Rightarrow> if e = ActiveInputBusy \<or> e = EffectOutcomeUnknown then Inr False else Inl e)"

definition config_unchanged :: "db \<Rightarrow> (string \<times> string) list option \<Rightarrow> err option" where
  "config_unchanged d snapshot =
     (case snapshot of
        None \<Rightarrow> Some (Invalid ''decode expected config snapshot'')
      | Some sections \<Rightarrow>
          if list_all (\<lambda>k. map_of (settings d) k = map_of sections k) (map fst (settings d) @ map fst sections)
          then None else Some ConfigActivationChanged)"

subsection \<open>Workflow impacts\<close>

definition valid_transformed :: "state_record \<Rightarrow> state_record \<Rightarrow> bool" where
  "valid_transformed record nxt \<longleftrightarrow> ws_owner nxt = ws_owner record \<and> ws_id nxt = ws_id record
     \<and> (ws_revision nxt = ws_revision record \<or> ws_revision nxt = ws_revision record + 1)
     \<and> ws_created_at nxt = ws_created_at record \<and> ws_updated_at nxt \<ge> ws_updated_at record \<and> pl_bytes (ws_payload nxt) \<noteq> []"

fun apply_impacts :: "ctx \<Rightarrow> transform \<Rightarrow> impact_detail list \<Rightarrow> state_record \<Rightarrow> db \<Rightarrow> err + db" where
  "apply_impacts c transform [] record d = Inr d"
| "apply_impacts c transform (i # rest) record d =
     (case transform record i of
        Inl e \<Rightarrow> Inl e
      | Inr nxt \<Rightarrow>
          if \<not> valid_transformed record nxt then Inl (Invalid ''transform returned invalid record'')
          else if ws_revision nxt = ws_revision record then
            (if pl_bytes (ws_payload nxt) \<noteq> pl_bytes (ws_payload record) \<or> ws_status nxt \<noteq> ws_status record
                 \<or> ws_updated_at nxt \<noteq> ws_updated_at record
             then Inl (Invalid ''transform failed to advance revision'')
             else apply_impacts c transform rest record d)
          else (let target = (\<lambda>s. state_of (ws_owner record) (ws_id record) s \<and> ws_revision s = ws_revision record) in
            if ws_revision nxt > max_int64 then Inl StorageFault
            else if count_where target (states d) \<noteq> 1 then Inl RevisionConflict
            else case sync_outcome c of
                Some e \<Rightarrow> Inl e
              | None \<Rightarrow> apply_impacts c transform rest nxt (d\<lparr>states := update_where target (saved_state nxt) (states d)\<rparr>)))"

definition apply_workflow_impacts :: "ctx \<Rightarrow> active_input_record \<Rightarrow> impact_detail list \<Rightarrow> transform \<Rightarrow> db \<Rightarrow> err + db" where
  "apply_workflow_impacts c s impacts transform d =
     (case load_workflow_state d (slot_owner s) (slot_workflow s) of
        Inl e \<Rightarrow> Inl e | Inr record \<Rightarrow> apply_impacts c transform impacts record d)"

text \<open>Both activations then advance the slot's revision.\<close>

definition impact_slot :: "ctx \<Rightarrow> active_input_record \<Rightarrow> impact_detail list \<Rightarrow> transform \<Rightarrow> db \<Rightarrow> err + db" where
  "impact_slot c s impacts transform d =
     (case apply_workflow_impacts c s impacts transform d of
        Inl e \<Rightarrow> Inl e
      | Inr d1 \<Rightarrow> if slot_revision s \<ge> max_int64 then Inl (Invalid ''active input revision exhausted'')
          else Inr (write_active_input (s\<lparr>slot_revision := slot_revision s + 1\<rparr>) d1))"

subsection \<open>Reading and initialising\<close>

definition and_load :: "db \<Rightarrow> err + config_activation \<times> db" where
  "and_load d = (case load_config_activation d of Inl e \<Rightarrow> Inl e | Inr a \<Rightarrow> Inr (a, d))"

definition initialize_fingerprint :: "string \<Rightarrow> db \<Rightarrow> (err + config_activation) \<times> db" where
  "initialize_fingerprint fingerprint d =
     (if blank fingerprint then (Inl (Invalid ''fingerprint is required''), d)
      else with_write_tx (\<lambda>d. case load_config_activation d of
          Inl e \<Rightarrow> Inl e
        | Inr current \<Rightarrow>
            if ca_fingerprint current \<noteq> [] \<and> ca_fingerprint current \<noteq> fingerprint then Inl ConfigActivationChanged
            else if ca_fingerprint current = [] then and_load (d\<lparr>config_active := (config_active d)\<lparr>cfg_fingerprint := fingerprint\<rparr>\<rparr>)
            else and_load d) d)"

definition load_pending_candidate :: "db \<Rightarrow> err + string \<times> config_activation" where
  "load_pending_candidate d =
     (case load_config_activation d of
        Inl e \<Rightarrow> Inl e
      | Inr a \<Rightarrow> (case config_pending d of None \<Rightarrow> Inl (Invalid ''no pending candidate'') | Some p \<Rightarrow> Inr (pd_candidate p, a)))"

subsection \<open>The pending candidate and its failure\<close>

definition clear_failed :: "config_row \<Rightarrow> config_row" where
  "clear_failed r = r\<lparr>cfg_failed_id := [], cfg_failed_code := [], cfg_failed_impacts := [], cfg_failed_at := None\<rparr>"

definition clear_config_failure :: "string \<Rightarrow> db \<Rightarrow> (err + config_activation) \<times> db" where
  "clear_config_failure activation0 d = (let activation = trim_space activation0 in
     if activation = [] then (Inl (Invalid ''activation id is required''), d)
     else with_write_tx (\<lambda>d. case load_config_activation d of
         Inl e \<Rightarrow> Inl e
       | Inr current \<Rightarrow>
           if ca_status current \<noteq> CfgFailed \<or> ca_id current \<noteq> activation then Inr (current, d)
           else and_load (d\<lparr>config_active := clear_failed (config_active d)\<rparr>)) d)"

definition fail_pending_config :: "ctx \<Rightarrow> string \<Rightarrow> string \<Rightarrow> db \<Rightarrow> (err + config_activation) \<times> db" where
  "fail_pending_config c activation0 code d = (let activation = trim_space activation0 in
     if activation = [] \<or> \<not> valid_failure_code code then (Inl (Invalid ''failure identity is required''), d)
     else with_write_tx (\<lambda>d. case load_config_activation d of
         Inl e \<Rightarrow> Inl e
       | Inr current \<Rightarrow>
           (case config_pending d of
              Some p \<Rightarrow>
                if pd_id p \<noteq> activation then Inr (current, d)
                else and_load (d\<lparr>config_active := (config_active d)\<lparr>cfg_failed_id := activation, cfg_failed_code := code,
                    cfg_failed_impacts := pd_impacts p, cfg_failed_at := Some (wall_now c)\<rparr>, config_pending := None\<rparr>)
            | None \<Rightarrow> Inr (current, d))) d)"

definition save_pending_config ::
    "ctx \<Rightarrow> string \<Rightarrow> string \<Rightarrow> string \<Rightarrow> impact_detail list \<Rightarrow> db \<Rightarrow> (err + config_activation) \<times> db" where
  "save_pending_config c activation owner0 candidate impacts0 d =
     (let owner = trim_space owner0; impacts = normalize_impacts impacts0 in
      if candidate = [] then (Inl (Invalid ''candidate is required''), d)
      else if owner = [] then (Inl (Invalid ''owner is required''), d)
      else with_write_tx (\<lambda>d. case load_config_activation d of
          Inl e \<Rightarrow> Inl e
        | Inr current \<Rightarrow>
            if ca_status current = CfgPending then Inl (ConfigActivationPending current)
            else Inr (\<lparr>ca_status = CfgPending, ca_id = activation, ca_generation = ca_generation current, ca_fingerprint = [],
                ca_pending_generation = ca_generation current + 1, ca_failure_code = [],
                ca_impacts = config_impact_kinds impacts, ca_updated_at = wall_now c\<rparr>,
              d\<lparr>config_active := clear_failed (config_active d),
                config_pending := Some \<lparr>pd_id = activation, pd_owner = owner, pd_base = ca_generation current, pd_impacts = impacts,
                  pd_candidate = candidate, pd_updated_at = wall_now c\<rparr>\<rparr>)) d)"

subsection \<open>Activation\<close>

definition check_expected :: "config_activation \<Rightarrow> config_activation \<Rightarrow> err option" where
  "check_expected current expected =
     (if ca_generation current \<noteq> ca_generation expected then Some ConfigActivationChanged
      else if ca_status expected = CfgPending then
        (if ca_id expected = [] \<or> ca_status current \<noteq> CfgPending \<or> ca_id current \<noteq> ca_id expected
         then Some ConfigActivationChanged else None)
      else if ca_status current = CfgPending then Some (ConfigActivationPending current) else None)"

definition activate_config_tx ::
    "ctx \<Rightarrow> config_activation \<Rightarrow> string \<Rightarrow> impact_detail list \<Rightarrow> transform option \<Rightarrow> config_activation tx" where
  "activate_config_tx c expected fingerprint impacts0 transform d =
     (case load_config_activation d of
        Inl e \<Rightarrow> Inl e
      | Inr current \<Rightarrow>
          if blank fingerprint then Inl (Invalid ''fingerprint is required'')
          else if ca_generation expected \<ge> max_int64 then Inl (Invalid ''generation exhausted'')
          else (case check_expected current expected of
              Some e \<Rightarrow> Inl e
            | None \<Rightarrow> (case require_config_safe c d False of
                Inl e \<Rightarrow> Inl e
              | Inr s \<Rightarrow> let impacts = normalize_impacts impacts0 in
                  (case (case transform of
                           Some f \<Rightarrow> if slot_state s = AiActive then impact_slot c s impacts f d else Inr d
                         | None \<Rightarrow> Inr d) of
                     Inl e \<Rightarrow> Inl e
                   | Inr d1 \<Rightarrow> Inr (\<lparr>ca_status = CfgActive, ca_id = [], ca_generation = ca_generation expected + 1,
                         ca_fingerprint = fingerprint, ca_pending_generation = 0, ca_failure_code = [],
                         ca_impacts = config_impact_kinds impacts, ca_updated_at = wall_now c\<rparr>,
                       d1\<lparr>config_active := clear_failed ((config_active d1)\<lparr>cfg_generation := ca_generation expected + 1,
                             cfg_fingerprint := fingerprint, cfg_impacts := impacts, cfg_updated_at := wall_now c\<rparr>),
                          config_pending := (case config_pending d1 of
                             Some p \<Rightarrow> if ca_status expected = CfgPending \<and> pd_id p = ca_id expected then None else Some p
                           | None \<Rightarrow> None)\<rparr>)))))"

definition provider_impact :: impact_detail where
  "provider_impact = \<lparr>im_kind = ''provider'', im_trackers = []\<rparr>"

definition reconcile_slot :: "ctx \<Rightarrow> active_input_record \<Rightarrow> transform option \<Rightarrow> db \<Rightarrow> err + db" where
  "reconcile_slot c s transform d =
     (if slot_state s = AiActive \<or> slot_input s \<noteq> [] \<and> slot_workflow s \<noteq> [] then
        (case transform of
           None \<Rightarrow> Inl (Invalid ''workflow transform is required'')
         | Some f \<Rightarrow> impact_slot c s [provider_impact] f d)
      else Inr d)"

definition reconcile_body ::
    "ctx \<Rightarrow> (string \<times> string) list option \<Rightarrow> config_activation \<Rightarrow> string \<Rightarrow> transform option \<Rightarrow> config_activation tx" where
  "reconcile_body c snapshot expected fingerprint transform d =
     (case load_config_activation d of
        Inl e \<Rightarrow> Inl e
      | Inr current \<Rightarrow>
          if ca_generation current \<noteq> ca_generation expected \<or> ca_fingerprint current \<noteq> ca_fingerprint expected
             \<or> ca_status current \<noteq> ca_status expected \<or> ca_id current \<noteq> ca_id expected then Inl ConfigActivationChanged
          else if ca_fingerprint current = [] \<or> ca_generation current \<ge> max_int64 then Inl ConfigActivationChanged
          else (case config_unchanged d snapshot of
              Some e \<Rightarrow> Inl e
            | None \<Rightarrow> (case require_config_safe c d True of
                Inl e \<Rightarrow> Inl e
              | Inr s \<Rightarrow> (case reconcile_slot c s transform d of
                  Inl e \<Rightarrow> Inl e
                | Inr d1 \<Rightarrow> and_load (d1\<lparr>config_active := (config_active d1)\<lparr>cfg_generation := ca_generation current + 1,
                      cfg_fingerprint := fingerprint, cfg_impacts := [provider_impact], cfg_updated_at := wall_now c\<rparr>,
                    config_pending := (if ca_status current = CfgPending
                      then map_option (\<lambda>p. p\<lparr>pd_base := ca_generation current + 1\<rparr>) (config_pending d1) else config_pending d1)\<rparr>)))))"

definition reconcile_config_activation ::
    "ctx \<Rightarrow> (string \<times> string) list option \<Rightarrow> config_activation \<Rightarrow> string \<Rightarrow> transform option \<Rightarrow> db \<Rightarrow> (err + config_activation) \<times> db" where
  "reconcile_config_activation c snapshot expected fingerprint transform d =
     (if blank fingerprint then (Inl (Invalid ''fingerprint is required''), d)
      else with_write_tx (reconcile_body c snapshot expected fingerprint transform) d)"

subsection \<open>Startup discard\<close>

definition discard_body :: "time \<Rightarrow> (nat \<times> nat) tx" where
  "discard_body now d =
     (if \<not> (\<exists>e\<in>set (effects d). effect_unresolved e) \<and> \<not> (\<exists>f\<in>set (fences d). fence_unresolved f) then Inr ((0, 0), d)
      else if slot_state (slot d) \<noteq> AiEmpty \<and> slot_lease_expires_at (slot d) > now then Inl ActiveInputBusy
      else if \<exists>w\<in>set (work d). wk_completed_at w = None \<and> wk_lease_expires_at w > now then Inl ActiveInputBusy
      else Inr ((count_where effect_unresolved (effects d), count_where fence_unresolved (fences d)),
        d\<lparr>fences := delete_where fence_unresolved (fences d),
          effects := update_where effect_unresolved (settle_effect EffFailed now now) (effects d)\<rparr>))"

definition discard_unresolved_on_startup :: "time \<Rightarrow> db \<Rightarrow> (err + nat \<times> nat) \<times> db" where
  "discard_unresolved_on_startup now d =
     (if now = 0 then (Inl (Invalid ''discard timestamp is required''), d) else with_write_tx (discard_body now) d)"

subsection \<open>What committed operations did\<close>

lemma apply_impacts_frame:
  "apply_impacts c transform impacts q d = Inr d' \<Longrightarrow> \<exists>ss. d' = d\<lparr>states := ss\<rparr>
     \<and> map (\<lambda>s. (ws_owner s, ws_id s)) ss = map (\<lambda>s. (ws_owner s, ws_id s)) (states d)"
proof (induction c transform impacts q d rule: apply_impacts.induct)
  case (1 c transform q d)
  then show ?case by (auto intro: exI [of _ "states d"])
next
  case (2 c transform i rest q d)
  obtain nxt where nxt: "transform q i = Inr nxt" "valid_transformed q nxt"
    using 2(3) by (auto split: sum.splits if_splits)
  show ?case
  proof (cases "ws_revision nxt = ws_revision q")
    case True
    then show ?thesis using 2(1) [OF nxt(1)] 2(3) nxt by (simp split: if_splits)
  next
    case False
    define target where "target = (\<lambda>s. state_of (ws_owner q) (ws_id q) s \<and> ws_revision s = ws_revision q)"
    define d1 where "d1 = d\<lparr>states := update_where target (saved_state nxt) (states d)\<rparr>"
    have run: "\<not> ws_revision nxt > max_int64" "count_where target (states d) = 1" "sync_outcome c = None"
      "apply_impacts c transform rest nxt d1 = Inr d'"
      using 2(3) nxt False by (simp_all add: target_def d1_def Let_def split: if_splits option.splits)
    obtain ss where ss: "d' = d1\<lparr>states := ss\<rparr>" "map (\<lambda>s. (ws_owner s, ws_id s)) ss = map (\<lambda>s. (ws_owner s, ws_id s)) (states d1)"
      using 2(2) [OF nxt(1) _ False refl] run nxt(2) by (auto simp: target_def d1_def)
    moreover have "map (\<lambda>s. (ws_owner s, ws_id s)) (states d1) = map (\<lambda>s. (ws_owner s, ws_id s)) (states d)"
      by (simp add: d1_def map_update_where)
    ultimately show ?thesis by (intro exI [of _ ss]) (simp add: d1_def)
  qed
qed

lemma impact_slot_frame:
  assumes "impact_slot c s impacts transform d = Inr d'"
  shows "\<exists>ss. d' = d\<lparr>states := ss, slot := s\<lparr>slot_revision := slot_revision s + 1\<rparr>\<rparr>
     \<and> map (\<lambda>s. (ws_owner s, ws_id s)) ss = map (\<lambda>s. (ws_owner s, ws_id s)) (states d)"
proof -
  obtain d1 where "apply_workflow_impacts c s impacts transform d = Inr d1"
    and d': "d' = d1\<lparr>slot := s\<lparr>slot_revision := slot_revision s + 1\<rparr>\<rparr>"
    using assms by (auto simp: impact_slot_def write_active_input_def split: sum.splits if_splits)
  then obtain q where "apply_impacts c transform impacts q d = Inr d1"
    by (auto simp: apply_workflow_impacts_def split: sum.splits)
  from apply_impacts_frame [OF this] show ?thesis by (auto simp: d')
qed

text \<open>What an activation leaves alone: everything but the states, the slot and the configuration.\<close>

definition same_work :: "db \<Rightarrow> db \<Rightarrow> bool" where
  "same_work d d' \<longleftrightarrow> effects d' = effects d \<and> fences d' = fences d \<and> operations d' = operations d \<and> work d' = work d
     \<and> slot_fence (slot d') = slot_fence (slot d) \<and> slot_state (slot d') = slot_state (slot d)
     \<and> slot_coordinator (slot d') = slot_coordinator (slot d)
     \<and> (\<exists>n\<ge>slot_revision (slot d). slot d' = (slot d)\<lparr>slot_revision := n\<rparr>)
     \<and> intents d' = intents d \<and> continuations d' = continuations d \<and> events d' = events d
     \<and> map (\<lambda>s. (ws_owner s, ws_id s)) (states d') = map (\<lambda>s. (ws_owner s, ws_id s)) (states d)"

lemma same_work_refl [simp]: "same_work d d"
  by (auto simp: same_work_def intro: exI [of _ "slot_revision (slot d)"])

lemma impact_slot_same:
  "impact_slot c (slot d) impacts transform d = Inr d' \<Longrightarrow>
     config_active d' = config_active d \<and> config_pending d' = config_pending d \<and> same_work d d'"
  by (auto simp: same_work_def dest!: impact_slot_frame intro: exI [of _ "slot_revision (slot d) + 1"])

lemma activate_committed:
  assumes "activate_config_tx c expected fingerprint impacts transform d = Inr (a, d')"
  obtains current d1 s where "load_config_activation d = Inr current" "ca_generation current = ca_generation expected"
    "ca_generation expected < max_int64" "require_config_safe c d False = Inr s"
    "config_active d1 = config_active d" "config_pending d1 = config_pending d" "same_work d d1"
    "if ca_status expected = CfgPending then ca_status current = CfgPending \<and> ca_id current = ca_id expected
     else ca_status current \<noteq> CfgPending"
    "ca_generation a = ca_generation expected + 1" "ca_fingerprint a = fingerprint" "ca_status a = CfgActive"
    "d' = d1\<lparr>config_active := clear_failed ((config_active d1)\<lparr>cfg_generation := ca_generation expected + 1,
                             cfg_fingerprint := fingerprint, cfg_impacts := normalize_impacts impacts, cfg_updated_at := wall_now c\<rparr>),
        config_pending := None\<rparr>"
proof -
  obtain current where current: "load_config_activation d = Inr current"
    using assms by (auto simp: activate_config_tx_def split: sum.splits)
  have checks: "check_expected current expected = None" "ca_generation expected < max_int64"
    using assms current by (auto simp: activate_config_tx_def split: option.splits if_splits)
  obtain s where s: "require_config_safe c d False = Inr s"
    using assms current checks by (auto simp: activate_config_tx_def split: sum.splits if_splits)
  then have slot: "s = slot d" by (auto simp: require_config_safe_def load_active_input_def Let_def split: option.splits if_splits)
  obtain d1 where d1: "(case transform of Some f \<Rightarrow> if slot_state s = AiActive then impact_slot c s (normalize_impacts impacts) f d else Inr d
      | None \<Rightarrow> Inr d) = Inr d1"
    using assms current checks s by (auto simp: activate_config_tx_def Let_def split: sum.splits if_splits)
  then have frame: "config_active d1 = config_active d" "config_pending d1 = config_pending d" "same_work d d1"
    using impact_slot_same slot by (auto split: option.splits if_splits)
  have pending: "(case config_pending d of Some p \<Rightarrow> if ca_status expected = CfgPending \<and> pd_id p = ca_id expected then None else Some p
      | None \<Rightarrow> None) = None"
    using checks(1) current by (auto simp: check_expected_def load_config_activation_def Let_def active_status_def split: option.splits if_splits)
  from assms current checks s d1 show thesis
    by (intro that [OF current _ checks(2) s frame])
      (auto simp: activate_config_tx_def Let_def check_expected_def frame pending split: if_splits)
qed

lemma no_pending_same:
  "config_pending d = None \<Longrightarrow> d\<lparr>config_active := r, config_pending := None\<rparr> = d\<lparr>config_active := r\<rparr>"
  by (cases d) simp

lemma reconcile_committed:
  assumes "reconcile_config_activation c snapshot expected fingerprint transform d = (Inr a, d')"
  obtains current d1 s where "load_config_activation d = Inr current" "ca_fingerprint current \<noteq> []" "ca_generation current < max_int64"
    "require_config_safe c d True = Inr s" "config_unchanged d snapshot = None"
    "config_active d1 = config_active d" "config_pending d1 = config_pending d" "same_work d d1"
    "load_config_activation d' = Inr a"
    "d' = d1\<lparr>config_active := (config_active d1)\<lparr>cfg_generation := ca_generation current + 1,
                      cfg_fingerprint := fingerprint, cfg_impacts := [provider_impact], cfg_updated_at := wall_now c\<rparr>,
        config_pending := map_option (\<lambda>p. p\<lparr>pd_base := ca_generation current + 1\<rparr>) (config_pending d1)\<rparr>"
proof -
  have body: "reconcile_body c snapshot expected fingerprint transform d = Inr (a, d')"
    using assms by (simp add: reconcile_config_activation_def with_write_tx_commit split: if_splits)
  obtain current where current: "load_config_activation d = Inr current"
    using body by (auto simp: reconcile_body_def split: sum.splits)
  have checks: "ca_fingerprint current \<noteq> []" "ca_generation current < max_int64" "config_unchanged d snapshot = None"
    using body current by (auto simp: reconcile_body_def split: option.splits if_splits)
  obtain s where s: "require_config_safe c d True = Inr s"
    using body current checks by (auto simp: reconcile_body_def split: sum.splits if_splits)
  then have slot: "s = slot d" by (auto simp: require_config_safe_def load_active_input_def Let_def split: option.splits if_splits)
  obtain d1 where d1: "reconcile_slot c s transform d = Inr d1"
    using body current checks s by (auto simp: reconcile_body_def split: sum.splits if_splits)
  then have frame: "config_active d1 = config_active d" "config_pending d1 = config_pending d" "same_work d d1"
    using impact_slot_same slot by (auto simp: reconcile_slot_def split: option.splits if_splits)
  have status: "ca_status current = CfgPending \<longleftrightarrow> config_pending d1 \<noteq> None"
    using current by (auto simp: frame load_config_activation_def Let_def active_status_def split: option.splits if_splits)
  define d2 where "d2 = d1\<lparr>config_active := (config_active d1)\<lparr>cfg_generation := ca_generation current + 1,
                      cfg_fingerprint := fingerprint, cfg_impacts := [provider_impact], cfg_updated_at := wall_now c\<rparr>,
        config_pending := map_option (\<lambda>p. p\<lparr>pd_base := ca_generation current + 1\<rparr>) (config_pending d1)\<rparr>"
  have "and_load d2 = Inr (a, d')"
  proof (cases "config_pending d1")
    case None
    then show ?thesis
      using body current checks s d1 status by (auto simp: reconcile_body_def d2_def no_pending_same split: if_splits)
  next
    case (Some p)
    then show ?thesis
      using body current checks s d1 status by (auto simp: reconcile_body_def d2_def split: if_splits)
  qed
  then have "load_config_activation d' = Inr a" "d' = d2" by (auto simp: and_load_def split: sum.splits)
  then show thesis
    by (intro that [OF current checks(1,2) s checks(3) frame]) (simp_all add: d2_def)
qed

subsection \<open>The stored activation stays readable\<close>

definition config_ok :: "db \<Rightarrow> bool" where
  "config_ok d \<longleftrightarrow>
     (case config_pending d of
        Some p \<Rightarrow> pd_base p = cfg_generation (config_active d)
      | None \<Rightarrow> cfg_failed_id (config_active d) \<noteq> [] \<longrightarrow>
          valid_failure_code (cfg_failed_code (config_active d)) \<and> cfg_failed_at (config_active d) \<noteq> None)"

lemma config_ok_loads: "config_ok d \<Longrightarrow> cfg_generation (config_active d) < max_int64 \<Longrightarrow> \<exists>a. load_config_activation d = Inr a"
  by (cases "config_pending d") (auto simp: config_ok_def load_config_activation_def Let_def)

lemma loads_config_ok: "load_config_activation d = Inr a \<Longrightarrow> config_ok d"
  by (cases "config_pending d") (auto simp: config_ok_def load_config_activation_def Let_def split: if_splits option.splits)

lemma pending_status: "load_config_activation d = Inr a \<Longrightarrow> ca_status a = CfgPending \<longleftrightarrow> config_pending d \<noteq> None"
  by (cases "config_pending d") (auto simp: load_config_activation_def active_status_def Let_def split: if_splits option.splits)

lemma clear_failed_simps [simp]:
  "cfg_generation (clear_failed r) = cfg_generation r" "cfg_fingerprint (clear_failed r) = cfg_fingerprint r"
  "cfg_failed_id (clear_failed r) = []"
  by (simp_all add: clear_failed_def)

lemma and_load_Inr: "and_load d = Inr (a, d') \<longleftrightarrow> d' = d \<and> load_config_activation d = Inr a"
  by (auto simp: and_load_def split: sum.splits)

lemma initialize_committed:
  "initialize_fingerprint fp d = (Inr a, d') \<Longrightarrow>
     d' = d \<or> cfg_fingerprint (config_active d) = [] \<and> d' = d\<lparr>config_active := (config_active d)\<lparr>cfg_fingerprint := fp\<rparr>\<rparr> \<and> load_config_activation d' = Inr a"
  using load_generation by (auto simp: initialize_fingerprint_def with_write_tx_commit and_load_Inr split: if_splits sum.splits)

lemma initialize_error: "initialize_fingerprint fp d = (Inl e, d') \<Longrightarrow> d' = d"
  by (auto simp: initialize_fingerprint_def dest!: with_write_tx_error split: if_splits)

lemma clear_committed:
  "clear_config_failure i d = (Inr a, d') \<Longrightarrow> d' = d \<or> d' = d\<lparr>config_active := clear_failed (config_active d)\<rparr> \<and> load_config_activation d' = Inr a"
  by (auto simp: clear_config_failure_def with_write_tx_commit and_load_Inr Let_def split: if_splits sum.splits)

lemma clear_error: "clear_config_failure i d = (Inl e, d') \<Longrightarrow> d' = d"
  by (auto simp: clear_config_failure_def Let_def dest!: with_write_tx_error split: if_splits)

lemma fail_committed:
  "fail_pending_config c i code d = (Inr a, d') \<Longrightarrow> d' = d \<or> (\<exists>p. config_pending d = Some p \<and> pd_id p = trim_space i \<and> load_config_activation d' = Inr a
     \<and> d' = d\<lparr>config_active := (config_active d)\<lparr>cfg_failed_id := trim_space i, cfg_failed_code := code,
                    cfg_failed_impacts := pd_impacts p, cfg_failed_at := Some (wall_now c)\<rparr>, config_pending := None\<rparr>)"
  by (auto simp: fail_pending_config_def with_write_tx_commit and_load_Inr Let_def split: if_splits sum.splits option.splits)

lemma fail_error: "fail_pending_config c i code d = (Inl e, d') \<Longrightarrow> d' = d"
  by (auto simp: fail_pending_config_def Let_def dest!: with_write_tx_error split: if_splits)

lemma save_pending_committed:
  "save_pending_config c i owner candidate impacts d = (Inr a, d') \<Longrightarrow> config_pending d = None
     \<and> d' = d\<lparr>config_active := clear_failed (config_active d),
                config_pending := Some \<lparr>pd_id = i, pd_owner = trim_space owner, pd_base = cfg_generation (config_active d),
                  pd_impacts = normalize_impacts impacts, pd_candidate = candidate, pd_updated_at = wall_now c\<rparr>\<rparr>"
  using pending_status load_generation
  by (fastforce simp: save_pending_config_def with_write_tx_commit Let_def split: if_splits sum.splits)

lemma save_pending_error: "save_pending_config c i owner candidate impacts d = (Inl e, d') \<Longrightarrow> d' = d"
  by (auto simp: save_pending_config_def Let_def dest!: with_write_tx_error split: if_splits)

lemma reconcile_error: "reconcile_config_activation c snapshot expected fp transform d = (Inl e, d') \<Longrightarrow> d' = d"
  by (auto simp: reconcile_config_activation_def dest!: with_write_tx_error split: if_splits)

subsection \<open>Properties\<close>

text \<open>The stored activation stays readable: every configuration operation, on every outcome, keeps the pending
  candidate based on the active generation and a recorded failure complete, and then the status can be
  read until the generation is exhausted.\<close>

lemma config_status_stays_readable:
  assumes "config_ok d"
  shows "config_ok (snd (initialize_fingerprint fp d)) \<and> config_ok (snd (clear_config_failure i d))
    \<and> config_ok (snd (fail_pending_config c i code d)) \<and> config_ok (snd (save_pending_config c i owner candidate impacts d))
    \<and> config_ok (snd (reconcile_config_activation c snapshot expected fp transform d))
    \<and> (\<forall>a d'. activate_config_tx c expected fp impacts transform d = Inr (a, d') \<longrightarrow> config_ok d')
    \<and> (cfg_generation (config_active d) < max_int64 \<longrightarrow> (\<exists>a. load_config_activation d = Inr a))"
proof (intro conjI)
  show "config_ok (snd (initialize_fingerprint fp d))"
    by (rule outcome_inv [of _ d]) (use assms initialize_error in \<open>auto dest!: initialize_committed loads_config_ok\<close>)
  show "config_ok (snd (clear_config_failure i d))"
    by (rule outcome_inv [of _ d]) (use assms clear_error in \<open>auto dest!: clear_committed loads_config_ok\<close>)
  show "config_ok (snd (fail_pending_config c i code d))"
    by (rule outcome_inv [of _ d]) (use assms fail_error in \<open>auto dest!: fail_committed loads_config_ok\<close>)
  show "config_ok (snd (save_pending_config c i owner candidate impacts d))"
    by (rule outcome_inv [of _ d]) (use assms save_pending_error in \<open>auto dest!: save_pending_committed simp: config_ok_def\<close>)
  show "config_ok (snd (reconcile_config_activation c snapshot expected fp transform d))"
    by (rule outcome_inv [of _ d]) (use assms reconcile_error loads_config_ok in \<open>blast elim: reconcile_committed\<close>)+
  show "\<forall>a d'. activate_config_tx c expected fp impacts transform d = Inr (a, d') \<longrightarrow> config_ok d'"
    by (auto simp: config_ok_def elim!: activate_committed)
  show "cfg_generation (config_active d) < max_int64 \<longrightarrow> (\<exists>a. load_config_activation d = Inr a)"
    using config_ok_loads [OF assms] by blast
qed

definition config_db :: "nat \<Rightarrow> pending_row option \<Rightarrow> effect_record list \<Rightarrow> fence_record list \<Rightarrow> db" where
  "config_db n p es fs = (sample_db es fs)\<lparr>config_active := initial_config\<lparr>cfg_generation := n, cfg_fingerprint := ''f1''\<rparr>, config_pending := p\<rparr>"

definition expected_config :: "nat \<Rightarrow> config_activation" where
  "expected_config n = \<lparr>ca_status = CfgActive, ca_id = [], ca_generation = n, ca_fingerprint = ''f1'', ca_pending_generation = 0,
     ca_failure_code = [], ca_impacts = [], ca_updated_at = 62135596800000000000\<rparr>"

lemmas config_runs = config_db_def expected_config_def initial_config_def load_config_activation_def active_status_def
  config_impact_kinds_def normalize_impacts_def order_by_def Let_def any_active_operation_def load_active_input_def effect_runs

lemma config_blanks [simp]: "\<not> blank ''f2''"
  by code_simp

lemma config_status_stays_readable_witness: "config_ok (snd (initialize_fingerprint ''f1'' (config_db 4 None [] [])))"
proof -
  have "config_ok (config_db 4 None [] [])" by (simp add: config_ok_def config_db_def sample_db_def empty_db_def initial_config_def)
  from config_status_stays_readable [OF this] show ?thesis by blast
qed

lemma safe_slot:
  assumes "require_config_safe c d startup = Inr s"
  shows "s = slot d" "slot_state s = AiEmpty \<or> slot_state s = AiActive \<or> startup \<and> slot_lease_expires_at s \<le> wall_now c"
    "check_running_operations d s (wall_now c) startup = None" "\<forall>e\<in>set (effects d). \<not> effect_unresolved e"
    "startup \<Longrightarrow> \<forall>f\<in>set (fences d). \<not> fence_unresolved f"
  using assms by (auto simp: require_config_safe_def load_active_input_def Let_def split: if_splits option.splits)

text \<open>C39: Activation waits for quiet: a configuration is activated only on the generation the caller expected, with
  the slot empty or active, no queued or running operation and no effect started or unknown; it raises
  the generation by exactly one, consumes the pending candidate only if the caller named it, clears a
  recorded failure, returns the status that is read afterwards, and leaves effects, fences, operations and leases as they are.\<close>

lemma activation_needs_quiet:
  assumes "activate_config_tx c expected fp impacts transform d = Inr (a, d')"
  shows "(slot_state (slot d) = AiEmpty \<or> slot_state (slot d) = AiActive) \<and> \<not> any_active_operation d
    \<and> (\<forall>e\<in>set (effects d). \<not> effect_unresolved e) \<and> cfg_generation (config_active d) = ca_generation expected
    \<and> cfg_generation (config_active d') = cfg_generation (config_active d) + 1 \<and> cfg_fingerprint (config_active d') = fp
    \<and> (\<forall>p. config_pending d = Some p \<longrightarrow> ca_status expected = CfgPending \<and> pd_id p = ca_id expected)
    \<and> config_pending d' = None \<and> cfg_failed_id (config_active d') = [] \<and> load_config_activation d' = Inr a
    \<and> same_work d d'"
  using assms
proof (rule activate_committed)
  fix current d1 s
  assume current: "load_config_activation d = Inr current" "ca_generation current = ca_generation expected"
    and safe: "require_config_safe c d False = Inr s" and frame: "config_active d1 = config_active d" "same_work d d1"
    and expected: "if ca_status expected = CfgPending then ca_status current = CfgPending \<and> ca_id current = ca_id expected
       else ca_status current \<noteq> CfgPending"
    and d': "d' = d1\<lparr>config_active := clear_failed ((config_active d1)\<lparr>cfg_generation := ca_generation expected + 1,
           cfg_fingerprint := fp, cfg_impacts := normalize_impacts impacts, cfg_updated_at := wall_now c\<rparr>), config_pending := None\<rparr>"
  have a: "a = \<lparr>ca_status = CfgActive, ca_id = [], ca_generation = ca_generation expected + 1, ca_fingerprint = fp,
      ca_pending_generation = 0, ca_failure_code = [], ca_impacts = config_impact_kinds (normalize_impacts impacts), ca_updated_at = wall_now c\<rparr>"
    using assms by (auto simp: activate_config_tx_def Let_def split: sum.splits option.splits if_splits)
  have "\<not> any_active_operation d" using safe_slot(3) [OF safe] by (simp add: check_running_operations_def split: if_splits)
  moreover have "\<forall>p. config_pending d = Some p \<longrightarrow> ca_status expected = CfgPending \<and> pd_id p = ca_id expected"
    using expected current(1) pending_status [OF current(1)]
    by (auto simp: load_config_activation_def Let_def split: if_splits)
  moreover have "load_config_activation d' = Inr a"
    by (simp add: normalize_impacts_again d' a load_config_activation_def active_status_def clear_failed_def)
  moreover have "same_work d d'" using frame(2) by (simp add: d' same_work_def)
  ultimately show ?thesis
    using safe_slot(1,2,4) [OF safe] current(2) load_generation [OF current(1)] by (simp add: d')
qed

lemma sample_activate:
  "\<exists>a d'. activate_config_tx (quiet_ctx\<lparr>wall_now := 50\<rparr>) (expected_config 4) ''f2'' [] None (config_db 4 None [] []) = Inr (a, d')"
  by (simp add: activate_config_tx_def check_expected_def require_config_safe_def check_running_operations_def config_runs max_int64_def)

lemma activation_needs_quiet_witness:
  "\<exists>a d'. activate_config_tx (quiet_ctx\<lparr>wall_now := 50\<rparr>) (expected_config 4) ''f2'' [] None (config_db 4 None [] []) = Inr (a, d')
     \<and> cfg_generation (config_active d') = 5 \<and> load_config_activation d' = Inr a"
proof -
  obtain a d' where run: "activate_config_tx (quiet_ctx\<lparr>wall_now := 50\<rparr>) (expected_config 4) ''f2'' [] None (config_db 4 None [] []) = Inr (a, d')"
    using sample_activate by blast
  have "cfg_generation (config_active (config_db 4 None [] [])) = 4" by (simp add: config_db_def)
  then show ?thesis using activation_needs_quiet [OF run] run by (intro exI [of _ a] exI [of _ d']) simp
qed

lemma activate_generation:
  "activate_config_tx c expected fp impacts transform d = Inr (a, d') \<Longrightarrow> cfg_generation (config_active d') = cfg_generation (config_active d) + 1"
  by (erule activate_committed) (use load_generation in auto)

lemma begin_needs_generation:
  "begin_release_workflow_effect digest c r d = (Inr x, d') \<Longrightarrow> require_config_activation_generation c d = None"
  by (cases x) (auto elim!: begin_committed_cases dest: begin_body_committed(2) begin_fence_body_committed(2))

text \<open>C40: A superseded configuration cannot submit: once an activation or a startup reconciliation has committed, no
  runtime that carries an older generation begins an external effect, and the refusal changes
  nothing.\<close>

lemma superseded_configuration_cannot_submit:
  assumes "activate_config_tx c expected fp impacts transform d = Inr (a, d') \<or> reconcile_config_activation c snapshot expected fp transform d = (Inr a, d')"
    and "config_authority c' = Some (generation, fingerprint)" and "generation \<le> cfg_generation (config_active d)"
  shows "\<exists>e. begin_release_workflow_effect digest c' r d' = (Inl e, d')"
proof -
  have later: "cfg_generation (config_active d') = cfg_generation (config_active d) + 1"
    using assms(1)
  proof
    assume "activate_config_tx c expected fp impacts transform d = Inr (a, d')"
    then show ?thesis by (rule activate_generation)
  next
    assume "reconcile_config_activation c snapshot expected fp transform d = (Inr a, d')"
    then show ?thesis by (rule reconcile_committed) (use load_generation in auto)
  qed
  have "require_config_activation_generation c' d' \<noteq> None"
    using assms(2,3) later load_generation [of d']
    by (auto simp: require_config_activation_generation_def split: sum.splits)
  then show ?thesis
    using begin_needs_generation begin_error
    by (cases "begin_release_workflow_effect digest c' r d'"; cases "fst (begin_release_workflow_effect digest c' r d')") fastforce+
qed

lemma superseded_configuration_cannot_submit_witness:
  "\<exists>a d'. activate_config_tx (quiet_ctx\<lparr>wall_now := 50\<rparr>) (expected_config 4) ''f2'' [] None (config_db 4 None [] []) = Inr (a, d')
     \<and> (\<exists>e. begin_release_workflow_effect (\<lambda>_ _. []) (quiet_ctx\<lparr>config_authority := Some (4, ''f1'')\<rparr>) (sample_effect ''e1'' 10) d' = (Inl e, d'))"
proof -
  obtain a d' where run: "activate_config_tx (quiet_ctx\<lparr>wall_now := 50\<rparr>) (expected_config 4) ''f2'' [] None (config_db 4 None [] []) = Inr (a, d')"
    using sample_activate by blast
  have "cfg_generation (config_active (config_db 4 None [] [])) = 4" by (simp add: config_db_def)
  then show ?thesis
    using superseded_configuration_cannot_submit [OF disjI1 [OF run], of "quiet_ctx\<lparr>config_authority := Some (4, ''f1'')\<rparr>" 4 "''f1''"] run
    by (intro exI [of _ a] exI [of _ d']) simp
qed

text \<open>Startup reconciliation never overrides live work: it commits only on an unchanged stored configuration, with
  no effect or fence started or unknown, with every queued or running operation belonging to the slot's
  workflow and every lease involved expired; it raises the generation by one and keeps a pending
  candidate, rebased on it.\<close>

lemma startup_reconciliation_is_safe:
  assumes "reconcile_config_activation c snapshot expected fp transform d = (Inr a, d')"
  shows "config_unchanged d snapshot = None \<and> (\<forall>e\<in>set (effects d). \<not> effect_unresolved e) \<and> (\<forall>f\<in>set (fences d). \<not> fence_unresolved f)
    \<and> (slot_state (slot d) = AiEmpty \<or> slot_state (slot d) = AiActive \<or> slot_lease_expires_at (slot d) \<le> wall_now c)
    \<and> (\<forall>p\<in>set (operations d). operation_active p \<longrightarrow> op_owner p = slot_owner (slot d) \<and> op_workflow p = slot_workflow (slot d)
         \<and> slot_lease_expires_at (slot d) \<le> wall_now c
         \<and> (\<forall>w\<in>set (work d). work_of (op_owner p) (op_workflow p) (op_id p) w \<and> wk_completed_at w = None
              \<longrightarrow> wk_lease_expires_at w \<le> wall_now c))
    \<and> cfg_generation (config_active d') = cfg_generation (config_active d) + 1 \<and> load_config_activation d' = Inr a
    \<and> map_option pd_candidate (config_pending d') = map_option pd_candidate (config_pending d) \<and> same_work d d'"
  using assms
proof (rule reconcile_committed)
  fix current d1 s
  assume current: "load_config_activation d = Inr current" and safe: "require_config_safe c d True = Inr s"
    and "config_unchanged d snapshot = None" "load_config_activation d' = Inr a"
    and frame: "config_active d1 = config_active d" "config_pending d1 = config_pending d" "same_work d d1"
    and d': "d' = d1\<lparr>config_active := (config_active d1)\<lparr>cfg_generation := ca_generation current + 1,
                      cfg_fingerprint := fp, cfg_impacts := [provider_impact], cfg_updated_at := wall_now c\<rparr>,
        config_pending := map_option (\<lambda>p. p\<lparr>pd_base := ca_generation current + 1\<rparr>) (config_pending d1)\<rparr>"
  moreover have "op_owner p = slot_owner s \<and> op_workflow p = slot_workflow s \<and> slot_lease_expires_at s \<le> wall_now c
         \<and> (\<forall>w\<in>set (work d). work_of (op_owner p) (op_workflow p) (op_id p) w \<and> wk_completed_at w = None
              \<longrightarrow> wk_lease_expires_at w \<le> wall_now c)" if p: "p \<in> set (operations d)" "operation_active p" for p
  proof -
    have "any_active_operation d" using p by (auto simp: any_active_operation_def)
    then have "(op_owner p = slot_owner s \<and> op_workflow p = slot_workflow s) \<and> \<not> slot_lease_expires_at s > wall_now c
        \<and> \<not> live_operation_lease d (wall_now c)"
      using safe_slot(3) [OF safe] p by (auto simp: check_running_operations_def split: if_splits)
    then show ?thesis using p unfolding live_operation_lease_def not_less by (metis not_less)
  qed
  moreover have "map_option pd_candidate (config_pending d') = map_option pd_candidate (config_pending d)"
    by (simp add: d' frame option.map_comp comp_def)
  moreover have "same_work d d'" using frame(3) by (simp add: d' same_work_def)
  ultimately show ?thesis
    using safe_slot [OF safe] load_generation [OF current] by auto
qed

lemma startup_reconciliation_is_safe_witness:
  "\<exists>a d'. reconcile_config_activation quiet_ctx (Some []) (expected_config 4) ''f2'' None ((config_db 4 None [] [])\<lparr>slot := empty_slot\<rparr>) = (Inr a, d')
     \<and> cfg_generation (config_active d') = 5 \<and> load_config_activation d' = Inr a"
proof -
  obtain a d' where run: "reconcile_config_activation quiet_ctx (Some []) (expected_config 4) ''f2'' None
      ((config_db 4 None [] [])\<lparr>slot := empty_slot\<rparr>) = (Inr a, d')"
    by (simp add: reconcile_config_activation_def reconcile_body_def config_unchanged_def require_config_safe_def
        check_running_operations_def reconcile_slot_def and_load_def config_runs max_int64_def)
  have "cfg_generation (config_active ((config_db 4 None [] [])\<lparr>slot := empty_slot\<rparr>)) = 4" by (simp add: config_db_def)
  then show ?thesis using startup_reconciliation_is_safe [OF run] run by (intro exI [of _ a] exI [of _ d']) simp
qed

text \<open>Startup discard settles everything once and only when nobody can still be working: if it commits on a
  database with an unresolved effect or fence, the slot's lease and every unfinished work lease had
  expired; afterwards nothing is started or unknown, what was settled is untouched, each unresolved
  effect is a failed receipt and each unresolved fence is gone.\<close>

lemma startup_discard_is_safe:
  assumes "discard_unresolved_on_startup now d = (Inr (n, m), d')"
  shows "((\<exists>e\<in>set (effects d). effect_unresolved e) \<or> (\<exists>f\<in>set (fences d). fence_unresolved f) \<longrightarrow>
        (slot_state (slot d) = AiEmpty \<or> slot_lease_expires_at (slot d) \<le> now)
        \<and> (\<forall>w\<in>set (work d). wk_completed_at w = None \<longrightarrow> wk_lease_expires_at w \<le> now))
    \<and> (\<forall>e\<in>set (effects d'). \<not> effect_unresolved e)
    \<and> (\<forall>e\<in>set (effects d). if effect_unresolved e then settle_effect EffFailed now now e \<in> set (effects d') else e \<in> set (effects d'))
    \<and> set (fences d') = {f \<in> set (fences d). \<not> fence_unresolved f}
    \<and> length (fences d) = length (fences d') + m \<and> length (effects d') = length (effects d)"
proof -
  have rows: "effects d' = update_where effect_unresolved (settle_effect EffFailed now now) (effects d)
      \<and> fences d' = delete_where fence_unresolved (fences d) \<and> m = count_where fence_unresolved (fences d)"
  proof (cases "(\<exists>e\<in>set (effects d). effect_unresolved e) \<or> (\<exists>f\<in>set (fences d). fence_unresolved f)")
    case True
    then show ?thesis using assms by (auto simp: discard_unresolved_on_startup_def discard_body_def with_write_tx_commit split: if_splits)
  next
    case False
    then have "update_where effect_unresolved (settle_effect EffFailed now now) (effects d) = effects d"
      "delete_where fence_unresolved (fences d) = fences d" "count_where fence_unresolved (fences d) = 0"
      by (auto simp: update_where_none delete_where_def filter_id_conv)
    then show ?thesis using assms False
      by (simp add: discard_unresolved_on_startup_def discard_body_def with_write_tx_commit split: if_splits)
  qed
  moreover have "(slot_state (slot d) = AiEmpty \<or> slot_lease_expires_at (slot d) \<le> now)
        \<and> (\<forall>w\<in>set (work d). wk_completed_at w = None \<longrightarrow> wk_lease_expires_at w \<le> now)"
    if "(\<exists>e\<in>set (effects d). effect_unresolved e) \<or> (\<exists>f\<in>set (fences d). fence_unresolved f)"
    using assms that
    by (auto simp: discard_unresolved_on_startup_def discard_body_def with_write_tx_commit not_less split: if_splits)
  moreover have "length (fences d) = length (delete_where fence_unresolved (fences d)) + count_where fence_unresolved (fences d)"
    by (simp add: delete_where_def count_where_def sum_length_filter_compl add.commute)
  moreover have "\<forall>e\<in>set (effects d'). \<not> effect_unresolved e"
  proof
    fix e
    assume "e \<in> set (effects d')"
    then obtain q where "e = (if effect_unresolved q then settle_effect EffFailed now now q else q)"
      using rows by (auto simp: in_update_where)
    then show "\<not> effect_unresolved e" by (cases "effect_unresolved q") (simp_all add: effect_unresolved_def)
  qed
  moreover have "\<forall>e\<in>set (effects d). if effect_unresolved e then settle_effect EffFailed now now e \<in> set (effects d') else e \<in> set (effects d')"
    using rows by (auto simp: in_update_where)
  ultimately show ?thesis by auto
qed

lemma startup_discard_is_safe_witness:
  "\<exists>d'. discard_unresolved_on_startup 200 (sample_db [sample_effect ''e1'' 10] [sample_fence EffStarted]) = (Inr (1, 1), d')
     \<and> length (fences d') = 0"
proof -
  obtain d' where run: "discard_unresolved_on_startup 200 (sample_db [sample_effect ''e1'' 10] [sample_fence EffStarted]) = (Inr (1, 1), d')"
    by (simp add: discard_unresolved_on_startup_def discard_body_def effect_unresolved_def fence_unresolved_def effect_runs)
  have "length (fences (sample_db [sample_effect ''e1'' 10] [sample_fence EffStarted])) = 1" by (simp add: sample_db_def)
  then show ?thesis using startup_discard_is_safe [OF run] run by (intro exI [of _ d']) simp
qed

lemma discard_keeps_effects_ok:
  assumes "discard_unresolved_on_startup now d = (r, d')" and "effects_ok d"
  shows "effects_ok d'"
proof (cases "d' = d")
  case False
  then have d': "d' = d\<lparr>fences := delete_where fence_unresolved (fences d),
          effects := update_where effect_unresolved (settle_effect EffFailed now now) (effects d)\<rparr>"
    using assms(1) by (auto simp: discard_unresolved_on_startup_def discard_body_def with_write_tx_def split: if_splits)
  have "has_receipt d' f" if f: "f \<in> set (fences d)" "\<not> fence_unresolved f" for f
  proof -
    have "fen_status f = EffSucceeded"
      using assms(2) f by (cases "fen_status f") (auto simp: effects_ok_def fence_unresolved_def)
    then obtain e where "e \<in> set (effects d)" "fence_of_effect f e" "eff_kind e = tracker_submission" "eff_status e = EffSucceeded"
      using assms(2) f(1) by (auto simp: effects_ok_def has_receipt_def)
    then show ?thesis
      unfolding has_receipt_def
      by (intro bexI [of _ e]) (simp_all add: d' update_where_untouched effect_unresolved_def)
  qed
  moreover have "map effect_key (update_where effect_unresolved (settle_effect EffFailed now now) (effects d)) = map effect_key (effects d)"
    by (rule map_update_where) simp
  ultimately show ?thesis
    using assms(2) by (auto simp: effects_ok_def d' distinct_map_delete_where in_update_where state_exists_def)
qed (use assms(2) in simp)

end
