(* ===== verification/Purge.thy ===== *)
theory Purge
  imports ConfigActivation
begin

text \<open>
  History deletion: \<open>PurgeContentData\<close> of \<open>internal/services/db/sqlite.go\<close> with its two admission checks.
  The user asks to forget a source path; every workflow that used the path goes, with everything it
  owns and with its submission fences, so that deletion also removes the protection against a repeated
  submission. Which workflows used which path is read from the ownership index, which other code
  maintains and which is an argument here (\<open>history_view\<close>), as is the identity of two paths on disk.
  Of the tables keyed by the path, the database record has the current prepared releases, the corrections
  (\<open>release_overrides\<close>), the input records and their associations; the media and metadata tables and the
  retired user-interface rows, which the purge empties as well, are not in it.
\<close>

subsection \<open>The ownership index\<close>

text \<open>
  Whether every workflow has an unambiguous entry of its current revision, and the rows of
  \<open>release_workflow_sources\<close> in the order of the query: owner, workflow and source path.
\<close>

record history_view =
  hv_certain :: bool
  hv_sources :: "(string \<times> string \<times> string) list"

definition require_workflow_ownership_certain :: "history_view \<Rightarrow> err option" where
  "require_workflow_ownership_certain v =
     (if hv_certain v then None else Some (Invalid ''workflow ownership is incomplete or ambiguous''))"

definition add_match :: "(string \<Rightarrow> string \<Rightarrow> bool) \<Rightarrow> string \<Rightarrow> string \<times> string \<times> string \<Rightarrow> (string \<times> string) list \<Rightarrow> (string \<times> string) list" where
  "add_match same_path path row matches =
     (case row of (owner, workflow, source) \<Rightarrow>
        if same_path source path \<and> (owner, workflow) \<notin> set matches then matches @ [(owner, workflow)] else matches)"

definition matching_workflow_states ::
    "(string \<Rightarrow> string \<Rightarrow> bool) \<Rightarrow> history_view \<Rightarrow> string \<Rightarrow> err + (string \<times> string) list" where
  "matching_workflow_states same_path v path =
     (case require_workflow_ownership_certain v of
        Some e \<Rightarrow> Inl e
      | None \<Rightarrow> Inr (fold (add_match same_path path) (hv_sources v) []))"

subsection \<open>Admission\<close>

definition unresolved_effects :: "db \<Rightarrow> string \<Rightarrow> string \<Rightarrow> bool" where
  "unresolved_effects d owner workflow \<longleftrightarrow>
     (\<exists>e\<in>set (effects d). eff_owner e = owner \<and> eff_workflow e = workflow \<and> effect_unresolved e)"

definition running_operations :: "db \<Rightarrow> string \<Rightarrow> string \<Rightarrow> bool" where
  "running_operations d owner workflow \<longleftrightarrow>
     (\<exists>p\<in>set (operations d). op_owner p = owner \<and> op_workflow p = workflow \<and> operation_active p)"

text \<open>The paths the slot uses; none when its input record is missing.\<close>

definition active_paths :: "db \<Rightarrow> active_input_record \<Rightarrow> string list option" where
  "active_paths d s =
     (if blank (slot_input s) then Some [slot_requested_path s]
      else case List.find (\<lambda>r. in_id r = slot_input s) (inputs d) of
          None \<Rightarrow> None
        | Some r \<Rightarrow> Some [slot_requested_path s, in_canonical_path r])"

definition reject_active_history_purge :: "(string \<Rightarrow> string \<Rightarrow> bool) \<Rightarrow> string \<Rightarrow> db \<Rightarrow> err option" where
  "reject_active_history_purge same_path path d = (let s = load_active_input d in
     if slot_state s = AiEmpty then None
     else case active_paths d s of
         None \<Rightarrow> Some ActiveInputBusy
       | Some paths \<Rightarrow>
           if \<not> (\<exists>p\<in>set paths. \<not> blank p \<and> same_path p path) then None
           else if slot_workflow s \<noteq> [] \<and> unresolved_effects d (slot_owner s) (slot_workflow s) then Some EffectOutcomeUnknown
           else if slot_workflow s \<noteq> [] \<and> running_operations d (slot_owner s) (slot_workflow s) then Some ActiveInputBusy
           else Some ActiveInputBusy)"

fun reject_workflow_activity :: "db \<Rightarrow> (string \<times> string) list \<Rightarrow> err option" where
  "reject_workflow_activity d [] = None"
| "reject_workflow_activity d ((owner, workflow) # rest) =
     (let s = load_active_input d;
          active_workflow = (slot_state s \<noteq> AiEmpty \<and> slot_owner s = owner \<and> slot_workflow s = workflow) in
      if active_workflow \<and> unresolved_effects d owner workflow then Some EffectOutcomeUnknown
      else if running_operations d owner workflow \<or> active_workflow then Some ActiveInputBusy
      else reject_workflow_activity d rest)"

subsection \<open>Deletion\<close>

definition purge_workflow :: "string \<times> string \<Rightarrow> db \<Rightarrow> db" where
  "purge_workflow = (\<lambda>(owner, workflow) d.
     delete_states (state_of owner workflow)
       (d\<lparr>fences := delete_where (\<lambda>f. fen_owner f = owner \<and> fen_workflow f = workflow) (fences d)\<rparr>))"

text \<open>The tables keyed by the path; deleting an input record cascades to its associations.\<close>

definition purge_source :: "string \<Rightarrow> db \<Rightarrow> db" where
  "purge_source path d = d\<lparr>
     prepared_current := delete_where (\<lambda>(p, _). p = path) (prepared_current d),
     corrections := delete_where (\<lambda>(p, _). p = path) (corrections d),
     inputs := delete_where (\<lambda>r. in_canonical_path r = path) (inputs d),
     associations := delete_where (\<lambda>a. ia_canonical_path a = path) (associations d)\<rparr>"

definition purge_body :: "(string \<Rightarrow> string \<Rightarrow> bool) \<Rightarrow> history_view \<Rightarrow> string \<Rightarrow> unit tx" where
  "purge_body same_path v path d =
     (case reject_active_history_purge same_path path d of
        Some e \<Rightarrow> Inl e
      | None \<Rightarrow> (case matching_workflow_states same_path v path of
          Inl e \<Rightarrow> Inl e
        | Inr matches \<Rightarrow> (case reject_workflow_activity d matches of
            Some e \<Rightarrow> Inl e
          | None \<Rightarrow> Inr ((), purge_source path (fold purge_workflow matches d)))))"

definition purge_content_data :: "(string \<Rightarrow> string \<Rightarrow> bool) \<Rightarrow> history_view \<Rightarrow> string \<Rightarrow> db \<Rightarrow> (err + unit) \<times> db" where
  "purge_content_data same_path v path0 d = (let path = trim_space path0 in
     if path = [] then (Inl (Invalid ''invalid input''), d)
     else with_write_tx (purge_body same_path v path) d)"

subsection \<open>What a committed deletion did\<close>

text \<open>The workflows a path belongs to.\<close>

definition owned_by :: "(string \<Rightarrow> string \<Rightarrow> bool) \<Rightarrow> history_view \<Rightarrow> string \<Rightarrow> string \<Rightarrow> string \<Rightarrow> bool" where
  "owned_by same_path v path owner workflow \<longleftrightarrow>
     (\<exists>source. (owner, workflow, source) \<in> set (hv_sources v) \<and> same_path source path)"

lemma set_fold_add_match:
  "set (fold (add_match same_path path) rows matches)
     = set matches \<union> {(owner, workflow). \<exists>source. (owner, workflow, source) \<in> set rows \<and> same_path source path}"
proof (induction rows arbitrary: matches)
  case (Cons row rows)
  obtain owner workflow source where row: "row = (owner, workflow, source)" by (cases row) auto
  show ?case unfolding fold_simps comp_apply Cons.IH by (auto simp: row add_match_def split: if_splits)
qed simp

lemma set_matches:
  assumes "matching_workflow_states same_path v path = Inr matches"
  shows "(owner, workflow) \<in> set matches \<longleftrightarrow> owned_by same_path v path owner workflow"
proof -
  have "matches = fold (add_match same_path path) (hv_sources v) []"
    using assms by (simp add: matching_workflow_states_def split: option.splits)
  then show ?thesis by (simp add: set_fold_add_match owned_by_def)
qed

lemma purge_workflow_fences:
  "fences (purge_workflow m d) = delete_where (\<lambda>f. (fen_owner f, fen_workflow f) = m) (fences d)"
  by (cases m) (simp add: purge_workflow_def)

lemma purge_workflow_slot: "slot (purge_workflow m d) = slot d"
  by (cases m) (simp add: purge_workflow_def)

lemma fold_purge_fences:
  "fences (fold purge_workflow ms d) = delete_where (\<lambda>f. (fen_owner f, fen_workflow f) \<in> set ms) (fences d)"
  by (induction ms arbitrary: d) (auto simp: purge_workflow_fences delete_where_def intro: filter_cong)

lemma fold_purge_slot: "slot (fold purge_workflow ms d) = slot d"
  by (induction ms arbitrary: d) (simp_all add: purge_workflow_slot)

lemma purge_source_frame [simp]:
  "slot (purge_source path d) = slot d" "fences (purge_source path d) = fences d" "states (purge_source path d) = states d"
  "operations (purge_source path d) = operations d" "work (purge_source path d) = work d" "effects (purge_source path d) = effects d"
  "intents (purge_source path d) = intents d" "continuations (purge_source path d) = continuations d"
  "events (purge_source path d) = events d" "config_active (purge_source path d) = config_active d"
  "config_pending (purge_source path d) = config_pending d"
  by (simp_all add: purge_source_def)

lemma purge_committed:
  assumes "purge_content_data same_path v path d = (Inr u, d')"
  obtains matches where "matching_workflow_states same_path v (trim_space path) = Inr matches"
    "reject_workflow_activity d matches = None" "d' = purge_source (trim_space path) (fold purge_workflow matches d)"
  using assms
  by (auto simp: purge_content_data_def purge_body_def Let_def with_write_tx_commit split: if_splits option.splits sum.splits)

lemma purge_error: "purge_content_data same_path v path d = (Inl e, d') \<Longrightarrow> d' = d"
  by (auto simp: purge_content_data_def Let_def dest: with_write_tx_error split: if_splits)

text \<open>Exactly the fences of the path's workflows go, and the slot stays.\<close>

lemma purge_fences:
  assumes "purge_content_data same_path v path d = (Inr u, d')"
  shows "fences d' = delete_where (\<lambda>f. owned_by same_path v (trim_space path) (fen_owner f) (fen_workflow f)) (fences d)"
    and "slot d' = slot d"
  using assms
  by (cases rule: purge_committed; simp add: fold_purge_fences fold_purge_slot set_matches)+

lemma purge_keeps_slot: "slot (snd (purge_content_data same_path v path d)) = slot d"
  by (rule outcome_inv) (auto dest: purge_error purge_fences(2))

text \<open>The workflow the slot holds, and one with a queued or running operation, is not deleted.\<close>

lemma reject_workflow_activity_spares:
  "reject_workflow_activity d matches = None \<Longrightarrow> (owner, workflow) \<in> set matches \<Longrightarrow>
     \<not> running_operations d owner workflow
     \<and> \<not> (slot_state (slot d) \<noteq> AiEmpty \<and> slot_owner (slot d) = owner \<and> slot_workflow (slot d) = workflow)"
  by (induction d matches rule: reject_workflow_activity.induct)
    (auto simp: Let_def load_active_input_def split: if_splits)

lemma purge_spares_activity:
  assumes "purge_content_data same_path v path d = (Inr u, d')" and "owned_by same_path v (trim_space path) owner workflow"
  shows "\<not> running_operations d owner workflow
     \<and> \<not> (slot_state (slot d) \<noteq> AiEmpty \<and> slot_owner (slot d) = owner \<and> slot_workflow (slot d) = workflow)"
  using assms(1) by (cases rule: purge_committed) (use assms(2) set_matches reject_workflow_activity_spares in blast)

end
