(* ===== verification/Steps.thy ===== *)
theory Steps
  imports Purge
begin

text \<open>
  The repository as one state machine: every operation of the components is a step of the
  database, with every argument, authority and clock. The relations are grouped by the
  component that owns the operation; the lemmas of each group say which tables its steps can
  change, so that an invariant is carried over a step by looking at those tables only.
\<close>

subsection \<open>Steps\<close>

inductive slot_step :: "db \<Rightarrow> db \<Rightarrow> bool" where
  transition: "slot_step d (snd (transition_active_input c expected nxt input workflow now retention d))"
| finalize: "slot_step d (snd (finalize_active_input same_path c expected nxt rec workflow now retention d))"
| close: "slot_step d (snd (close_idle_active_input expected now d))"
| renew: "slot_step d (snd (renew_active_input coordinator fence now expires d))"
| relinquish: "slot_step d (snd (relinquish_active_input coordinator fence now d))"
| save_input: "slot_step d (snd (save_input_record rec d))"

inductive effect_step :: "digest \<Rightarrow> db \<Rightarrow> db \<Rightarrow> bool" for digest :: digest where
  begin_effect: "effect_step digest d (snd (begin_release_workflow_effect digest c r d))"
| complete_effect: "effect_step digest d (snd (complete_release_workflow_effect digest c status r d))"
| interrupt_effects: "effect_step digest d (snd (mark_operation_effects_unknown c owner workflow operation now d))"
| recover_effects: "effect_step digest d (snd (recover_legacy_effects c owner workflow now d))"
| resolve_effect: "effect_step digest d (snd (resolve_effect_unknown c owner workflow kind scope now expected d))"

inductive work_step :: "db \<Rightarrow> db \<Rightarrow> bool" where
  claim: "work_step d (snd (claim_release_workflow_work c r d))"
| renew_work: "work_step d (snd (renew_release_workflow_work c r d))"
| checkpoint: "work_step d (snd (checkpoint_release_workflow_work c r d))"
| complete_work: "work_step d (snd (complete_release_workflow_work c r d))"

inductive operation_step :: "db \<Rightarrow> db \<Rightarrow> bool" where
  create_operation: "operation_step d (snd (create_release_workflow_operation c r d))"
| save_operation: "operation_step d (snd (save_release_workflow_operation c expected r d))"
| retire_operations: "operation_step d (snd (delete_terminal_operations_before before d))"

inductive log_step :: "db \<Rightarrow> db \<Rightarrow> bool" where
  accept_intent: "log_step d (snd (accept_release_workflow_intent c intent d))"
| save_continuation: "log_step d (snd (save_release_workflow_continuation c continuation d))"
| append: "log_step d (snd (append_release_workflow_events fates c owner workflow es d))"

inductive state_step :: "db \<Rightarrow> db \<Rightarrow> bool" where
  create_state: "state_step d (snd (create_release_workflow_state c r d))"
| save_state: "state_step d (snd (save_release_workflow_state c expected r d))"
| delete_state: "state_step d (snd (delete_release_workflow_state owner workflow d))"
| retire_states: "state_step d (snd (delete_terminal_states_before before d))"

text \<open>
  \<open>activate_config_tx\<close> runs inside the caller's transaction, so only its success is a step.
\<close>

inductive config_step :: "db \<Rightarrow> db \<Rightarrow> bool" where
  initialize: "config_step d (snd (initialize_fingerprint fingerprint d))"
| clear_failure: "config_step d (snd (clear_config_failure activation d))"
| fail_pending: "config_step d (snd (fail_pending_config c activation code d))"
| save_pending: "config_step d (snd (save_pending_config c activation owner candidate impacts d))"
| activate: "activate_config_tx c expected fingerprint impacts transform d = Inr (a, d') \<Longrightarrow> config_step d d'"
| reconcile: "config_step d (snd (reconcile_config_activation c snapshot expected fingerprint transform d))"
| discard: "config_step d (snd (discard_unresolved_on_startup now d))"

text \<open>
  Prepared releases, corrections and the stored configuration are written by other code; to the
  operations modelled here they may hold anything at any time.
\<close>

inductive content_step :: "db \<Rightarrow> db \<Rightarrow> bool" where
  content: "content_step d (d\<lparr>settings := ss, prepared_current := ps, corrections := cs\<rparr>)"

text \<open>A user deletes the history of a path, with any ownership index and any identity of paths.\<close>

inductive purge_step :: "db \<Rightarrow> db \<Rightarrow> bool" where
  purge: "purge_step d (snd (purge_content_data same_path v path d))"

text \<open>What the workflow itself does, and what can happen to the repository at all.\<close>

definition working_step :: "digest \<Rightarrow> db \<Rightarrow> db \<Rightarrow> bool" where
  "working_step digest d d' \<longleftrightarrow> slot_step d d' \<or> effect_step digest d d' \<or> work_step d d' \<or> operation_step d d'
     \<or> log_step d d' \<or> state_step d d' \<or> config_step d d' \<or> content_step d d'"

definition step :: "digest \<Rightarrow> db \<Rightarrow> db \<Rightarrow> bool" where
  "step digest d d' \<longleftrightarrow> working_step digest d d' \<or> purge_step d d'"

inductive reachable :: "digest \<Rightarrow> db \<Rightarrow> bool" for digest :: digest where
  initial: "reachable digest empty_db"
| later: "reachable digest d \<Longrightarrow> step digest d d' \<Longrightarrow> reachable digest d'"

inductive_cases slot_stepE: "slot_step d d'"
inductive_cases effect_stepE: "effect_step digest d d'"
inductive_cases work_stepE: "work_step d d'"
inductive_cases operation_stepE: "operation_step d d'"
inductive_cases log_stepE: "log_step d d'"
inductive_cases state_stepE: "state_step d d'"
inductive_cases config_stepE: "config_step d d'"
inductive_cases content_stepE: "content_step d d'"
inductive_cases purge_stepE: "purge_step d d'"

subsection \<open>What each invariant depends on\<close>

definition state_keys :: "db \<Rightarrow> (string \<times> string) list" where
  "state_keys d = map (\<lambda>s. (ws_owner s, ws_id s)) (states d)"

lemma state_exists_keys: "state_exists d owner workflow \<longleftrightarrow> (owner, workflow) \<in> set (state_keys d)"
  by (auto simp: state_exists_def state_keys_def)

lemma effects_ok_same:
  "effects_ok d \<Longrightarrow> effects d' = effects d \<Longrightarrow> fences d' = fences d \<Longrightarrow> set (state_keys d) \<subseteq> set (state_keys d') \<Longrightarrow> effects_ok d'"
  by (auto simp: effects_ok_def has_receipt_def state_exists_keys)

lemma work_ok_same: "work_ok d \<Longrightarrow> work d' = work d \<Longrightarrow> operations d' = operations d \<Longrightarrow> work_ok d'"
  by (simp add: work_ok_def operation_exists_def)

lemma operations_ok_same: "operations_ok d \<Longrightarrow> operations d' = operations d \<Longrightarrow> operations_ok d'"
  by (simp add: operations_ok_def)

lemma events_ok_same: "events_ok d \<Longrightarrow> events d' = events d \<Longrightarrow> events_ok d'"
  by (simp add: events_ok_def event_rows_def)

lemma config_ok_same: "config_ok d \<Longrightarrow> config_active d' = config_active d \<Longrightarrow> config_pending d' = config_pending d \<Longrightarrow> config_ok d'"
  by (cases "config_pending d") (simp_all add: config_ok_def)

text \<open>The rows of the workflow tables without a constraint of their own, by their workflow.\<close>

definition row_owners :: "db \<Rightarrow> (string \<times> string) set" where
  "row_owners d = (\<lambda>p. (op_owner p, op_workflow p)) ` set (operations d)
     \<union> (\<lambda>i. (it_owner i, it_workflow i)) ` set (intents d)
     \<union> (\<lambda>k. (co_owner k, co_workflow k)) ` set (continuations d)
     \<union> (\<lambda>v. (er_owner v, er_workflow v)) ` set (events d)"

definition rows_have_states :: "db \<Rightarrow> bool" where
  "rows_have_states d \<longleftrightarrow> row_owners d \<subseteq> set (state_keys d)"

lemma fence_has_state:
  assumes "effects_ok d" and "f \<in> set (fences d)"
  shows "state_exists d (fen_owner f) (fen_workflow f)"
proof -
  obtain e where "e \<in> set (effects d)" "fence_of_effect f e"
    using assms by (auto simp: effects_ok_def has_receipt_def)
  then show ?thesis using assms(1) by (auto simp: effects_ok_def fence_of_effect_def)
qed

lemma rows_owned_iff:
  assumes "effects_ok d"
  shows "rows_owned d \<longleftrightarrow> rows_have_states d"
proof -
  have "\<forall>e\<in>set (effects d). state_exists d (eff_owner e) (eff_workflow e)"
    using assms by (simp add: effects_ok_def)
  then show ?thesis
    using fence_has_state [OF assms]
    by (simp add: rows_owned_def rows_have_states_def row_owners_def image_subset_iff flip: state_exists_keys)
qed

text \<open>The invariant of the whole repository.\<close>

definition repository_ok :: "db \<Rightarrow> bool" where
  "repository_ok d \<longleftrightarrow> slot_ok (slot d) \<and> distinct (state_keys d) \<and> effects_ok d \<and> work_ok d \<and> operations_ok d
     \<and> events_ok d \<and> rows_have_states d \<and> config_ok d"

lemma repository_ok_empty: "repository_ok empty_db"
  by (simp add: repository_ok_def empty_db_def state_keys_def effects_ok_def work_ok_def operations_ok_def events_ok_def
      event_rows_def rows_have_states_def row_owners_def config_ok_def initial_config_def)


lemma rows_have_states_same:
  "rows_have_states d \<Longrightarrow> row_owners d' = row_owners d \<Longrightarrow> set (state_keys d) \<subseteq> set (state_keys d') \<Longrightarrow> rows_have_states d'"
  by (auto simp: rows_have_states_def)

lemmas same_tables = effects_ok_same work_ok_same operations_ok_same events_ok_same config_ok_same rows_have_states_same

subsection \<open>What the steps leave unchanged\<close>

definition keeps_slot_tables :: "db \<Rightarrow> db \<Rightarrow> bool" where
  "keeps_slot_tables d d' \<longleftrightarrow> (\<exists>rs as ss s. d' = d\<lparr>inputs := rs, associations := as, states := ss, slot := s\<rparr>
     \<and> map (\<lambda>s. (ws_owner s, ws_id s)) ss = state_keys d)"

lemma keeps_slot_tables_refl: "keeps_slot_tables d d"
  unfolding keeps_slot_tables_def
  by (intro exI [of _ "inputs d"] exI [of _ "associations d"] exI [of _ "states d"] exI [of _ "slot d"]) (simp add: state_keys_def)

lemma keeps_slot_tables_slot: "keeps_slot_tables d (d\<lparr>slot := s\<rparr>)"
  unfolding keeps_slot_tables_def
  by (intro exI [of _ "inputs d"] exI [of _ "associations d"] exI [of _ "states d"] exI [of _ s]) (simp add: state_keys_def)

lemma transition_tables: "keeps_slot_tables d (snd (transition_active_input c expected nxt input workflow now retention d))"
proof (rule outcome_inv)
  fix u d'
  assume "transition_active_input c expected nxt input workflow now retention d = (Inr u, d')"
  from transition_committed(11) [OF this] show "keeps_slot_tables d d'"
    unfolding keeps_slot_tables_def state_keys_def by blast
qed (use transition_error keeps_slot_tables_refl in blast)+

lemma finalize_is_transition:
  "snd (finalize_active_input same_path c expected nxt rec workflow now retention d)
     \<in> {d, snd (transition_active_input c expected nxt (Some rec) workflow now retention d)}"
  by (auto simp: finalize_active_input_def)

lemma slot_step_tables:
  assumes "slot_step d d'"
  shows "keeps_slot_tables d d'"
  using assms
proof cases
  case (transition c expected nxt input workflow now retention)
  then show ?thesis using transition_tables by simp
next
  case (finalize same_path c expected nxt rec workflow now retention)
  then show ?thesis
    using finalize_is_transition [of same_path c expected nxt rec workflow now retention d] transition_tables keeps_slot_tables_refl
    by auto
next
  case (close expected now)
  show ?thesis unfolding close
    by (rule outcome_inv) (use close_error close_committed(6) keeps_slot_tables_refl keeps_slot_tables_slot in blast)+
next
  case (renew coordinator fence now expires)
  show ?thesis unfolding renew
    by (rule outcome_inv) (use renew_error renew_committed(6) keeps_slot_tables_refl keeps_slot_tables_slot in blast)+
next
  case (relinquish coordinator fence now)
  show ?thesis unfolding relinquish
    by (rule outcome_inv) (use relinquish_error relinquish_committed(5) keeps_slot_tables_refl keeps_slot_tables_slot in blast)+
next
  case (save_input rec)
  have "\<exists>rs. d' = d\<lparr>inputs := rs\<rparr>"
    unfolding save_input save_input_record_def with_write_tx_def save_input_record_tx_def
    by (auto split: option.splits intro: exI [of _ "inputs d"])
  then obtain rs where "d' = d\<lparr>inputs := rs\<rparr>" ..
  then show ?thesis
    unfolding keeps_slot_tables_def
    by (intro exI [of _ rs] exI [of _ "associations d"] exI [of _ "states d"] exI [of _ "slot d"]) (simp add: state_keys_def)
qed

end
