(* ===== verification/Repository.thy ===== *)
theory Repository
  imports Steps
begin

text \<open>
  The invariant of the repository over every sequence of operations, the submission protocol
  the fences implement, and what a fence guarantees against coordinators that lost the slot.
\<close>

subsection \<open>Every step keeps the invariant\<close>

lemma slot_step_slot_ok:
  assumes "slot_step d d'" and "slot_ok (slot d)"
  shows "slot_ok (slot d')"
  using assms(1)
proof cases
  case (finalize same_path c expected nxt rec workflow now retention)
  then show ?thesis
    using finalize_is_transition [of same_path c expected nxt rec workflow now retention d] slot_operations_keep_shape [OF assms(2)] assms(2)
    by auto
next
  case (save_input rec)
  have "slot d' = slot d"
    unfolding save_input save_input_record_def with_write_tx_def save_input_record_tx_def by (auto split: option.splits)
  then show ?thesis using assms(2) by simp
qed (use slot_operations_keep_shape [OF assms(2)] in simp_all)

lemma keeps_slot_tables_ok:
  assumes "keeps_slot_tables d d'" and "repository_ok d" and "slot_ok (slot d')"
  shows "repository_ok d'"
proof -
  have frame: "effects d' = effects d" "fences d' = fences d" "work d' = work d" "operations d' = operations d" "events d' = events d"
      "state_keys d' = state_keys d" "config_active d' = config_active d" "config_pending d' = config_pending d"
      "row_owners d' = row_owners d"
    using assms(1) by (auto simp: keeps_slot_tables_def state_keys_def row_owners_def)
  then show ?thesis
    using assms(2,3) unfolding repository_ok_def by (metis same_tables order_refl)
qed

lemma slot_step_ok: "slot_step d d' \<Longrightarrow> repository_ok d \<Longrightarrow> repository_ok d'"
  using slot_step_tables keeps_slot_tables_ok slot_step_slot_ok by (metis repository_ok_def)

text \<open>Effects.\<close>

definition keeps_effect_tables :: "db \<Rightarrow> db \<Rightarrow> bool" where
  "keeps_effect_tables d d' \<longleftrightarrow> (\<exists>es fs. d' = d\<lparr>effects := es, fences := fs\<rparr>)"

lemma keeps_effect_tables_intros:
  "keeps_effect_tables d d"
  "keeps_effect_tables d (d\<lparr>effects := es\<rparr>)"
  "keeps_effect_tables d (d\<lparr>effects := es, fences := fs\<rparr>)"
  "keeps_effect_tables d (d\<lparr>fences := fs, effects := es\<rparr>)"
proof -
  have "d\<lparr>effects := effects d, fences := fences d\<rparr> = d" "d\<lparr>effects := es, fences := fences d\<rparr> = d\<lparr>effects := es\<rparr>" by simp_all
  then show "keeps_effect_tables d d" "keeps_effect_tables d (d\<lparr>effects := es\<rparr>)"
    unfolding keeps_effect_tables_def by metis+
  have "d\<lparr>effects := es, fences := fs\<rparr> = d\<lparr>fences := fs, effects := es\<rparr>" by simp
  then show "keeps_effect_tables d (d\<lparr>effects := es, fences := fs\<rparr>)" "keeps_effect_tables d (d\<lparr>fences := fs, effects := es\<rparr>)"
    unfolding keeps_effect_tables_def by metis+
qed

lemma keeps_effect_tables_simps:
  assumes "keeps_effect_tables d d'"
  shows "slot d' = slot d" "states d' = states d" "operations d' = operations d" "work d' = work d" "intents d' = intents d"
    "continuations d' = continuations d" "events d' = events d" "config_active d' = config_active d"
    "config_pending d' = config_pending d"
  using assms by (auto simp: keeps_effect_tables_def)

lemma keeps_effect_tables_interrupt: "keeps_effect_tables d (interrupt F E now d)"
  unfolding interrupt_def by (rule keeps_effect_tables_intros)

lemma insert_effect_tables: "insert_effect r d = Inr d' \<Longrightarrow> keeps_effect_tables d d'"
  using insert_effect_committed(1) keeps_effect_tables_intros(2) by metis

lemma begin_tables: "keeps_effect_tables d (snd (begin_release_workflow_effect digest c r d))"
proof (rule outcome_inv)
  fix a d'
  assume run: "begin_release_workflow_effect digest c r d = (Inr a, d')"
  then obtain r' idempotent where a: "a = (r', idempotent)" by (cases a)
  from run [unfolded a] show "keeps_effect_tables d d'"
  proof (cases rule: begin_committed_cases)
    case unfenced
    from begin_body_committed(3) [OF unfenced(2)] show ?thesis
      by (cases idempotent) (auto simp: keeps_effect_tables_intros(1) dest: insert_effect_tables)
  next
    case (fenced a)
    show ?thesis
    proof (cases idempotent)
      case True
      then show ?thesis using begin_fence_body_committed(4) [OF fenced(4)] by (simp add: keeps_effect_tables_intros(1))
    next
      case False
      then obtain d1 where d1: "insert_fence (a\<lparr>fa_site := trim_space (fa_site a)\<rparr>) r d = Inr d1" "insert_effect r d1 = Inr d'"
        using begin_fence_body_committed(4) [OF fenced(4)] by auto
      show ?thesis
        using insert_fence_committed(1) [OF d1(1)] insert_effect_committed(1) [OF d1(2)] keeps_effect_tables_intros(4) by simp
    qed
  qed
qed (use begin_error keeps_effect_tables_intros(1) in blast)+

lemma complete_tables: "keeps_effect_tables d (snd (complete_release_workflow_effect digest c status r d))"
proof (rule outcome_inv)
  fix u d'
  assume "complete_release_workflow_effect digest c status r d = (Inr u, d')"
  then show "keeps_effect_tables d d'"
  proof (cases rule: complete_committed_cases)
    case (unfenced completed)
    show ?thesis using complete_effect_tx_committed(1) [OF unfenced(5)] keeps_effect_tables_intros(2) by simp
  next
    case (fenced a completed)
    show ?thesis
      using complete_effect_tx_committed(1) [OF complete_fence_body_committed(4) [OF fenced(4)]] keeps_effect_tables_intros(4) by simp
  qed
qed (use complete_error keeps_effect_tables_intros(1) in blast)+

lemma mark_tables: "keeps_effect_tables d (snd (mark_operation_effects_unknown c owner workflow operation now d))"
proof (rule outcome_inv)
  fix u d'
  assume run: "mark_operation_effects_unknown c owner workflow operation now d = (Inr u, d')"
  show "keeps_effect_tables d d'"
    unfolding mark_committed(2) [OF run] mark_effects_unknown_interrupt by (rule keeps_effect_tables_interrupt)
qed (auto simp: keeps_effect_tables_intros(1) dest: mark_error)

lemma recover_tables: "keeps_effect_tables d (snd (recover_legacy_effects c owner workflow now d))"
proof (rule outcome_inv)
  fix es d'
  assume run: "recover_legacy_effects c owner workflow now d = (Inr es, d')"
  show "keeps_effect_tables d d'"
    unfolding recover_committed(2) [OF run] by (rule keeps_effect_tables_interrupt)
qed (auto simp: keeps_effect_tables_intros(1) dest: recover_error)

lemma resolved_tables: "keeps_effect_tables d (resolved_db owner workflow l now d)"
  unfolding resolved_db_def by (rule keeps_effect_tables_intros(4))

lemma resolve_tables: "keeps_effect_tables d (snd (resolve_effect_unknown c owner workflow kind scope now expected d))"
proof -
  have "keeps_effect_tables d d1" if "resolve_effect_unknown_tx c owner workflow kind scope now expected d = Inr (u, d1)" for u d1
    using resolve_committed(2) [OF that] resolved_tables keeps_effect_tables_intros(1) by metis
  then show ?thesis
    unfolding resolve_effect_unknown_def with_write_tx_def using keeps_effect_tables_intros(1) by (simp split: sum.splits)
qed

lemma effect_step_tables: "effect_step digest d d' \<Longrightarrow> keeps_effect_tables d d'"
  by (elim effect_stepE) (simp_all add: begin_tables complete_tables mark_tables recover_tables resolve_tables)

lemma keeps_effect_tables_ok:
  assumes "keeps_effect_tables d d'" and "effects_ok d'" and ok: "repository_ok d"
  shows "repository_ok d'"
proof -
  note frame = keeps_effect_tables_simps [OF assms(1)]
  have "state_keys d' = state_keys d" "row_owners d' = row_owners d" by (simp_all add: state_keys_def row_owners_def frame)
  then show ?thesis using ok assms(2) frame unfolding repository_ok_def by (metis same_tables(2-6) order_refl)
qed

lemma effect_step_ok:
  assumes "effect_step digest d d'" and ok: "repository_ok d"
  shows "repository_ok d'"
proof (rule keeps_effect_tables_ok [OF effect_step_tables [OF assms(1)] _ ok])
  show "effects_ok d'"
    using assms(1) ok begin_ok complete_ok mark_ok recover_ok resolve_ok by cases (simp_all add: repository_ok_def)
qed

text \<open>Work leases.\<close>

lemma repository_ok_work:
  "repository_ok d \<Longrightarrow> work_ok (d\<lparr>work := ws\<rparr>) \<Longrightarrow> repository_ok (d\<lparr>work := ws\<rparr>)"
  unfolding repository_ok_def by (auto simp: state_keys_def row_owners_def intro: same_tables)

lemma repository_ok_interrupt: "repository_ok d \<Longrightarrow> repository_ok (interrupt F E now d)"
  using keeps_effect_tables_ok [OF keeps_effect_tables_interrupt] interrupt_ok by (simp add: repository_ok_def)

lemma work_step_ok:
  assumes "work_step d d'" and ok: "repository_ok d"
  shows "repository_ok d'"
proof -
  have work: "work_ok d" using ok by (simp add: repository_ok_def)
  from assms(1) show ?thesis
  proof cases
    case (claim c r)
    show ?thesis unfolding claim
    proof (rule outcome_inv)
      fix u d1
      assume run: "claim_release_workflow_work c r d = (Inr u, d1)"
      then obtain ws where "d1 = d\<lparr>work := ws\<rparr>" by (cases rule: claim_committed) blast+
      then show "repository_ok d1" using repository_ok_work [OF ok] claim_work_ok [OF run work] by simp
    qed (use claim_error ok in blast)+
  next
    case (renew_work c r)
    show ?thesis unfolding renew_work
    proof (rule outcome_inv)
      fix u d1
      assume run: "renew_release_workflow_work c r d = (Inr u, d1)"
      then obtain ws where "d1 = d\<lparr>work := ws\<rparr>" using work by (cases rule: renew_work_committed) blast+
      then show "repository_ok d1" using repository_ok_work [OF ok] renew_work_ok [OF run work] by simp
    qed (use renew_work_error [OF work] ok in blast)+
  next
    case (checkpoint c r)
    show ?thesis unfolding checkpoint
    proof (rule outcome_inv)
      fix u d1
      assume run: "checkpoint_release_workflow_work c r d = (Inr u, d1)"
      then obtain ws where "d1 = d\<lparr>work := ws\<rparr>" using work by (cases rule: checkpoint_work_committed) blast+
      then show "repository_ok d1" using repository_ok_work [OF ok] checkpoint_work_ok [OF run work] by simp
    qed (use checkpoint_work_error [OF work] ok in blast)+
  next
    case (complete_work c r)
    show ?thesis unfolding complete_work
    proof (rule outcome_inv)
      fix u d1
      assume run: "complete_release_workflow_work c r d = (Inr u, d1)"
      then obtain ws o1 o2 o3 now where d1: "d1 = mark_effects_unknown_tx o1 o2 o3 now (d\<lparr>work := ws\<rparr>)"
        by (cases rule: complete_work_committed) blast
      then have "work_ok (d\<lparr>work := ws\<rparr>)"
        using complete_work_ok [OF run work] by (simp add: work_ok_def operation_exists_def mark_effects_unknown_tx_def)
      then have "repository_ok (d\<lparr>work := ws\<rparr>)" by (rule repository_ok_work [OF ok])
      then show "repository_ok d1" unfolding d1 mark_effects_unknown_interrupt by (rule repository_ok_interrupt)
    qed (use complete_work_error ok in blast)+
  qed
qed

text \<open>Operations.\<close>

lemma repository_ok_operations:
  assumes "repository_ok d" and "operations_ok (d\<lparr>operations := ps\<rparr>)"
    and "operation_key ` set (operations d) \<subseteq> operation_key ` set ps"
    and "\<And>p. p \<in> set ps \<Longrightarrow> state_exists d (op_owner p) (op_workflow p)"
  shows "repository_ok (d\<lparr>operations := ps\<rparr>)"
proof -
  have exists: "operation_exists q x y z \<longleftrightarrow> (x, y, z) \<in> operation_key ` set (operations q)" for q x y z
    by (auto simp: operation_exists_def operation_key_def image_iff)
  have "work_ok (d\<lparr>operations := ps\<rparr>)"
    using assms(1,3) by (auto simp: repository_ok_def work_ok_def exists)
  moreover have "rows_have_states (d\<lparr>operations := ps\<rparr>)"
    using assms(1,4) by (auto simp: repository_ok_def rows_have_states_def row_owners_def state_exists_keys state_keys_def)
  moreover have "effects_ok (d\<lparr>operations := ps\<rparr>)" "events_ok (d\<lparr>operations := ps\<rparr>)" "config_ok (d\<lparr>operations := ps\<rparr>)"
    using assms(1) unfolding repository_ok_def by (auto simp: state_keys_def intro: same_tables)
  ultimately show ?thesis using assms(1,2) by (simp add: repository_ok_def state_keys_def)
qed

lemma create_operation_keeps_ok:
  assumes ok: "repository_ok d"
  shows "repository_ok (snd (create_release_workflow_operation c r d))"
proof (rule outcome_inv)
  fix a d'
  assume run: "create_release_workflow_operation c r d = (Inr a, d')"
  obtain res again where a: "a = (res, again)" by (cases a)
  have "operations_ok d'" using create_ok [OF run] ok by (simp add: repository_ok_def)
  from run [unfolded a] show "repository_ok d'"
  proof (cases rule: create_committed)
    case (repeat p)
    then show ?thesis using ok by simp
  next
    case fresh
    have "state_exists d (op_owner p) (op_workflow p)" if "p \<in> set (operations d)" for p
      using ok that by (auto simp: repository_ok_def rows_have_states_def row_owners_def state_exists_keys)
    then show ?thesis
      unfolding fresh(3)
      by (intro repository_ok_operations) (use ok fresh \<open>operations_ok d'\<close> in auto)
  qed
qed (use create_error ok in blast)+

lemma save_operation_keeps_ok:
  assumes ok: "repository_ok d"
  shows "repository_ok (snd (save_release_workflow_operation c expected r d))"
proof (rule outcome_inv)
  fix u d'
  assume run: "save_release_workflow_operation c expected r d = (Inr u, d')"
  note d' = save_committed(1) [OF run]
  have "operation_key ` set (update_where P (saved_row r) ps) = operation_key ` set ps" for P ps
    by (metis saved_row_simps(1) list.set_map map_update_where)
  moreover have "state_exists d (op_owner p) (op_workflow p)" if "p \<in> set (operations d')" for p
    using ok that unfolding d'
    by (auto simp: in_update_where saved_row_def repository_ok_def rows_have_states_def row_owners_def state_exists_keys)
  ultimately show "repository_ok d'"
    using save_ok [OF run] ok unfolding d' by (intro repository_ok_operations) (auto simp: repository_ok_def)
qed (use save_error ok in blast)+

lemma repository_ok_deleted:
  assumes "repository_ok d" and "rows_owned d' \<and> work_ok d' \<and> effects_ok d' \<and> events_ok d'" and "operations_ok d'"
    and "slot d' = slot d" "config_active d' = config_active d" "config_pending d' = config_pending d" "distinct (state_keys d')"
  shows "repository_ok d'"
  using assms rows_owned_iff config_ok_same unfolding repository_ok_def by metis

lemma repository_ok_rows: "repository_ok d \<Longrightarrow> rows_owned d"
  using rows_owned_iff by (simp add: repository_ok_def)

lemma operation_step_ok:
  assumes "operation_step d d'" and ok: "repository_ok d"
  shows "repository_ok d'"
  using assms(1)
proof cases
  case (retire_operations before)
  have parts: "work_ok d" "effects_ok d" "events_ok d" using ok by (simp_all add: repository_ok_def)
  have "operations_ok d'" "slot d' = slot d" "config_active d' = config_active d" "config_pending d' = config_pending d" "states d' = states d"
    using ok delete_operations_ok
    by (auto simp: retire_operations delete_terminal_operations_before_def repository_ok_def delete_operations_def)
  moreover have "rows_owned d' \<and> work_ok d' \<and> effects_ok d' \<and> events_ok d'"
    by (rule deletion_leaves_no_orphans [OF repository_ok_rows [OF ok] parts]) (use retire_operations in blast)
  ultimately show ?thesis
    using ok by (intro repository_ok_deleted [OF ok]) (simp_all add: state_keys_def repository_ok_def)
qed (simp_all add: ok create_operation_keeps_ok save_operation_keeps_ok)

text \<open>The durable log.\<close>

lemma repository_ok_log:
  assumes "repository_ok d" and "d' = d\<lparr>intents := its, continuations := ks, events := vs\<rparr>" and "events_ok d'"
    and "row_owners d' \<subseteq> set (state_keys d)"
  shows "repository_ok d'"
proof -
  have "effects_ok d'" "work_ok d'" "operations_ok d'" "config_ok d'" "rows_have_states d'"
    using assms unfolding repository_ok_def by (auto simp: state_keys_def rows_have_states_def intro: same_tables(1-3,5))
  then show ?thesis using assms by (simp add: repository_ok_def state_keys_def)
qed

lemma repository_ok_owners: "repository_ok d \<Longrightarrow> row_owners d \<subseteq> set (state_keys d)"
  by (simp add: repository_ok_def rows_have_states_def)

lemma accept_intent_keeps_ok:
  assumes ok: "repository_ok d"
  shows "repository_ok (snd (accept_release_workflow_intent c r d))"
proof -
  have "repository_ok d'" if body: "accept_intent_body c r d = Inr (a, d')" for a d'
  proof (cases "d' = d")
    case False
    then have d': "d' = d\<lparr>intents := intents d @ [r]\<rparr>" and exists: "state_exists d (it_owner r) (it_workflow r)"
      using body by (auto simp: accept_intent_body_def split: option.splits if_splits)
    have "events_ok d'" using ok by (auto simp: repository_ok_def d' intro: events_ok_same)
    then show ?thesis
      using repository_ok_owners [OF ok] exists
      by (intro repository_ok_log [OF ok, where its = "intents d @ [r]" and ks = "continuations d" and vs = "events d"])
        (auto simp: d' row_owners_def state_exists_keys)
  qed (use ok in simp)
  then show ?thesis
    using ok by (auto simp: accept_release_workflow_intent_def with_write_tx_def split: option.splits sum.splits)
qed

lemma save_continuation_keeps_ok:
  assumes ok: "repository_ok d"
  shows "repository_ok (snd (save_release_workflow_continuation c r d))"
proof -
  have body: "repository_ok d'" if body: "upsert_continuation r d = Inr (u, d')" for u d'
  proof -
    have exists: "state_exists d (co_owner r) (co_workflow r)"
      using body by (simp add: upsert_continuation_def split: if_splits)
    obtain ks where d': "d' = d\<lparr>continuations := ks\<rparr>" and ks: "set ks \<subseteq> insert r (set (continuations d))"
      using body by (force simp: upsert_continuation_def in_update_where split: if_splits option.splits)
    have "events_ok d'" using ok by (auto simp: repository_ok_def d' intro: events_ok_same)
    then show ?thesis
      using repository_ok_owners [OF ok] exists
      by (intro repository_ok_log [OF ok, where its = "intents d" and ks = ks and vs = "events d"]) (use ks in \<open>auto simp: d' row_owners_def state_exists_keys image_subset_iff\<close>)
  qed
  then have "repository_ok (snd (exec_workflow_input_write c (co_owner r) (co_workflow r) (upsert_continuation r) d))"
    unfolding exec_workflow_input_write_def with_write_tx_def using ok by (auto split: option.splits sum.splits)
  then show ?thesis using ok by (auto simp: save_release_workflow_continuation_def split: option.splits)
qed

lemma append_events_owned:
  "append_events owner workflow es cursor appended d = (Inr d', out)
     \<Longrightarrow> \<exists>vs. d' = d\<lparr>events := events d @ vs\<rparr> \<and> (vs = [] \<or> state_exists d owner workflow)
       \<and> (\<forall>v\<in>set vs. er_owner v = owner \<and> er_workflow v = workflow)"
proof (induction owner workflow es cursor appended d rule: append_events.induct)
  case (1 owner workflow cursor appended d)
  then show ?case by (intro exI [of _ "[]"]) simp
next
  case (2 owner workflow e es cursor appended d)
  show ?case
  proof (cases "load_event_by_key d owner workflow (event_key e)")
    case None
    define row where "row = \<lparr>er_owner = owner, er_workflow = workflow, er_sequence = cursor + 1, er_key = event_key e,
        er_event = e\<lparr>ev_sequence := cursor + 1\<rparr>\<rparr>"
    obtain d1 where insert: "insert_event row d = Inr d1"
      and rest: "append_events owner workflow es (cursor + 1) (appended @ [e\<lparr>ev_sequence := cursor + 1\<rparr>]) d1 = (Inr d', out)"
      using 2(3) None unfolding row_def by (simp add: Let_def split: if_splits sum.splits)
    have d1: "d1 = d\<lparr>events := events d @ [row]\<rparr>" "state_exists d owner workflow"
      using insert by (auto simp: insert_event_def row_def split: if_splits)
    have "valid_source_event workflow e" "cursor \<noteq> max_int64" using 2(3) None by (auto split: if_splits)
    from 2(1) [OF _ None this(2) refl insert [unfolded row_def]] rest this(1)
    obtain vs where vs: "d' = d1\<lparr>events := events d1 @ vs\<rparr>" "\<forall>v\<in>set vs. er_owner v = owner \<and> er_workflow v = workflow"
      by auto
    then show ?thesis by (intro exI [of _ "row # vs"]) (simp add: d1 row_def)
  next
    case (Some prior)
    then show ?thesis using 2 by (simp split: if_splits)
  qed
qed

lemma append_keeps_ok:
  assumes ok: "repository_ok d"
  shows "repository_ok (snd (append_release_workflow_events fates c owner workflow es d))"
proof (rule outcome_inv)
  fix out d'
  assume run: "append_release_workflow_events fates c owner workflow es d = (Inr out, d')"
  show "repository_ok d'"
  proof (cases "es = []")
    case True
    then show ?thesis using run ok by (simp add: append_release_workflow_events_def Let_def split: if_splits)
  next
    case False
    with run obtain new where body: "append_body c (trim_space owner) workflow es [] d = (Inr d', new)"
      by (rule append_committed)
    then obtain vs where vs: "d' = d\<lparr>events := events d @ vs\<rparr>" "vs = [] \<or> state_exists d (trim_space owner) workflow"
        "\<forall>v\<in>set vs. er_owner v = trim_space owner \<and> er_workflow v = workflow"
      using append_events_owned by (fastforce simp: append_body_def split: option.splits)
    have "row_owners d' \<subseteq> set (state_keys d)"
      using repository_ok_owners [OF ok] vs(2,3) by (auto simp: vs(1) row_owners_def state_exists_keys)
    moreover have "events_ok d'" using append_body_ok [OF body] ok by (simp add: repository_ok_def)
    ultimately show ?thesis
      by (intro repository_ok_log [OF ok, where its = "intents d" and ks = "continuations d" and vs = "events d @ vs"])
        (simp_all add: vs(1))
  qed
qed (use append_error ok in blast)+

lemma log_step_ok: "log_step d d' \<Longrightarrow> repository_ok d \<Longrightarrow> repository_ok d'"
  by (elim log_stepE) (simp_all add: accept_intent_keeps_ok save_continuation_keeps_ok append_keeps_ok)

text \<open>States.\<close>

lemma create_state_keeps_ok:
  assumes ok: "repository_ok d"
  shows "repository_ok (snd (create_release_workflow_state c r d))"
proof (rule outcome_inv)
  fix a d'
  assume run: "create_release_workflow_state c r d = (Inr a, d')"
  obtain res again where a: "a = (res, again)" by (cases a)
  from run [unfolded a] show "repository_ok d'"
  proof (cases rule: create_state_committed)
    case repeat
    then show ?thesis using ok by simp
  next
    case fresh
    have keys: "state_keys d' = state_keys d @ [(ws_owner r, ws_id r)]"
      by (simp add: fresh(3) state_keys_def state_row_def)
    moreover have "(ws_owner r, ws_id r) \<notin> set (state_keys d)"
      using fresh(6) by (auto simp: state_keys_def state_of_def)
    moreover have "effects_ok d'" "work_ok d'" "operations_ok d'" "events_ok d'" "config_ok d'" "rows_have_states d'"
      using ok keys unfolding repository_ok_def by (auto simp: fresh(3) row_owners_def intro: same_tables)
    ultimately show ?thesis using ok by (simp add: repository_ok_def fresh(3))
  qed
qed (use create_state_error ok in blast)+

lemma save_state_keeps_ok:
  assumes ok: "repository_ok d"
  shows "repository_ok (snd (save_release_workflow_state c expected r d))"
proof (rule outcome_inv)
  fix u d'
  assume run: "save_release_workflow_state c expected r d = (Inr u, d')"
  then obtain d1 P where resolution: "apply_resolution c r d = Inr ((), d1)"
    and d': "d' = retain_hdr_association r (d1\<lparr>states := update_where P (saved_state r) (states d)\<rparr>)"
    by (rule save_state_committed)
  have tables: "keeps_effect_tables d d1"
    using apply_resolution_cases [OF resolution] resolved_tables keeps_effect_tables_intros(1) by metis
  have effects: "effects_ok d1"
    using resolution ok resolve_tx_ok by (auto simp: apply_resolution_def repository_ok_def split: option.splits)
  note frame = keeps_effect_tables_simps [OF tables]
  have keys: "state_keys d' = state_keys d"
    by (simp add: d' retain_hdr_association_def state_keys_def map_update_where)
  have "effects_ok d'" "work_ok d'" "operations_ok d'" "events_ok d'" "config_ok d'" "rows_have_states d'" "slot d' = slot d"
    using ok effects frame unfolding repository_ok_def
    by (auto simp: d' retain_hdr_association_def state_keys_def map_update_where row_owners_def intro: same_tables)
  then show "repository_ok d'" using ok keys by (simp add: repository_ok_def)
qed (use save_state_error ok in blast)+

lemma delete_states_keys: "distinct (state_keys d) \<Longrightarrow> distinct (state_keys (delete_states P d))"
  by (simp add: state_keys_def delete_states_def Let_def distinct_map_delete_where)

lemma repository_ok_delete_states:
  assumes ok: "repository_ok d" and "\<And>f. f \<in> set (fences d) \<Longrightarrow> \<not> gone P d (fen_owner f) (fen_workflow f)"
  shows "repository_ok (delete_states P d)"
proof (rule repository_ok_deleted [OF ok])
  show "rows_owned (delete_states P d) \<and> work_ok (delete_states P d) \<and> effects_ok (delete_states P d) \<and> events_ok (delete_states P d)"
    using assms(2) ok repository_ok_rows [OF ok] delete_states_owned delete_states_work_ok delete_states_effects_ok delete_states_events_ok
    unfolding repository_ok_def by blast
qed (use ok delete_states_operations_ok delete_states_keys in \<open>simp_all add: repository_ok_def\<close>)

lemma delete_state_keeps_ok:
  assumes ok: "repository_ok d"
  shows "repository_ok (snd (delete_release_workflow_state owner workflow d))"
proof (rule outcome_inv)
  fix u d'
  assume run: "delete_release_workflow_state owner workflow d = (Inr u, d')"
  show "repository_ok d'"
    unfolding delete_state_committed(1) [OF run]
    by (rule repository_ok_delete_states [OF ok]) (rule deleted_state_not_fenced [OF delete_state_committed(2) [OF run]])
qed (use delete_state_error ok in blast)+

lemma state_step_ok: "state_step d d' \<Longrightarrow> repository_ok d \<Longrightarrow> repository_ok d'"
proof (elim state_stepE)
  fix before
  assume ok: "repository_ok d" and d': "d' = snd (delete_terminal_states_before before d)"
  show "repository_ok d'"
    using repository_ok_delete_states [OF ok expired_state_not_fenced] ok
    by (cases "before = 0") (simp_all add: d' delete_terminal_states_before_def)
qed (simp_all add: create_state_keeps_ok save_state_keeps_ok delete_state_keeps_ok)

text \<open>Configuration.\<close>

lemma repository_ok_config:
  assumes "repository_ok d" and "d' = d\<lparr>config_active := r, config_pending := p\<rparr>" and "config_ok d'"
  shows "repository_ok d'"
proof -
  have "effects_ok d'" "work_ok d'" "operations_ok d'" "events_ok d'" "rows_have_states d'"
    using assms(1) unfolding repository_ok_def by (auto simp: assms(2) state_keys_def row_owners_def intro: same_tables)
  then show ?thesis using assms by (simp add: repository_ok_def state_keys_def)
qed

lemma slot_ok_revision: "slot_ok s \<Longrightarrow> slot_revision s \<le> n \<Longrightarrow> slot_ok (s\<lparr>slot_revision := n\<rparr>)"
  by (cases "slot_state s") (simp_all add: slot_ok_def)

lemma repository_ok_activation:
  assumes "repository_ok d" and "same_work d d1" and "config_active d1 = config_active d" "config_pending d1 = config_pending d"
  shows "repository_ok d1"
proof -
  have frame: "effects d1 = effects d" "fences d1 = fences d" "operations d1 = operations d" "work d1 = work d"
    "events d1 = events d" "state_keys d1 = state_keys d" "row_owners d1 = row_owners d"
    using assms(2) by (simp_all add: same_work_def state_keys_def row_owners_def)
  then have "effects_ok d1" "work_ok d1" "operations_ok d1" "events_ok d1" "config_ok d1" "rows_have_states d1"
    using assms(1,3,4) unfolding repository_ok_def by (auto intro: same_tables)
  moreover have "slot_ok (slot d1)"
    using assms(1,2) slot_ok_revision by (auto simp: same_work_def repository_ok_def)
  ultimately show ?thesis using assms(1) frame by (simp add: repository_ok_def)
qed

definition keeps_config_tables :: "db \<Rightarrow> db \<Rightarrow> bool" where
  "keeps_config_tables d d' \<longleftrightarrow> (\<exists>r p. d' = d\<lparr>config_active := r, config_pending := p\<rparr>)"

lemma keeps_config_tables_intros:
  "keeps_config_tables d d"
  "keeps_config_tables d (d\<lparr>config_active := r\<rparr>)"
  "keeps_config_tables d (d\<lparr>config_active := r, config_pending := p\<rparr>)"
proof -
  have "d\<lparr>config_active := config_active d, config_pending := config_pending d\<rparr> = d"
    "d\<lparr>config_active := r, config_pending := config_pending d\<rparr> = d\<lparr>config_active := r\<rparr>" by simp_all
  then show "keeps_config_tables d d" "keeps_config_tables d (d\<lparr>config_active := r\<rparr>)"
    "keeps_config_tables d (d\<lparr>config_active := r, config_pending := p\<rparr>)"
    unfolding keeps_config_tables_def by metis+
qed

lemma initialize_tables: "keeps_config_tables d (snd (initialize_fingerprint fingerprint d))"
  by (rule outcome_inv [of _ d]) (use keeps_config_tables_intros in \<open>auto dest!: initialize_error initialize_committed\<close>)

lemma clear_tables: "keeps_config_tables d (snd (clear_config_failure activation d))"
  by (rule outcome_inv [of _ d]) (use keeps_config_tables_intros in \<open>auto dest!: clear_error clear_committed\<close>)

lemma fail_tables: "keeps_config_tables d (snd (fail_pending_config c activation code d))"
  by (rule outcome_inv [of _ d]) (use keeps_config_tables_intros in \<open>auto dest!: fail_error fail_committed\<close>)

lemma save_pending_tables: "keeps_config_tables d (snd (save_pending_config c activation owner candidate impacts d))"
  by (rule outcome_inv [of _ d]) (use keeps_config_tables_intros in \<open>auto dest!: save_pending_error save_pending_committed\<close>)

lemma keeps_config_tables_ok:
  "keeps_config_tables d d' \<Longrightarrow> config_ok d' \<Longrightarrow> repository_ok d \<Longrightarrow> repository_ok d'"
  using repository_ok_config unfolding keeps_config_tables_def by blast

lemma reconcile_keeps_ok:
  assumes ok: "repository_ok d"
  shows "repository_ok (snd (reconcile_config_activation c snapshot expected fingerprint transform d))"
proof (rule outcome_inv)
  fix a d'
  assume run: "reconcile_config_activation c snapshot expected fingerprint transform d = (Inr a, d')"
  then show "repository_ok d'"
  proof (rule reconcile_committed)
    fix current d1 s
    assume frame: "config_active d1 = config_active d" "config_pending d1 = config_pending d" "same_work d d1"
      and loads: "load_config_activation d' = Inr a"
      and d': "d' = d1\<lparr>config_active := (config_active d1)\<lparr>cfg_generation := ca_generation current + 1,
          cfg_fingerprint := fingerprint, cfg_impacts := [provider_impact], cfg_updated_at := wall_now c\<rparr>,
        config_pending := map_option (\<lambda>p. p\<lparr>pd_base := ca_generation current + 1\<rparr>) (config_pending d1)\<rparr>"
    show "repository_ok d'"
      by (rule repository_ok_config [OF repository_ok_activation [OF ok frame(3,1,2)] d' loads_config_ok [OF loads]])
  qed
qed (use reconcile_error ok in blast)+

lemma activate_keeps_ok:
  assumes ok: "repository_ok d" and run: "activate_config_tx c expected fingerprint impacts transform d = Inr (a, d')"
  shows "repository_ok d'"
  using run
proof (rule activate_committed)
  fix current d1 s
  assume frame: "config_active d1 = config_active d" "config_pending d1 = config_pending d" "same_work d d1"
    and d': "d' = d1\<lparr>config_active := clear_failed ((config_active d1)\<lparr>cfg_generation := ca_generation expected + 1,
          cfg_fingerprint := fingerprint, cfg_impacts := normalize_impacts impacts, cfg_updated_at := wall_now c\<rparr>),
        config_pending := None\<rparr>"
  have "config_ok d'" by (simp add: config_ok_def d')
  then show "repository_ok d'" by (rule repository_ok_config [OF repository_ok_activation [OF ok frame(3,1,2)] d'])
qed

lemma discard_tables: "keeps_effect_tables d (snd (discard_unresolved_on_startup now d))"
  by (auto simp: discard_unresolved_on_startup_def discard_body_def with_write_tx_def intro: keeps_effect_tables_intros)

lemma config_step_ok:
  assumes "config_step d d'" and ok: "repository_ok d"
  shows "repository_ok d'"
proof -
  have parts: "config_ok d" "effects_ok d" using ok by (simp_all add: repository_ok_def)
  note tables = initialize_tables clear_tables fail_tables save_pending_tables
  show ?thesis
    using assms(1) keeps_config_tables_ok [OF tables(1) _ ok] keeps_config_tables_ok [OF tables(2) _ ok]
      keeps_config_tables_ok [OF tables(3) _ ok] keeps_config_tables_ok [OF tables(4) _ ok]
      keeps_effect_tables_ok [OF discard_tables _ ok] config_status_stays_readable [OF parts(1)]
      discard_keeps_effects_ok [OF prod.collapse [symmetric] parts(2)] activate_keeps_ok [OF ok] reconcile_keeps_ok [OF ok]
    by cases simp_all
qed

lemma repository_ok_content:
  assumes "repository_ok d" and "slot d' = slot d" "states d' = states d" "effects d' = effects d" "fences d' = fences d"
    "operations d' = operations d" "work d' = work d" "intents d' = intents d" "continuations d' = continuations d"
    "events d' = events d" "config_active d' = config_active d" "config_pending d' = config_pending d"
  shows "repository_ok d'"
proof -
  have "state_keys d' = state_keys d" "row_owners d' = row_owners d" by (simp_all add: state_keys_def row_owners_def assms(2-))
  then show ?thesis using assms unfolding repository_ok_def by (metis same_tables order_refl)
qed

lemma content_step_ok: "content_step d d' \<Longrightarrow> repository_ok d \<Longrightarrow> repository_ok d'"
  by (elim content_stepE) (simp add: repository_ok_content)

text \<open>History deletion: the fences of a workflow go first, then the workflow with everything it owns.\<close>

lemma effects_ok_fewer_fences:
  "effects_ok d \<Longrightarrow> effects_ok (d\<lparr>fences := delete_where P (fences d)\<rparr>)"
  by (auto simp: effects_ok_def has_receipt_def distinct_map_delete_where)

lemma purge_workflow_ok:
  assumes "repository_ok d"
  shows "repository_ok (purge_workflow m d)"
proof -
  obtain owner workflow where m: "m = (owner, workflow)" by (cases m)
  define d1 where "d1 = d\<lparr>fences := delete_where (\<lambda>f. fen_owner f = owner \<and> fen_workflow f = workflow) (fences d)\<rparr>"
  have "keeps_effect_tables d d1"
    unfolding d1_def keeps_effect_tables_def by (intro exI [of _ "effects d"] exI) simp
  moreover have "effects_ok d1" using assms effects_ok_fewer_fences by (simp add: d1_def repository_ok_def)
  ultimately have "repository_ok d1" using assms by (rule keeps_effect_tables_ok)
  then have "repository_ok (delete_states (state_of owner workflow) d1)"
    by (rule repository_ok_delete_states) (auto simp: d1_def gone_def state_of_def)
  then show ?thesis by (simp add: purge_workflow_def m d1_def)
qed

lemma purge_step_ok: "purge_step d d' \<Longrightarrow> repository_ok d \<Longrightarrow> repository_ok d'"
proof (elim purge_stepE)
  fix same_path v path
  assume ok: "repository_ok d" and d': "d' = snd (purge_content_data same_path v path d)"
  have "repository_ok (fold purge_workflow ms d)" for ms
    using ok by (induction ms arbitrary: d) (simp_all add: purge_workflow_ok)
  then have purged: "repository_ok (purge_source p (fold purge_workflow ms d))" for ms p
    by (rule repository_ok_content) simp_all
  show "repository_ok d'" unfolding d'
  proof (rule outcome_inv)
    fix u d1
    assume "purge_content_data same_path v path d = (Inr u, d1)"
    then show "repository_ok d1" by (rule purge_committed) (simp add: purged)
  qed (use purge_error ok in blast)+
qed

lemma working_step_ok: "working_step digest d d' \<Longrightarrow> repository_ok d \<Longrightarrow> repository_ok d'"
  unfolding working_step_def
  using slot_step_ok effect_step_ok work_step_ok operation_step_ok log_step_ok state_step_ok config_step_ok content_step_ok by blast

theorem step_ok: "step digest d d' \<Longrightarrow> repository_ok d \<Longrightarrow> repository_ok d'"
  unfolding step_def using working_step_ok purge_step_ok by blast

end
