(* ===== verification/Protocol.thy ===== *)
theory Protocol
  imports Repository
begin

text \<open>
  What one step of the repository does to the slot's fence and to a submission fence. The second is
  the protocol of a submission: each change of the fence of a content and site is one of seven events,
  every event has the operation that causes it and the status it needs before and leaves after.
\<close>

subsection \<open>The submission protocol\<close>

abbreviation site_key :: "fence_authority \<Rightarrow> string \<times> string \<times> string" where
  "site_key a \<equiv> fence_key (fa_content a) (trim_space (fa_site a))"

definition fence_at :: "db \<Rightarrow> string \<times> string \<times> string \<Rightarrow> fence_record option" where
  "fence_at d k = List.find (\<lambda>f. key_of_fence f = k) (fences d)"

text \<open>The operations that find an attempt interrupted.\<close>

definition interrupts :: "db \<Rightarrow> db \<Rightarrow> bool" where
  "interrupts d d' \<longleftrightarrow> (\<exists>c owner workflow operation now. mark_operation_effects_unknown c owner workflow operation now d = (Inr (), d'))
     \<or> (\<exists>c owner workflow now es. recover_legacy_effects c owner workflow now d = (Inr es, d'))
     \<or> (\<exists>c w. complete_release_workflow_work c w d = (Inr (), d'))"

text \<open>The operations by which a user states that an attempt with unknown outcome did not happen.\<close>

definition resolves :: "db \<Rightarrow> db \<Rightarrow> bool" where
  "resolves d d' \<longleftrightarrow> (\<exists>c owner workflow kind scope now receipts. resolve_effect_unknown c owner workflow kind scope now receipts d = (Inr (), d'))
     \<or> (\<exists>c expected s. save_release_workflow_state c expected s d = (Inr (), d') \<and> ws_resolution s \<noteq> None)"

inductive fence_event :: "digest \<Rightarrow> string \<times> string \<times> string \<Rightarrow> db \<Rightarrow> db \<Rightarrow> bool"
  for digest :: digest and k :: "string \<times> string \<times> string" and d d' :: db where
  untouched: "fence_at d' k = fence_at d k \<Longrightarrow> fence_event digest k d d'"
| admitted: "begin_release_workflow_effect digest c r d = (Inr (r', False), d') \<Longrightarrow> eff_submission r = Some a \<Longrightarrow> k = site_key a \<Longrightarrow>
    fence_status_at d k = None \<Longrightarrow> fence_status_at d' k = Some EffStarted \<Longrightarrow> fence_event digest k d d'"
| confirmed: "complete_release_workflow_effect digest c EffSucceeded r d = (Inr (), d') \<Longrightarrow> eff_submission r = Some a \<Longrightarrow> k = site_key a \<Longrightarrow>
    fence_at d k = Some f \<Longrightarrow> exact_fence (eff_owner r) (eff_workflow r) (eff_operation r) (eff_id r) f \<Longrightarrow>
    fen_status f = EffStarted \<Longrightarrow> fence_status_at d' k = Some EffSucceeded \<Longrightarrow> fence_event digest k d d'"
| rejected: "complete_release_workflow_effect digest c EffFailed r d = (Inr (), d') \<Longrightarrow> eff_submission r = Some a \<Longrightarrow> k = site_key a \<Longrightarrow>
    fence_at d k = Some f \<Longrightarrow> exact_fence (eff_owner r) (eff_workflow r) (eff_operation r) (eff_id r) f \<Longrightarrow>
    fen_status f = EffStarted \<Longrightarrow> fence_status_at d' k = None \<Longrightarrow> fence_event digest k d d'"
| interrupted: "interrupts d d' \<Longrightarrow> fence_status_at d k = Some EffStarted \<Longrightarrow> fence_status_at d' k = Some EffUnknown \<Longrightarrow> fence_event digest k d d'"
| resolved: "resolves d d' \<Longrightarrow> fence_status_at d k = Some EffUnknown \<Longrightarrow> fence_status_at d' k = None \<Longrightarrow> fence_event digest k d d'"
| discarded: "discard_unresolved_on_startup now d = (Inr n, d') \<Longrightarrow> fence_status_at d k = Some EffStarted \<or> fence_status_at d k = Some EffUnknown \<Longrightarrow>
    fence_status_at d' k = None \<Longrightarrow> fence_event digest k d d'"

text \<open>The fence of a content and site goes with the workflow that holds it, when a user deletes its history.\<close>

definition history_deleted :: "string \<times> string \<times> string \<Rightarrow> db \<Rightarrow> db \<Rightarrow> bool" where
  "history_deleted k d d' \<longleftrightarrow> (\<exists>same_path v path f. purge_content_data same_path v path d = (Inr (), d') \<and> fence_at d k = Some f
     \<and> owned_by same_path v (trim_space path) (fen_owner f) (fen_workflow f) \<and> fence_at d' k = None)"

text \<open>The events as an abstract machine on the status alone: a fence is taken when free, settled from started, freed
  from unknown, and final once succeeded.\<close>

definition fence_edge :: "effect_status option \<Rightarrow> effect_status option \<Rightarrow> bool" where
  "fence_edge a b \<longleftrightarrow> a = b \<or>
     (case a of
        None \<Rightarrow> b = Some EffStarted
      | Some EffStarted \<Rightarrow> b \<noteq> Some EffFailed
      | Some EffUnknown \<Rightarrow> b = None
      | Some st \<Rightarrow> False)"

lemma fence_status_of: "fence_status_at d k = map_option fen_status (fence_at d k)"
  by (simp add: fence_status_at_def fence_at_def)

lemma fence_event_edge: "fence_event digest k d d' \<Longrightarrow> fence_edge (fence_status_at d k) (fence_status_at d' k)"
  by (erule fence_event.cases) (auto simp: fence_status_of fence_edge_def)

lemma fence_event_same: "fences d' = fences d \<Longrightarrow> fence_event digest k d d'"
  by (rule fence_event.untouched) (simp add: fence_at_def)

lemma fence_at_update:
  assumes "fences d' = update_where P g (fences d)" and "\<And>f. key_of_fence (g f) = key_of_fence f"
  shows "fence_at d' k = map_option (\<lambda>f. if P f then g f else f) (fence_at d k)"
  using find_update_where [of key_of_fence g k P "fences d"] assms by (simp add: fence_at_def)

lemma fence_at_delete:
  assumes "fences d' = delete_where P (fences d)" and "effects_ok d"
  shows "fence_at d' k = (case fence_at d k of None \<Rightarrow> None | Some f \<Rightarrow> if P f then None else Some f)"
  using find_delete_where [of key_of_fence "fences d" k P] assms by (simp add: fence_at_def effects_ok_def)

lemma begin_event: "fence_event digest k d (snd (begin_release_workflow_effect digest c r d))"
proof (rule outcome_inv)
  fix b d'
  assume run: "begin_release_workflow_effect digest c r d = (Inr b, d')"
  obtain r' i where b: "b = (r', i)" by (cases b)
  from run [unfolded b] show "fence_event digest k d d'"
  proof (cases rule: begin_committed_cases)
    case unfenced
    then show ?thesis using begin_body_committed(3) [OF unfenced(2)]
      by (auto dest!: insert_effect_committed(1) intro: fence_event_same split: if_splits)
  next
    case (fenced a)
    show ?thesis
    proof (cases i)
      case True
      then show ?thesis using begin_fence_body_committed(4) [OF fenced(4)] by (auto intro: fence_event_same)
    next
      case False
      then have "begin_release_workflow_effect digest c r d = (Inr (r', False), d')" using run b by simp
      note new = this admitted_submission [OF this fenced(1)]
      show ?thesis
      proof (cases "k = site_key a")
        case True
        then show ?thesis using new fenced(1) by (intro fence_event.admitted) auto
      next
        case False
        then have "fence_at d' k = fence_at d k"
          using new(2) by (auto simp: fence_at_def find_append key_of_fence_def admitted_fence_def split: option.splits)
        then show ?thesis by (rule fence_event.untouched)
      qed
    qed
  qed
qed (auto intro: fence_event_same dest: begin_error)

lemma complete_event:
  assumes "effects_ok d"
  shows "fence_event digest k d (snd (complete_release_workflow_effect digest c status r d))"
proof (rule outcome_inv)
  fix u d'
  assume run: "complete_release_workflow_effect digest c status r d = (Inr u, d')"
  then show "fence_event digest k d d'"
  proof (cases rule: complete_committed_cases)
    case (unfenced completed)
    then show ?thesis using complete_effect_tx_committed(1) by (intro fence_event_same) fastforce
  next
    case (fenced a completed)
    define a' where "a' = a\<lparr>fa_site := trim_space (fa_site a)\<rparr>"
    define r' where "r' = r\<lparr>eff_status := status\<rparr>"
    have body: "complete_fence_body c status a' r' completed d = Inr (u, d')" using fenced(4) by (simp add: a'_def r'_def)
    then have fs: "fences d' = fences_after_completion status a' r' completed (fences d)"
      using complete_effect_tx_committed(1) [OF complete_fence_body_committed(4) [OF body]] by simp
    note status = submission_completion [OF run fenced(1) assms]
    show ?thesis
    proof (cases "k = site_key a")
      case True
      obtain f where f: "f \<in> set (fences d)" "completed_target a' r' f" using complete_fence_body_committed(3) [OF body] by blast
      have "fence_at d k = Some f"
        using f assms find_in [of key_of_fence "fences d" k f] True
        by (simp add: fence_at_def completed_target_def effects_ok_def a'_def)
      then show ?thesis
        using fence_event.confirmed [of digest c r d d' a k f] fence_event.rejected [of digest c r d d' a k f]
          fenced(1,3) run status f(2) True
        by (cases u) (auto simp: completed_target_def r'_def a'_def)
    next
      case False
      have other: "\<not> completed_target a' r' f" if "fence_at d k = Some f" for f
        using that False by (auto simp: fence_at_def completed_target_def a'_def dest: find_Some_in)
      have "fence_at d' k = fence_at d k"
      proof (cases "status = EffSucceeded")
        case True
        then show ?thesis
          using fence_at_update [of d' "completed_target a' r'" "confirm_fence r' completed" d k] fs other
          by (cases "fence_at d k") (simp_all add: fences_after_completion_def)
      next
        case False
        then show ?thesis
          using fence_at_delete [of d' "completed_target a' r'" d k] fs other assms
          by (cases "fence_at d k") (simp_all add: fences_after_completion_def)
      qed
      then show ?thesis by (rule fence_event.untouched)
    qed
  qed
qed (auto intro: fence_event_same dest: complete_error)

lemma interrupt_event:
  assumes "interrupts d (interrupt F E now d0)" and "fences d0 = fences d"
  shows "fence_event digest k d (interrupt F E now d0)"
proof -
  have "fence_at (interrupt F E now d0) k
      = map_option (\<lambda>f. if F f \<and> fen_status f = EffStarted then f\<lparr>fen_status := EffUnknown, fen_updated_at := now\<rparr> else f) (fence_at d k)"
    by (rule fence_at_update) (simp_all add: interrupt_def assms(2))
  then show ?thesis
    using fence_event.untouched [of "interrupt F E now d0" k d] fence_event.interrupted [OF assms(1), of k]
    by (cases "fence_at d k") (auto simp: fence_status_of split: if_splits)
qed

lemma mark_event: "fence_event digest k d (snd (mark_operation_effects_unknown c owner workflow operation now d))"
proof (rule outcome_inv)
  fix u d'
  assume run: "mark_operation_effects_unknown c owner workflow operation now d = (Inr u, d')"
  then have "interrupts d d'" unfolding interrupts_def by (cases u) blast
  then show "fence_event digest k d d'"
    unfolding mark_committed(2) [OF run] mark_effects_unknown_interrupt by (rule interrupt_event) simp
qed (auto intro: fence_event_same dest: mark_error)

lemma recover_event: "fence_event digest k d (snd (recover_legacy_effects c owner workflow now d))"
proof (rule outcome_inv)
  fix es d'
  assume run: "recover_legacy_effects c owner workflow now d = (Inr es, d')"
  then have "interrupts d d'" unfolding interrupts_def by blast
  then show "fence_event digest k d d'"
    unfolding recover_committed(2) [OF run] by (rule interrupt_event) simp
qed (auto intro: fence_event_same dest: recover_error)

text \<open>A resolution leaves the fence of a content and site, or frees it when its outcome was unknown.\<close>

lemma resolve_tx_fence_at:
  assumes "resolve_effect_unknown_tx c owner workflow kind scope now expected d = Inr (u, d')" and "effects_ok d"
  shows "fence_at d' k = fence_at d k \<or> fence_status_at d k = Some EffUnknown \<and> fence_status_at d' k = None"
proof -
  obtain l where "d' = d \<or> d' = resolved_db (trim_space owner) workflow l now d"
    using resolve_committed(2) [OF assms(1)] by metis
  moreover have "fence_at (resolved_db (trim_space owner) workflow l now d) k
      = (case fence_at d k of None \<Rightarrow> None | Some f \<Rightarrow>
           if exact_fence (trim_space owner) workflow (eff_operation l) (eff_id l) f \<and> fen_status f = EffUnknown then None else Some f)"
    by (rule fence_at_delete) (simp_all add: resolved_db_def assms(2))
  ultimately show ?thesis by (cases "fence_at d k") (auto simp: fence_status_of split: if_splits)
qed

lemma resolve_event:
  assumes "effects_ok d"
  shows "fence_event digest k d (snd (resolve_effect_unknown c owner workflow kind scope now expected d))"
proof (cases "resolve_effect_unknown_tx c owner workflow kind scope now expected d")
  case (Inr p)
  then obtain d' where d': "resolve_effect_unknown_tx c owner workflow kind scope now expected d = Inr ((), d')" by (cases p) auto
  then have run: "resolve_effect_unknown c owner workflow kind scope now expected d = (Inr (), d')"
    by (simp add: resolve_effect_unknown_def)
  then have "resolves d d'" unfolding resolves_def by blast
  then show ?thesis
    using resolve_tx_fence_at [OF d' assms, of k] run by (auto intro: fence_event.untouched fence_event.resolved)
qed (simp add: resolve_effect_unknown_def fence_event_same)

subsection \<open>The slot's fence\<close>

lemma transition_fence:
  assumes "transition_active_input c expected nxt input workflow now retention d = (Inr u, d')"
  shows "slot_fence (slot d) \<le> slot_fence (slot d')
    \<and> (slot_fence (slot d') = slot_fence (slot d) \<longrightarrow> slot_coordinator (slot d') = slot_coordinator (slot d))"
  using transition_committed(7) [OF assms] transition_slot [OF assms] by (cases rule: acquisition_cases) auto

definition fence_kept :: "db \<Rightarrow> db \<Rightarrow> bool" where
  "fence_kept d d' \<longleftrightarrow> slot_fence (slot d) \<le> slot_fence (slot d')
     \<and> (slot_fence (slot d') = slot_fence (slot d) \<longrightarrow> slot_coordinator (slot d') = slot_coordinator (slot d))"

lemma fence_kept_same: "slot d' = slot d \<Longrightarrow> fence_kept d d'"
  by (simp add: fence_kept_def)

lemma transition_fence_kept: "fence_kept d (snd (transition_active_input c expected nxt input workflow now retention d))"
  by (rule outcome_inv [of _ d]) (use transition_fence in \<open>auto simp: fence_kept_def dest: transition_error\<close>)

lemma slot_step_fence: "slot_step d d' \<Longrightarrow> fence_kept d d'"
proof (elim slot_stepE)
  fix same_path c expected nxt rec workflow now retention
  assume "d' = snd (finalize_active_input same_path c expected nxt rec workflow now retention d)"
  then show "fence_kept d d'"
    using finalize_is_transition [of same_path c expected nxt rec workflow now retention d] transition_fence_kept fence_kept_same
    by auto
next
  fix expected now
  assume "d' = snd (close_idle_active_input expected now d)"
  moreover have "fence_kept d (snd (close_idle_active_input expected now d))"
    by (rule outcome_inv [of _ d]) (auto simp: fence_kept_def dest: close_error close_committed(6))
  ultimately show "fence_kept d d'" by simp
next
  fix coordinator fence now expires
  assume "d' = snd (renew_active_input coordinator fence now expires d)"
  moreover have "fence_kept d (snd (renew_active_input coordinator fence now expires d))"
    by (rule outcome_inv [of _ d]) (auto simp: fence_kept_def dest: renew_error renew_committed(6))
  ultimately show "fence_kept d d'" by simp
next
  fix coordinator fence now
  assume "d' = snd (relinquish_active_input coordinator fence now d)"
  moreover have "fence_kept d (snd (relinquish_active_input coordinator fence now d))"
    by (rule outcome_inv [of _ d]) (auto simp: fence_kept_def dest: relinquish_error relinquish_committed(5))
  ultimately show "fence_kept d d'" by simp
next
  fix rec
  assume "d' = snd (save_input_record rec d)"
  then show "fence_kept d d'"
    unfolding save_input_record_def with_write_tx_def save_input_record_tx_def
    by (intro fence_kept_same) (auto split: option.splits)
qed (simp add: transition_fence_kept)

subsection \<open>What every step does to the slot's fence and to a submission fence\<close>

definition fence_moves :: "digest \<Rightarrow> db \<Rightarrow> db \<Rightarrow> bool" where
  "fence_moves digest d d' \<longleftrightarrow> fence_kept d d' \<and> (\<forall>k. fence_event digest k d d')"

lemma fence_moves_same: "slot d' = slot d \<Longrightarrow> fences d' = fences d \<Longrightarrow> fence_moves digest d d'"
  by (simp add: fence_moves_def fence_kept_same fence_event_same)

lemma slot_step_moves: "slot_step d d' \<Longrightarrow> fence_moves digest d d'"
  using slot_step_fence [of d d'] slot_step_tables [of d d']
  by (auto simp: fence_moves_def keeps_slot_tables_def intro: fence_event_same)

lemma effect_step_moves:
  assumes "effect_step digest d d'" and "effects_ok d"
  shows "fence_moves digest d d'"
proof -
  have "fence_event digest k d d'" for k
    using assms(1) by cases (simp_all add: begin_event complete_event mark_event recover_event resolve_event assms(2))
  then show ?thesis
    using keeps_effect_tables_simps(1) [OF effect_step_tables [OF assms(1)]] by (simp add: fence_moves_def fence_kept_same)
qed

lemma work_step_moves:
  assumes "work_step d d'" and work: "work_ok d"
  shows "fence_moves digest d d'"
  using assms(1)
proof cases
  case (claim c r)
  show ?thesis unfolding claim
  proof (rule outcome_inv)
    fix u d1
    assume "claim_release_workflow_work c r d = (Inr u, d1)"
    then show "fence_moves digest d d1" by (cases rule: claim_committed) (simp_all add: fence_moves_same)
  qed (auto intro: fence_moves_same dest: claim_error)
next
  case (renew_work c r)
  show ?thesis unfolding renew_work
  proof (rule outcome_inv)
    fix u d1
    assume "renew_release_workflow_work c r d = (Inr u, d1)"
    then show "fence_moves digest d d1" using work by (cases rule: renew_work_committed) (simp_all add: fence_moves_same)
  qed (auto intro: fence_moves_same dest: renew_work_error [OF work])
next
  case (checkpoint c r)
  show ?thesis unfolding checkpoint
  proof (rule outcome_inv)
    fix u d1
    assume "checkpoint_release_workflow_work c r d = (Inr u, d1)"
    then show "fence_moves digest d d1" using work by (cases rule: checkpoint_work_committed) (simp_all add: fence_moves_same)
  qed (auto intro: fence_moves_same dest: checkpoint_work_error [OF work])
next
  case (complete_work c r)
  show ?thesis unfolding complete_work
  proof (rule outcome_inv)
    fix u d1
    assume run: "complete_release_workflow_work c r d = (Inr u, d1)"
    then obtain ws F E now where d1: "d1 = interrupt F E now (d\<lparr>work := ws\<rparr>)"
      unfolding mark_effects_unknown_interrupt by (cases rule: complete_work_committed) (auto simp: mark_effects_unknown_interrupt)
    have "interrupts d d1" using run unfolding interrupts_def by (cases u) blast
    then have "fence_event digest k d d1" for k
      unfolding d1 by (rule interrupt_event) simp
    moreover have "slot d1 = slot d" by (simp add: d1 keeps_effect_tables_simps(1) [OF keeps_effect_tables_interrupt])
    ultimately show "fence_moves digest d d1" by (simp add: fence_moves_def fence_kept_same)
  qed (auto intro: fence_moves_same dest: complete_work_error)
qed

lemma operation_step_moves:
  assumes "operation_step d d'"
  shows "fence_moves digest d d'"
  using assms
proof cases
  case (create_operation c r)
  show ?thesis unfolding create_operation
  proof (rule outcome_inv)
    fix a d'
    assume run: "create_release_workflow_operation c r d = (Inr a, d')"
    obtain res again where a: "a = (res, again)" by (cases a)
    from run [unfolded a] show "fence_moves digest d d'" by (cases rule: create_committed) (simp_all add: fence_moves_same)
  qed (auto intro: fence_moves_same dest: create_error)
next
  case (save_operation c expected r)
  show ?thesis unfolding save_operation
  proof (rule outcome_inv)
    fix u d1
    assume "save_release_workflow_operation c expected r d = (Inr u, d1)"
    from save_committed(1) [OF this] show "fence_moves digest d d1" by (simp add: fence_moves_same)
  qed (auto intro: fence_moves_same dest: save_error)
next
  case (retire_operations before)
  then show ?thesis by (auto intro!: fence_moves_same simp: delete_terminal_operations_before_def delete_operations_def)
qed

lemma log_step_moves: "log_step d d' \<Longrightarrow> fence_moves digest d d'"
proof (elim log_stepE)
  fix c r
  assume "d' = snd (accept_release_workflow_intent c r d)"
  then show "fence_moves digest d d'"
    by (auto intro!: fence_moves_same simp: accept_release_workflow_intent_def accept_intent_body_def with_write_tx_def
        split: option.splits)
next
  fix c r
  assume "d' = snd (save_release_workflow_continuation c r d)"
  then show "fence_moves digest d d'"
    by (auto intro!: fence_moves_same simp: save_release_workflow_continuation_def exec_workflow_input_write_def
        upsert_continuation_def with_write_tx_def split: option.splits)
next
  fix fates c owner workflow es
  assume d': "d' = snd (append_release_workflow_events fates c owner workflow es d)"
  have "fence_moves digest d (snd (append_release_workflow_events fates c owner workflow es d))"
  proof (rule outcome_inv)
    fix out d1
    assume run: "append_release_workflow_events fates c owner workflow es d = (Inr out, d1)"
    show "fence_moves digest d d1"
    proof (cases "es = []")
      case True
      then show ?thesis using run by (simp add: append_release_workflow_events_def Let_def fence_moves_same split: if_splits)
    next
      case False
      with run obtain new where "append_body c (trim_space owner) workflow es [] d = (Inr d1, new)" by (rule append_committed)
      from append_body_result(1) [OF this] show ?thesis by (auto intro: fence_moves_same)
    qed
  qed (auto intro: fence_moves_same dest: append_error)
  then show "fence_moves digest d d'" by (simp add: d')
qed

lemma state_step_moves:
  assumes "state_step d d'" and ok: "effects_ok d"
  shows "fence_moves digest d d'"
  using assms(1)
proof cases
  case (create_state c r)
  show ?thesis unfolding create_state
  proof (rule outcome_inv)
    fix a d1
    assume run: "create_release_workflow_state c r d = (Inr a, d1)"
    obtain res again where a: "a = (res, again)" by (cases a)
    from run [unfolded a] show "fence_moves digest d d1" by (cases rule: create_state_committed) (simp_all add: fence_moves_same)
  qed (auto intro: fence_moves_same dest: create_state_error)
next
  case (save_state c expected r)
  show ?thesis unfolding save_state
  proof (rule outcome_inv)
    fix u d'
    assume run: "save_release_workflow_state c expected r d = (Inr u, d')"
    then obtain d1 P where resolution: "apply_resolution c r d = Inr ((), d1)"
      and d': "d' = retain_hdr_association r (d1\<lparr>states := update_where P (saved_state r) (states d)\<rparr>)"
      by (rule save_state_committed)
    have same: "fence_at d' k = fence_at d1 k" for k by (simp add: d' retain_hdr_association_def fence_at_def)
    have "fence_event digest k d d'" for k
    proof (cases "ws_resolution r")
      case None
      then have "d1 = d" using resolution by (simp add: apply_resolution_def)
      then show ?thesis using same by (intro fence_event.untouched) simp
    next
      case (Some x)
      then have "resolves d d'" using run unfolding resolves_def by (cases u) blast
      moreover have "fence_at d1 k = fence_at d k \<or> fence_status_at d k = Some EffUnknown \<and> fence_status_at d1 k = None"
        using resolution Some ok resolve_tx_fence_at by (auto simp: apply_resolution_def)
      ultimately show ?thesis
        using same [of k] by (auto simp: fence_status_of intro: fence_event.untouched fence_event.resolved)
    qed
    then show "fence_moves digest d d'"
      using apply_resolution_frame(4) [OF resolution]
      by (simp add: fence_moves_def fence_kept_same d' retain_hdr_association_def)
  qed (auto intro: fence_moves_same dest: save_state_error)
next
  case (delete_state owner workflow)
  show ?thesis unfolding delete_state
  proof (rule outcome_inv)
    fix u d1
    assume "delete_release_workflow_state owner workflow d = (Inr u, d1)"
    from delete_state_committed(1) [OF this] show "fence_moves digest d d1" by (simp add: fence_moves_same)
  qed (auto intro: fence_moves_same dest: delete_state_error)
next
  case (retire_states before)
  then show ?thesis by (auto intro!: fence_moves_same simp: delete_terminal_states_before_def)
qed

lemma same_work_moves: "same_work d d' \<Longrightarrow> fence_moves digest d d'"
  by (auto simp: same_work_def fence_moves_def fence_kept_def intro: fence_event_same)

lemma keeps_config_tables_moves: "keeps_config_tables d d' \<Longrightarrow> fence_moves digest d d'"
  by (auto simp: keeps_config_tables_def intro: fence_moves_same)

lemma same_work_config: "same_work d d1 \<Longrightarrow> same_work d (d1\<lparr>config_active := r, config_pending := p\<rparr>)"
  by (simp add: same_work_def)

lemma config_step_moves:
  assumes "config_step d d'" and ok: "effects_ok d"
  shows "fence_moves digest d d'"
  using assms(1)
proof cases
  case (activate c expected fingerprint impacts transform a)
  from activate show ?thesis
    by (cases rule: activate_committed) (simp add: same_work_config same_work_moves)
next
  case (reconcile c snapshot expected fingerprint transform)
  show ?thesis unfolding reconcile
  proof (rule outcome_inv)
    fix a d1
    assume "reconcile_config_activation c snapshot expected fingerprint transform d = (Inr a, d1)"
    then show "fence_moves digest d d1" by (cases rule: reconcile_committed) (simp add: same_work_config same_work_moves)
  qed (auto intro: fence_moves_same dest: reconcile_error)
next
  case (discard now)
  have slot: "slot d' = slot d" by (simp add: discard keeps_effect_tables_simps(1) [OF discard_tables])
  have "fence_event digest k d d'" for k unfolding discard
  proof (rule outcome_inv)
    fix n d1
    assume run: "discard_unresolved_on_startup now d = (Inr n, d1)"
    then have "fences d1 = fences d \<or> fences d1 = delete_where fence_unresolved (fences d)"
      by (auto simp: discard_unresolved_on_startup_def discard_body_def with_write_tx_def split: if_splits)
    then show "fence_event digest k d d1"
      using fence_event_same [of d1 d digest k] fence_at_delete [of d1 fence_unresolved d k] ok
        fence_event.discarded [OF run, of k] fence_event.untouched [of d1 k d]
      by (cases "fence_at d k") (auto simp: fence_status_of fence_unresolved_def split: if_splits)
  qed (auto intro: fence_event_same simp: discard_unresolved_on_startup_def dest: with_write_tx_error split: if_splits)
  then show ?thesis by (simp add: fence_moves_def fence_kept_same slot)
qed (simp_all add: keeps_config_tables_moves initialize_tables clear_tables fail_tables save_pending_tables)

lemma content_step_moves: "content_step d d' \<Longrightarrow> fence_moves digest d d'"
  by (elim content_stepE) (simp add: fence_moves_same)

lemma working_step_moves: "working_step digest d d' \<Longrightarrow> repository_ok d \<Longrightarrow> fence_moves digest d d'"
  unfolding working_step_def repository_ok_def
  by (elim disjE conjE)
    (simp_all add: slot_step_moves effect_step_moves work_step_moves operation_step_moves log_step_moves state_step_moves
      config_step_moves content_step_moves)

lemma working_event: "working_step digest d d' \<Longrightarrow> repository_ok d \<Longrightarrow> fence_event digest k d d'"
  using working_step_moves unfolding fence_moves_def by blast

lemma purge_event:
  assumes "effects_ok d"
  shows "fence_at (snd (purge_content_data same_path v path d)) k = fence_at d k
    \<or> history_deleted k d (snd (purge_content_data same_path v path d))
       \<and> (\<exists>f. fence_at d k = Some f \<and> owned_by same_path v (trim_space path) (fen_owner f) (fen_workflow f))"
proof (rule outcome_inv)
  fix u d'
  assume run: "purge_content_data same_path v path d = (Inr u, d')"
  show "fence_at d' k = fence_at d k
    \<or> history_deleted k d d' \<and> (\<exists>f. fence_at d k = Some f \<and> owned_by same_path v (trim_space path) (fen_owner f) (fen_workflow f))"
    using fence_at_delete [OF purge_fences(1) [OF run] assms, of k] run
    by (cases "fence_at d k"; cases u) (auto simp: history_deleted_def split: if_splits)
qed (auto dest: purge_error)

lemma step_event:
  assumes "step digest d d'" and "repository_ok d"
  shows "fence_event digest k d d' \<or> history_deleted k d d'"
proof -
  from assms(1) consider "working_step digest d d'" | "purge_step d d'" by (auto simp: step_def)
  then show ?thesis
  proof cases
    case 2
    then obtain same_path v path where d': "d' = snd (purge_content_data same_path v path d)" by (rule purge_stepE)
    show ?thesis
      using purge_event [of d same_path v path k] assms(2) fence_event.untouched [of d' k d digest]
      unfolding d' repository_ok_def by blast
  qed (use working_event assms(2) in blast)
qed

lemma step_fence:
  assumes "step digest d d'" "repository_ok d"
  shows "slot_fence (slot d) \<le> slot_fence (slot d')"
    and "slot_fence (slot d') = slot_fence (slot d) \<Longrightarrow> slot_coordinator (slot d') = slot_coordinator (slot d)"
proof -
  have "fence_kept d d'"
    using assms working_step_moves fence_kept_same purge_keeps_slot
    by (auto simp: step_def fence_moves_def elim!: purge_stepE)
  then show "slot_fence (slot d) \<le> slot_fence (slot d')"
    and "slot_fence (slot d') = slot_fence (slot d) \<Longrightarrow> slot_coordinator (slot d') = slot_coordinator (slot d)"
    unfolding fence_kept_def by blast+
qed

text \<open>Steps that do not delete the history of the workflow holding a fence.\<close>

inductive spared_step :: "digest \<Rightarrow> string \<times> string \<times> string \<Rightarrow> db \<Rightarrow> db \<Rightarrow> bool"
  for digest :: digest and k :: "string \<times> string \<times> string" where
  working: "working_step digest d d' \<Longrightarrow> spared_step digest k d d'"
| purge_others: "(\<forall>f. fence_at d k = Some f \<longrightarrow> \<not> owned_by same_path v (trim_space path) (fen_owner f) (fen_workflow f)) \<Longrightarrow>
    spared_step digest k d (snd (purge_content_data same_path v path d))"

inductive_cases spared_stepE: "spared_step digest k d d'"

lemma spared_is_step: "spared_step digest k d d' \<Longrightarrow> step digest d d'"
  by (elim spared_stepE) (auto simp: step_def intro: purge_step.purge)

lemma spared_edge:
  assumes "spared_step digest k d d'" and "repository_ok d"
  shows "fence_edge (fence_status_at d k) (fence_status_at d' k)"
  using assms(1)
proof cases
  case working
  then show ?thesis using working_event [OF _ assms(2)] fence_event_edge by blast
next
  case (purge_others same_path v path)
  then have "fence_at d' k = fence_at d k"
    using purge_event [of d same_path v path k] assms(2) by (auto simp: repository_ok_def)
  then show ?thesis by (simp add: fence_status_of fence_edge_def)
qed

end
