(* ===== verification/History.thy ===== *)
theory History
  imports Protocol
begin

text \<open>
  Properties of whole histories of the repository. Three interfaces say what a run of steps
  guarantees once each step does: an invariant is kept, an abstract machine simulates the run,
  and a fence token that was replaced never returns. They are interpreted on the step relation
  of the repository, the life of a submission fence and the slot's fence; the life of a fence is
  followed over the steps that spare its workflow, because deleting the history of a release deletes
  the fences of its workflows too.
\<close>

subsection \<open>Runs\<close>

locale invariant_run =
  fixes move :: "'s \<Rightarrow> 's \<Rightarrow> bool" and good :: "'s \<Rightarrow> bool"
  assumes keeps: "move s t \<Longrightarrow> good s \<Longrightarrow> good t"
begin

lemma run_good: "move\<^sup>*\<^sup>* s t \<Longrightarrow> good s \<Longrightarrow> good t"
  by (induction rule: rtranclp_induct) (auto intro: keeps)

end

locale simulated_run = invariant_run move good
  for move :: "'s \<Rightarrow> 's \<Rightarrow> bool" and good :: "'s \<Rightarrow> bool" +
  fixes view :: "'s \<Rightarrow> 'a" and edge :: "'a \<Rightarrow> 'a \<Rightarrow> bool"
  assumes simulates: "move s t \<Longrightarrow> good s \<Longrightarrow> edge (view s) (view t)"
begin

lemma run_simulated: "move\<^sup>*\<^sup>* s t \<Longrightarrow> good s \<Longrightarrow> edge\<^sup>*\<^sup>* (view s) (view t)"
proof (induction rule: rtranclp_induct)
  case (step t u)
  then have "edge (view t) (view u)" using run_good simulates by blast
  with step show ?case by (meson rtranclp.rtrancl_into_rtrancl)
qed simp

lemma run_stays:
  assumes "move\<^sup>*\<^sup>* s t" "good s" "P (view s)" and "\<And>a b. P a \<Longrightarrow> edge a b \<Longrightarrow> P b"
  shows "P (view t)"
proof -
  from assms(1,2) have "edge\<^sup>*\<^sup>* (view s) (view t)" by (rule run_simulated)
  then show ?thesis using assms(3) by (induction rule: rtranclp_induct) (auto intro: assms(4))
qed

end

locale fenced_run = invariant_run move good
  for move :: "'s \<Rightarrow> 's \<Rightarrow> bool" and good :: "'s \<Rightarrow> bool" +
  fixes fence :: "'s \<Rightarrow> nat" and holder :: "'s \<Rightarrow> 'h"
  assumes fence_grows: "move s t \<Longrightarrow> good s \<Longrightarrow> fence s \<le> fence t"
    and holder_kept: "move s t \<Longrightarrow> good s \<Longrightarrow> fence t = fence s \<Longrightarrow> holder t = holder s"
begin

lemma run_grows: "move\<^sup>*\<^sup>* s t \<Longrightarrow> good s \<Longrightarrow> fence s \<le> fence t"
proof (induction rule: rtranclp_induct)
  case (step t u)
  then show ?case using run_good fence_grows by (meson le_trans)
qed simp

lemma run_holder: "move\<^sup>*\<^sup>* s t \<Longrightarrow> good s \<Longrightarrow> fence t = fence s \<Longrightarrow> holder t = holder s"
proof (induction rule: rtranclp_induct)
  case (step t u)
  then have "good t" "fence s \<le> fence t" "fence t \<le> fence u" using run_good run_grows fence_grows by blast+
  with step show ?case using holder_kept by (metis order_antisym)
qed simp

lemma replaced_for_good: "move\<^sup>*\<^sup>* s t \<Longrightarrow> good s \<Longrightarrow> n < fence s \<Longrightarrow> n < fence t"
  using run_grows by (meson less_le_trans)

end

subsection \<open>Runs of the repository\<close>

lemma spared_ok: "spared_step digest k d d' \<Longrightarrow> repository_ok d \<Longrightarrow> repository_ok d'"
  using spared_is_step step_ok by blast

interpretation submission: simulated_run "spared_step digest k" repository_ok "\<lambda>d. fence_status_at d k" fence_edge for digest k
  by unfold_locales (rule spared_ok spared_edge; assumption)+

interpretation coordination: fenced_run "step digest" repository_ok "\<lambda>d. slot_fence (slot d)" "\<lambda>d. slot_coordinator (slot d)" for digest
  by unfold_locales (rule step_ok step_fence; assumption)+

lemma reachable_ok: "reachable digest d \<Longrightarrow> repository_ok d"
  by (induction rule: reachable.induct) (auto intro: repository_ok_empty step_ok)

subsection \<open>A superseded coordinator\<close>

definition refused :: "db \<Rightarrow> ('e + 'a) \<times> db \<Rightarrow> bool" where
  "refused d run \<longleftrightarrow> isl (fst run) \<and> snd run = d"

text \<open>The authority in the context names a fence that the slot has replaced.\<close>

definition superseded :: "ctx \<Rightarrow> db \<Rightarrow> bool" where
  "superseded c d \<longleftrightarrow> (\<exists>coordinator fence. input_authority c = Some (coordinator, fence) \<and> fence < slot_fence (slot d))"

named_theorems refusals "operations a superseded authority cannot run"

lemma superseded_mutation:
  "superseded c d \<Longrightarrow> require_workflow_input_mutation c d owner workflow allow_pending = Some ActiveInputLeaseLost"
  by (auto simp: superseded_def require_workflow_input_mutation_def Let_def)

lemma superseded_legacy:
  "superseded c d \<Longrightarrow> require_legacy_input_recovery c d owner workflow = Some ActiveInputLeaseLost"
  by (auto simp: superseded_def require_legacy_input_recovery_def Let_def)

lemma superseded_creation: "superseded c d \<Longrightarrow> check_creation_slot c r d = Some ActiveInputLeaseLost"
  by (auto simp: superseded_def check_creation_slot_def load_active_input_def Let_def)

lemma refused_tx: "f d = Inl e \<Longrightarrow> refused d (with_write_tx f d)"
  by (simp add: refused_def)

lemma refused_Inl: "refused d (Inl e, d)"
  by (simp add: refused_def)

lemma refused_work [refusals]:
  assumes "superseded c d"
  shows "refused d (claim_release_workflow_work c w d)" "refused d (renew_release_workflow_work c w d)"
    "refused d (checkpoint_release_workflow_work c w d)" "refused d (complete_release_workflow_work c w d)"
  using superseded_mutation [OF assms] superseded_legacy [OF assms]
  by (auto simp: refused_def claim_release_workflow_work_def claim_body_def renew_release_workflow_work_def write_owned_work_def
      exec_workflow_input_write_def checkpoint_release_workflow_work_def complete_release_workflow_work_def complete_work_body_def
      split: option.splits)

lemma refused_operations [refusals]:
  assumes "superseded c d"
  shows "refused d (create_release_workflow_operation c p d)" "refused d (save_release_workflow_operation c expected p d)"
  using superseded_mutation [OF assms]
  by (auto simp: refused_def create_release_workflow_operation_def create_operation_body_def save_release_workflow_operation_def
      save_operation_body_def split: option.splits)

lemma refused_log [refusals]:
  assumes "superseded c d"
  shows "refused d (accept_release_workflow_intent c i d)" "refused d (save_release_workflow_continuation c k d)"
  using superseded_mutation [OF assms]
  by (auto simp: refused_def accept_release_workflow_intent_def accept_intent_body_def save_release_workflow_continuation_def
      exec_workflow_input_write_def split: option.splits)

lemma refused_states [refusals]:
  assumes "superseded c d"
  shows "refused d (create_release_workflow_state c s d)" "refused d (save_release_workflow_state c expected s d)"
  using superseded_mutation [OF assms] superseded_creation [OF assms]
  by (auto simp: refused_def create_release_workflow_state_def create_state_body_def save_release_workflow_state_def
      save_state_body_def split: option.splits)

lemma refusedI:
  assumes "\<And>a d'. run = (Inr a, d') \<Longrightarrow> False" and "\<And>e d'. run = (Inl e, d') \<Longrightarrow> d' = d"
  shows "refused d run"
proof (cases run)
  case (Pair a d')
  then show ?thesis using assms by (cases a) (auto simp: refused_def)
qed

lemma refused_begin [refusals]:
  assumes "superseded c d"
  shows "refused d (begin_release_workflow_effect digest c r d)"
proof (rule refusedI)
  fix a d'
  assume run: "begin_release_workflow_effect digest c r d = (Inr a, d')"
  obtain r' i where a: "a = (r', i)" by (cases a)
  from run [unfolded a] show False
  proof (cases rule: begin_committed_cases)
    case unfenced
    show ?thesis using begin_body_committed(1) [OF unfenced(2)] superseded_mutation [OF assms] by simp
  next
    case (fenced b)
    show ?thesis using begin_fence_body_committed(1) [OF fenced(4)] superseded_mutation [OF assms] by simp
  qed
qed (rule begin_error)

lemma refused_complete [refusals]:
  assumes "superseded c d"
  shows "refused d (complete_release_workflow_effect digest c status r d)"
proof (rule refusedI)
  fix u d'
  assume "complete_release_workflow_effect digest c status r d = (Inr u, d')"
  then show False
  proof (cases rule: complete_committed_cases)
    case (unfenced completed)
    then show ?thesis using superseded_mutation [OF assms] by simp
  next
    case (fenced b completed)
    show ?thesis using complete_fence_body_committed(1) [OF fenced(4)] superseded_mutation [OF assms] by simp
  qed
qed (rule complete_error)

lemma refused_recovery [refusals]:
  assumes "superseded c d"
  shows "refused d (mark_operation_effects_unknown c owner workflow operation now d)"
    and "refused d (recover_legacy_effects c owner workflow now d)"
    and "refused d (resolve_effect_unknown c owner workflow kind scope now receipts d)"
proof -
  show "refused d (mark_operation_effects_unknown c owner workflow operation now d)"
  proof (rule refusedI)
    fix u d'
    assume "mark_operation_effects_unknown c owner workflow operation now d = (Inr u, d')"
    from mark_committed(1) [OF this] show False using superseded_mutation [OF assms] by simp
  qed (rule mark_error)
  show "refused d (recover_legacy_effects c owner workflow now d)"
  proof (rule refusedI)
    fix es d'
    assume "recover_legacy_effects c owner workflow now d = (Inr es, d')"
    from recover_committed(1) [OF this] show False using superseded_legacy [OF assms] by simp
  qed (rule recover_error)
  show "refused d (resolve_effect_unknown c owner workflow kind scope now receipts d)"
  proof (cases "resolve_effect_unknown_tx c owner workflow kind scope now receipts d")
    case (Inr p)
    then obtain u d' where "resolve_effect_unknown_tx c owner workflow kind scope now receipts d = Inr (u, d')" by (cases p) auto
    from resolve_committed(1) [OF this] show ?thesis using superseded_mutation [OF assms] by simp
  qed (simp add: resolve_effect_unknown_def refused_def)
qed

lemma refused_append [refusals]:
  assumes "superseded c d" and "es \<noteq> []"
  shows "refused d (append_release_workflow_events fates c owner workflow es d)"
proof (rule refusedI)
  fix out d'
  assume "append_release_workflow_events fates c owner workflow es d = (Inr out, d')"
  then obtain new where "append_body c (trim_space owner) workflow es [] d = (Inr d', new)"
    using assms(2) by (rule append_committed)
  then show False using superseded_mutation [OF assms(1)] by (simp add: append_body_def)
qed (rule append_error)

subsection \<open>Recovery after a crash\<close>

definition recovering_from :: "active_input_record \<Rightarrow> string \<Rightarrow> time \<Rightarrow> active_input_record" where
  "recovering_from s coordinator expires = s\<lparr>slot_state := AiRecovering, slot_revision := slot_revision s + 1,
     slot_fence := slot_fence s + 1, slot_coordinator := coordinator, slot_lease_expires_at := expires\<rparr>"

lemma expired_slot_is_recovered:
  assumes "slot_ok (slot d)" and "slot_state (slot d) \<noteq> AiEmpty" and "slot_lease_expires_at (slot d) \<le> now"
    and "slot_revision (slot d) < max_int64" and "coordinator \<noteq> []" and "now < expires"
  shows "transition_active_input c (slot d) (recovering_from (slot d) coordinator expires) None None now None d
    = (Inr (), d\<lparr>slot := recovering_from (slot d) coordinator expires\<rparr>)"
proof -
  have held: "slot_fence (slot d) < max_int64" "slot_owner (slot d) \<noteq> []"
    using assms(1,2,4) by (simp_all add: slot_ok_def)
  have "transition_body c (slot d) (recovering_from (slot d) coordinator expires) None None now None d
      = Inr ((), d\<lparr>slot := recovering_from (slot d) coordinator expires\<rparr>)"
    using assms held
    by (simp add: transition_body_def recovering_from_def check_acquisition_def acquiring_def validate_active_input_transition_def
        check_idle_def check_retention_def publish_input_def publish_workflow_def write_active_input_def Let_def)
  then show ?thesis
    using assms(4) held by (simp add: transition_active_input_def recovering_from_def not_le)
qed

text \<open>The workflow's attempts of one operation, the slot deciding the workflow.\<close>

definition operation_of_slot :: "db \<Rightarrow> string \<Rightarrow> string \<Rightarrow> string \<Rightarrow> string \<Rightarrow> bool" where
  "operation_of_slot d operation owner workflow op \<longleftrightarrow>
     owner = slot_owner (slot d) \<and> workflow = slot_workflow (slot d) \<and> op = operation"

lemma recovered_slot_marks:
  assumes "slot_ok (slot d)" and "slot_state (slot d) \<noteq> AiEmpty" and "slot_workflow (slot d) \<noteq> []"
    and "trim_space (slot_owner (slot d)) = slot_owner (slot d)" and "operation \<noteq> []" and "t \<noteq> 0"
    and "input_authority c = Some (coordinator, slot_fence (slot d) + 1)" and "wall_now c < expires"
  shows "mark_operation_effects_unknown c (slot_owner (slot d)) (slot_workflow (slot d)) operation t
      (d\<lparr>slot := recovering_from (slot d) coordinator expires\<rparr>)
    = (Inr (), interrupt (\<lambda>f. operation_of_slot d operation (fen_owner f) (fen_workflow f) (fen_operation f))
        (\<lambda>e. operation_of_slot d operation (eff_owner e) (eff_workflow e) (eff_operation e)) t
        (d\<lparr>slot := recovering_from (slot d) coordinator expires\<rparr>))"
proof -
  have "slot_owner (slot d) \<noteq> []" using assms(1,2) by (simp add: slot_ok_def)
  then have "\<not> blank (slot_owner (slot d))" using assms(4) by (simp add: blank_def)
  then show ?thesis
    using assms(3-8)
    by (simp add: mark_operation_effects_unknown_def require_workflow_input_mutation_def recovering_from_def Let_def
        mark_effects_unknown_interrupt operation_of_slot_def conj_assoc)
qed

lemma settled_still_there:
  assumes "e \<in> set es" and "effect_unresolved e"
  shows "\<exists>e'\<in>set (update_where (\<lambda>e. E e \<and> eff_status e = EffStarted) (settle_effect EffUnknown t t) es).
    effect_key e' = effect_key e \<and> effect_unresolved e' \<and> (E e \<longrightarrow> eff_status e' = EffUnknown)"
proof -
  let ?e = "if E e \<and> eff_status e = EffStarted then settle_effect EffUnknown t t e else e"
  have "?e \<in> set (update_where (\<lambda>e. E e \<and> eff_status e = EffStarted) (settle_effect EffUnknown t t) es)"
    using assms(1) by (auto simp: in_update_where)
  then show ?thesis
    by (rule bexI [rotated]) (use assms(2) in \<open>auto simp: effect_unresolved_def effect_key_def\<close>)
qed

text \<open>The startup discard, which no code calls at this commit, would instead leave nothing unresolved.\<close>

lemma quiet_discard:
  assumes "now \<noteq> 0" and "slot_state (slot d) = AiEmpty \<or> slot_lease_expires_at (slot d) \<le> now"
    and "\<forall>w\<in>set (work d). wk_completed_at w = None \<longrightarrow> wk_lease_expires_at w \<le> now"
  obtains n m d' where "discard_unresolved_on_startup now d = (Inr (n, m), d')"
    "\<forall>e\<in>set (effects d'). \<not> effect_unresolved e" "\<forall>f\<in>set (fences d'). \<not> fence_unresolved f" "slot d' = slot d"
proof -
  have held: "\<not> (slot_state (slot d) \<noteq> AiEmpty \<and> now < slot_lease_expires_at (slot d))"
    "\<not> (\<exists>w\<in>set (work d). wk_completed_at w = None \<and> now < wk_lease_expires_at w)"
    using assms(2,3) by (auto simp: not_le [symmetric])
  show thesis
  proof (cases "(\<exists>e\<in>set (effects d). effect_unresolved e) \<or> (\<exists>f\<in>set (fences d). fence_unresolved f)")
    case True
    show ?thesis
    proof (rule that)
      show "discard_unresolved_on_startup now d = (Inr (count_where effect_unresolved (effects d), count_where fence_unresolved (fences d)),
        d\<lparr>fences := delete_where fence_unresolved (fences d),
          effects := update_where effect_unresolved (settle_effect EffFailed now now) (effects d)\<rparr>)"
        unfolding discard_unresolved_on_startup_def discard_body_def with_write_tx_def using assms(1) held True by auto
      show "\<forall>e\<in>set (effects (d\<lparr>fences := delete_where fence_unresolved (fences d),
          effects := update_where effect_unresolved (settle_effect EffFailed now now) (effects d)\<rparr>)). \<not> effect_unresolved e"
      proof
        fix e
        assume "e \<in> set (effects (d\<lparr>fences := delete_where fence_unresolved (fences d),
          effects := update_where effect_unresolved (settle_effect EffFailed now now) (effects d)\<rparr>))"
        then obtain q where "e = (if effect_unresolved q then settle_effect EffFailed now now q else q)"
          by (auto simp: in_update_where)
        then show "\<not> effect_unresolved e" by (cases "effect_unresolved q") (simp_all add: effect_unresolved_def)
      qed
    qed (simp_all add: delete_where_def)
  next
    case False
    show ?thesis
      by (rule that [of 0 0 d])
        (use assms(1) False in \<open>auto simp: discard_unresolved_on_startup_def discard_body_def\<close>)
  qed
qed

subsection \<open>A sample history\<close>

text \<open>
  A coordinator opens the slot, stores a workflow, makes it active, submits and confirms; then its
  lease expires and another coordinator recovers the slot.
\<close>

abbreviation "const_digest \<equiv> (\<lambda>_ _. ''d'') :: digest"

definition submitted_db :: db where
  "submitted_db = sample_db [settle_effect EffSucceeded 10 12 (sample_effect ''e1'' 10)] [(sample_fence EffSucceeded)\<lparr>fen_confirmed_at := Some 12\<rparr>]"

definition recovered_db :: db where
  "recovered_db = submitted_db\<lparr>slot := recovering_from active_slot ''c2'' 300\<rparr>"

lemma stepI:
  "slot_step d d' \<Longrightarrow> working_step digest d d'" "effect_step digest d d' \<Longrightarrow> working_step digest d d'"
  "state_step d d' \<Longrightarrow> working_step digest d d'"
  by (simp_all add: working_step_def)

lemma working_is_step: "working_step digest d d' \<Longrightarrow> step digest d d'"
  by (simp add: step_def)

lemma opened: "working_step const_digest empty_db (empty_db\<lparr>slot := opening_slot\<rparr>)"
  using slot_step.transition [of empty_db quiet_ctx empty_slot opening_slot None None 10 None]
  by (simp add: transition_witness_runs(1) [unfolded compare_and_swap_active_input_def] stepI)

lemma stored: "working_step const_digest (empty_db\<lparr>slot := opening_slot\<rparr>) (empty_db\<lparr>slot := opening_slot, states := [sample_state]\<rparr>)"
proof -
  have "create_release_workflow_state quiet_ctx sample_state (empty_db\<lparr>slot := opening_slot\<rparr>)
      = (Inr (sample_state, False), empty_db\<lparr>slot := opening_slot, states := [sample_state]\<rparr>)"
    by (simp add: state_runs empty_slot_def max_int64_def)
  then show ?thesis using state_step.create_state [of "empty_db\<lparr>slot := opening_slot\<rparr>" quiet_ctx sample_state] by (simp add: stepI)
qed

lemma activated: "working_step const_digest (empty_db\<lparr>slot := opening_slot, states := [sample_state]\<rparr>) (sample_db [] [])"
proof -
  have "transition_active_input quiet_ctx opening_slot active_slot None None 20 None (empty_db\<lparr>slot := opening_slot, states := [sample_state]\<rparr>)
      = (Inr (), sample_db [] [])"
    by (simp add: slot_runs sample_db_def)
  then show ?thesis
    using slot_step.transition [of "empty_db\<lparr>slot := opening_slot, states := [sample_state]\<rparr>" quiet_ctx opening_slot active_slot None None 20 None]
    by (simp add: stepI)
qed

lemma submitting: "working_step const_digest (sample_db [] []) (sample_db [sample_effect ''e1'' 10] [sample_fence EffStarted])"
  using effect_step.begin_effect [of const_digest "sample_db [] []" quiet_ctx "sample_submission ''e1''"] by (simp add: sample_begin stepI)

lemma submitted: "working_step const_digest (sample_db [sample_effect ''e1'' 10] [sample_fence EffStarted]) submitted_db"
  using effect_step.complete_effect [of const_digest "sample_db [sample_effect ''e1'' 10] [sample_fence EffStarted]" quiet_ctx EffSucceeded "sample_submission ''e1''"]
  by (simp add: sample_complete submitted_db_def stepI)

lemma active_slot_shape: "slot_ok active_slot" "slot_state active_slot = AiActive" "slot_lease_expires_at active_slot = 100"
  "slot_revision active_slot = 2" "slot_fence active_slot = 1" "slot_coordinator active_slot = ''c1''"
  by (simp_all add: active_slot_def empty_slot_def slot_ok_def)

lemma recovered: "working_step const_digest submitted_db recovered_db"
proof -
  have slot: "slot submitted_db = active_slot" by (simp add: submitted_db_def sample_db_def)
  have "transition_active_input quiet_ctx active_slot (recovering_from active_slot ''c2'' 300) None None 200 None submitted_db
      = (Inr (), recovered_db)"
    using expired_slot_is_recovered [of submitted_db 200 "''c2''" 300 quiet_ctx]
    by (simp add: slot active_slot_shape recovered_db_def max_int64_def)
  then show ?thesis
    using slot_step.transition [of submitted_db quiet_ctx active_slot "recovering_from active_slot ''c2'' 300" None None 200 None] by (simp add: stepI)
qed

lemma active_reachable: "reachable const_digest (sample_db [] [])"
  by (rule reachable.intros working_is_step opened stored activated)+

lemma submitting_reachable: "reachable const_digest (sample_db [sample_effect ''e1'' 10] [sample_fence EffStarted])"
  by (rule reachable.later [OF active_reachable working_is_step [OF submitting]])

lemma submitted_reachable: "reachable const_digest submitted_db"
  by (rule reachable.later [OF submitting_reachable working_is_step [OF submitted]])

lemma recovered_reachable: "reachable const_digest recovered_db"
  by (rule reachable.later [OF submitted_reachable working_is_step [OF recovered]])

lemma recovered_fence: "slot_fence (slot recovered_db) = 2"
  by (simp add: recovered_db_def recovering_from_def active_slot_shape)

subsection \<open>Properties\<close>

text \<open>C2: The repository keeps its invariant: after any sequence of its operations, with any arguments and clocks,
  the slot's fields fit its state, every fence has its receipt and every effect its workflow, a
  workflow has one active operation at most, work leases belong to operations, events are numbered
  without a gap, every row belongs to a stored workflow and the configuration can be read.\<close>

lemma repository_invariant:
  assumes "reachable digest d"
  shows "slot_ok (slot d) \<and> effects_ok d \<and> work_ok d \<and> operations_ok d \<and> events_ok d \<and> rows_owned d \<and> config_ok d
    \<and> distinct (map (\<lambda>s. (ws_owner s, ws_id s)) (states d))"
  using reachable_ok [OF assms] repository_ok_rows [OF reachable_ok [OF assms]]
  by (simp add: repository_ok_def state_keys_def)

lemma repository_invariant_witness: "rows_owned submitted_db \<and> effects_ok submitted_db"
  using repository_invariant [OF submitted_reachable] by simp

text \<open>C4: Each step follows the submission protocol. From a reachable database a step leaves the fence of a content and site
  untouched or is one of: an admitted begin (free to started); completion of the attempt that took it (started to
  succeeded, or to free if it failed); an operation finding attempts interrupted (started to unknown); a user's
  resolution (unknown to free); the startup discard (unresolved to free); history deletion of its workflow. So nothing is
  confirmed from free or unknown, only history deletion ends a confirmed fence, and none is stored as failed.\<close>

lemma submissions_follow_protocol:
  assumes "reachable digest d" and "step digest d d'"
  shows "(fence_event digest k d d' \<or> history_deleted k d d') \<and> fence_status_at d' k \<noteq> Some EffFailed
    \<and> (fence_status_at d k = None \<longrightarrow> fence_status_at d' k \<in> {None, Some EffStarted})
    \<and> (fence_status_at d k = Some EffUnknown \<longrightarrow> fence_status_at d' k \<in> {Some EffUnknown, None})
    \<and> (fence_status_at d k = Some EffSucceeded \<longrightarrow> fence_status_at d' k = Some EffSucceeded \<or> history_deleted k d d')"
proof -
  have ok: "repository_ok d" using assms(1) by (rule reachable_ok)
  have event: "fence_event digest k d d' \<or> history_deleted k d d'" using step_event [OF assms(2) ok] .
  have "effects_ok d'" using step_ok [OF assms(2) ok] by (simp add: repository_ok_def)
  then have "fence_status_at d' k \<noteq> Some EffFailed"
    by (auto simp: fence_status_at_def effects_ok_def find_Some_iff)
  moreover have "fence_edge (fence_status_at d k) (fence_status_at d' k) \<or> history_deleted k d d'"
    using event fence_event_edge by blast
  moreover have "fence_status_at d' k = None \<and> fence_status_at d k \<noteq> None" if "history_deleted k d d'"
    using that by (auto simp: history_deleted_def fence_status_of)
  ultimately show ?thesis using event by (auto simp: fence_edge_def)
qed

lemma submissions_follow_protocol_witness:
  "fence_status_at submitted_db (fence_key sample_content ''site'') \<noteq> Some EffFailed
   \<and> fence_event const_digest (fence_key sample_content ''site'') (sample_db [sample_effect ''e1'' 10] [sample_fence EffStarted]) submitted_db"
proof -
  have "\<not> history_deleted (fence_key sample_content ''site'') (sample_db [sample_effect ''e1'' 10] [sample_fence EffStarted]) submitted_db"
    by (simp add: history_deleted_def fence_at_def submitted_db_def effect_runs)
  then show ?thesis
    using submissions_follow_protocol [OF submitting_reachable working_is_step [OF submitted], of "fence_key sample_content ''site''"] by blast
qed

text \<open>C1: A release is submitted at most once: once a submission of a content to a site is confirmed, no later sequence
  of operations, whoever runs them, leads to a state in which another submission of that content to
  that site is admitted; every begin of one changes nothing. The one exception is the user's: a history
  deletion of a path that belongs to the workflow holding the confirmation removes this protection, as
  documented, so the sequence may delete the history of any release but that workflow's.\<close>

lemma confirmed_submission_is_final:
  assumes "reachable digest d" and "(spared_step digest (site_key a))\<^sup>*\<^sup>* d d'" and "eff_submission r = Some a"
    and "fence_status_at d (site_key a) = Some EffSucceeded"
  shows "fence_status_at d' (site_key a) = Some EffSucceeded
    \<and> snd (begin_release_workflow_effect digest c r d') = d'
    \<and> (\<forall>r'. fst (begin_release_workflow_effect digest c r d') \<noteq> Inr (r', False))"
proof -
  have "fence_status_at d' (site_key a) = Some EffSucceeded"
    by (rule submission.run_stays [where P = "\<lambda>st. st = Some EffSucceeded", OF assms(2) reachable_ok [OF assms(1)] assms(4)])
      (simp add: fence_edge_def)
  then show ?thesis using held_fence_begin [OF assms(3), of d'] by simp
qed

lemma confirmed_submission_is_final_witness:
  "snd (begin_release_workflow_effect const_digest quiet_ctx (sample_submission ''e2'') recovered_db) = recovered_db"
proof -
  have "eff_submission (sample_submission ''e2'') = Some sample_authority" by (simp add: sample_submission_def)
  moreover have "fence_status_at submitted_db (site_key sample_authority) = Some EffSucceeded"
    by (simp add: fence_status_at_def submitted_db_def effect_runs)
  ultimately show ?thesis
    using confirmed_submission_is_final [OF submitted_reachable r_into_rtranclp [of "spared_step const_digest (site_key sample_authority)",
        OF spared_step.working [OF recovered]]]
    by blast
qed

text \<open>C3: A coordinator that lost the slot is refused wherever authority is checked: once the slot has a higher fence, a call
  under the old authority to begin, complete, interrupt, recover or resolve an effect, to claim, renew, checkpoint or
  complete work, to create or save an operation or workflow, to accept an intent, save a continuation, append events, or
  renew or relinquish the slot fails and changes nothing, in every later state. Not meant are operations that check no
  authority: deleting a workflow, retention, saving an input, closing an idle slot, history deletion, configuration.\<close>

lemma superseded_coordinator_is_refused:
  assumes "reachable digest d" and "(step digest)\<^sup>*\<^sup>* d d'"
    and "input_authority c = Some (coordinator, fence)" and "fence < slot_fence (slot d)"
  shows "refused d' (begin_release_workflow_effect digest c r d') \<and> refused d' (complete_release_workflow_effect digest c status r d')
    \<and> refused d' (mark_operation_effects_unknown c owner workflow operation now d')
    \<and> refused d' (recover_legacy_effects c owner workflow now d')
    \<and> refused d' (resolve_effect_unknown c owner workflow kind scope now receipts d')
    \<and> refused d' (claim_release_workflow_work c w d') \<and> refused d' (renew_release_workflow_work c w d')
    \<and> refused d' (checkpoint_release_workflow_work c w d') \<and> refused d' (complete_release_workflow_work c w d')
    \<and> refused d' (create_release_workflow_operation c p d') \<and> refused d' (save_release_workflow_operation c expected p d')
    \<and> refused d' (accept_release_workflow_intent c i d') \<and> refused d' (save_release_workflow_continuation c k d')
    \<and> refused d' (append_release_workflow_events fates c owner workflow (e # es) d')
    \<and> refused d' (create_release_workflow_state c s d') \<and> refused d' (save_release_workflow_state c expected s d')
    \<and> refused d' (renew_active_input coordinator fence now expires d') \<and> refused d' (relinquish_active_input coordinator fence now d')"
proof -
  have newer: "fence < slot_fence (slot d')"
    using coordination.replaced_for_good [OF assms(2) reachable_ok [OF assms(1)] assms(4)] .
  then have "superseded c d'" using assms(3) by (auto simp: superseded_def)
  moreover have "refused d' (renew_active_input coordinator fence now expires d')"
    "refused d' (relinquish_active_input coordinator fence now d')"
    using newer by (simp_all add: refused_def renew_active_input_def relinquish_active_input_def with_write_tx_def Let_def)
  ultimately show ?thesis by (simp add: refusals)
qed

lemma superseded_coordinator_is_refused_witness:
  "refused recovered_db (begin_release_workflow_effect const_digest quiet_ctx (sample_submission ''e2'') recovered_db)"
proof -
  have old: "input_authority quiet_ctx = Some (''c1'', 1)" "1 < slot_fence (slot recovered_db)"
    by (simp_all add: quiet_ctx_def recovered_fence)
  show ?thesis by (rule superseded_coordinator_is_refused [OF recovered_reachable rtranclp.rtrancl_refl old, THEN conjunct1])
qed

text \<open>C6: A fence names one coordinator: along any sequence of operations the slot's fence never decreases, and two
  moments with the same fence have the same coordinator.\<close>

lemma fence_names_one_coordinator:
  assumes "reachable digest d" and "(step digest)\<^sup>*\<^sup>* d d'"
  shows "slot_fence (slot d) \<le> slot_fence (slot d')
    \<and> (slot_fence (slot d') \<noteq> slot_fence (slot d) \<or> slot_coordinator (slot d') = slot_coordinator (slot d))"
  using coordination.run_grows [OF assms(2) reachable_ok [OF assms(1)]] coordination.run_holder [OF assms(2) reachable_ok [OF assms(1)]]
  by blast

lemma fence_names_one_coordinator_witness: "slot_fence (slot submitted_db) \<le> slot_fence (slot recovered_db)"
  using fence_names_one_coordinator [OF submitted_reachable r_into_rtranclp [of "step const_digest", OF working_is_step [OF recovered]]] by blast

text \<open>C5: A crash neither blocks the repository nor forgets an attempt: in a reachable state whose lease has expired (revision
  below its maximum, a workflow set, an owner without outer blanks), any coordinator can take the slot in recovery under
  the next fence, changing nothing else, and can then mark the interrupted attempts of any one operation of the workflow.
  Every unresolved effect is still unresolved and that operation's are unknown; every fence is still there, that
  operation's started ones as unknown; and none of the fenced contents and sites admits another attempt.\<close>

lemma crash_is_recoverable:
  assumes "reachable digest d" and "slot_state (slot d) \<noteq> AiEmpty" and "slot_lease_expires_at (slot d) \<le> now"
    and "slot_revision (slot d) < max_int64" and "coordinator \<noteq> []" and "now < expires"
    and "slot_workflow (slot d) \<noteq> []" and "trim_space (slot_owner (slot d)) = slot_owner (slot d)" and "operation \<noteq> []" and "t \<noteq> 0"
    and "input_authority c' = Some (coordinator, slot_fence (slot d) + 1)" and "wall_now c' < expires"
  shows "\<exists>d1 d2. transition_active_input c (slot d) (recovering_from (slot d) coordinator expires) None None now None d = (Inr (), d1)
    \<and> d1 = d\<lparr>slot := recovering_from (slot d) coordinator expires\<rparr>
    \<and> mark_operation_effects_unknown c' (slot_owner (slot d)) (slot_workflow (slot d)) operation t d1 = (Inr (), d2)
    \<and> (\<forall>e\<in>set (effects d). effect_unresolved e \<longrightarrow> (\<exists>e'\<in>set (effects d2). effect_key e' = effect_key e \<and> effect_unresolved e'
        \<and> (operation_of_slot d operation (eff_owner e) (eff_workflow e) (eff_operation e) \<longrightarrow> eff_status e' = EffUnknown)))
    \<and> (\<forall>k f. fence_at d k = Some f \<longrightarrow> fence_status_at d2 k =
          Some (if operation_of_slot d operation (fen_owner f) (fen_workflow f) (fen_operation f) \<and> fen_status f = EffStarted
                then EffUnknown else fen_status f))
    \<and> (\<forall>c'' r a. eff_submission r = Some a \<and> fence_at d (site_key a) \<noteq> None \<longrightarrow>
          snd (begin_release_workflow_effect digest c'' r d2) = d2
          \<and> (\<forall>r'. fst (begin_release_workflow_effect digest c'' r d2) \<noteq> Inr (r', False)))"
proof -
  define d1 where "d1 = d\<lparr>slot := recovering_from (slot d) coordinator expires\<rparr>"
  have ok: "slot_ok (slot d)" using reachable_ok [OF assms(1)] by (simp add: repository_ok_def)
  have taken: "transition_active_input c (slot d) (recovering_from (slot d) coordinator expires) None None now None d = (Inr (), d1)"
    unfolding d1_def using ok assms(2-6) by (rule expired_slot_is_recovered)
  obtain d2 where marked: "mark_operation_effects_unknown c' (slot_owner (slot d)) (slot_workflow (slot d)) operation t d1 = (Inr (), d2)"
    and d2: "d2 = interrupt (\<lambda>f. operation_of_slot d operation (fen_owner f) (fen_workflow f) (fen_operation f))
       (\<lambda>e. operation_of_slot d operation (eff_owner e) (eff_workflow e) (eff_operation e)) t d1"
    using recovered_slot_marks [OF ok assms(2,7-12)] unfolding d1_def by blast
  have fences: "fence_at d2 k = map_option (\<lambda>f. if operation_of_slot d operation (fen_owner f) (fen_workflow f) (fen_operation f)
      \<and> fen_status f = EffStarted then f\<lparr>fen_status := EffUnknown, fen_updated_at := t\<rparr> else f) (fence_at d k)" for k
    by (rule fence_at_update) (simp_all add: d2 d1_def interrupt_def)
  have effects: "effects d2 = update_where (\<lambda>e. operation_of_slot d operation (eff_owner e) (eff_workflow e) (eff_operation e)
      \<and> eff_status e = EffStarted) (settle_effect EffUnknown t t) (effects d)"
    by (simp add: d2 d1_def interrupt_def)
  have "\<exists>e'\<in>set (effects d2). effect_key e' = effect_key e \<and> effect_unresolved e'
        \<and> (operation_of_slot d operation (eff_owner e) (eff_workflow e) (eff_operation e) \<longrightarrow> eff_status e' = EffUnknown)"
    if "e \<in> set (effects d)" "effect_unresolved e" for e
    unfolding effects by (rule settled_still_there [OF that])
  moreover have "fence_status_at d2 k = Some (if operation_of_slot d operation (fen_owner f) (fen_workflow f) (fen_operation f)
      \<and> fen_status f = EffStarted then EffUnknown else fen_status f)" if "fence_at d k = Some f" for k f
    using fences [of k] that by (simp add: fence_status_of)
  moreover have "snd (begin_release_workflow_effect digest c'' r d2) = d2
      \<and> (\<forall>r'. fst (begin_release_workflow_effect digest c'' r d2) \<noteq> Inr (r', False))"
    if "eff_submission r = Some a" "fence_at d (site_key a) \<noteq> None" for c'' r a
    using held_fence_begin [OF that(1), of d2 _ digest c''] fences [of "site_key a"] that(2) by (auto simp: fence_status_of)
  ultimately show ?thesis using taken marked d1_def by blast
qed

lemma crash_is_recoverable_witness:
  "\<exists>d1 d2. transition_active_input quiet_ctx active_slot (recovering_from active_slot ''c2'' 300) None None 200 None
      (sample_db [sample_effect ''e1'' 10] [sample_fence EffStarted]) = (Inr (), d1)
    \<and> mark_operation_effects_unknown (quiet_ctx\<lparr>input_authority := Some (''c2'', 2)\<rparr>) ''owner'' ''w1'' ''op1'' 210 d1 = (Inr (), d2)"
proof -
  let ?d = "sample_db [sample_effect ''e1'' 10] [sample_fence EffStarted]"
  have slot: "slot ?d = active_slot" by (simp add: sample_db_def)
  have fields: "slot_owner active_slot = ''owner''" "slot_workflow active_slot = ''w1''" "trim_space ''owner'' = ''owner''"
    "wall_now quiet_ctx < 300"
    by (simp_all add: active_slot_def empty_slot_def quiet_ctx_def effect_runs)
  show ?thesis
    using crash_is_recoverable [OF submitting_reachable, of 200 "''c2''" 300 "''op1''" 210 "quiet_ctx\<lparr>input_authority := Some (''c2'', 2)\<rparr>" quiet_ctx]
    by (simp add: slot fields active_slot_shape max_int64_def) blast
qed

end
