(* ===== verification/DvdVm.thy ===== *)
theory DvdVm
  imports "HOL-Library.Word" Prelude
begin

text \<open>
  The DVD-Video virtual machine of \<open>internal/dvdvideo/vm/vm.go\<close>: decoding and execution of
  authored eight-byte commands over 16 general and 24 system registers of 16 bits. Go's
  \<open>uint64\<close> instruction and \<open>uint16\<close> registers are words of their width, so arithmetic wraps where
  the code lets it and is clamped where the code clamps it. Registers are mutated in place, also
  by a command that then fails, so every operation returns the registers with its result.

  \<open>Options.Now\<close> and \<open>Options.Random\<close> are functions that may answer differently at every call: the
  environment gives the answer to each call by its number, which the state counts.
\<close>

unbundle bit_operations_syntax

subsection \<open>State\<close>

type_synonym u16 = "16 word"
type_synonym u64 = "64 word"

text \<open>\<open>Command\<close>: eight bytes, read big-endian.\<close>

type_synonym command = "8 word list"

definition big_endian_uint64 :: "command \<Rightarrow> u64" where
  "big_endian_uint64 bs = foldl (\<lambda>acc b. push_bit 8 acc OR ucast b) 0 bs"

datatype link_command = LinkNoLink | LinkTopCell | LinkNextCell | LinkPreviousCell | LinkReserved4 | LinkTopProgram
  | LinkNextProgram | LinkPreviousProgram | LinkReserved8 | LinkTopPGC | LinkNextPGC | LinkPreviousPGC | LinkGoUpPGC
  | LinkTailPGC | LinkReserved14 | LinkReserved15 | LinkResume | LinkPGCN | LinkPTTN | LinkPGN | LinkCN | ExitVM | JumpTT
  | JumpVTSTT | JumpVTSPTT | JumpFirstPlay | JumpVMGMMenu | JumpVTSM | JumpVMGMPGC | CallFirstPlay | CallVMGMMenu
  | CallVTSM | CallVMGMPGC

text \<open>The constants up to \<open>LinkResume\<close> by their value, for the conversion \<open>LinkCommand(op)\<close>.\<close>

definition sub_links :: "link_command list" where
  "sub_links = [LinkNoLink, LinkTopCell, LinkNextCell, LinkPreviousCell, LinkReserved4, LinkTopProgram, LinkNextProgram,
     LinkPreviousProgram, LinkReserved8, LinkTopPGC, LinkNextPGC, LinkPreviousPGC, LinkGoUpPGC, LinkTailPGC,
     LinkReserved14, LinkReserved15, LinkResume]"

record link =
  link_command :: link_command
  link_data1 :: u16
  link_data2 :: u16
  link_data3 :: u16

definition link_to :: "link_command \<Rightarrow> u16 \<Rightarrow> u16 \<Rightarrow> u16 \<Rightarrow> link" where
  "link_to c x y z = \<lparr>link_command = c, link_data1 = x, link_data2 = y, link_data3 = z\<rparr>"

definition no_link :: link where
  "no_link = link_to LinkNoLink 0 0 0"

record registers =
  reg_general :: "u16 list"
  reg_system :: "u16 list"
  reg_counter_mode :: "bool list"
  reg_counter_origin :: "time list"

record vm = registers +
  now_calls :: nat
  random_calls :: nat

record vm_env =
  env_now :: "nat \<Rightarrow> time"
  env_random :: "nat \<Rightarrow> u16 \<Rightarrow> u16"

datatype vm_error = ErrCommandBudget | ErrInvalidCommand

text \<open>Every error of a single command wraps \<open>ErrInvalidCommand\<close>.\<close>

datatype command_error = InvalidCommand

type_synonym 'a vm_op = "vm \<Rightarrow> (command_error + 'a) \<times> vm"

definition vm_return :: "'a \<Rightarrow> 'a vm_op" where
  "vm_return a r = (Inr a, r)"

definition vm_fail :: "'a vm_op" where
  "vm_fail r = (Inl InvalidCommand, r)"

text \<open>\<open>if err != nil { return err }\<close> between two operations.\<close>

definition vm_bind :: "'a vm_op \<Rightarrow> ('a \<Rightarrow> 'b vm_op) \<Rightarrow> 'b vm_op" where
  "vm_bind m f r = (case m r of (Inl e, r') \<Rightarrow> (Inl e, r') | (Inr a, r') \<Rightarrow> f a r')"

definition read_now :: "vm_env \<Rightarrow> vm \<Rightarrow> time \<times> vm" where
  "read_now e r = (env_now e (now_calls r), r\<lparr>now_calls := now_calls r + 1\<rparr>)"

subsection \<open>Fields of an instruction\<close>

text \<open>Bits \<open>start\<close> down to \<open>start + 1 - count\<close>; a shift that would underflow is at least 64.\<close>

definition bits :: "u64 \<Rightarrow> nat \<Rightarrow> nat \<Rightarrow> u64" where
  "bits instruction start count =
     (if count = 0 then 0
      else if start + 1 < count then 0
      else drop_bit (start + 1 - count) instruction AND (push_bit count 1 - 1))"

text \<open>Both conversions panic above 16 bits; every call passes a literal count of at most 16.\<close>

definition bits16 :: "u64 \<Rightarrow> nat \<Rightarrow> nat \<Rightarrow> u16" where
  "bits16 instruction start count = ucast (bits instruction start count)"

definition bits_int :: "u64 \<Rightarrow> nat \<Rightarrow> nat \<Rightarrow> nat" where
  "bits_int instruction start count = unat (bits instruction start count)"

subsection \<open>Registers\<close>

text \<open>\<open>Time.Sub\<close> saturates at the \<open>int64\<close> range; \<open>Duration / time.Second\<close> truncates towards zero.\<close>

definition duration_sub :: "time \<Rightarrow> time \<Rightarrow> int" where
  "duration_sub t u = max (- (2 ^ 63)) (min (2 ^ 63 - 1) (t - u))"

definition whole_seconds :: "int \<Rightarrow> int" where
  "whole_seconds n = (if 0 \<le> n then n div 1000000000 else - ((- n) div 1000000000))"

definition counter_origin :: "vm_env \<Rightarrow> nat \<Rightarrow> vm \<Rightarrow> time \<times> vm" where
  "counter_origin e i r =
     (if reg_counter_origin r ! i = 0
      then (case read_now e r of (t, r') \<Rightarrow> (t, r'\<lparr>reg_counter_origin := (reg_counter_origin r')[i := t]\<rparr>))
      else (reg_counter_origin r ! i, r))"

definition general :: "vm_env \<Rightarrow> u64 \<Rightarrow> u16 vm_op" where
  "general e index r =
     (if index \<ge> 16 then vm_fail r
      else let i = unat index in
        if reg_counter_mode r ! i then
          (case counter_origin e i r of (origin, r1) \<Rightarrow>
             (case read_now e r1 of (t, r2) \<Rightarrow>
                let value = word_of_int (whole_seconds (duration_sub t origin))
                in vm_return value (r2\<lparr>reg_general := (reg_general r2)[i := value]\<rparr>)))
        else vm_return (reg_general r ! i) r)"

definition set_general :: "vm_env \<Rightarrow> u64 \<Rightarrow> u16 \<Rightarrow> unit vm_op" where
  "set_general e index value r =
     (if index \<ge> 16 then vm_fail r
      else let i = unat index;
          r1 = (if reg_counter_mode r ! i
            then (case read_now e r of (t, r') \<Rightarrow>
              r'\<lparr>reg_counter_origin := (reg_counter_origin r')[i := t - int (unat value) * 1000000000]\<rparr>)
            else r)
        in vm_return () (r1\<lparr>reg_general := (reg_general r1)[i := value]\<rparr>))"

definition register :: "vm_env \<Rightarrow> u64 \<Rightarrow> u16 vm_op" where
  "register e code r =
     (if code AND 0x80 \<noteq> 0 then
        (let index = code AND 0x1f in
         if index \<ge> 24 then vm_fail r else vm_return (reg_system r ! unat index) r)
      else general e (code AND 0x0f) r)"

definition register_or_data :: "vm_env \<Rightarrow> u64 \<Rightarrow> nat \<Rightarrow> nat \<Rightarrow> u16 vm_op" where
  "register_or_data e instruction immediate start =
     (if bits instruction immediate 1 \<noteq> 0 then vm_return (bits16 instruction start 16)
      else register e (bits instruction (start - 8) 8))"

definition general_or_data :: "vm_env \<Rightarrow> u64 \<Rightarrow> nat \<Rightarrow> nat \<Rightarrow> u16 vm_op" where
  "general_or_data e instruction immediate start =
     (if bits instruction immediate 1 \<noteq> 0 then vm_return (bits16 instruction (start - 1) 7)
      else general e (bits instruction (start - 4) 4))"

subsection \<open>Conditions\<close>

definition compare_values :: "u64 \<Rightarrow> u16 \<Rightarrow> u16 \<Rightarrow> bool vm_op" where
  "compare_values op left right =
     (if op = 0 then vm_return True
      else if op = 1 then vm_return (left AND right \<noteq> 0)
      else if op = 2 then vm_return (left = right)
      else if op = 3 then vm_return (left \<noteq> right)
      else if op = 4 then vm_return (left \<ge> right)
      else if op = 5 then vm_return (left > right)
      else if op = 6 then vm_return (left \<le> right)
      else if op = 7 then vm_return (left < right)
      else vm_fail)"

definition condition1 :: "vm_env \<Rightarrow> u64 \<Rightarrow> bool vm_op" where
  "condition1 e instruction =
     (let op = bits instruction 54 3 in
      if op = 0 then vm_return True
      else vm_bind (register e (bits instruction 39 8)) (\<lambda>left.
        vm_bind (register_or_data e instruction 55 31) (\<lambda>right. compare_values op left right)))"

definition condition2 :: "vm_env \<Rightarrow> u64 \<Rightarrow> bool vm_op" where
  "condition2 e instruction =
     (let op = bits instruction 54 3 in
      if op = 0 then vm_return True
      else vm_bind (register e (bits instruction 15 8)) (\<lambda>left.
        vm_bind (register e (bits instruction 7 8)) (\<lambda>right. compare_values op left right)))"

definition condition3 :: "vm_env \<Rightarrow> u64 \<Rightarrow> bool vm_op" where
  "condition3 e instruction =
     (let op = bits instruction 54 3 in
      if op = 0 then vm_return True
      else vm_bind (register e (bits instruction 47 8)) (\<lambda>left.
        vm_bind (register_or_data e instruction 55 15) (\<lambda>right. compare_values op left right)))"

definition condition4 :: "vm_env \<Rightarrow> u64 \<Rightarrow> bool vm_op" where
  "condition4 e instruction =
     (let op = bits instruction 54 3 in
      if op = 0 then vm_return True
      else vm_bind (register e (bits instruction 51 4)) (\<lambda>left.
        vm_bind (register_or_data e instruction 55 31) (\<lambda>right. compare_values op left right)))"

subsection \<open>Transitions\<close>

definition link_subinstruction :: "u64 \<Rightarrow> link \<times> bool" where
  "link_subinstruction instruction =
     (let op = bits instruction 4 5 in
      if op > 16 then (no_link, False)
      else (link_to (sub_links ! unat op) (bits16 instruction 15 6) 0 0, op \<noteq> 0))"

definition link_instruction :: "u64 \<Rightarrow> link \<times> bool" where
  "link_instruction instruction =
     (let op = bits instruction 51 4 in
      if op = 1 then link_subinstruction instruction
      else if op = 4 then (link_to LinkPGCN (bits16 instruction 14 15) 0 0, True)
      else if op = 5 then (link_to LinkPTTN (bits16 instruction 9 10) (bits16 instruction 15 6) 0, True)
      else if op = 6 then (link_to LinkPGN (bits16 instruction 6 7) (bits16 instruction 15 6) 0, True)
      else if op = 7 then (link_to LinkCN (bits16 instruction 7 8) (bits16 instruction 15 6) 0, True)
      else (no_link, False))"

definition jump_instruction :: "u64 \<Rightarrow> link \<times> bool" where
  "jump_instruction instruction =
     (let op = bits instruction 51 4; target = bits instruction 23 2 in
      if op = 1 then (link_to ExitVM 0 0 0, True)
      else if op = 2 then (link_to JumpTT (bits16 instruction 22 7) 0 0, True)
      else if op = 3 then (link_to JumpVTSTT (bits16 instruction 22 7) 0 0, True)
      else if op = 5 then (link_to JumpVTSPTT (bits16 instruction 22 7) (bits16 instruction 41 10) 0, True)
      else if op = 6 then
        (if target = 0 then (link_to JumpFirstPlay 0 0 0, True)
         else if target = 1 then (link_to JumpVMGMMenu (bits16 instruction 19 4) 0 0, True)
         else if target = 2 then
           (link_to JumpVTSM (bits16 instruction 31 8) (bits16 instruction 39 8) (bits16 instruction 19 4), True)
         else if target = 3 then (link_to JumpVMGMPGC (bits16 instruction 46 15) 0 0, True)
         else (no_link, False))
      else if op = 8 then
        (let resume = bits16 instruction 31 8 in
         if target = 0 then (link_to CallFirstPlay resume 0 0, True)
         else if target = 1 then (link_to CallVMGMMenu (bits16 instruction 19 4) resume 0, True)
         else if target = 2 then (link_to CallVTSM (bits16 instruction 19 4) resume 0, True)
         else if target = 3 then (link_to CallVMGMPGC (bits16 instruction 46 15) resume 0, True)
         else (no_link, False))
      else (no_link, False))"

subsection \<open>Setting registers\<close>

definition bounded_uint16 :: "32 word \<Rightarrow> u16" where
  "bounded_uint16 value = ucast value"

text \<open>\<open>e.random\<close> is called before the bound is looked at; its answer is ignored for a bound of 0.\<close>

definition read_random :: "vm_env \<Rightarrow> u16 \<Rightarrow> vm \<Rightarrow> u16 \<times> vm" where
  "read_random e upper r = (env_random e (random_calls r) upper, r\<lparr>random_calls := random_calls r + 1\<rparr>)"

definition set_operation :: "vm_env \<Rightarrow> u64 \<Rightarrow> u64 \<Rightarrow> u64 \<Rightarrow> u16 \<Rightarrow> unit vm_op" where
  "set_operation e op reg reg2 data =
     vm_bind (general e reg) (\<lambda>current.
       if op = 1 then set_general e reg data
       else if op = 2 then vm_bind (set_general e reg2 current) (\<lambda>_. set_general e reg data)
       else if op = 3 then set_general e reg (bounded_uint16 (min (ucast current + ucast data) 0xffff))
       else if op = 4 then (if data > current then set_general e reg 0 else set_general e reg (current - data))
       else if op = 5 then set_general e reg (bounded_uint16 (min (ucast current * ucast data) 0xffff))
       else if op = 6 then (if data = 0 then set_general e reg 0xffff else set_general e reg (current div data))
       else if op = 7 then (if data = 0 then set_general e reg 0xffff else set_general e reg (current mod data))
       else if op = 8 then (\<lambda>r. case read_random e data r of (value, r') \<Rightarrow>
         if data = 0 then set_general e reg 1 r'
         else if value = 0 \<or> value > data then vm_fail r'
         else set_general e reg value r')
       else if op = 9 then set_general e reg (current AND data)
       else if op = 10 then set_general e reg (current OR data)
       else if op = 11 then set_general e reg (current XOR data)
       else if op = 0 then vm_return ()
       else vm_fail)"

definition set_version1 :: "vm_env \<Rightarrow> u64 \<Rightarrow> bool \<Rightarrow> unit vm_op" where
  "set_version1 e instruction cond =
     vm_bind (register_or_data e instruction 60 31) (\<lambda>value.
       if \<not> cond then vm_return ()
       else set_operation e (bits instruction 59 4) (bits instruction 35 4) (bits instruction 19 4) value)"

definition set_version2 :: "vm_env \<Rightarrow> u64 \<Rightarrow> bool \<Rightarrow> unit vm_op" where
  "set_version2 e instruction cond =
     vm_bind (register_or_data e instruction 60 47) (\<lambda>value.
       if \<not> cond then vm_return ()
       else set_operation e (bits instruction 59 4) (bits instruction 51 4) (bits instruction 35 4) value)"

definition set_system :: "nat \<Rightarrow> u16 \<Rightarrow> unit vm_op" where
  "set_system index value r = vm_return () (r\<lparr>reg_system := (reg_system r)[index := value]\<rparr>)"

text \<open>The loop over the stream registers 1 to 3.\<close>

fun set_streams :: "vm_env \<Rightarrow> u64 \<Rightarrow> bool \<Rightarrow> nat list \<Rightarrow> unit vm_op" where
  "set_streams e instruction cond [] = vm_return ()"
| "set_streams e instruction cond (index # rest) =
     (if bits instruction (63 - (2 + index) * 8) 1 = 0 then set_streams e instruction cond rest
      else vm_bind (general_or_data e instruction 60 (47 - index * 8)) (\<lambda>value.
        vm_bind (if cond then set_system index value else vm_return ()) (\<lambda>_.
          set_streams e instruction cond rest)))"

definition set_counter_mode :: "nat \<Rightarrow> bool \<Rightarrow> unit vm_op" where
  "set_counter_mode index mode r = vm_return () (r\<lparr>reg_counter_mode := (reg_counter_mode r)[index := mode]\<rparr>)"

definition system_set :: "vm_env \<Rightarrow> u64 \<Rightarrow> bool \<Rightarrow> unit vm_op" where
  "system_set e instruction cond =
     (let op = bits instruction 59 4 in
      if op = 1 then set_streams e instruction cond [1, 2, 3]
      else if op = 2 then
        vm_bind (register_or_data e instruction 60 47) (\<lambda>value.
          if cond then vm_bind (set_system 9 value) (\<lambda>_. set_system 10 (bits16 instruction 23 8)) else vm_return ())
      else if op = 3 then
        vm_bind (register_or_data e instruction 60 47) (\<lambda>value.
          let index = bits instruction 19 4 in
          vm_bind (set_counter_mode (unat index) (bits instruction 23 1 \<noteq> 0)) (\<lambda>_.
            if cond then set_general e index value else vm_return ()))
      else if op = 6 then
        vm_bind (register_or_data e instruction 60 31) (\<lambda>value. if cond then set_system 8 value else vm_return ())
      else if op = 0 then vm_return ()
      else vm_fail)"

subsection \<open>One command\<close>

text \<open>
  The result of a command: the row to go to (0: the next row, 256: break), the link and whether it
  is taken. The branch of \<open>executeCommand\<close> per type code; the seven codes are all there are.
\<close>

type_synonym outcome = "nat \<times> link \<times> bool"

definition execute_special :: "vm_env \<Rightarrow> u64 \<Rightarrow> outcome vm_op" where
  "execute_special e instruction =
     vm_bind (condition1 e instruction) (\<lambda>cond.
       if \<not> cond then vm_return (0, no_link, False)
       else let op = bits instruction 51 4 in
         if op = 0 then vm_return (0, no_link, False)
         else if op = 1 then vm_return (bits_int instruction 7 8, no_link, False)
         else if op = 2 then vm_return (256, no_link, False)
         else if op = 3 then
           vm_bind (set_system 13 (bits16 instruction 11 4)) (\<lambda>_. vm_return (bits_int instruction 7 8, no_link, False))
         else vm_fail)"

definition execute_link_jump :: "vm_env \<Rightarrow> u64 \<Rightarrow> outcome vm_op" where
  "execute_link_jump e instruction =
     (if bits instruction 60 1 \<noteq> 0 then
        vm_bind (condition2 e instruction) (\<lambda>cond.
          case jump_instruction instruction of (target, ok) \<Rightarrow> vm_return (0, target, cond \<and> ok))
      else
        vm_bind (condition1 e instruction) (\<lambda>cond.
          case link_instruction instruction of (target, ok) \<Rightarrow> vm_return (0, target, cond \<and> ok)))"

definition linked_set :: "u64 \<Rightarrow> bool \<Rightarrow> outcome vm_op" where
  "linked_set instruction cond =
     (if bits instruction 51 4 \<noteq> 0 then
        (case link_instruction instruction of (target, ok) \<Rightarrow> vm_return (0, target, cond \<and> ok))
      else vm_return (0, no_link, False))"

definition execute_system_set :: "vm_env \<Rightarrow> u64 \<Rightarrow> outcome vm_op" where
  "execute_system_set e instruction =
     vm_bind (condition2 e instruction) (\<lambda>cond.
       vm_bind (system_set e instruction cond) (\<lambda>_. linked_set instruction cond))"

definition execute_set :: "vm_env \<Rightarrow> u64 \<Rightarrow> outcome vm_op" where
  "execute_set e instruction =
     vm_bind (condition3 e instruction) (\<lambda>cond.
       vm_bind (set_version1 e instruction cond) (\<lambda>_. linked_set instruction cond))"

definition execute_set_link :: "vm_env \<Rightarrow> u64 \<Rightarrow> u64 \<Rightarrow> outcome vm_op" where
  "execute_set_link e type_code instruction =
     vm_bind (if type_code \<noteq> 4 then condition4 e instruction else vm_return True) (\<lambda>cond.
       vm_bind (set_version2 e instruction cond) (\<lambda>_.
         vm_bind (if type_code = 4 then condition4 e instruction else vm_return cond) (\<lambda>cond.
           case link_subinstruction instruction of (target, ok) \<Rightarrow>
             vm_return (0, target, (if type_code = 6 then True else cond) \<and> ok))))"

definition execute_command :: "vm_env \<Rightarrow> command \<Rightarrow> outcome vm_op" where
  "execute_command e command =
     (let instruction = big_endian_uint64 command; type_code = bits instruction 63 3 in
      if type_code = 0 then execute_special e instruction
      else if type_code = 1 then execute_link_jump e instruction
      else if type_code = 2 then execute_system_set e instruction
      else if type_code = 3 then execute_set e instruction
      else if type_code = 4 \<or> type_code = 5 \<or> type_code = 6 then execute_set_link e type_code instruction
      else vm_fail)"

subsection \<open>A command table\<close>

record vm_result =
  res_link :: link
  res_has_link :: bool
  res_executed :: nat

definition stopped :: "nat \<Rightarrow> vm_result" where
  "stopped n = \<lparr>res_link = no_link, res_has_link = False, res_executed = n\<rparr>"

definition linked :: "link \<Rightarrow> nat \<Rightarrow> vm_result" where
  "linked l n = \<lparr>res_link = l, res_has_link = True, res_executed = n\<rparr>"

text \<open>The loop of \<open>Execute\<close>; nothing in its shape makes it end, a goto may go back.\<close>

partial_function (option) execute_loop ::
    "vm_env \<Rightarrow> command list \<Rightarrow> int \<Rightarrow> nat \<Rightarrow> nat \<Rightarrow> vm \<Rightarrow> ((vm_result \<times> vm_error option) \<times> vm) option" where
  "execute_loop e commands budget row executed r =
     (if row < length commands then
        if int executed \<ge> budget then Some ((stopped executed, Some ErrCommandBudget), r)
        else (case execute_command e (commands ! row) r of
            (Inl _, r') \<Rightarrow> Some ((stopped (executed + 1), Some ErrInvalidCommand), r')
          | (Inr (line, target, has_link), r') \<Rightarrow>
              if has_link then Some ((linked target (executed + 1), None), r')
              else if line > 0 then
                if line = 256 then Some ((stopped (executed + 1), None), r')
                else if line > length commands then Some ((stopped (executed + 1), Some ErrInvalidCommand), r')
                else execute_loop e commands budget (line - 1) (executed + 1) r'
              else execute_loop e commands budget (row + 1) (executed + 1) r')
      else Some ((stopped executed, None), r))"

definition default_command_budget :: int where
  "default_command_budget = 100000"

text \<open>\<open>Options.Random\<close> may be nil: then every draw is 1. Nil registers are \<open>None\<close>.\<close>

definition default_random :: "nat \<Rightarrow> u16 \<Rightarrow> u16" where
  "default_random n upper = 1"

definition effective_budget :: "int \<Rightarrow> int" where
  "effective_budget command_budget = (if command_budget = 0 then default_command_budget else command_budget)"

definition execute ::
    "(nat \<Rightarrow> time) \<Rightarrow> (nat \<Rightarrow> u16 \<Rightarrow> u16) option \<Rightarrow> command list \<Rightarrow> vm option \<Rightarrow> int
      \<Rightarrow> ((vm_result \<times> vm_error option) \<times> vm option) option" where
  "execute now random commands regs command_budget =
     (case regs of
        None \<Rightarrow> Some ((stopped 0, Some ErrInvalidCommand), None)
      | Some r \<Rightarrow>
          if effective_budget command_budget < 0 then Some ((stopped 0, Some ErrInvalidCommand), Some r)
          else let e = \<lparr>env_now = now, env_random = (case random of None \<Rightarrow> default_random | Some f \<Rightarrow> f)\<rparr> in
            map_option (\<lambda>(out, r'). (out, Some r')) (execute_loop e commands (effective_budget command_budget) 0 0 r))"

end
