(* ===== verification/DvdVmProps.thy ===== *)
theory DvdVmProps
  imports DvdVm
begin

text \<open>
  Properties of the DVD virtual machine: execution ends within the command budget, the register
  file keeps its shape, links fit their authored fields, the arithmetic of the set operations,
  counter registers, and which commands fail.
\<close>

unbundle bit_operations_syntax

subsection \<open>Fields\<close>

lemma bits_take: "start + 1 \<ge> count \<Longrightarrow> bits i start count = take_bit count (drop_bit (start + 1 - count) i)"
  by (simp add: bits_def take_bit_eq_mask mask_eq_exp_minus_1)

lemma bits_less: "unat (bits i start count) < 2 ^ count"
proof (cases "start + 1 < count")
  case True
  then show ?thesis by (simp add: bits_def)
next
  case False
  then show ?thesis by (simp add: bits_take unsigned_take_bit_eq take_bit_nat_less_exp)
qed

lemma unat_bits16 [simp]: "count \<le> 16 \<Longrightarrow> unat (bits16 i start count) = unat (bits i start count)"
proof -
  assume "count \<le> 16"
  then have "unat (bits i start count) < 2 ^ 16" using bits_less [of i start count] by (meson less_le_trans one_le_numeral power_increasing)
  then show ?thesis by (simp add: bits16_def unsigned_ucast_eq take_bit_nat_eq_self)
qed

lemma bits16_less: "count \<le> 16 \<Longrightarrow> unat (bits16 i start count) < 2 ^ count"
  by (simp add: bits_less)

subsection \<open>What every operation keeps\<close>

definition vm_keeps :: "(vm \<Rightarrow> bool) \<Rightarrow> 'a vm_op \<Rightarrow> bool" where
  "vm_keeps P m \<longleftrightarrow> (\<forall>r. P r \<longrightarrow> P (snd (m r)))"

named_theorems keeps_intros "which operations keep an invariant of the registers"

lemma vm_keepsD: "vm_keeps P m \<Longrightarrow> P r \<Longrightarrow> m r = (a, r') \<Longrightarrow> P r'"
  unfolding vm_keeps_def by (metis snd_conv)

lemma keeps_return [keeps_intros]: "vm_keeps P (vm_return a)"
  by (simp add: vm_keeps_def vm_return_def)

lemma keeps_fail [keeps_intros]: "vm_keeps P vm_fail"
  by (simp add: vm_keeps_def vm_fail_def)

lemma keeps_bind [keeps_intros]: "vm_keeps P m \<Longrightarrow> (\<And>a. vm_keeps P (f a)) \<Longrightarrow> vm_keeps P (vm_bind m f)"
  unfolding vm_keeps_def vm_bind_def by (force split: prod.splits sum.splits)

lemma keeps_if [keeps_intros]: "vm_keeps P m \<Longrightarrow> vm_keeps P n \<Longrightarrow> vm_keeps P (if c then m else n)"
  by simp

lemma keeps_case_prod [keeps_intros]: "(\<And>a b. vm_keeps P (f a b)) \<Longrightarrow> vm_keeps P (case p of (a, b) \<Rightarrow> f a b)"
  by (cases p) simp

text \<open>
  An invariant that does not depend on the call counters and survives writes to the general
  registers, the counters and the seven system registers a command can write.
\<close>

definition written_system :: "nat set" where
  "written_system = {1, 2, 3, 8, 9, 10, 13}"

locale register_invariant =
  fixes P :: "vm \<Rightarrow> bool"
  assumes clock: "P r \<Longrightarrow> P (r\<lparr>now_calls := n\<rparr>)"
    and draw: "P r \<Longrightarrow> P (r\<lparr>random_calls := n\<rparr>)"
    and write_general: "P r \<Longrightarrow> length vs = length (reg_general r) \<Longrightarrow> P (r\<lparr>reg_general := vs\<rparr>)"
    and write_origin: "P r \<Longrightarrow> length ts = length (reg_counter_origin r) \<Longrightarrow> P (r\<lparr>reg_counter_origin := ts\<rparr>)"
    and write_mode: "P r \<Longrightarrow> length ms = length (reg_counter_mode r) \<Longrightarrow> P (r\<lparr>reg_counter_mode := ms\<rparr>)"
    and write_system: "P r \<Longrightarrow> i \<in> written_system \<Longrightarrow> P (r\<lparr>reg_system := (reg_system r)[i := v]\<rparr>)"
begin

lemma keeps_general: "vm_keeps P (general e index)"
proof -
  have "P (snd (general e index r))" if r: "P r" for r
  proof -
    define o1 where "o1 = counter_origin e (unat index) r"
    have "P (snd o1)"
      using r by (simp add: o1_def counter_origin_def read_now_def write_origin clock)
    then show ?thesis
      using r by (cases o1) (simp add: general_def vm_fail_def vm_return_def read_now_def Let_def write_general clock flip: o1_def)
  qed
  then show ?thesis by (simp add: vm_keeps_def)
qed

lemma keeps_set_general: "vm_keeps P (set_general e index v)"
  by (auto simp: vm_keeps_def set_general_def vm_fail_def vm_return_def read_now_def Let_def intro!: write_general write_origin clock)

lemma keeps_set_system: "index \<in> written_system \<Longrightarrow> vm_keeps P (set_system index v)"
  by (simp add: vm_keeps_def set_system_def vm_return_def write_system)

lemma keeps_set_mode: "vm_keeps P (set_counter_mode index m)"
  by (simp add: vm_keeps_def set_counter_mode_def vm_return_def write_mode)

lemma keeps_register: "vm_keeps P (register e code)"
  using keeps_general by (simp add: vm_keeps_def register_def Let_def vm_fail_def vm_return_def)

lemmas reads = keeps_general keeps_set_general keeps_set_mode keeps_register

lemma keeps_operands: "vm_keeps P (register_or_data e i n s)" "vm_keeps P (general_or_data e i n s)"
  unfolding register_or_data_def general_or_data_def by (intro keeps_intros reads)+

lemma keeps_compare: "vm_keeps P (compare_values op x y)"
  unfolding compare_values_def by (intro keeps_intros)

lemma keeps_conditions: "vm_keeps P (condition1 e i)" "vm_keeps P (condition2 e i)" "vm_keeps P (condition3 e i)" "vm_keeps P (condition4 e i)"
  unfolding condition1_def condition2_def condition3_def condition4_def Let_def
  by (intro keeps_intros reads keeps_operands keeps_compare)+

lemma keeps_random: "vm_keeps P (\<lambda>r. case read_random e data r of (value, r') \<Rightarrow>
    if data = 0 then set_general e reg 1 r' else if value = 0 \<or> value > data then vm_fail r' else set_general e reg value r')"
proof -
  have "P (snd (set_general e reg v (r\<lparr>random_calls := n\<rparr>)))" if "P r" for r v n
    using keeps_set_general draw [OF that] by (simp add: vm_keeps_def)
  then show ?thesis by (simp add: vm_keeps_def read_random_def vm_fail_def draw)
qed

lemma keeps_set_operation: "vm_keeps P (set_operation e op reg reg2 data)"
  unfolding set_operation_def by (intro keeps_intros reads keeps_random)

lemma keeps_sets: "vm_keeps P (set_version1 e i c)" "vm_keeps P (set_version2 e i c)"
  unfolding set_version1_def set_version2_def by (intro keeps_intros keeps_operands keeps_set_operation)+

lemma keeps_streams: "set indexes \<subseteq> {1, 2, 3} \<Longrightarrow> vm_keeps P (set_streams e i c indexes)"
proof (induction indexes)
  case (Cons index rest)
  then have "index \<in> written_system" by (auto simp: written_system_def)
  with Cons show ?case by (auto intro!: keeps_intros keeps_operands keeps_set_system)
qed (simp add: keeps_return)

lemma keeps_system_set: "vm_keeps P (system_set e i c)"
  unfolding system_set_def Let_def
  by (intro keeps_intros keeps_operands keeps_streams keeps_set_system reads) (simp_all add: written_system_def)

lemma keeps_execute_command: "vm_keeps P (execute_command e command)"
proof -
  have "vm_keeps P (linked_set i c)" for i c unfolding linked_set_def by (intro keeps_intros)
  moreover have "13 \<in> written_system" by (simp add: written_system_def)
  ultimately show ?thesis
    unfolding execute_command_def Let_def execute_special_def execute_link_jump_def execute_system_set_def execute_set_def
      execute_set_link_def
    by (intro keeps_intros keeps_conditions keeps_sets keeps_system_set keeps_set_system)
qed

end

subsection \<open>The loop\<close>

lemma execute_loop_step:
  assumes "row < length commands" and "int executed < budget"
  shows "execute_loop e commands budget row executed r =
    (case execute_command e (commands ! row) r of
        (Inl _, r') \<Rightarrow> Some ((stopped (executed + 1), Some ErrInvalidCommand), r')
      | (Inr (line, target, has_link), r') \<Rightarrow>
          if has_link then Some ((linked target (executed + 1), None), r')
          else if line > 0 then
            if line = 256 then Some ((stopped (executed + 1), None), r')
            else if line > length commands then Some ((stopped (executed + 1), Some ErrInvalidCommand), r')
            else execute_loop e commands budget (line - 1) (executed + 1) r'
          else execute_loop e commands budget (row + 1) (executed + 1) r')"
  using assms by (subst execute_loop.simps) simp

lemma execute_loop_past: "length commands \<le> row \<Longrightarrow> execute_loop e commands budget row executed r = Some ((stopped executed, None), r)"
  by (subst execute_loop.simps) simp

lemma execute_loop_spent:
  "row < length commands \<Longrightarrow> budget \<le> int executed
     \<Longrightarrow> execute_loop e commands budget row executed r = Some ((stopped executed, Some ErrCommandBudget), r)"
  by (subst execute_loop.simps) simp

text \<open>
  Induction over the commands still allowed: an outcome either stops here, or is the outcome of the
  loop at another row, one command later, on the registers the command left.
\<close>

lemma execute_loop_outcome:
  assumes past: "\<And>executed r. int executed \<le> budget \<Longrightarrow> I r \<Longrightarrow> Q (stopped executed, None) r"
    and spent: "\<And>executed r. int executed = budget \<Longrightarrow> I r \<Longrightarrow> Q (stopped executed, Some ErrCommandBudget) r"
    and failed: "\<And>executed row r err r'. int executed < budget \<Longrightarrow> I r \<Longrightarrow> row < length commands
        \<Longrightarrow> execute_command e (commands ! row) r = (Inl err, r') \<Longrightarrow> Q (stopped (executed + 1), Some ErrInvalidCommand) r'"
    and linked: "\<And>executed row r line target r'. int executed < budget \<Longrightarrow> I r \<Longrightarrow> row < length commands
        \<Longrightarrow> execute_command e (commands ! row) r = (Inr (line, target, True), r') \<Longrightarrow> Q (linked target (executed + 1), None) r'"
    and outside: "\<And>executed row r line target r'. int executed < budget \<Longrightarrow> I r \<Longrightarrow> row < length commands
        \<Longrightarrow> execute_command e (commands ! row) r = (Inr (line, target, False), r') \<Longrightarrow> length commands < line \<Longrightarrow> line \<noteq> 256
        \<Longrightarrow> Q (stopped (executed + 1), Some ErrInvalidCommand) r'"
    and kept: "\<And>row r a r'. I r \<Longrightarrow> row < length commands \<Longrightarrow> execute_command e (commands ! row) r = (a, r') \<Longrightarrow> I r'"
    and start: "I r" "int executed \<le> budget"
  shows "\<exists>out r'. execute_loop e commands budget row executed r = Some (out, r') \<and> Q out r'"
  using start
proof (induction "nat (budget - int executed)" arbitrary: executed row r)
  case 0
  then have "int executed = budget" by simp
  then show ?case
    using 0 past [of executed r] spent [of executed r] execute_loop_past [of commands row] execute_loop_spent [of row commands budget executed]
    by (cases "row < length commands") simp_all
next
  case (Suc n)
  then have more: "int executed < budget" and fuel: "n = nat (budget - int (executed + 1))" "int (executed + 1) \<le> budget" by simp_all
  show ?case
  proof (cases "row < length commands")
    case False
    then show ?thesis using past Suc(3,4) by (simp add: execute_loop_past)
  next
    case True
    obtain a r' where run: "execute_command e (commands ! row) r = (a, r')" by (cases "execute_command e (commands ! row) r")
    have r': "I r'" using kept Suc(3) True run by blast
    note IH = Suc(1) [OF fuel(1) r' fuel(2)]
    show ?thesis
    proof (cases a)
      case (Inl err)
      then show ?thesis using failed [OF more Suc(3) True] run by (simp add: execute_loop_step [OF True more])
    next
      case (Inr out)
      obtain line target has_link where out: "out = (line, target, has_link)" by (cases out)
      have step: "execute_loop e commands budget row executed r =
         (if has_link then Some ((DvdVm.linked target (executed + 1), None), r')
          else if line > 0 then
            if line = 256 then Some ((stopped (executed + 1), None), r')
            else if line > length commands then Some ((stopped (executed + 1), Some ErrInvalidCommand), r')
            else execute_loop e commands budget (line - 1) (executed + 1) r'
          else execute_loop e commands budget (row + 1) (executed + 1) r')"
        by (simp add: execute_loop_step [OF True more] run Inr out)
      have run: "execute_command e (commands ! row) r = (Inr (line, target, has_link), r')" using run Inr out by simp
      consider (link) has_link | (break) "\<not> has_link" "line = 256"
        | (outside) "\<not> has_link" "line \<noteq> 256" "length commands < line" "0 < line"
        | (goto) "\<not> has_link" "line \<noteq> 256" "line \<le> length commands" "0 < line" | (succ) "\<not> has_link" "line = 0"
        by force
      then show ?thesis
      proof cases
        case link
        then show ?thesis using linked [OF more Suc(3) True] run step by simp
      next
        case break
        then show ?thesis using past [OF fuel(2) r'] step by simp
      next
        case outside
        then show ?thesis using assms(5) [OF more Suc(3) True] run step by simp
      next
        case goto
        then show ?thesis using IH [of "line - 1"] step by simp
      next
        case succ
        then show ?thesis using IH [of "row + 1"] step by simp
      qed
    qed
  qed
qed

subsection \<open>Shape and read-only registers\<close>

definition vm_ok :: "vm \<Rightarrow> bool" where
  "vm_ok r \<longleftrightarrow> length (reg_general r) = 16 \<and> length (reg_system r) = 24 \<and> length (reg_counter_mode r) = 16
     \<and> length (reg_counter_origin r) = 16"

definition same_read_only :: "u16 list \<Rightarrow> vm \<Rightarrow> bool" where
  "same_read_only s r \<longleftrightarrow> (\<forall>i. i \<notin> written_system \<longrightarrow> reg_system r ! i = s ! i)"

interpretation shape: register_invariant vm_ok
  by unfold_locales (simp_all add: vm_ok_def)

interpretation read_only: register_invariant "same_read_only s" for s
  by unfold_locales (auto simp: same_read_only_def, metis nth_list_update_neq)

lemma execute_keeps:
  assumes inv: "register_invariant P" and run: "execute now random commands (Some r) budget = Some (out, Some r')" and r: "P r"
  shows "P r'"
proof (cases "effective_budget budget < 0")
  case True
  then show ?thesis using run r by (simp add: execute_def)
next
  case False
  define e where "e = \<lparr>env_now = now, env_random = (case random of None \<Rightarrow> default_random | Some f \<Rightarrow> f)\<rparr>"
  have "\<exists>out r'. execute_loop e commands (effective_budget budget) 0 0 r = Some (out, r') \<and> P r'"
    by (rule execute_loop_outcome [where I = P and Q = "\<lambda>_. P"])
      (use r False vm_keepsD [OF register_invariant.keeps_execute_command [OF inv]] in \<open>auto 0 3\<close>)
  then show ?thesis using run False by (auto simp: execute_def Let_def e_def)
qed

subsection \<open>Links\<close>

text \<open>The widths of the operands of each transition, in bits; the reserved sub-links carry the button field too.\<close>

fun operand_widths :: "link_command \<Rightarrow> nat \<times> nat \<times> nat" where
  "operand_widths LinkNoLink = (0, 0, 0)"
| "operand_widths LinkPGCN = (15, 0, 0)"
| "operand_widths LinkPTTN = (10, 6, 0)"
| "operand_widths LinkPGN = (7, 6, 0)"
| "operand_widths LinkCN = (8, 6, 0)"
| "operand_widths ExitVM = (0, 0, 0)"
| "operand_widths JumpTT = (7, 0, 0)"
| "operand_widths JumpVTSTT = (7, 0, 0)"
| "operand_widths JumpVTSPTT = (7, 10, 0)"
| "operand_widths JumpFirstPlay = (0, 0, 0)"
| "operand_widths JumpVMGMMenu = (4, 0, 0)"
| "operand_widths JumpVTSM = (8, 8, 4)"
| "operand_widths JumpVMGMPGC = (15, 0, 0)"
| "operand_widths CallFirstPlay = (8, 0, 0)"
| "operand_widths CallVMGMMenu = (4, 8, 0)"
| "operand_widths CallVTSM = (4, 8, 0)"
| "operand_widths CallVMGMPGC = (15, 8, 0)"
| "operand_widths _ = (6, 0, 0)"

definition link_fits :: "link \<Rightarrow> bool" where
  "link_fits l \<longleftrightarrow> link_command l \<noteq> LinkNoLink
     \<and> (case operand_widths (link_command l) of (x, y, z) \<Rightarrow>
          unat (link_data1 l) < 2 ^ x \<and> unat (link_data2 l) < 2 ^ y \<and> unat (link_data3 l) < 2 ^ z)"

lemma link_fits_to:
  "link_fits (link_to c x y z) \<longleftrightarrow> c \<noteq> LinkNoLink
     \<and> (case operand_widths c of (a, b, d) \<Rightarrow> unat x < 2 ^ a \<and> unat y < 2 ^ b \<and> unat z < 2 ^ d)"
  by (simp add: link_fits_def link_to_def)

lemma sub_link_fits: "link_subinstruction i = (l, True) \<Longrightarrow> link_fits l"
proof -
  assume run: "link_subinstruction i = (l, True)"
  let ?op = "bits i 4 5"
  have op: "?op \<le> 16" "?op \<noteq> 0" and l: "l = link_to (sub_links ! unat ?op) (bits16 i 15 6) 0 0"
    using run by (auto simp: link_subinstruction_def Let_def split: if_splits)
  then have "unat ?op \<noteq> 0" by (simp add: unat_eq_zero)
  then have "unat ?op \<in> {1..16}" using op(1) by (simp add: word_le_nat_alt)
  then have "sub_links ! unat ?op \<noteq> LinkNoLink \<and> operand_widths (sub_links ! unat ?op) = (6, 0, 0)"
    by (auto simp: sub_links_def atLeastAtMost_iff le_Suc_eq numeral_eq_Suc)
  then show ?thesis using bits_less [of i 15 6] by (simp add: l link_fits_to)
qed

lemma link_instruction_fits: "link_instruction i = (l, True) \<Longrightarrow> link_fits l"
  using bits_less [of i 14 15] bits_less [of i 9 10] bits_less [of i 15 6] bits_less [of i 6 7] bits_less [of i 7 8]
  by (auto simp: link_instruction_def Let_def link_fits_to dest: sub_link_fits split: if_splits)

lemma jump_instruction_fits: "jump_instruction i = (l, True) \<Longrightarrow> link_fits l"
  using bits_less [of i 22 7] bits_less [of i 41 10] bits_less [of i 19 4] bits_less [of i 31 8] bits_less [of i 39 8]
    bits_less [of i 46 15]
  by (auto simp: jump_instruction_def Let_def link_fits_to split: if_splits)

lemma vm_bind_Inr: "vm_bind m f r = (Inr b, r') \<longleftrightarrow> (\<exists>a r1. m r = (Inr a, r1) \<and> f a r1 = (Inr b, r'))"
  by (auto simp: vm_bind_def split: prod.splits sum.splits)

lemma vm_return_Inr: "vm_return a r = (Inr b, r') \<longleftrightarrow> b = a \<and> r' = r"
  by (auto simp: vm_return_def)

lemma linked_set_fits: "linked_set i c r = (Inr (line, l, True), r') \<Longrightarrow> link_fits l"
  by (auto simp: linked_set_def vm_return_Inr dest: link_instruction_fits split: prod.splits if_splits)

lemma command_link_fits:
  assumes "execute_command e command r = (Inr (line, l, True), r')"
  shows "link_fits l"
proof -
  define i where "i = big_endian_uint64 command"
  have "execute_special e i r \<noteq> (Inr (line, l, True), r')"
    by (auto simp: execute_special_def vm_bind_Inr vm_return_Inr Let_def vm_fail_def split: if_splits)
  moreover have "link_fits l" if "execute_link_jump e i r = (Inr (line, l, True), r')"
    using that link_instruction_fits jump_instruction_fits
    by (cases "link_instruction i"; cases "jump_instruction i")
      (auto simp: execute_link_jump_def vm_bind_Inr vm_return_Inr split: if_splits)
  moreover have "link_fits l" if "execute_system_set e i r = (Inr (line, l, True), r') \<or> execute_set e i r = (Inr (line, l, True), r')"
    using that by (auto simp: execute_system_set_def execute_set_def vm_bind_Inr dest: linked_set_fits)
  moreover have "link_fits l" if "execute_set_link e t i r = (Inr (line, l, True), r')" for t
    using that sub_link_fits
    by (cases "link_subinstruction i") (auto simp: execute_set_link_def vm_bind_Inr vm_return_Inr simp del: if_split_asm)
  ultimately show ?thesis
    using assms by (auto simp: execute_command_def Let_def vm_fail_def simp flip: i_def split: if_splits)
qed

subsection \<open>Arithmetic\<close>

text \<open>The set operations on natural numbers; 8 draws a random number and is not among them.\<close>

definition set_reference :: "nat \<Rightarrow> nat \<Rightarrow> nat \<Rightarrow> nat" where
  "set_reference op current data =
     (if op = 1 \<or> op = 2 then data
      else if op = 3 then min (current + data) 65535
      else if op = 4 then current - data
      else if op = 5 then min (current * data) 65535
      else if op = 6 then (if data = 0 then 65535 else current div data)
      else if op = 7 then (if data = 0 then 65535 else current mod data)
      else if op = 9 then current AND data
      else if op = 10 then current OR data
      else if op = 11 then current XOR data
      else current)"

lemma unat_u16_less: "unat (x :: u16) < 65536"
  using unsigned_less [of x, where 'a = nat] by simp

lemma unat_clamp:
  assumes "n < 2 ^ 32" and "unat w = n"
  shows "unat (bounded_uint16 (min w 0xffff)) = min n 65535"
proof -
  have "unat (min w 0xffff) = min n 65535"
    using assms(2) by (simp add: min_def word_le_nat_alt)
  then show ?thesis
    by (simp add: bounded_uint16_def unsigned_ucast_eq take_bit_nat_eq_self)
qed

lemma clamped_sum: "unat (bounded_uint16 (min (ucast (x :: u16) + ucast (y :: u16)) 0xffff)) = min (unat x + unat y) 65535"
proof (rule unat_clamp)
  show "unat (ucast x + ucast y :: 32 word) = unat x + unat y"
    using unat_u16_less [of x] unat_u16_less [of y] by (simp add: unat_word_ariths unsigned_ucast_eq take_bit_nat_eq_self)
qed (use unat_u16_less [of x] unat_u16_less [of y] in simp)

lemma clamped_product: "unat (bounded_uint16 (min (ucast (x :: u16) * ucast (y :: u16)) 0xffff)) = min (unat x * unat y) 65535"
proof (rule unat_clamp)
  have "unat x * unat y \<le> 65535 * 65535"
    using unat_u16_less [of x] unat_u16_less [of y] by (intro mult_le_mono) simp_all
  then show "unat x * unat y < 2 ^ 32" by simp
  then show "unat (ucast x * ucast y :: 32 word) = unat x * unat y"
    using unat_u16_less [of x] unat_u16_less [of y] by (simp add: unat_word_ariths unsigned_ucast_eq take_bit_nat_eq_self)
qed

lemma general_plain: "index < 16 \<Longrightarrow> \<not> reg_counter_mode r ! unat index \<Longrightarrow> general e index r = (Inr (reg_general r ! unat index), r)"
  by (auto simp: general_def vm_return_def)

lemma set_general_plain:
  "index < 16 \<Longrightarrow> \<not> reg_counter_mode r ! unat index
     \<Longrightarrow> set_general e index v r = (Inr (), r\<lparr>reg_general := (reg_general r)[unat index := v]\<rparr>)"
  by (auto simp: set_general_def vm_return_def)

definition set_value :: "u64 \<Rightarrow> u16 \<Rightarrow> u16 \<Rightarrow> u16" where
  "set_value op current data =
     (if op = 1 \<or> op = 2 then data
      else if op = 3 then bounded_uint16 (min (ucast current + ucast data) 0xffff)
      else if op = 4 then (if data > current then 0 else current - data)
      else if op = 5 then bounded_uint16 (min (ucast current * ucast data) 0xffff)
      else if op = 6 then (if data = 0 then 0xffff else current div data)
      else if op = 7 then (if data = 0 then 0xffff else current mod data)
      else if op = 9 then current AND data
      else if op = 10 then current OR data
      else if op = 11 then current XOR data
      else current)"

lemma set_value_reference: "unat (set_value op current data) = set_reference (unat op) (unat current) (unat data)"
proof -
  have op: "op = numeral k \<longleftrightarrow> unat op = unat (numeral k :: u64)" "op = 1 \<longleftrightarrow> unat op = 1" for k
    by (auto simp: word_unat_eq_iff)
  have zero: "data = 0 \<longleftrightarrow> unat data = 0" by (simp add: unat_eq_zero)
  have less: "data > current \<longleftrightarrow> unat data > unat current" by (simp add: word_less_nat_alt)
  show ?thesis
    by (simp add: set_value_def set_reference_def op zero less clamped_sum clamped_product unat_div unat_mod
        unsigned_and_eq unsigned_or_eq unsigned_xor_eq unat_sub word_le_nat_alt)
qed

lemma set_operation_value:
  assumes "op < 12" "op \<noteq> 8" "reg < 16" "reg2 < 16" "\<not> reg_counter_mode r ! unat reg" "\<not> reg_counter_mode r ! unat reg2"
    and ok: "vm_ok r"
  shows "set_operation e op reg reg2 data r = (Inr (), r\<lparr>reg_general :=
    (if op = 2 then (reg_general r)[unat reg2 := reg_general r ! unat reg] else reg_general r)
      [unat reg := set_value op (reg_general r ! unat reg) data]\<rparr>)"
proof -
  have "unat op < 12" using assms(1) by (simp add: word_less_nat_alt)
  then have "unat op \<in> {0, 1, 2, 3, 4, 5, 6, 7, 8, 9, 10, 11}" by (simp, presburger)
  then have "op \<in> {0, 1, 2, 3, 4, 5, 6, 7, 9, 10, 11}" using assms(2) by (simp add: word_unat_eq_iff)
  then show ?thesis
    using assms(3-6)
    by (elim insertE emptyE) (simp_all add: set_operation_def vm_bind_def general_plain set_general_plain set_value_def vm_return_def)
qed

subsection \<open>Counters\<close>

lemma word_seconds: "word_of_int (int (unat v) + int k) = (v + word_of_nat k :: u16)"
  by simp

lemma counter_reads_elapsed:
  assumes "index < 16" and "reg_counter_mode r ! unat index" and ok: "vm_ok r"
    and start: "env_now e (now_calls r) = t" and later: "env_now e (now_calls r + 1) = t + elapsed" and "0 \<le> elapsed"
    and "t \<noteq> int (unat v) * 1000000000" and "elapsed + int (unat v) * 1000000000 < 2 ^ 63"
  shows "\<exists>r1 r2. set_general e index v r = (Inr (), r1) \<and> reg_general r1 ! unat index = v
    \<and> general e index r1 = (Inr (v + word_of_nat (nat (elapsed div 1000000000))), r2)"
proof -
  define i where "i = unat index"
  have i: "i < 16" using assms(1) by (simp add: i_def word_less_nat_alt)
  define r1 where "r1 = r\<lparr>now_calls := now_calls r + 1, reg_counter_origin := (reg_counter_origin r)[i := t - int (unat v) * 1000000000],
      reg_general := (reg_general r)[i := v]\<rparr>"
  have set: "set_general e index v r = (Inr (), r1)"
    using assms(1,2) start by (auto simp: set_general_def read_now_def vm_return_def r1_def i_def Let_def)
  have origin: "counter_origin e i r1 = (t - int (unat v) * 1000000000, r1)"
    using assms(7) i ok by (simp add: counter_origin_def r1_def vm_ok_def)
  have "duration_sub (t + elapsed) (t - n) = elapsed + n" if "0 \<le> n" "elapsed + n < 2 ^ 63" for n
    using assms(6) that by (simp add: duration_sub_def)
  from this [of "int (unat v) * 1000000000"]
  have "duration_sub (t + elapsed) (t - int (unat v) * 1000000000) = elapsed + int (unat v) * 1000000000"
    using assms(8) by simp
  then have "whole_seconds (duration_sub (t + elapsed) (t - int (unat v) * 1000000000)) = int (unat v) + int (nat (elapsed div 1000000000))"
    using assms(6) by (simp add: whole_seconds_def)
  then have "general e index r1 = (Inr (v + word_of_nat (nat (elapsed div 1000000000))),
      (snd (read_now e r1))\<lparr>reg_general := (reg_general r1)[i := v + word_of_nat (nat (elapsed div 1000000000))]\<rparr>)"
    using assms(1,2) later origin
    by (auto simp: general_def i_def [symmetric] Let_def read_now_def vm_return_def word_seconds r1_def)
  moreover have "reg_general r1 ! unat index = v" using i ok by (simp add: r1_def i_def [symmetric] vm_ok_def)
  ultimately show ?thesis using set by blast
qed

subsection \<open>Commands that cannot fail\<close>

text \<open>An operand names an existing register: any general register, or a system register below 24.\<close>

definition operand_ok :: "u64 \<Rightarrow> bool" where
  "operand_ok code \<longleftrightarrow> code AND 0x80 = 0 \<or> code AND 0x1f < 24"

definition data_ok :: "u64 \<Rightarrow> nat \<Rightarrow> nat \<Rightarrow> bool" where
  "data_ok i immediate start \<longleftrightarrow> bits i immediate 1 \<noteq> 0 \<or> operand_ok (bits i (start - 8) 8)"

definition compares :: "u64 \<Rightarrow> bool" where
  "compares i \<longleftrightarrow> bits i 54 3 \<noteq> 0"

text \<open>The instructions that name only existing registers and operation codes that are assigned.\<close>

definition well_formed :: "u64 \<Rightarrow> bool" where
  "well_formed i \<longleftrightarrow>
     (let t = bits i 63 3 in
      (t = 0 \<or> t = 1 \<and> bits i 60 1 = 0 \<longrightarrow> compares i \<longrightarrow> operand_ok (bits i 39 8) \<and> data_ok i 55 31)
      \<and> (t = 0 \<longrightarrow> bits i 51 4 < 4)
      \<and> (t = 1 \<and> bits i 60 1 \<noteq> 0 \<or> t = 2 \<longrightarrow> compares i \<longrightarrow> operand_ok (bits i 15 8) \<and> operand_ok (bits i 7 8))
      \<and> (t = 2 \<longrightarrow> bits i 59 4 \<in> {0, 1, 2, 3, 6}
           \<and> (bits i 59 4 \<in> {2, 3} \<longrightarrow> data_ok i 60 47) \<and> (bits i 59 4 = 6 \<longrightarrow> data_ok i 60 31))
      \<and> (t = 3 \<longrightarrow> (compares i \<longrightarrow> operand_ok (bits i 47 8) \<and> data_ok i 55 15) \<and> data_ok i 60 31 \<and> bits i 59 4 < 12)
      \<and> (t = 4 \<or> t = 5 \<or> t = 6 \<longrightarrow> (compares i \<longrightarrow> data_ok i 55 31) \<and> data_ok i 60 47 \<and> bits i 59 4 < 12)
      \<and> t \<noteq> 7)"

definition draws_in_range :: "vm_env \<Rightarrow> bool" where
  "draws_in_range e \<longleftrightarrow> (\<forall>n upper. upper \<noteq> 0 \<longrightarrow> env_random e n upper \<noteq> 0 \<and> env_random e n upper \<le> upper)"

definition succeeds :: "'a vm_op \<Rightarrow> bool" where
  "succeeds m \<longleftrightarrow> (\<forall>r. \<not> isl (fst (m r)))"

named_theorems succeeds_intros "operations that succeed"

lemma succeeds_return [succeeds_intros]: "succeeds (vm_return a)"
  by (simp add: succeeds_def vm_return_def)

lemma succeeds_bind [succeeds_intros]: "succeeds m \<Longrightarrow> (\<And>a. succeeds (f a)) \<Longrightarrow> succeeds (vm_bind m f)"
proof -
  assume m: "succeeds m" and f: "\<And>a. succeeds (f a)"
  have "\<not> isl (fst (vm_bind m f r))" for r
  proof (cases "m r")
    case (Pair a r')
    then show ?thesis using m f by (cases a) (auto simp: succeeds_def vm_bind_def dest: spec [of _ r])
  qed
  then show "succeeds (vm_bind m f)" by (simp add: succeeds_def)
qed

lemma succeeds_if [succeeds_intros]: "(c \<Longrightarrow> succeeds m) \<Longrightarrow> (\<not> c \<Longrightarrow> succeeds n) \<Longrightarrow> succeeds (if c then m else n)"
  by simp

lemma succeeds_general: "index < 16 \<Longrightarrow> succeeds (general e index)"
  by (auto simp: succeeds_def general_def vm_return_def Let_def split: prod.splits)

lemma succeeds_set_general: "index < 16 \<Longrightarrow> succeeds (set_general e index v)"
  by (auto simp: succeeds_def set_general_def vm_return_def Let_def)

lemma bits_small: "count \<le> 4 \<Longrightarrow> bits i start count < 16"
proof -
  assume "count \<le> 4"
  then have "(2::nat) ^ count \<le> 2 ^ 4" by (rule power_increasing) simp
  then show ?thesis using bits_less [of i start count] by (simp add: word_less_nat_alt)
qed

lemma nibble: "code AND 0x0f < (16 :: u64)"
proof -
  have "code AND 0x0f = take_bit 4 code" by (simp add: take_bit_eq_mask mask_eq_exp_minus_1)
  moreover have "unat (take_bit 4 code) < 2 ^ 4" unfolding unsigned_take_bit_eq by (rule take_bit_nat_less_exp)
  ultimately show ?thesis by (simp add: word_less_nat_alt)
qed

lemma succeeds_register: "operand_ok code \<Longrightarrow> succeeds (register e code)"
proof -
  assume "operand_ok code"
  then show ?thesis
    using succeeds_general [OF nibble, of e code]
    by (auto simp: succeeds_def register_def Let_def operand_ok_def vm_return_def)
qed

lemma succeeds_data: "data_ok i n s \<Longrightarrow> succeeds (register_or_data e i n s)"
  unfolding register_or_data_def data_ok_def by (intro succeeds_intros succeeds_register) simp

lemma succeeds_compare: "succeeds (compare_values (bits i 54 3) x y)"
proof -
  have "unat (bits i 54 3) < 8" using bits_less [of i 54 3] by simp
  then have "unat (bits i 54 3) \<in> {0, 1, 2, 3, 4, 5, 6, 7}" by (simp, presburger)
  then have "bits i 54 3 \<in> {0, 1, 2, 3, 4, 5, 6, 7}" by (simp add: word_unat_eq_iff)
  then show ?thesis unfolding compare_values_def by (intro succeeds_intros) auto
qed

lemma four_bit_operand: "operand_ok (bits i start 4)"
proof -
  have "bits i start 4 AND 0x80 = 0"
  proof (cases "start + 1 < 4")
    case False
    then have "bits i start 4 = take_bit 4 (drop_bit (start + 1 - 4) i)" by (simp add: bits_take)
    moreover have "take_bit 4 x AND 0x80 = (0 :: u64)" for x :: u64
      by (simp add: take_bit_eq_mask mask_eq_exp_minus_1 and.assoc)
    ultimately show ?thesis by simp
  qed (simp add: bits_def)
  then show ?thesis by (simp add: operand_ok_def)
qed

lemma succeeds_conditions:
  "(compares i \<Longrightarrow> operand_ok (bits i 39 8) \<and> data_ok i 55 31) \<Longrightarrow> succeeds (condition1 e i)"
  "(compares i \<Longrightarrow> operand_ok (bits i 15 8) \<and> operand_ok (bits i 7 8)) \<Longrightarrow> succeeds (condition2 e i)"
  "(compares i \<Longrightarrow> operand_ok (bits i 47 8) \<and> data_ok i 55 15) \<Longrightarrow> succeeds (condition3 e i)"
  "(compares i \<Longrightarrow> data_ok i 55 31) \<Longrightarrow> succeeds (condition4 e i)"
  unfolding condition1_def condition2_def condition3_def condition4_def Let_def compares_def
  by (intro succeeds_intros succeeds_register succeeds_data succeeds_compare four_bit_operand; simp)+

lemma succeeds_random:
  assumes "draws_in_range e" and "reg < 16"
  shows "succeeds (\<lambda>r. case read_random e data r of (value, r') \<Rightarrow>
    if data = 0 then set_general e reg 1 r' else if value = 0 \<or> value > data then vm_fail r' else set_general e reg value r')"
  using succeeds_set_general [OF assms(2)] assms(1)
  by (auto simp: succeeds_def read_random_def draws_in_range_def not_less [symmetric])

lemma succeeds_set_operation:
  assumes "draws_in_range e" "op < 12" "reg < 16" "reg2 < 16"
  shows "succeeds (set_operation e op reg reg2 data)"
proof -
  have "unat op < 12" using assms(2) by (simp add: word_less_nat_alt)
  then have "unat op \<in> {0, 1, 2, 3, 4, 5, 6, 7, 8, 9, 10, 11}" by (simp, presburger)
  then have "op \<in> {0, 1, 2, 3, 4, 5, 6, 7, 8, 9, 10, 11}" by (simp add: word_unat_eq_iff)
  then show ?thesis
    unfolding set_operation_def
    by (intro succeeds_intros succeeds_random succeeds_general succeeds_set_general assms) auto
qed

lemma succeeds_sets:
  assumes "draws_in_range e" "bits i 59 4 < 12"
  shows "data_ok i 60 31 \<Longrightarrow> succeeds (set_version1 e i c)" "data_ok i 60 47 \<Longrightarrow> succeeds (set_version2 e i c)"
  unfolding set_version1_def set_version2_def
  by (intro succeeds_intros succeeds_data succeeds_set_operation assms bits_small; simp)+

lemma succeeds_streams: "set indexes \<subseteq> {1, 2, 3} \<Longrightarrow> succeeds (set_streams e i c indexes)"
proof (induction indexes)
  case (Cons index rest)
  have "succeeds (general_or_data e i 60 (47 - index * 8))"
    unfolding general_or_data_def by (intro succeeds_intros succeeds_general bits_small) simp
  moreover have "succeeds (set_system index v)" for v by (simp add: succeeds_def set_system_def vm_return_def)
  ultimately show ?case using Cons by (auto intro!: succeeds_intros)
qed (simp add: succeeds_return)

lemma succeeds_system_set:
  assumes "bits i 59 4 \<in> {0, 1, 2, 3, 6}" "bits i 59 4 \<in> {2, 3} \<Longrightarrow> data_ok i 60 47" "bits i 59 4 = 6 \<Longrightarrow> data_ok i 60 31"
  shows "succeeds (system_set e i c)"
proof -
  have writes: "succeeds (set_system index v)" "succeeds (set_counter_mode index' m)" for index v index' m
    by (simp_all add: succeeds_def set_system_def set_counter_mode_def vm_return_def)
  show ?thesis
    using assms unfolding system_set_def Let_def
    by (intro succeeds_intros succeeds_data succeeds_streams succeeds_set_general bits_small writes) auto
qed

lemma succeeds_execute_command:
  assumes "well_formed (big_endian_uint64 command)" and draws: "draws_in_range e"
  shows "succeeds (execute_command e command)"
proof -
  define i where "i = big_endian_uint64 command"
  define t where "t = bits i 63 3"
  note wf = assms(1) [unfolded well_formed_def Let_def, folded i_def, folded t_def]
  have "unat t < 8" using bits_less [of i 63 3] by (simp add: t_def)
  then have "unat t \<in> {0, 1, 2, 3, 4, 5, 6, 7}" by (simp, presburger)
  then have t: "t \<in> {0, 1, 2, 3, 4, 5, 6}" using wf by (simp add: word_unat_eq_iff)
  have linked: "succeeds (linked_set i c)" for c
    unfolding linked_set_def by (auto simp: succeeds_def vm_return_def split: prod.splits)
  have "succeeds (execute_special e i)" if "t = 0"
  proof -
    have "unat (bits i 51 4) < 4" using wf that by (simp add: word_less_nat_alt)
    then have "unat (bits i 51 4) \<in> {0, 1, 2, 3}" by (simp, presburger)
    then have "bits i 51 4 \<in> {0, 1, 2, 3}" by (simp add: word_unat_eq_iff)
    then show ?thesis
      using wf that unfolding execute_special_def Let_def
      by (intro succeeds_intros succeeds_conditions) (auto simp: succeeds_def set_system_def vm_return_def)
  qed
  moreover have "succeeds (execute_link_jump e i)" if "t = 1"
    using wf that unfolding execute_link_jump_def
    by (intro succeeds_intros succeeds_conditions) (auto simp: succeeds_def vm_return_def split: prod.splits)
  moreover have "succeeds (execute_system_set e i)" if "t = 2"
    using wf that unfolding execute_system_set_def
    by (intro succeeds_intros succeeds_conditions succeeds_system_set linked) auto
  moreover have "succeeds (execute_set e i)" if "t = 3"
    using wf that draws unfolding execute_set_def by (intro succeeds_intros succeeds_conditions succeeds_sets linked) auto
  moreover have "succeeds (execute_set_link e t i)" if "t = 4 \<or> t = 5 \<or> t = 6"
    using wf that draws unfolding execute_set_link_def
    by (intro succeeds_intros succeeds_conditions succeeds_sets) (auto simp: succeeds_def vm_return_def split: prod.splits)
  ultimately show ?thesis
    using t unfolding execute_command_def Let_def i_def [symmetric] t_def [symmetric] by (intro succeeds_intros) auto
qed

lemma execute_command_line:
  assumes "execute_command e command r = (Inr (line, l, taken), r')"
  shows "line = 0 \<or> line = 256 \<or> line = bits_int (big_endian_uint64 command) 7 8 \<and> bits (big_endian_uint64 command) 63 3 = 0"
proof -
  define i where "i = big_endian_uint64 command"
  have "line = 0 \<or> line = 256 \<or> line = bits_int i 7 8" if "execute_special e i r = (Inr (line, l, taken), r')"
    using that by (auto simp: execute_special_def vm_bind_Inr vm_return_Inr Let_def vm_fail_def split: if_splits)
  moreover have "line = 0" if "execute_link_jump e i r = (Inr (line, l, taken), r')"
    using that by (cases "link_instruction i"; cases "jump_instruction i")
      (auto simp: execute_link_jump_def vm_bind_Inr vm_return_Inr split: if_splits)
  moreover have linked: "line = 0" if "linked_set i c r0 = (Inr (line, l, taken), r')" for c r0
    using that by (auto simp: linked_set_def vm_return_Inr split: prod.splits if_splits)
  moreover have "line = 0" if "execute_system_set e i r = (Inr (line, l, taken), r') \<or> execute_set e i r = (Inr (line, l, taken), r')"
    using that linked by (auto simp: execute_system_set_def execute_set_def vm_bind_Inr)
  moreover have "line = 0" if "execute_set_link e t i r = (Inr (line, l, taken), r')" for t
    using that by (cases "link_subinstruction i") (auto simp: execute_set_link_def vm_bind_Inr vm_return_Inr)
  ultimately show ?thesis
    using assms by (auto simp: execute_command_def Let_def vm_fail_def simp flip: i_def split: if_splits)
qed

subsection \<open>Properties\<close>

definition sample_vm :: vm where
  "sample_vm = \<lparr>reg_general = replicate 16 0, reg_system = replicate 24 0, reg_counter_mode = replicate 16 False,
     reg_counter_origin = replicate 16 0, now_calls = 0, random_calls = 0\<rparr>"

definition goto_self :: command where "goto_self = [0, 1, 0, 0, 0, 0, 0, 1]"
definition add_immediate :: command where "add_immediate = [0x73, 0, 0, 2, 0xff, 0xff, 0, 0]"
definition link_pgc :: command where "link_pgc = [0x20, 4, 0, 0, 0, 0, 0, 5]"

lemma sample_vm_ok: "vm_ok sample_vm"
  by (simp add: vm_ok_def sample_vm_def)

lemma sample_fields [simp]:
  "big_endian_uint64 goto_self = 0x0001000000000001" "big_endian_uint64 add_immediate = 0x73000002ffff0000"
  "big_endian_uint64 link_pgc = 0x2004000000000005"
  by code_simp+

text \<open>C15: Execution always ends: for any command table, registers, clock and draws a budget of \<open>n\<close> commands (100000 when
  none is given) ends it after at most \<open>n\<close> commands, and it reports an exhausted budget only after
  exactly \<open>n\<close> of them, without a transition.\<close>

lemma command_tables_end:
  "\<exists>out regs'. execute now random commands regs budget = Some (out, regs')
    \<and> int (res_executed (fst out)) \<le> max 0 (effective_budget budget)
    \<and> (if snd out = Some ErrCommandBudget then int (res_executed (fst out)) = effective_budget budget \<and> \<not> res_has_link (fst out) else True)"
proof (cases regs)
  case (Some r)
  show ?thesis
  proof (cases "effective_budget budget < 0")
    case False
    define e where "e = \<lparr>env_now = now, env_random = (case random of None \<Rightarrow> default_random | Some f \<Rightarrow> f)\<rparr>"
    let ?Q = "\<lambda>out. int (res_executed (fst out)) \<le> effective_budget budget
      \<and> (snd out = Some ErrCommandBudget \<longrightarrow> int (res_executed (fst out)) = effective_budget budget \<and> \<not> res_has_link (fst out))"
    have "\<exists>out r'. execute_loop e commands (effective_budget budget) 0 0 r = Some (out, r') \<and> ?Q out"
      by (rule execute_loop_outcome [where I = "\<lambda>_. True" and Q = "\<lambda>out _. ?Q out"])
        (use False in \<open>auto simp: stopped_def linked_def\<close>)
    then obtain out r' where "execute_loop e commands (effective_budget budget) 0 0 r = Some (out, r')" "?Q out" by blast
    then show ?thesis
      using Some False by (intro exI [of _ out] exI [of _ "Some r'"]) (simp add: execute_def e_def Let_def)
  qed (simp add: Some execute_def stopped_def)
qed (simp add: execute_def stopped_def)


text \<open>C16: The register file keeps its shape whatever a table executes and however it ends, and of the system registers
  only 1 to 3, 8 to 10 and 13 are ever written.\<close>

lemma registers_keep_shape:
  assumes "execute now random commands (Some r) budget = Some (out, Some r')" and "vm_ok r"
  shows "vm_ok r' \<and> (\<forall>i. i \<in> written_system \<or> reg_system r' ! i = reg_system r ! i)"
proof -
  have "same_read_only (reg_system r) r'"
    by (rule execute_keeps [OF read_only.register_invariant_axioms assms(1)]) (simp add: same_read_only_def)
  moreover have "vm_ok r'" by (rule execute_keeps [OF shape.register_invariant_axioms assms])
  ultimately show ?thesis by (auto simp: same_read_only_def)
qed

definition sample_env :: vm_env where
  "sample_env = \<lparr>env_now = \<lambda>_. 1, env_random = default_random\<rparr>"

lemma sample_commands:
  "execute_command sample_env goto_self sample_vm = (Inr (1, no_link, False), sample_vm)"
  "execute_command sample_env add_immediate sample_vm = (Inr (0, no_link, False), sample_vm\<lparr>reg_general := (replicate 16 0)[2 := 0xffff]\<rparr>)"
  "execute_command sample_env link_pgc (sample_vm\<lparr>reg_general := (replicate 16 0)[2 := 0xffff]\<rparr>)
     = (Inr (0, link_to LinkPGCN 5 0 0, True), sample_vm\<lparr>reg_general := (replicate 16 0)[2 := 0xffff]\<rparr>)"
  by code_simp+

lemma sample_run:
  "execute (\<lambda>_. 1) None [add_immediate, link_pgc] (Some sample_vm) 10
     = Some ((linked (link_to LinkPGCN 5 0 0) 2, None), Some (sample_vm\<lparr>reg_general := (replicate 16 0)[2 := 0xffff]\<rparr>))"
  by (simp add: execute_def effective_budget_def flip: sample_env_def) (simp add: execute_loop_step sample_commands linked_def)

lemma registers_keep_shape_witness: "vm_ok (sample_vm\<lparr>reg_general := (replicate 16 0)[2 := 0xffff]\<rparr>)"
  using registers_keep_shape [OF sample_run sample_vm_ok] by simp

text \<open>C17: A transition always fits its authored fields: a link that execution emits is a real transition, not the empty
  one, and each operand is smaller than the width the instruction gives it.\<close>

lemma emitted_links_fit:
  assumes "execute now random commands regs budget = Some ((res, err), regs')" and "res_has_link res"
  shows "link_fits (res_link res) \<and> err = None"
proof (cases regs)
  case (Some r)
  show ?thesis
  proof (cases "effective_budget budget < 0")
    case False
    define e where "e = \<lparr>env_now = now, env_random = (case random of None \<Rightarrow> default_random | Some f \<Rightarrow> f)\<rparr>"
    let ?Q = "\<lambda>out. res_has_link (fst out) \<longrightarrow> link_fits (res_link (fst out)) \<and> snd out = None"
    have "\<exists>out r'. execute_loop e commands (effective_budget budget) 0 0 r = Some (out, r') \<and> ?Q out"
      by (rule execute_loop_outcome [where I = "\<lambda>_. True" and Q = "\<lambda>out _. ?Q out"])
        (use False command_link_fits in \<open>auto simp: stopped_def linked_def\<close>)
    then show ?thesis using assms Some False by (auto simp: execute_def e_def Let_def)
  qed (use assms Some in \<open>auto simp: execute_def stopped_def\<close>)
qed (use assms in \<open>auto simp: execute_def stopped_def\<close>)

lemma emitted_links_fit_witness: "link_fits (link_to LinkPGCN 5 0 0)"
  using emitted_links_fit [OF sample_run] by (simp add: linked_def)

text \<open>C18: The set operations compute clamped natural arithmetic: on registers that are not counters every operation but the
  random one stores the reference value (a sum or product is capped at 65535, a difference at 0,
  dividing by zero gives 65535), swapping also moves the old value, and nothing else changes.\<close>

lemma set_operations_are_clamped:
  assumes "op < 12" "op \<noteq> 8" "reg < 16" "reg2 < 16" "\<not> reg_counter_mode r ! unat reg" "\<not> reg_counter_mode r ! unat reg2" "vm_ok r"
  shows "\<exists>v. unat v = set_reference (unat op) (unat (reg_general r ! unat reg)) (unat data)
    \<and> set_operation e op reg reg2 data r = (Inr (), r\<lparr>reg_general :=
        (if op = 2 then (reg_general r)[unat reg2 := reg_general r ! unat reg] else reg_general r)[unat reg := v]\<rparr>)"
  using set_operation_value [OF assms] set_value_reference by blast

lemma set_operations_are_clamped_witness:
  "\<exists>v. unat v = set_reference 3 0 7
    \<and> set_operation sample_env 3 2 2 7 sample_vm = (Inr (), sample_vm\<lparr>reg_general := (reg_general sample_vm)[2 := v]\<rparr>)"
  using set_operations_are_clamped [of 3 2 2 sample_vm 7 sample_env] sample_vm_ok by (simp add: sample_vm_def)

text \<open>A counter register counts seconds: a value written to it is read back increased by the whole seconds that have
  passed since, modulo 65536.\<close>

lemma counters_count_seconds:
  assumes "index < 16" and "reg_counter_mode r ! unat index" and "vm_ok r"
    and "env_now e (now_calls r) = t" and "env_now e (now_calls r + 1) = t + elapsed" and "0 \<le> elapsed"
    and "t \<noteq> int (unat v) * 1000000000" and "elapsed + int (unat v) * 1000000000 < 2 ^ 63"
  shows "\<exists>r1 r2. set_general e index v r = (Inr (), r1) \<and> reg_general r1 ! unat index = v
    \<and> general e index r1 = (Inr (v + word_of_nat (nat (elapsed div 1000000000))), r2)"
  using assms by (rule counter_reads_elapsed)

lemma counters_count_seconds_witness:
  "\<exists>r1 r2. set_general \<lparr>env_now = \<lambda>n. 1 + int n * 3500000000, env_random = default_random\<rparr> 2 0xffff
       (sample_vm\<lparr>reg_counter_mode := replicate 16 True\<rparr>) = (Inr (), r1)
     \<and> general \<lparr>env_now = \<lambda>n. 1 + int n * 3500000000, env_random = default_random\<rparr> 2 r1 = (Inr 2, r2)"
proof -
  have wrap: "(65538 :: u16) = 2" by code_simp
  show ?thesis
    using counters_count_seconds [where index = 2 and r = "sample_vm\<lparr>reg_counter_mode := replicate 16 True\<rparr>" and t = 1
        and elapsed = 3500000000 and v = "0xffff" and e = "\<lparr>env_now = \<lambda>n. 1 + int n * 3500000000, env_random = default_random\<rparr>"]
    by (simp add: vm_ok_def sample_vm_def wrap) blast
qed

text \<open>A well-formed table never fails: when its commands name existing registers and assigned operation codes, its
  gotos stay in the table and draws are in range, execution succeeds or exhausts its budget.\<close>

lemma well_formed_tables_succeed:
  assumes "\<forall>command\<in>set commands. well_formed (big_endian_uint64 command)
      \<and> (bits (big_endian_uint64 command) 63 3 = 0 \<longrightarrow> bits_int (big_endian_uint64 command) 7 8 \<le> length commands)"
    and "draws_in_range \<lparr>env_now = now, env_random = draw\<rparr>" and "0 \<le> budget"
    and "execute now (Some draw) commands (Some r) budget = Some ((res, err), regs')"
  shows "err \<in> {None, Some ErrCommandBudget}"
proof -
  define e where "e = \<lparr>env_now = now, env_random = draw\<rparr>"
  have draws: "draws_in_range e" using assms(2) by (simp add: e_def)
  have budget: "0 \<le> effective_budget budget" using assms(3) by (simp add: effective_budget_def default_command_budget_def)
  have fine: "execute_command e (commands ! row) q \<noteq> (Inl x, q')" if "row < length commands" for row q x q'
    using succeeds_execute_command [OF _ draws, of "commands ! row"] assms(1) nth_mem [OF that]
    by (metis succeeds_def fst_conv sum.disc(1))
  have inside: "line \<le> length commands \<or> line = 256"
    if "row < length commands" "execute_command e (commands ! row) q = (Inr (line, l, taken), q')" for row q line l taken q'
    using execute_command_line [OF that(2)] assms(1) nth_mem [OF that(1)] by auto
  have "\<exists>out r'. execute_loop e commands (effective_budget budget) 0 0 r = Some (out, r') \<and> snd out \<in> {None, Some ErrCommandBudget}"
    by (rule execute_loop_outcome [where I = "\<lambda>_. True" and Q = "\<lambda>out _. snd out \<in> {None, Some ErrCommandBudget}"])
      (use budget fine inside in \<open>auto, fastforce+\<close>)
  then show ?thesis using assms(4) budget by (auto simp: execute_def e_def Let_def)
qed

lemma well_formed_tables_succeed_witness:
  "execute (\<lambda>_. 1) (Some default_random) [goto_self] (Some sample_vm) 2 \<noteq> Some ((stopped 1, Some ErrInvalidCommand), Some sample_vm)"
proof
  assume run: "execute (\<lambda>_. 1) (Some default_random) [goto_self] (Some sample_vm) 2 = Some ((stopped 1, Some ErrInvalidCommand), Some sample_vm)"
  have "well_formed 0x0001000000000001" "bits_int 0x0001000000000001 7 8 = 1" by code_simp+
  moreover have "draws_in_range \<lparr>env_now = \<lambda>_. 1, env_random = default_random\<rparr>"
    by (auto simp: draws_in_range_def default_random_def word_le_nat_alt) (metis One_nat_def Suc_leI gr0I unat_eq_zero)
  ultimately show False using well_formed_tables_succeed [OF _ _ _ run] by simp
qed

end
