(* ===== verification/DvdBytes.thy ===== *)
theory DvdBytes
  imports DvdVm
begin

text \<open>
  What the readers of the DVD packages share: Go slices of bytes, \<open>binary.BigEndian\<close>, and results. An
  operation ends with an error of its package, with a run-time panic, or with a value; an index or
  slice out of range is a panic, as in Go, so that reading in bounds is something to prove.
\<close>

subsection \<open>Results\<close>

type_synonym u8 = "8 word"
type_synonym u32 = "32 word"

datatype 'e fault = Failed 'e | Panicked

type_synonym ('e, 'a) go = "'e fault + 'a"

definition go_bind :: "('e, 'a) go \<Rightarrow> ('a \<Rightarrow> ('e, 'b) go) \<Rightarrow> ('e, 'b) go" where
  "go_bind m f = (case m of Inl e \<Rightarrow> Inl e | Inr x \<Rightarrow> f x)"

lemma go_bind_cong [fundef_cong]:
  "m = m' \<Longrightarrow> (\<And>x. m' = Inr x \<Longrightarrow> f x = f' x) \<Longrightarrow> go_bind m f = go_bind m' f'"
  by (cases m') (simp_all add: go_bind_def)

lemma go_bind_simps [simp]:
  "go_bind (Inl e) f = Inl e"
  "go_bind (Inr x) f = f x"
  by (simp_all add: go_bind_def)

lemma go_bind_Inr: "go_bind m f = Inr y \<longleftrightarrow> (\<exists>x. m = Inr x \<and> f x = Inr y)"
  by (cases m) simp_all

lemma go_bind_Inl: "go_bind m f = Inl e \<longleftrightarrow> m = Inl e \<or> (\<exists>x. m = Inr x \<and> f x = Inl e)"
  by (cases m) simp_all

text \<open>A result that is no panic, and whose value, if it is one, has the property.\<close>

definition yields :: "('a \<Rightarrow> bool) \<Rightarrow> ('e, 'a) go \<Rightarrow> bool" where
  "yields P m \<longleftrightarrow> (case m of Inl e \<Rightarrow> e \<noteq> Panicked | Inr x \<Rightarrow> P x)"

lemma yields_simps [simp]:
  "yields P (Inr x) \<longleftrightarrow> P x" "yields P (Inl (Failed e))" "\<not> yields P (Inl Panicked)"
  by (simp_all add: yields_def)

lemma yields_bind: "yields P m \<Longrightarrow> (\<And>x. P x \<Longrightarrow> m = Inr x \<Longrightarrow> yields Q (f x)) \<Longrightarrow> yields Q (go_bind m f)"
  by (cases m) (simp_all add: yields_def)

lemma yields_if: "(b \<Longrightarrow> yields P m) \<Longrightarrow> (\<not> b \<Longrightarrow> yields P n) \<Longrightarrow> yields P (if b then m else n)"
  by simp

lemma yields_mono: "yields P m \<Longrightarrow> (\<And>x. P x \<Longrightarrow> Q x) \<Longrightarrow> yields Q m"
  by (cases m) (simp_all add: yields_def)

lemma yieldsD: "yields P m \<Longrightarrow> m = Inr x \<Longrightarrow> P x"
  by simp

lemma yields_no_panic: "yields P m \<Longrightarrow> m \<noteq> Inl Panicked"
  by auto

subsection \<open>Slices\<close>

text \<open>\<open>xs[i]\<close>, \<open>xs[a:b]\<close> and \<open>xs[i] = v\<close>.\<close>

definition index_at :: "'a list \<Rightarrow> nat \<Rightarrow> ('e, 'a) go" where
  "index_at xs i = (if i < length xs then Inr (xs ! i) else Inl Panicked)"

definition slice_of :: "'a list \<Rightarrow> nat \<Rightarrow> nat \<Rightarrow> ('e, 'a list) go" where
  "slice_of xs a b = (if a \<le> b \<and> b \<le> length xs then Inr (take (b - a) (drop a xs)) else Inl Panicked)"

definition store_at :: "'a list \<Rightarrow> nat \<Rightarrow> 'a \<Rightarrow> ('e, 'a list) go" where
  "store_at xs i v = (if i < length xs then Inr (xs[i := v]) else Inl Panicked)"

lemma index_at_ok [simp]: "i < length xs \<Longrightarrow> index_at xs i = Inr (xs ! i)"
  by (simp add: index_at_def)

lemma slice_of_ok [simp]: "a \<le> b \<Longrightarrow> b \<le> length xs \<Longrightarrow> slice_of xs a b = Inr (take (b - a) (drop a xs))"
  by (simp add: slice_of_def)

lemma store_at_ok [simp]: "i < length xs \<Longrightarrow> store_at xs i v = Inr (xs[i := v])"
  by (simp add: store_at_def)

lemma index_at_Inr: "index_at xs i = Inr x \<longleftrightarrow> i < length xs \<and> x = xs ! i"
  by (auto simp: index_at_def)

lemma slice_of_Inr: "slice_of xs a b = Inr ys \<longleftrightarrow> a \<le> b \<and> b \<le> length xs \<and> ys = take (b - a) (drop a xs)"
  by (auto simp: slice_of_def)

lemma store_at_Inr: "store_at xs i v = Inr ys \<longleftrightarrow> i < length xs \<and> ys = xs[i := v]"
  by (auto simp: store_at_def)

subsection \<open>Big-endian fields\<close>

definition be16 :: "u8 \<Rightarrow> u8 \<Rightarrow> u16" where
  "be16 a b = push_bit 8 (ucast a) OR ucast b"

definition be32 :: "u8 \<Rightarrow> u8 \<Rightarrow> u8 \<Rightarrow> u8 \<Rightarrow> u32" where
  "be32 a b c d = push_bit 24 (ucast a) OR push_bit 16 (ucast b) OR push_bit 8 (ucast c) OR ucast d"

text \<open>\<open>binary.BigEndian.Uint16(xs[i:i+2])\<close> and \<open>Uint32(xs[i:i+4])\<close>.\<close>

definition u16_at :: "u8 list \<Rightarrow> nat \<Rightarrow> ('e, u16) go" where
  "u16_at xs i = (if i + 2 \<le> length xs then Inr (be16 (xs ! i) (xs ! (i + 1))) else Inl Panicked)"

definition u32_at :: "u8 list \<Rightarrow> nat \<Rightarrow> ('e, u32) go" where
  "u32_at xs i = (if i + 4 \<le> length xs
     then Inr (be32 (xs ! i) (xs ! (i + 1)) (xs ! (i + 2)) (xs ! (i + 3))) else Inl Panicked)"

lemma u16_at_ok [simp]: "i + 2 \<le> length xs \<Longrightarrow> u16_at xs i = Inr (be16 (xs ! i) (xs ! (i + 1)))"
  by (simp add: u16_at_def)

lemma u32_at_ok [simp]:
  "i + 4 \<le> length xs \<Longrightarrow> u32_at xs i = Inr (be32 (xs ! i) (xs ! (i + 1)) (xs ! (i + 2)) (xs ! (i + 3)))"
  by (simp add: u32_at_def)

lemma u16_at_Inr: "u16_at xs i = Inr v \<longleftrightarrow> i + 2 \<le> length xs \<and> v = be16 (xs ! i) (xs ! (i + 1))"
  by (auto simp: u16_at_def)

lemma u32_at_Inr:
  "u32_at xs i = Inr v \<longleftrightarrow> i + 4 \<le> length xs \<and> v = be32 (xs ! i) (xs ! (i + 1)) (xs ! (i + 2)) (xs ! (i + 3))"
  by (auto simp: u32_at_def)

lemma unat_byte_less [simp]: "unat (b :: u8) < 256"
  using unsigned_less [of b] by simp

lemma unat_half_less [simp]: "unat (h :: u16) < 65536"
  using unsigned_less [of h] by simp

lemma unat_widened [simp]: "unat (ucast (b :: u8) :: u16) = unat b"
  by (simp add: unsigned_ucast_eq take_bit_nat_eq_self_iff less_trans [OF unat_byte_less])

lemma be16_value: "unat (be16 a b) = unat a * 256 + unat b"
proof -
  have "push_bit 8 (ucast a) AND ucast b = (0 :: u16)"
    by (rule bit_word_eqI) (auto simp: bit_simps dest: bit_imp_le_length)
  then have "be16 a b = push_bit 8 (ucast a) + ucast b"
    by (simp add: be16_def disjunctive_add_eq_or)
  moreover have "unat (push_bit 8 (ucast a) :: u16) = unat a * 256"
    using unat_byte_less [of a]
    by (simp add: push_bit_eq_mult unat_word_ariths)
  ultimately show ?thesis
    using unat_byte_less [of a] unat_byte_less [of b] by (simp add: unat_word_ariths del: unat_byte_less)
qed

lemma be16_inject: "be16 a b = be16 c d \<longleftrightarrow> a = c \<and> b = d"
proof
  assume "be16 a b = be16 c d"
  then have e: "unat a * 256 + unat b = unat c * 256 + unat d" by (metis be16_value)
  have "unat b = (unat a * 256 + unat b) mod 256" "unat d = (unat c * 256 + unat d) mod 256"
    by (simp_all only: mod_mult_self3 mod_less [OF unat_byte_less])
  with e have "unat b = unat d" by metis
  with e have "unat a = unat c" by simp
  with \<open>unat b = unat d\<close> show "a = c \<and> b = d" by (simp add: word_unat_eq_iff)
qed simp

text \<open>The two bytes of a size.\<close>

definition put16 :: "nat \<Rightarrow> u8 list" where
  "put16 n = [word_of_nat (n div 256), word_of_nat (n mod 256)]"

lemma put16_value: "n < 65536 \<Longrightarrow> unat (be16 (put16 n ! 0) (put16 n ! 1)) = n"
  by (simp add: put16_def be16_value unsigned_of_nat take_bit_eq_mod less_mult_imp_div_less)

end
