(* ===== verification/DvdSpu.thy ===== *)
theory DvdSpu
  imports DvdBytes
begin

text \<open>
  DVD subpictures, \<open>internal/dvdvideo/spu/spu.go\<close>: reassembly of fragments into packets, decoding of a
  packet (control blocks, then run-length coded fields of alternate lines) and compositing over a
  frame. Sizes and offsets are naturals (the Go code uses \<open>int\<close> for values below \<open>2 ^ 25\<close>); bytes, dates,
  nibbles and colours are words of their width. The only error is \<open>ErrInvalidSPU\<close>.
\<close>

unbundle bit_operations_syntax

datatype spu_error = ErrInvalidSPU

abbreviation invalid_spu :: "(spu_error, 'a) go" where
  "invalid_spu \<equiv> Inl (Failed ErrInvalidSPU)"

definition max_packet_bytes :: nat where "max_packet_bytes = 65535"
definition max_control_blocks :: nat where "max_control_blocks = 128"
definition max_overlay_width :: nat where "max_overlay_width = 1024"
definition max_overlay_height :: nat where "max_overlay_height = 1024"
definition max_overlay_pixels :: nat where "max_overlay_pixels = 1048576"

subsection \<open>Reassembly\<close>

record spu_packet =
  pkt_stream :: u8
  pkt_data :: "u8 list"

text \<open>The loop of \<open>Push\<close> on one stream's buffer: the packets found, what stays buffered, and whether it
  ended at an impossible size.\<close>

function drain :: "u8 \<Rightarrow> u8 list \<Rightarrow> spu_packet list \<times> u8 list \<times> bool" where
  "drain stream buffer =
     (if length buffer < 2 then ([], buffer, False)
      else let size = unat (be16 (buffer ! 0) (buffer ! 1)) in
        if size < 4 \<or> size > max_packet_bytes then ([], buffer, True)
        else if length buffer < size then ([], buffer, False)
        else case drain stream (drop size buffer) of
          (packets, rest, bad) \<Rightarrow> (\<lparr>pkt_stream = stream, pkt_data = take size buffer\<rparr> # packets, rest, bad))"
  by pat_completeness auto
termination by (relation "measure (\<lambda>(_, buffer). length buffer)") auto

type_synonym reassembler = "u8 list list"

definition new_reassembler :: reassembler where
  "new_reassembler = replicate 32 []"

text \<open>\<open>Push\<close>. On an impossible size the packets completed before it are dropped with the error.\<close>

definition push :: "u8 \<Rightarrow> u8 list \<Rightarrow> reassembler \<Rightarrow> (spu_error, spu_packet list) go \<times> reassembler" where
  "push stream fragment streams =
     (if stream < 0x20 \<or> stream > 0x3f then (invalid_spu, streams)
      else let index = unat (stream - 0x20) in
        if length (streams ! index) + length fragment > max_packet_bytes * 2 then (invalid_spu, streams)
        else case drain stream (streams ! index @ fragment) of
          (packets, rest, bad) \<Rightarrow>
            (if bad then invalid_spu else Inr packets, streams[index := rest]))"

subsection \<open>Control state\<close>

record control_state =
  ctl_menu :: bool
  ctl_started :: bool
  ctl_start_date :: u16
  ctl_end_date :: u16
  ctl_color_map :: "u8 list"
  ctl_alpha :: "u8 list"
  ctl_x1 :: nat
  ctl_y1 :: nat
  ctl_x2 :: nat
  ctl_y2 :: nat
  ctl_offset_even :: int
  ctl_offset_odd :: int

definition initial_control :: control_state where
  "initial_control = \<lparr>ctl_menu = False, ctl_started = False, ctl_start_date = 0, ctl_end_date = 0,
     ctl_color_map = [0, 0, 0, 0], ctl_alpha = [0, 0, 0, 0], ctl_x1 = 0, ctl_y1 = 0, ctl_x2 = 0, ctl_y2 = 0,
     ctl_offset_even = -1, ctl_offset_odd = -1\<rparr>"

text \<open>The four authored nibbles of a color or alpha map, entry 3 first.\<close>

definition authored_map :: "u8 list \<Rightarrow> nat \<Rightarrow> (spu_error, u8 list) go" where
  "authored_map packet position =
     go_bind (index_at packet position) (\<lambda>b0. go_bind (index_at packet (position + 1)) (\<lambda>b1.
       Inr [b1 AND 0x0f, drop_bit 4 b1, b0 AND 0x0f, drop_bit 4 b0]))"

text \<open>Two twelve-bit numbers in three bytes.\<close>

definition authored_pair :: "u8 list \<Rightarrow> nat \<Rightarrow> (spu_error, nat \<times> nat) go" where
  "authored_pair packet position =
     go_bind (index_at packet position) (\<lambda>b0. go_bind (index_at packet (position + 1)) (\<lambda>b1.
       go_bind (index_at packet (position + 2)) (\<lambda>b2.
         Inr (push_bit 4 (unat b0) OR unat (drop_bit 4 b1), push_bit 8 (unat (b1 AND 0x0f)) OR unat b2))))"

text \<open>\<open>parseCommands\<close>; \<open>p\<close> is the position behind the command byte.\<close>

function parse_commands :: "u8 list \<Rightarrow> nat \<Rightarrow> u16 \<Rightarrow> control_state \<Rightarrow> (spu_error, control_state) go" where
  "parse_commands packet position date state =
     (if position < length packet then
        let command = packet ! position; p = position + 1 in
        if command = 0x00 then parse_commands packet p date (state\<lparr>ctl_menu := True\<rparr>)
        else if command = 0x01 then
          parse_commands packet p date (state\<lparr>ctl_started := True, ctl_start_date := date\<rparr>)
        else if command = 0x02 then parse_commands packet p date (state\<lparr>ctl_end_date := date\<rparr>)
        else if command = 0x03 then
          (if p + 2 > length packet then invalid_spu
           else go_bind (authored_map packet p) (\<lambda>entries.
             parse_commands packet (p + 2) date (state\<lparr>ctl_color_map := entries\<rparr>)))
        else if command = 0x04 then
          (if p + 2 > length packet then invalid_spu
           else go_bind (authored_map packet p) (\<lambda>entries.
             parse_commands packet (p + 2) date (state\<lparr>ctl_alpha := entries\<rparr>)))
        else if command = 0x05 then
          (if p + 6 > length packet then invalid_spu
           else go_bind (authored_pair packet p) (\<lambda>(x1, x2). go_bind (authored_pair packet (p + 3)) (\<lambda>(y1, y2).
             parse_commands packet (p + 6) date (state\<lparr>ctl_x1 := x1, ctl_x2 := x2, ctl_y1 := y1, ctl_y2 := y2\<rparr>))))
        else if command = 0x06 then
          (if p + 4 > length packet then invalid_spu
           else go_bind (u16_at packet p) (\<lambda>even. go_bind (u16_at packet (p + 2)) (\<lambda>odd.
             parse_commands packet (p + 4) date
               (state\<lparr>ctl_offset_even := int (unat even), ctl_offset_odd := int (unat odd)\<rparr>))))
        else if command = 0xff then Inr state
        else invalid_spu
      else invalid_spu)"
  by pat_completeness auto
termination by (relation "measure (\<lambda>(packet, position, _, _). length packet - position)") auto

text \<open>The loop over the control blocks; its first argument counts \<open>MaxControlBlocks\<close> down.\<close>

fun control_loop ::
    "nat \<Rightarrow> u8 list \<Rightarrow> nat \<Rightarrow> u16 \<Rightarrow> nat \<Rightarrow> nat list \<Rightarrow> control_state \<Rightarrow> (spu_error, control_state) go" where
  "control_loop 0 packet command_offset date position seen state = Inr state"
| "control_loop (Suc n) packet command_offset date position seen state =
     (if position \<in> set seen then Inr state
      else if position + 4 > length packet then invalid_spu
      else go_bind (u16_at packet position) (\<lambda>block_date. go_bind (u16_at packet (position + 2)) (\<lambda>word.
        let succ = unat word in
        if block_date > date then Inr state
        else go_bind (parse_commands packet (position + 4) block_date state) (\<lambda>state'.
          if succ = position then Inr state'
          else if succ < command_offset \<or> succ \<le> position \<or> succ + 4 > length packet then invalid_spu
          else control_loop n packet command_offset date succ (position # seen) state'))))"

subsection \<open>Run-length decoding\<close>

text \<open>\<open>nibbleReader\<close>: its state is the index of the next nibble.\<close>

definition read_nibble :: "u8 list \<Rightarrow> nat \<Rightarrow> (spu_error, u16 \<times> nat) go" where
  "read_nibble data nibble =
     (if nibble \<ge> length data * 2 then invalid_spu
      else go_bind (index_at data (nibble div 2)) (\<lambda>b.
        Inr (ucast (if nibble mod 2 = 0 then drop_bit 4 b else b AND 0x0f), nibble + 1)))"

text \<open>The values \<open>threshold\<close> takes are listed; the loop ends early at a value that reaches the threshold.\<close>

fun run_value :: "u8 list \<Rightarrow> u16 list \<Rightarrow> u16 \<Rightarrow> nat \<Rightarrow> (spu_error, u16 \<times> nat) go" where
  "run_value data [] value nibble = Inr (value, nibble)"
| "run_value data (threshold # thresholds) value nibble =
     (if value < threshold
      then go_bind (read_nibble data nibble) (\<lambda>(x, nibble'). run_value data thresholds (push_bit 4 value OR x) nibble')
      else Inr (value, nibble))"

definition run_thresholds :: "u16 list" where
  "run_thresholds = [0x01, 0x04, 0x10, 0x40]"

definition read_run :: "u8 list \<Rightarrow> nat \<Rightarrow> (spu_error, nat \<times> u8 \<times> nat) go" where
  "read_run data nibble =
     go_bind (run_value data run_thresholds 0 nibble) (\<lambda>(value, nibble').
       Inr (if value < 4 then 0 else unat (drop_bit 2 value), ucast (value AND 3), nibble'))"

definition align_byte :: "nat \<Rightarrow> nat" where
  "align_byte nibble = (if nibble mod 2 \<noteq> 0 then nibble + 1 else nibble)"

text \<open>The loop over the columns of a run.\<close>

fun write_run :: "'a list \<Rightarrow> nat \<Rightarrow> nat \<Rightarrow> 'a \<Rightarrow> (spu_error, 'a list) go" where
  "write_run pixels i 0 value = Inr pixels"
| "write_run pixels i (Suc n) value = go_bind (store_at pixels i value) (\<lambda>pixels'. write_run pixels' (i + 1) n value)"

function decode_row :: "u8 list \<Rightarrow> nat \<Rightarrow> nat \<Rightarrow> nat \<Rightarrow> u8 list \<Rightarrow> nat \<Rightarrow> (spu_error, u8 list \<times> nat) go" where
  "decode_row data width y x pixels nibble =
     (if x < width then
        go_bind (read_run data nibble) (\<lambda>(run, value, nibble').
          let count = (if run = 0 then width - x else run) in
          if count > width - x then invalid_spu
          else go_bind (write_run pixels (y * width + x) count value) (\<lambda>pixels'.
            decode_row data width y (x + count) pixels' nibble'))
      else Inr (pixels, nibble))"
  by pat_completeness auto
termination by (relation "measure (\<lambda>(_, width, _, x, _). width - x)") (auto split: if_splits)

function decode_rows :: "u8 list \<Rightarrow> nat \<Rightarrow> nat \<Rightarrow> nat \<Rightarrow> u8 list \<Rightarrow> nat \<Rightarrow> (spu_error, u8 list) go" where
  "decode_rows data width height y pixels nibble =
     (if y < height then
        go_bind (decode_row data width y 0 pixels nibble) (\<lambda>(pixels', nibble').
          decode_rows data width height (y + 2) pixels' (align_byte nibble'))
      else Inr pixels)"
  by pat_completeness auto
termination by (relation "measure (\<lambda>(_, _, height, y, _). height - y)") auto

definition decode_field :: "u8 list \<Rightarrow> int \<Rightarrow> nat \<Rightarrow> nat \<Rightarrow> nat \<Rightarrow> u8 list \<Rightarrow> (spu_error, u8 list) go" where
  "decode_field packet offset width height parity pixels =
     (if offset < 4 \<or> offset \<ge> int (length packet) then invalid_spu
      else decode_rows packet width height parity pixels (nat offset * 2))"

subsection \<open>Colours\<close>

record nrgba =
  col_r :: u8
  col_g :: u8
  col_b :: u8
  col_a :: u8

definition bounded_byte :: "u32 \<Rightarrow> (spu_error, u8) go" where
  "bounded_byte value = (if value > 0xff then Inl Panicked else Inr (ucast value))"

text \<open>\<open>color.YCbCrToRGB\<close> of the standard library: 16 fractional bits, saturated at both ends. The
  intermediate \<open>int32\<close> values stay below \<open>2 ^ 25\<close>.\<close>

definition saturate :: "int \<Rightarrow> u8" where
  "saturate n = (if 0 \<le> n \<and> n < 2 ^ 24 then word_of_int (n div 2 ^ 16) else if n < 0 then 0 else 0xff)"

definition ycbcr_to_rgb :: "u8 \<Rightarrow> u8 \<Rightarrow> u8 \<Rightarrow> u8 \<times> u8 \<times> u8" where
  "ycbcr_to_rgb y cb cr =
     (let yy = int (unat y) * 0x10101; cb1 = int (unat cb) - 128; cr1 = int (unat cr) - 128
      in (saturate (yy + 91881 * cr1), saturate (yy - 22554 * cb1 - 46802 * cr1), saturate (yy + 116130 * cb1)))"

definition clut_color :: "u32 \<Rightarrow> u8 \<Rightarrow> (spu_error, nrgba) go" where
  "clut_color value alpha =
     go_bind (bounded_byte (drop_bit 16 value AND 0xff)) (\<lambda>y.
       go_bind (bounded_byte (drop_bit 8 value AND 0xff)) (\<lambda>cr.
         go_bind (bounded_byte (value AND 0xff)) (\<lambda>cb.
           case ycbcr_to_rgb y cb cr of (r, g, b) \<Rightarrow> Inr \<lparr>col_r = r, col_g = g, col_b = b, col_a = alpha\<rparr>)))"

subsection \<open>Decoding a packet\<close>

record rect =
  min_x :: int
  min_y :: int
  max_x :: int
  max_y :: int

text \<open>\<open>image.Rect\<close> orders its corners.\<close>

definition image_rect :: "int \<Rightarrow> int \<Rightarrow> int \<Rightarrow> int \<Rightarrow> rect" where
  "image_rect x0 y0 x1 y1 = \<lparr>min_x = min x0 x1, min_y = min y0 y1, max_x = max x0 x1, max_y = max y0 y1\<rparr>"

record overlay =
  ov_bounds :: rect
  ov_pixels :: "u8 list"
  ov_stride :: nat
  ov_palette :: "nrgba list"
  ov_color_map :: "u8 list"
  ov_alpha :: "u8 list"
  ov_start_date :: u16
  ov_end_date :: u16
  ov_menu :: bool

fun go_map :: "('a \<Rightarrow> ('e, 'b) go) \<Rightarrow> 'a list \<Rightarrow> ('e, 'b list) go" where
  "go_map f [] = Inr []"
| "go_map f (x # xs) = go_bind (f x) (\<lambda>y. go_bind (go_map f xs) (\<lambda>ys. Inr (y # ys)))"

definition palette_entry :: "u32 list \<Rightarrow> control_state \<Rightarrow> nat \<Rightarrow> (spu_error, nrgba) go" where
  "palette_entry clut state i =
     go_bind (index_at (ctl_color_map state) i) (\<lambda>entry. go_bind (index_at clut (unat entry)) (\<lambda>value.
       go_bind (index_at (ctl_alpha state) i) (\<lambda>alpha. clut_color value (alpha * 17))))"

text \<open>The part of \<open>Decode\<close> after the control blocks.\<close>

definition decode_display :: "u8 list \<Rightarrow> u32 list \<Rightarrow> control_state \<Rightarrow> (spu_error, overlay) go" where
  "decode_display packet clut state =
     (if ctl_offset_even state < 0 \<or> ctl_offset_odd state < 0 \<or> ctl_x2 state < ctl_x1 state
         \<or> ctl_y2 state < ctl_y1 state then invalid_spu
      else let width = ctl_x2 state - ctl_x1 state + 1; height = ctl_y2 state - ctl_y1 state + 1 in
        if width \<le> 0 \<or> height \<le> 0 \<or> width > max_overlay_width \<or> height > max_overlay_height
            \<or> width * height > max_overlay_pixels then invalid_spu
        else go_bind (decode_field packet (ctl_offset_even state) width height 0 (replicate (width * height) 0)) (\<lambda>field.
          go_bind (if height > 1 then decode_field packet (ctl_offset_odd state) width height 1 field else Inr field) (\<lambda>pixels.
            go_bind (go_map (palette_entry clut state) [0, 1, 2, 3]) (\<lambda>palette.
              Inr \<lparr>ov_bounds = image_rect (int (ctl_x1 state)) (int (ctl_y1 state))
                     (int (ctl_x2 state) + 1) (int (ctl_y2 state) + 1),
                   ov_pixels = pixels, ov_stride = width, ov_palette = palette, ov_color_map = ctl_color_map state,
                   ov_alpha = ctl_alpha state, ov_start_date = ctl_start_date state,
                   ov_end_date = ctl_end_date state, ov_menu = ctl_menu state\<rparr>))))"

definition decode_packet :: "u8 list \<Rightarrow> u32 list \<Rightarrow> u16 \<Rightarrow> (spu_error, overlay) go" where
  "decode_packet packet clut date =
     (if length packet < 10 then invalid_spu
      else go_bind (u16_at packet 0) (\<lambda>declared. let size = unat declared in
        if size < 4 \<or> size > length packet \<or> size > max_packet_bytes then invalid_spu
        else go_bind (slice_of packet 0 size) (\<lambda>body. go_bind (u16_at body 2) (\<lambda>offset.
          let command_offset = unat offset in
          if command_offset < 4 \<or> command_offset + 4 > length body then invalid_spu
          else go_bind (control_loop max_control_blocks body command_offset date command_offset [] initial_control)
            (decode_display body clut)))))"

subsection \<open>Compositing\<close>

text \<open>An \<open>image.NRGBA\<close>; the frame is the background as \<open>draw.Draw\<close> copied it.\<close>

record frame =
  frame_bounds :: rect
  frame_pixels :: "int \<times> int \<Rightarrow> nrgba"

record highlight =
  hl_bounds :: rect
  hl_palette :: u32

definition in_rect :: "int \<Rightarrow> int \<Rightarrow> rect \<Rightarrow> bool" where
  "in_rect x y r \<longleftrightarrow> min_x r \<le> x \<and> x < max_x r \<and> min_y r \<le> y \<and> y < max_y r"

definition intersect :: "rect \<Rightarrow> rect \<Rightarrow> rect" where
  "intersect r s =
     (let t = \<lparr>min_x = max (min_x r) (min_x s), min_y = max (min_y r) (min_y s),
               max_x = min (max_x r) (max_x s), max_y = min (max_y r) (max_y s)\<rparr>
      in if min_x t \<ge> max_x t \<or> min_y t \<ge> max_y t then \<lparr>min_x = 0, min_y = 0, max_x = 0, max_y = 0\<rparr> else t)"

text \<open>\<open>NRGBAAt\<close> is the zero colour and \<open>SetNRGBA\<close> does nothing outside the image.\<close>

definition nrgba_at :: "frame \<Rightarrow> int \<Rightarrow> int \<Rightarrow> nrgba" where
  "nrgba_at f x y = (if in_rect x y (frame_bounds f) then frame_pixels f (x, y)
     else \<lparr>col_r = 0, col_g = 0, col_b = 0, col_a = 0\<rparr>)"

definition set_nrgba :: "frame \<Rightarrow> int \<Rightarrow> int \<Rightarrow> nrgba \<Rightarrow> frame" where
  "set_nrgba f x y c = (if in_rect x y (frame_bounds f) then f\<lparr>frame_pixels := (frame_pixels f)((x, y) := c)\<rparr> else f)"

definition highlight_entry :: "u32 \<Rightarrow> u8 \<Rightarrow> (spu_error, u8 \<times> u8) go" where
  "highlight_entry palette index =
     (let shift = index * 4 in
      go_bind (bounded_byte (drop_bit (unat shift) palette AND 0x0f)) (\<lambda>alpha.
        go_bind (bounded_byte (drop_bit (unat (16 + shift)) palette AND 0x0f)) (\<lambda>color. Inr (color, alpha))))"

definition blend_channel :: "u32 \<Rightarrow> u32 \<Rightarrow> u32 \<Rightarrow> u8 \<Rightarrow> u8 \<Rightarrow> (spu_error, u8) go" where
  "blend_channel sa da out_a src dst = bounded_byte ((ucast src * sa + ucast dst * da) div out_a)"

definition blend_nrgba :: "frame \<Rightarrow> int \<Rightarrow> int \<Rightarrow> nrgba \<Rightarrow> (spu_error, frame) go" where
  "blend_nrgba target x y source =
     (if col_a source = 0 then Inr target
      else if col_a source = 0xff then Inr (set_nrgba target x y source)
      else let destination = nrgba_at target x y;
          sa = ucast (col_a source);
          da = ucast (col_a destination) * (255 - sa) div 255;
          out_a = sa + da
        in if out_a = 0 then Inr target
        else go_bind (blend_channel sa da out_a (col_r source) (col_r destination)) (\<lambda>r.
          go_bind (blend_channel sa da out_a (col_g source) (col_g destination)) (\<lambda>g.
            go_bind (blend_channel sa da out_a (col_b source) (col_b destination)) (\<lambda>b.
              go_bind (bounded_byte out_a) (\<lambda>a.
                Inr (set_nrgba target x y \<lparr>col_r = r, col_g = g, col_b = b, col_a = a\<rparr>))))))"

fun go_fold :: "('a \<Rightarrow> 's \<Rightarrow> ('e, 's) go) \<Rightarrow> 'a list \<Rightarrow> 's \<Rightarrow> ('e, 's) go" where
  "go_fold f [] s = Inr s"
| "go_fold f (x # xs) s = go_bind (f x s) (go_fold f xs)"

text \<open>The colour the overlay and the highlight give one pixel.\<close>

definition overlay_color :: "overlay \<Rightarrow> u32 list \<Rightarrow> highlight option \<Rightarrow> int \<Rightarrow> int \<Rightarrow> (spu_error, nrgba) go" where
  "overlay_color ov clut high x y =
     (let i = (y - min_y (ov_bounds ov)) * int (ov_stride ov) + x - min_x (ov_bounds ov) in
      go_bind (if i < 0 then Inl Panicked else index_at (ov_pixels ov) (nat i)) (\<lambda>index.
        go_bind (index_at (ov_palette ov) (unat index)) (\<lambda>pixel.
          case high of
            None \<Rightarrow> Inr pixel
          | Some h \<Rightarrow>
              if in_rect x y (hl_bounds h) then
                go_bind (highlight_entry (hl_palette h) index) (\<lambda>(color, alpha).
                  go_bind (index_at clut (unat color)) (\<lambda>value. clut_color value (alpha * 17)))
              else Inr pixel)))"

definition composite_pixel ::
    "overlay \<Rightarrow> u32 list \<Rightarrow> highlight option \<Rightarrow> int \<Rightarrow> int \<Rightarrow> frame \<Rightarrow> (spu_error, frame) go" where
  "composite_pixel ov clut high y x f = go_bind (overlay_color ov clut high x y) (blend_nrgba f x y)"

definition composite :: "frame \<Rightarrow> overlay \<Rightarrow> u32 list \<Rightarrow> highlight option \<Rightarrow> (spu_error, frame) go" where
  "composite background ov clut high =
     (let clip = intersect (ov_bounds ov) (frame_bounds background) in
      go_fold (\<lambda>y. go_fold (composite_pixel ov clut high y) [min_x clip..max_x clip - 1])
        [min_y clip..max_y clip - 1] background)"

end
