(* ===== verification/DvdSpuProps.thy ===== *)
theory DvdSpuProps
  imports DvdSpu
begin

text \<open>
  Properties of the subpicture model: reassembly does not depend on how a stream is cut into
  fragments, decoding never reads or writes out of bounds and gives a complete overlay or an error,
  run-length decoding inverts the standard encoding, and compositing changes exactly the overlay's
  pixels.
\<close>

subsection \<open>Reassembly\<close>

declare drain.simps [simp del]

lemma drain_append:
  assumes "drain stream a = (packets, rest, False)"
  shows "drain stream (a @ b) = (case drain stream (rest @ b) of (packets', rest', bad) \<Rightarrow> (packets @ packets', rest', bad))"
  using assms
proof (induction stream a arbitrary: packets rest rule: drain.induct)
  case (1 stream a)
  define size where "size = unat (be16 (a ! 0) (a ! 1))"
  show ?case
  proof (cases "length a < 2 \<or> size < 4 \<or> size > max_packet_bytes \<or> length a < size")
    case True
    with "1.prems" have "packets = []" "rest = a"
      by (auto simp: drain.simps [of stream a] size_def Let_def split: if_splits)
    then show ?thesis by (simp split: prod.splits)
  next
    case False
    then obtain ps where ps: "drain stream (drop size a) = (ps, rest, False)"
      "packets = \<lparr>pkt_stream = stream, pkt_data = take size a\<rparr> # ps"
      using "1.prems" by (auto simp: drain.simps [of stream a] size_def Let_def split: if_splits prod.splits)
    have ab: "(a @ b) ! 0 = a ! 0" "(a @ b) ! 1 = a ! 1" using False by (auto simp: nth_append)
    have "drain stream (drop size a @ b)
        = (case drain stream (rest @ b) of (packets', rest', bad) \<Rightarrow> (ps @ packets', rest', bad))"
      using "1.IH" [OF _ refl, of ps rest] False ps(1) by (simp add: size_def)
    with False ab ps(2) show ?thesis
      by (subst drain.simps) (simp add: size_def Let_def split: prod.splits)
  qed
qed

lemma drain_prefix_ok:
  assumes "drain stream (a @ b) = (packets, rest, False)"
  obtains ps r where "drain stream a = (ps, r, False)"
proof -
  have "\<not> snd (snd (drain stream a))" using assms
  proof (induction stream a arbitrary: packets rest rule: drain.induct)
    case (1 stream a)
    define size where "size = unat (be16 (a ! 0) (a ! 1))"
    show ?case
    proof (cases "length a < 2")
      case False
      then have ab: "(a @ b) ! 0 = a ! 0" "(a @ b) ! 1 = a ! 1" by (auto simp: nth_append)
      with "1.prems" False have ok: "\<not> (size < 4 \<or> size > max_packet_bytes)"
        by (auto simp: drain.simps [of stream "a @ b"] size_def Let_def split: if_splits)
      show ?thesis
      proof (cases "length a < size")
        case False2: False
        obtain ps where "drain stream (drop size a @ b) = (ps, rest, False)"
          using "1.prems" ab ok False False2
          by (auto simp: drain.simps [of stream "a @ b"] size_def Let_def split: prod.splits)
        then show ?thesis
          using "1.IH" [OF _ refl] ok False False2
          by (subst drain.simps) (simp add: size_def Let_def case_prod_beta)
      qed (use False ok in \<open>simp add: drain.simps [of stream a] size_def Let_def\<close>)
    qed (simp add: drain.simps [of stream a])
  qed
  then show thesis using that by (cases "drain stream a") auto
qed

text \<open>What stays buffered holds no complete packet and is shorter than one.\<close>

lemma drain_rest:
  assumes "drain stream a = (packets, rest, False)"
  shows "drain stream rest = ([], rest, False) \<and> length rest < max_packet_bytes"
  using assms
proof (induction stream a arbitrary: packets rest rule: drain.induct)
  case (1 stream a)
  define size where "size = unat (be16 (a ! 0) (a ! 1))"
  show ?case
  proof (cases "length a < 2 \<or> size < 4 \<or> size > max_packet_bytes \<or> length a < size")
    case True
    with "1.prems" have "packets = []" "rest = a" "length a < max_packet_bytes"
      by (auto simp: drain.simps [of stream a] size_def Let_def max_packet_bytes_def split: if_splits)
    with "1.prems" show ?thesis by simp
  next
    case False
    then obtain ps where "drain stream (drop size a) = (ps, rest, False)"
      using "1.prems" by (auto simp: drain.simps [of stream a] size_def Let_def split: if_splits prod.splits)
    with "1.IH" [OF _ refl, of ps rest] False show ?thesis by (simp add: size_def)
  qed
qed

lemma drain_streams:
  "p \<in> set (fst (drain stream a)) \<Longrightarrow> pkt_stream p = stream"
proof (induction stream a rule: drain.induct)
  case (1 stream a)
  then show ?case
    by (subst (asm) (2) drain.simps) (auto simp: Let_def split: if_splits prod.splits)
qed

text \<open>A packet as it is authored: its first two bytes are its size.\<close>

definition framed :: "u8 list \<Rightarrow> bool" where
  "framed p \<longleftrightarrow> 4 \<le> length p \<and> unat (be16 (p ! 0) (p ! 1)) = length p"

lemma drain_framed:
  "list_all framed ps \<Longrightarrow> drain stream (concat ps) = (map (\<lambda>p. \<lparr>pkt_stream = stream, pkt_data = p\<rparr>) ps, [], False)"
proof (induction ps)
  case (Cons p ps)
  have "length p \<le> max_packet_bytes"
    using Cons.prems unat_half_less [of "be16 (p ! 0) (p ! 1)"] by (simp add: framed_def max_packet_bytes_def)
  with Cons show ?case
    by (subst drain.simps) (auto simp: framed_def nth_append)
qed (simp add: drain.simps)

text \<open>Any sequence of pushes, over all streams; an error ends it.\<close>

fun push_all :: "(u8 \<times> u8 list) list \<Rightarrow> reassembler \<Rightarrow> (spu_error, spu_packet list) go \<times> reassembler" where
  "push_all [] streams = (Inr [], streams)"
| "push_all ((stream, fragment) # pushes) streams =
     (case push stream fragment streams of
        (Inl e, streams') \<Rightarrow> (Inl e, streams')
      | (Inr packets, streams') \<Rightarrow> (case push_all pushes streams' of
          (Inl e, streams'') \<Rightarrow> (Inl e, streams'')
        | (Inr packets', streams'') \<Rightarrow> (Inr (packets @ packets'), streams'')))"

definition sent :: "u8 \<Rightarrow> (u8 \<times> u8 list) list \<Rightarrow> u8 list" where
  "sent stream pushes = concat (map snd (filter (\<lambda>(s, _). s = stream) pushes))"

definition subpicture_stream :: "u8 \<Rightarrow> bool" where
  "subpicture_stream stream \<longleftrightarrow> 0x20 \<le> stream \<and> stream \<le> 0x3f"

definition stream_index :: "u8 \<Rightarrow> nat" where
  "stream_index stream = unat (stream - 0x20)"

lemma stream_index_less: "subpicture_stream stream \<Longrightarrow> stream_index stream < 32"
  unfolding subpicture_stream_def stream_index_def by unat_arith

lemma stream_index_eq:
  "subpicture_stream s \<Longrightarrow> subpicture_stream t \<Longrightarrow> stream_index s = stream_index t \<longleftrightarrow> s = t"
  unfolding subpicture_stream_def stream_index_def by unat_arith

lemma push_all_streams:
  assumes "length streams = 32" and "list_all (\<lambda>(s, fragment). subpicture_stream s \<and> length fragment \<le> 65536) pushes"
    and "\<And>s. subpicture_stream s \<Longrightarrow> drain s (streams ! stream_index s) = ([], streams ! stream_index s, False)
      \<and> length (streams ! stream_index s) < max_packet_bytes
      \<and> drain s (streams ! stream_index s @ sent s pushes) = (packets s, rest s, False)"
  shows "\<exists>found streams'. push_all pushes streams = (Inr found, streams')
    \<and> (\<forall>s. subpicture_stream s \<longrightarrow> filter (\<lambda>p. pkt_stream p = s) found = packets s \<and> streams' ! stream_index s = rest s)
    \<and> length streams' = 32"
  using assms
proof (induction pushes arbitrary: streams packets)
  case Nil
  then have "packets s = [] \<and> streams ! stream_index s = rest s" if "subpicture_stream s" for s
    using Nil.prems(3) [OF that] unfolding sent_def by simp (metis prod.inject)
  with Nil.prems(1) show ?case by simp
next
  case (Cons a pushes)
  obtain s fragment where a: "a = (s, fragment)" by (cases a)
  have s: "subpicture_stream s" and fits: "length fragment \<le> 65536" using Cons.prems(2) by (auto simp: a)
  note ix = stream_index_less [OF s]
  let ?buffer = "streams ! stream_index s"
  have whole: "drain s ((?buffer @ fragment) @ sent s pushes) = (packets s, rest s, False)"
    using Cons.prems(3) [OF s] by (simp add: a sent_def)
  then obtain ps r where now: "drain s (?buffer @ fragment) = (ps, r, False)" by (rule drain_prefix_ok)
  obtain qs where later: "drain s (r @ sent s pushes) = (qs, rest s, False)" "packets s = ps @ qs"
    using whole drain_append [OF now] by (auto split: prod.splits)
  define streams1 where "streams1 = streams[stream_index s := r]"
  have pushed: "push s fragment streams = (Inr ps, streams1)"
    using Cons.prems(3) [OF s] s fits now
    by (auto simp: push_def subpicture_stream_def stream_index_def Let_def max_packet_bytes_def streams1_def)
  define packets1 where "packets1 = packets(s := qs)"
  have ok1: "drain t (streams1 ! stream_index t) = ([], streams1 ! stream_index t, False)
      \<and> length (streams1 ! stream_index t) < max_packet_bytes
      \<and> drain t (streams1 ! stream_index t @ sent t pushes) = (packets1 t, rest t, False)" if t: "subpicture_stream t" for t
  proof (cases "t = s")
    case True
    then show ?thesis using drain_rest [OF now] later ix Cons.prems(1) by (simp add: streams1_def packets1_def)
  next
    case False
    then show ?thesis using Cons.prems(3) [OF t] stream_index_eq [OF t s]
      by (simp add: streams1_def packets1_def a sent_def)
  qed
  have "length streams1 = 32" "list_all (\<lambda>(s, fragment). subpicture_stream s \<and> length fragment \<le> 65536) pushes"
    using Cons.prems(1,2) by (simp_all add: streams1_def)
  from Cons.IH [OF this ok1] obtain found streams' where IH: "push_all pushes streams1 = (Inr found, streams')"
    "\<And>t. subpicture_stream t \<Longrightarrow> filter (\<lambda>p. pkt_stream p = t) found = packets1 t \<and> streams' ! stream_index t = rest t"
    "length streams' = 32"
    by blast
  have ps: "filter (\<lambda>p. pkt_stream p = t) ps = (if t = s then ps else [])" for t
    using drain_streams [of _ s "?buffer @ fragment"] now by (auto simp: filter_id_conv filter_empty_conv)
  have "push_all (a # pushes) streams = (Inr (ps @ found), streams')" by (simp add: a pushed IH(1))
  moreover have "filter (\<lambda>p. pkt_stream p = t) (ps @ found) = packets t \<and> streams' ! stream_index t = rest t"
    if "subpicture_stream t" for t
    using IH(2) [OF that] ps [of t] later(2) by (auto simp: packets1_def split: if_splits)
  ultimately show ?case using IH(3) by blast
qed

lemma stream_index_surj: "i < 32 \<Longrightarrow> \<exists>s. subpicture_stream s \<and> stream_index s = i"
proof (intro exI conjI)
  assume i: "i < 32"
  then have n: "unat (word_of_nat i :: u8) = i" by (simp add: unsigned_of_nat take_bit_nat_eq_self)
  with i show "subpicture_stream (0x20 + word_of_nat i)"
    by (simp add: subpicture_stream_def word_le_nat_alt unat_word_ariths)
  from n i show "stream_index (0x20 + word_of_nat i) = i" unfolding stream_index_def by simp
qed

lemma framed_streams_reassemble:
  assumes "list_all (\<lambda>(s, fragment). subpicture_stream s \<and> length fragment \<le> 65536) pushes"
    and "\<And>s. subpicture_stream s \<Longrightarrow> list_all framed (authored s) \<and> sent s pushes = concat (authored s)"
  shows "\<exists>found. push_all pushes new_reassembler = (Inr found, new_reassembler)
    \<and> (\<forall>s. subpicture_stream s \<longrightarrow>
         filter (\<lambda>p. pkt_stream p = s) found = map (\<lambda>p. \<lparr>pkt_stream = s, pkt_data = p\<rparr>) (authored s))"
proof -
  have "drain s (new_reassembler ! stream_index s) = ([], new_reassembler ! stream_index s, False)
      \<and> length (new_reassembler ! stream_index s) < max_packet_bytes
      \<and> drain s (new_reassembler ! stream_index s @ sent s pushes)
          = (map (\<lambda>p. \<lparr>pkt_stream = s, pkt_data = p\<rparr>) (authored s), [], False)" if "subpicture_stream s" for s
    using assms(2) [OF that] stream_index_less [OF that] drain_framed
    by (simp add: new_reassembler_def drain.simps [of s "[]"] max_packet_bytes_def)
  from push_all_streams [OF _ assms(1) this] obtain found streams' where
    all: "push_all pushes new_reassembler = (Inr found, streams')" "length streams' = 32"
      "\<And>s. subpicture_stream s \<Longrightarrow>
        filter (\<lambda>p. pkt_stream p = s) found = map (\<lambda>p. \<lparr>pkt_stream = s, pkt_data = p\<rparr>) (authored s)
        \<and> streams' ! stream_index s = []"
    by (auto simp: new_reassembler_def)
  have "streams' = new_reassembler"
    by (rule nth_equalityI) (use all(2,3) stream_index_surj in \<open>auto simp: new_reassembler_def\<close>)
  with all show ?thesis by blast
qed

text \<open>C19: Reassembly does not depend on fragmentation: however the streams are cut into fragments of at most 65536 bytes (a PES
  packet carries fewer) and interleaved, if each stream carries a sequence of well-framed packets then no push fails, each
  stream gives back exactly its packets in order, and nothing stays buffered. Larger fragments are left out: with what is
  buffered before them they can reach the reassembly limit, and \<open>Push\<close> then fails.\<close>

lemma reassembly_restores_packets:
  assumes "list_all (\<lambda>(s, fragment). subpicture_stream s \<and> length fragment \<le> 65536) pushes"
    and "\<And>s. subpicture_stream s \<Longrightarrow> list_all framed (authored s) \<and> sent s pushes = concat (authored s)"
  shows "\<exists>found. push_all pushes new_reassembler = (Inr found, new_reassembler)
    \<and> (\<forall>s. subpicture_stream s \<longrightarrow>
         filter (\<lambda>p. pkt_stream p = s) found = map (\<lambda>p. \<lparr>pkt_stream = s, pkt_data = p\<rparr>) (authored s))"
  by (rule framed_streams_reassemble [OF assms])

lemma reassembly_restores_packets_witness:
  "\<exists>found. push_all [(0x20, [0, 4, 7]), (0x3f, [0, 5, 1, 2]), (0x20, [9, 0]), (0x3f, [3]), (0x20, [4, 5, 6])] new_reassembler
      = (Inr found, new_reassembler)
    \<and> filter (\<lambda>p. pkt_stream p = 0x20) found
      = [\<lparr>pkt_stream = 0x20, pkt_data = [0, 4, 7, 9]\<rparr>, \<lparr>pkt_stream = 0x20, pkt_data = [0, 4, 5, 6]\<rparr>]"
proof -
  let ?pushes = "[(0x20, [0, 4, 7]), (0x3f, [0, 5, 1, 2]), (0x20, [9, 0]), (0x3f, [3]), (0x20, [4, 5, 6 :: u8])] :: (u8 \<times> u8 list) list"
  let ?authored = "\<lambda>s :: u8. if s = 0x20 then [[0, 4, 7, 9], [0, 4, 5, 6]] else if s = 0x3f then [[0, 5, 1, 2, 3]] else []"
  have framed: "list_all framed (?authored s)" for s by (simp add: framed_def be16_value)
  have "sent s ?pushes = concat (?authored s)" for s by (simp add: sent_def)
  with framed have "\<exists>found. push_all ?pushes new_reassembler = (Inr found, new_reassembler)
    \<and> (\<forall>s. subpicture_stream s \<longrightarrow> filter (\<lambda>p. pkt_stream p = s) found = map (\<lambda>p. \<lparr>pkt_stream = s, pkt_data = p\<rparr>) (?authored s))"
    by (intro reassembly_restores_packets conjI) (simp_all add: subpicture_stream_def)
  then obtain found where "push_all ?pushes new_reassembler = (Inr found, new_reassembler)"
    "filter (\<lambda>p. pkt_stream p = 0x20) found = map (\<lambda>p. \<lparr>pkt_stream = 0x20, pkt_data = p\<rparr>) (?authored 0x20)"
    by (auto simp: subpicture_stream_def)
  then show ?thesis by (intro exI [of _ found]) simp
qed

lemma drain_bad:
  assumes "drain stream a = (packets, rest, True)"
  shows "drain stream (rest @ b) = ([], rest @ b, True)"
  using assms
proof (induction stream a arbitrary: packets rule: drain.induct)
  case (1 stream a)
  define size where "size = unat (be16 (a ! 0) (a ! 1))"
  show ?case
  proof (cases "size < 4 \<or> size > max_packet_bytes")
    case True
    with "1.prems" have "rest = a" "\<not> length a < 2"
      by (auto simp: drain.simps [of stream a] size_def Let_def split: if_splits)
    moreover from this have "(a @ b) ! 0 = a ! 0" "(a @ b) ! 1 = a ! 1" by (auto simp: nth_append)
    ultimately show ?thesis using True by (subst drain.simps) (simp add: size_def Let_def)
  next
    case False
    with "1.prems" obtain ps where "drain stream (drop size a) = (ps, rest, True)" "\<not> length a < 2" "\<not> length a < size"
      by (auto simp: drain.simps [of stream a] size_def Let_def split: if_splits prod.splits)
    with "1.IH" [OF _ refl, of ps] False show ?thesis by (simp add: size_def)
  qed
qed

text \<open>A stream does not recover from an impossible size: the push that meets one fails, dropping the packets it had
  completed, and so does every later push to that stream, whatever it carries.\<close>

lemma bad_size_stalls_stream:
  assumes "subpicture_stream s" and "length (streams ! stream_index s) + length fragment \<le> max_packet_bytes * 2"
    and "drain s (streams ! stream_index s @ fragment) = (packets, rest, True)" and "length streams = 32"
  shows "push s fragment streams = (invalid_spu, streams[stream_index s := rest])
    \<and> fst (push s fragment' (streams[stream_index s := rest])) = invalid_spu"
  using assms drain_bad [OF assms(3), of fragment'] stream_index_less [OF assms(1)]
  by (auto simp: push_def subpicture_stream_def stream_index_def Let_def)

lemma bad_size_stalls_stream_witness:
  "push 0x20 [0, 4, 7, 7, 0, 3] new_reassembler = (invalid_spu, new_reassembler[stream_index 0x20 := [0, 3]])
    \<and> fst (push 0x20 [0, 4, 7, 7] (new_reassembler[stream_index 0x20 := [0, 3]])) = invalid_spu"
proof -
  have "new_reassembler ! stream_index 0x20 = []" by (simp add: new_reassembler_def stream_index_def)
  moreover have "drain 0x20 [0, 4, 7, 7, 0, 3] = ([\<lparr>pkt_stream = 0x20, pkt_data = [0, 4, 7, 7]\<rparr>], [0, 3], True)"
    by (simp add: drain.simps be16_value max_packet_bytes_def)
  ultimately show ?thesis
    by (intro bad_size_stalls_stream) (simp_all add: subpicture_stream_def max_packet_bytes_def new_reassembler_def)
qed

subsection \<open>Run-length coding\<close>

text \<open>A field as it is authored: a run of \<open>n < 256\<close> pixels of a colour is the number \<open>4 * n + colour\<close> in as
  few nibbles as it takes, the rest of a line is a run of length 0 in four, and a line ends at a byte.\<close>

definition encode_code :: "nat \<Rightarrow> nat list" where
  "encode_code v =
     (if 4 \<le> v \<and> v < 16 then [v]
      else if 16 \<le> v \<and> v < 64 then [v div 16, v mod 16]
      else if 64 \<le> v \<and> v < 256 then [0, v div 16, v mod 16]
      else [0, v div 256, v div 16 mod 16, v mod 16])"

definition nibble_at :: "u8 list \<Rightarrow> nat \<Rightarrow> nat" where
  "nibble_at data n = (if n mod 2 = 0 then unat (data ! (n div 2)) div 16 else unat (data ! (n div 2)) mod 16)"

definition nibbles_from :: "u8 list \<Rightarrow> nat \<Rightarrow> nat list \<Rightarrow> bool" where
  "nibbles_from data n ns \<longleftrightarrow> n + length ns \<le> 2 * length data \<and> (\<forall>i < length ns. nibble_at data (n + i) = ns ! i)"

lemma nibbles_from_simps [simp]:
  "nibbles_from data n [] \<longleftrightarrow> n \<le> 2 * length data"
  "nibbles_from data n (x # ns) \<longleftrightarrow> n < 2 * length data \<and> nibble_at data n = x \<and> nibbles_from data (Suc n) ns"
  unfolding nibbles_from_def by (auto simp: less_Suc_eq_0_disj nth_Cons split: nat.splits)

lemma nibbles_from_append [simp]:
  "nibbles_from data n (xs @ ys) \<longleftrightarrow> nibbles_from data n xs \<and> nibbles_from data (n + length xs) ys"
proof (induction xs arbitrary: n)
  case Nil
  have "nibbles_from data n ys \<Longrightarrow> n \<le> 2 * length data" by (simp add: nibbles_from_def)
  then show ?case by auto
qed simp

lemma low_nibble: "unat (b AND 0x0f) = unat (b :: u8) mod 16"
proof -
  have "b AND 0x0f = take_bit 4 b" by (simp add: take_bit_eq_mask mask_eq_exp_minus_1)
  then show ?thesis by (simp add: take_bit_eq_mod unat_mod_distrib)
qed

lemma high_nibble: "unat (drop_bit 4 (b :: u8)) = unat b div 16"
  by (simp add: drop_bit_eq_div unat_div_distrib)

lemma read_nibble_at:
  "n < 2 * length data \<Longrightarrow> \<exists>x. read_nibble data n = Inr (x, Suc n) \<and> unat x = nibble_at data n"
proof -
  assume "n < 2 * length data"
  then have i: "n div 2 < length data" "\<not> n \<ge> length data * 2" by auto
  then show ?thesis by (simp add: read_nibble_def nibble_at_def low_nibble high_nibble)
qed

lemma shift_in_nibble:
  assumes "unat v < 4096" and "unat x < 16"
  shows "unat (push_bit 4 v OR x :: u16) = unat v * 16 + unat x"
proof -
  have "x = take_bit 4 x"
    using assms(2) by (simp add: word_unat_eq_iff unsigned_take_bit_eq take_bit_nat_eq_self)
  then have bits: "bit x i \<Longrightarrow> i < 4" for i by (metis bit_take_bit_iff)
  have "push_bit 4 v AND x = 0" by (rule bit_word_eqI) (auto simp: bit_simps dest: bits)
  then have "push_bit 4 v OR x = push_bit 4 v + x" by (simp add: disjunctive_add_eq_or)
  moreover have "unat (push_bit 4 v :: u16) = unat v * 16"
    using assms(1) by (simp add: push_bit_eq_mult unat_word_ariths)
  ultimately show ?thesis using assms by (simp add: unat_word_ariths)
qed

lemma nibble_at_less: "nibble_at data n < 16"
proof -
  have "unat (b :: u8) div 16 < 16" for b
    using unat_byte_less [of b] by (simp add: less_mult_imp_div_less)
  then show ?thesis by (simp add: nibble_at_def)
qed

text \<open>The loop of \<open>run\<close> over the nibbles of a code stops behind it.\<close>

lemma run_value_step:
  assumes "n < 2 * length data" and "unat v < 4096"
  shows "\<exists>v'. unat v' = unat v * 16 + nibble_at data n \<and> run_value data (t # ts) v n
    = (if unat v < unat t then run_value data ts v' (Suc n) else Inr (v, n))"
proof -
  from read_nibble_at [OF assms(1)] obtain x where x: "read_nibble data n = Inr (x, Suc n)" "unat x = nibble_at data n"
    by blast
  with nibble_at_less [of data n] assms(2) have "unat (push_bit 4 v OR x) = unat v * 16 + nibble_at data n"
    by (simp add: shift_in_nibble)
  with x(1) show ?thesis by (intro exI [of _ "push_bit 4 v OR x"]) (simp add: word_less_nat_alt)
qed

lemma run_value_stop: "unat v \<ge> unat t \<Longrightarrow> run_value data (t # ts) v n = Inr (v, n)"
  by (simp add: word_less_nat_alt)

lemma read_run_code:
  assumes "nibbles_from data n (encode_code v)" and "v < 1024"
  shows "\<exists>c. read_run data n = Inr (if v < 4 then 0 else v div 4, c, n + length (encode_code v)) \<and> unat c = v mod 4"
proof -
  have "\<exists>w. run_value data run_thresholds 0 n = Inr (w, n + length (encode_code v)) \<and> unat w = v"
  proof -
    have first: "n < 2 * length data" using assms(1) by (auto simp: encode_code_def split: if_splits)
    obtain v1 where v1: "unat v1 = nibble_at data n"
      "run_value data run_thresholds 0 n = run_value data [4, 0x10, 0x40] v1 (Suc n)"
      using run_value_step [OF first, of 0 1 "[4, 0x10, 0x40]"] by (auto simp: run_thresholds_def)
    consider (one) "4 \<le> v" "v < 16" | (two) "16 \<le> v" "v < 64" | (three) "64 \<le> v" "v < 256"
      | (four) "\<not> (4 \<le> v \<and> v < 256)" by linarith
    then show ?thesis
    proof cases
      case one
      with assms v1 show ?thesis by (auto simp: encode_code_def run_value_stop simp del: run_value.simps)
    next
      case two
      with assms have k: "nibble_at data n = v div 16" "nibble_at data (Suc n) = v mod 16" "Suc n < 2 * length data"
        by (simp_all add: encode_code_def)
      have "v div 16 < 4" using two by auto
      with run_value_step [OF k(3), of v1 4 "[0x10, 0x40]"] v1(1) k obtain v2 where
        v2: "unat v2 = v" "run_value data [4, 0x10, 0x40] v1 (Suc n) = run_value data [0x10, 0x40] v2 (Suc (Suc n))"
        by auto
      with two v1 show ?thesis by (auto simp: encode_code_def run_value_stop simp del: run_value.simps)
    next
      case three
      with assms have k: "nibble_at data n = 0" "nibble_at data (Suc n) = v div 16"
          "nibble_at data (Suc (Suc n)) = v mod 16" "Suc n < 2 * length data" "Suc (Suc n) < 2 * length data"
        by (simp_all add: encode_code_def)
      from run_value_step [OF k(4), of v1 4 "[0x10, 0x40]"] v1(1) k obtain v2 where
        v2: "unat v2 = v div 16" "run_value data [4, 0x10, 0x40] v1 (Suc n) = run_value data [0x10, 0x40] v2 (Suc (Suc n))"
        by auto
      have "v div 16 < 16" using three by auto
      with run_value_step [OF k(5), of v2 "0x10" "[0x40]"] v2(1) k obtain v3 where
        v3: "unat v3 = v" "run_value data [0x10, 0x40] v2 (Suc (Suc n)) = run_value data [0x40] v3 (Suc (Suc (Suc n)))"
        by auto
      with three v1 v2 show ?thesis by (auto simp: encode_code_def run_value_stop simp del: run_value.simps)
    next
      case four
      with assms have k: "nibble_at data n = 0" "nibble_at data (Suc n) = v div 256"
          "nibble_at data (Suc (Suc n)) = v div 16 mod 16" "nibble_at data (Suc (Suc (Suc n))) = v mod 16"
          "Suc n < 2 * length data" "Suc (Suc n) < 2 * length data" "Suc (Suc (Suc n)) < 2 * length data"
        by (auto simp: encode_code_def)
      from run_value_step [OF k(5), of v1 4 "[0x10, 0x40]"] v1(1) k obtain v2 where
        v2: "unat v2 = v div 256" "run_value data [4, 0x10, 0x40] v1 (Suc n) = run_value data [0x10, 0x40] v2 (Suc (Suc n))"
        by auto
      have "v div 256 = v div 16 div 16" by (simp add: div_mult2_eq [symmetric])
      then have small: "v div 256 * 16 + v div 16 mod 16 = v div 16" "v div 256 < 4"
        using assms(2) by (simp, auto)
      with run_value_step [OF k(6), of v2 "0x10" "[0x40]"] v2(1) k obtain v3 where
        v3: "unat v3 = v div 16" "run_value data [0x10, 0x40] v2 (Suc (Suc n)) = run_value data [0x40] v3 (Suc (Suc (Suc n)))"
        by auto
      have "v div 16 < 64" using assms(2) by auto
      with run_value_step [OF k(7), of v3 "0x40" "[]"] v3(1) k obtain v4 where
        v4: "unat v4 = v" "run_value data [0x40] v3 (Suc (Suc (Suc n))) = Inr (v4, Suc (Suc (Suc (Suc n))))"
        by auto
      with four v1 v2 v3 show ?thesis by (auto simp: encode_code_def)
    qed
  qed
  then obtain w where w: "run_value data run_thresholds 0 n = Inr (w, n + length (encode_code v))" "unat w = v" by blast
  have "unat (drop_bit 2 w) = unat w div 4" by (simp add: drop_bit_eq_div unat_div_distrib)
  moreover have "unat (ucast (w AND 3) :: u8) = unat w mod 4"
  proof -
    have "w AND 3 = take_bit 2 w" by (simp add: take_bit_eq_mask mask_eq_exp_minus_1)
    then have "unat (w AND 3) = unat w mod 4" by (simp add: take_bit_eq_mod unat_mod_distrib)
    moreover from this have "unat (w AND 3) < 4" by simp
    ultimately show ?thesis by (simp add: unsigned_ucast_eq take_bit_nat_eq_self)
  qed
  ultimately show ?thesis using w by (simp add: read_run_def word_less_nat_alt)
qed

text \<open>Overwriting a stretch of the pixels.\<close>

definition splice :: "nat \<Rightarrow> 'a list \<Rightarrow> 'a list \<Rightarrow> 'a list" where
  "splice i xs pixels = take i pixels @ xs @ drop (i + length xs) pixels"

lemma length_splice [simp]: "i + length xs \<le> length pixels \<Longrightarrow> length (splice i xs pixels) = length pixels"
  by (simp add: splice_def)

lemma splice_nth:
  "i + length xs \<le> length pixels \<Longrightarrow> k < length pixels \<Longrightarrow>
   splice i xs pixels ! k = (if i \<le> k \<and> k < i + length xs then xs ! (k - i) else pixels ! k)"
  by (auto simp: splice_def nth_append)

lemma splice_splice:
  "i + length xs + length ys \<le> length pixels \<Longrightarrow>
   splice (i + length xs) ys (splice i xs pixels) = splice i (xs @ ys) pixels"
  by (rule nth_equalityI) (auto simp: splice_nth nth_append)

lemma write_run_splice:
  "i + n \<le> length pixels \<Longrightarrow> write_run pixels i n v = Inr (splice i (replicate n v) pixels)"
proof (induction n arbitrary: i pixels)
  case (Suc n)
  then have "write_run pixels i (Suc n) v = Inr (splice (i + 1) (replicate n v) (pixels[i := v]))" by simp
  moreover have "pixels[i := v] = splice i [v] pixels"
    using Suc.prems by (simp add: splice_def upd_conv_take_nth_drop)
  ultimately show ?case using Suc.prems splice_splice [of i "[v]" "replicate n v" pixels] by simp
qed (simp add: splice_def)

declare decode_row.simps [simp del] decode_rows.simps [simp del]

lemma decode_row_end: "\<not> x < width \<Longrightarrow> decode_row data width y x pixels n = Inr (pixels, n)"
  by (simp add: decode_row.simps)

lemma decode_row_run:
  assumes "read_run data n = Inr (run, c, n')" and "count = (if run = 0 then width - x else run)"
    and "x < width" and "count \<le> width - x" and "y * width + x + count \<le> length pixels"
  shows "decode_row data width y x pixels n
    = decode_row data width y (x + count) (splice (y * width + x) (replicate count c) pixels) n'"
  using assms by (subst decode_row.simps) (simp add: write_run_splice)

function encode_line :: "u8 list \<Rightarrow> nat list" where
  "encode_line [] = []"
| "encode_line (c # cs) =
     (let n = length (takeWhile (\<lambda>d. d = c) (c # cs)) in
      if n = length (c # cs) \<and> 64 \<le> n then encode_code (unat c)
      else encode_code (4 * min n 255 + unat c) @ encode_line (drop (min n 255) (c # cs)))"
  by pat_completeness auto
termination by (relation "measure length") auto

declare encode_line.simps [simp del]

definition pad_line :: "nat list \<Rightarrow> nat list" where
  "pad_line ns = (if odd (length ns) then ns @ [0] else ns)"

lemma takeWhile_all: "takeWhile P xs = replicate (length (takeWhile P xs)) c" if "\<And>d. P d \<Longrightarrow> d = c"
  by (induction xs) (auto simp: that)

lemma decode_encoded_line:
  assumes "nibbles_from data n (encode_line row)" and "\<forall>c\<in>set row. unat c < 4"
    and "x + length row = width" and "y * width + width \<le> length pixels"
  shows "decode_row data width y x pixels n = Inr (splice (y * width + x) row pixels, n + length (encode_line row))"
  using assms
proof (induction row arbitrary: n x pixels rule: encode_line.induct)
  case 1
  then show ?case by (simp add: decode_row_end splice_def encode_line.simps)
next
  case (2 c cs)
  define run where "run = length (takeWhile (\<lambda>d. d = c) (c # cs))"
  have c: "unat c < 4" and run: "0 < run" "run \<le> length (c # cs)"
    using "2.prems"(2) length_takeWhile_le [of "\<lambda>d. d = c" "c # cs"] by (simp_all add: run_def)
  have x: "x < width" "y * width + x + length (c # cs) \<le> length pixels" using "2.prems"(3,4) by auto
  have same: "take k (c # cs) = replicate k c" if "k \<le> run" for k
    using that takeWhile_all [of "\<lambda>d. d = c" c "c # cs"]
    by (metis run_def min_def take_replicate take_take takeWhile_eq_take)
  show ?case
  proof (cases "run = length (c # cs) \<and> 64 \<le> run")
    case True
    then have line: "encode_line (c # cs) = encode_code (unat c)" by (simp add: encode_line.simps run_def Let_def)
    with "2.prems"(1) c read_run_code [of data n "unat c"] obtain d where
      "read_run data n = Inr (0, d, n + length (encode_code (unat c)))" "unat d = unat c mod 4" by auto
    with c have read: "read_run data n = Inr (0, c, n + length (encode_line (c # cs)))"
      by (simp add: line word_unat_eq_iff)
    have whole: "replicate (length (c # cs)) c = c # cs" using same [of run] True by simp
    have count: "width - x = length (c # cs)" using "2.prems"(3) by simp
    have "decode_row data width y x pixels n = decode_row data width y (x + length (c # cs))
        (splice (y * width + x) (c # cs) pixels) (n + length (encode_line (c # cs)))"
      using decode_row_run [OF read refl x(1)] count x(2) whole by simp
    then show ?thesis using "2.prems"(3) by (simp add: decode_row_end)
  next
    case False
    define k where "k = min run 255"
    have k: "0 < k" "k \<le> run" "k < 256" "k \<le> length (c # cs)" using run by (auto simp: k_def)
    from False have line: "encode_line (c # cs) = encode_code (4 * k + unat c) @ encode_line (drop k (c # cs))"
      by (simp only: encode_line.simps Let_def run_def [symmetric] k_def [symmetric] if_False)
    let ?n = "n + length (encode_code (4 * k + unat c))"
    have code: "nibbles_from data n (encode_code (4 * k + unat c))" "nibbles_from data ?n (encode_line (drop k (c # cs)))"
      using "2.prems"(1) by (simp_all only: line nibbles_from_append)
    have "4 * k + unat c < 1024" "\<not> 4 * k + unat c < 4" "(4 * k + unat c) div 4 = k" "(4 * k + unat c) mod 4 = unat c"
      using k c by auto
    with read_run_code [OF code(1)] have read: "read_run data n = Inr (k, c, ?n)"
      by (auto simp: word_unat_eq_iff)
    have fits: "k \<le> width - x" "x + k + length (drop k (c # cs)) = width" using "2.prems"(3) k by auto
    have "decode_row data width y x pixels n
        = decode_row data width y (x + k) (splice (y * width + x) (replicate k c) pixels) ?n"
      by (rule decode_row_run [OF read]) (use x k fits in simp_all)
    also have "\<dots> = Inr (splice (y * width + (x + k)) (drop k (c # cs)) (splice (y * width + x) (replicate k c) pixels),
        ?n + length (encode_line (drop k (c # cs))))"
    proof (rule "2.IH" [OF run_def, folded k_def])
      show "\<not> (run = length (c # cs) \<and> 64 \<le> run)" by (rule False)
      show "nibbles_from data ?n (encode_line (drop k (c # cs)))" by (rule code)
      show "\<forall>c\<in>set (drop k (c # cs)). unat c < 4" using "2.prems"(2) by (meson in_set_dropD)
      show "x + k + length (drop k (c # cs)) = width" by (rule fits)
      show "y * width + width \<le> length (splice (y * width + x) (replicate k c) pixels)"
        using "2.prems"(3,4) k by simp
    qed
    also have "splice (y * width + (x + k)) (drop k (c # cs)) (splice (y * width + x) (replicate k c) pixels)
        = splice (y * width + x) (replicate k c @ drop k (c # cs)) pixels"
      using splice_splice [of "y * width + x" "replicate k c" "drop k (c # cs)" pixels] x k by (simp add: add.assoc)
    also have "replicate k c @ drop k (c # cs) = c # cs" using same [OF k(2)] append_take_drop_id [of k "c # cs"] by simp
    finally show ?thesis by (simp only: line length_append add.assoc)
  qed
qed

fun splice_lines :: "nat \<Rightarrow> nat \<Rightarrow> 'a list list \<Rightarrow> 'a list \<Rightarrow> 'a list" where
  "splice_lines width y [] pixels = pixels"
| "splice_lines width y (line # lines) pixels = splice_lines width (y + 2) lines (splice (y * width) line pixels)"

definition encode_field :: "u8 list list \<Rightarrow> nat list" where
  "encode_field lines = concat (map (\<lambda>line. pad_line (encode_line line)) lines)"

lemma align_pad:
  "even n \<Longrightarrow> align_byte (n + length ns) = n + length (pad_line ns)"
  by (auto simp: align_byte_def pad_line_def even_iff_mod_2_eq_zero)

lemma even_pad [simp]: "even (length (pad_line ns))"
  by (simp add: pad_line_def)

lemma nibbles_from_pad: "nibbles_from data n (pad_line ns) \<Longrightarrow> nibbles_from data n ns"
  by (auto simp: pad_line_def split: if_splits)

lemma decode_encoded_rows:
  assumes "nibbles_from data n (encode_field lines)" and "even n"
    and "\<forall>line\<in>set lines. length line = width \<and> (\<forall>c\<in>set line. unat c < 4)"
    and "y + 2 * length lines \<in> {height, height + 1}" and "height * width \<le> length pixels"
  shows "decode_rows data width height y pixels n = Inr (splice_lines width y lines pixels)"
  using assms
proof (induction lines arbitrary: y n pixels)
  case Nil
  then show ?case by (subst decode_rows.simps) auto
next
  case (Cons line lines)
  have y: "y < height" "y * width + width \<le> length pixels"
  proof -
    show "y < height" using Cons.prems(4) by auto
    then have "Suc y * width \<le> height * width" by (intro mult_le_mono) auto
    with Cons.prems(5) show "y * width + width \<le> length pixels" by simp
  qed
  have code: "nibbles_from data n (encode_line line)"
    "nibbles_from data (n + length (pad_line (encode_line line))) (encode_field lines)"
    using Cons.prems(1) nibbles_from_pad by (auto simp: encode_field_def)
  have "decode_row data width y 0 pixels n = Inr (splice (y * width) line pixels, n + length (encode_line line))"
    using decode_encoded_line [OF code(1), of 0 width y pixels] Cons.prems(3) y(2) by simp
  then have "decode_rows data width height y pixels n
      = decode_rows data width height (y + 2) (splice (y * width) line pixels) (n + length (pad_line (encode_line line)))"
    using y(1) align_pad [OF Cons.prems(2)] by (subst decode_rows.simps) simp
  also have "\<dots> = Inr (splice_lines width (y + 2) lines (splice (y * width) line pixels))"
    using Cons.prems y(2) by (intro Cons.IH [OF code(2)]) auto
  finally show ?case by simp
qed

text \<open>The two fields of a picture: its lines at even and at odd positions.\<close>

fun every_other :: "'a list \<Rightarrow> 'a list" where
  "every_other [] = []"
| "every_other [x] = [x]"
| "every_other (x # y # zs) = x # every_other zs"

lemma set_every_other: "set (every_other xs) \<subseteq> set xs"
  by (induction xs rule: every_other.induct) auto

lemma length_every_other: "length (every_other xs) = (length xs + 1) div 2"
  by (induction xs rule: every_other.induct) auto

fun merge_lines :: "'a list \<Rightarrow> 'a list \<Rightarrow> 'a list" where
  "merge_lines (r # r' # rs) (q # q' # qs) = r # q' # merge_lines rs qs"
| "merge_lines rs qs = rs"

lemma splice_lines_merge:
  assumes "length rows = length qs" and "\<forall>row\<in>set rows \<union> set qs. length row = width" and "length pre = y * width"
  shows "splice_lines width y (every_other rows) (pre @ concat qs) = pre @ concat (merge_lines rows qs)"
  using assms
proof (induction rows qs arbitrary: y pre rule: merge_lines.induct)
  case (1 r r' rs q q' qs)
  have "splice (y * width) r (pre @ concat (q # q' # qs)) = (pre @ r @ q') @ concat qs"
    using "1.prems" by (simp add: splice_def)
  with "1.IH" [of "pre @ r @ q'" "y + 2"] "1.prems" show ?case by (simp add: algebra_simps)
qed (auto simp: length_Suc_conv Suc_length_conv splice_def)

lemma merge_lines_twice:
  "length rs = length qs \<Longrightarrow> merge_lines (x # rs) (z # merge_lines rs qs) = x # rs"
  by (induction rs qs arbitrary: x z rule: merge_lines.induct) (auto simp: length_Suc_conv)

lemma merge_lines_tail:
  assumes "length rs = length qs"
  obtains m where "merge_lines (r # rs) (q # qs) = r # m" "merge_lines rs m = rs" "length m = length rs"
    "set m \<subseteq> set rs \<union> set qs"
proof (cases rs)
  case Nil
  with that [of "[]"] assms show thesis by simp
next
  case (Cons r' rs')
  with assms obtain q' qs' where qs: "qs = q' # qs'" "length rs' = length qs'" by (cases qs) auto
  have "length (merge_lines rs' qs') = length rs'" "set (merge_lines rs' qs') \<subseteq> set rs' \<union> set qs'"
    using qs(2) by (induction rs' qs' rule: merge_lines.induct) auto
  with that [of "q' # merge_lines rs' qs'"] merge_lines_twice [OF qs(2)] show thesis by (auto simp: Cons qs)
qed

lemma two_fields:
  assumes "rows \<noteq> []" and "\<forall>row\<in>set rows. length row = width"
  shows "splice_lines width 1 (every_other (tl rows))
      (splice_lines width 0 (every_other rows) (replicate (length rows * width) v)) = concat rows"
proof -
  obtain r rs where rows: "rows = r # rs" using assms(1) by (cases rows) auto
  define qs where "qs = replicate (length rs) (replicate width v)"
  have "replicate (n * width) v = concat (replicate n (replicate width v))" for n
    by (induction n) (simp_all add: replicate_add)
  then have blank: "replicate (length rows * width) v = [] @ concat (replicate width v # qs)"
    by (simp add: qs_def rows replicate_add)
  obtain m where m: "merge_lines rows (replicate width v # qs) = r # m" "merge_lines rs m = rs" "length m = length rs"
    "set m \<subseteq> set rs \<union> set qs"
    using merge_lines_tail [of rs qs r "replicate width v"] by (auto simp: qs_def rows)
  have "splice_lines width 0 (every_other rows) (replicate (length rows * width) v) = r @ concat m"
    using assms(2) m(1) unfolding blank by (subst splice_lines_merge) (auto simp: qs_def rows)
  moreover have "splice_lines width 1 (every_other rs) (r @ concat m) = r @ concat (merge_lines rs m)"
    using assms(2) m(3,4) by (intro splice_lines_merge) (auto simp: qs_def rows)
  ultimately show ?thesis by (simp add: rows m(2))
qed

subsection \<open>An authored packet\<close>

text \<open>Two nibbles to a byte.\<close>

fun pack :: "nat list \<Rightarrow> u8 list" where
  "pack (a # b # ns) = word_of_nat (16 * a + b) # pack ns"
| "pack ns = []"

lemma length_pack: "even (length ns) \<Longrightarrow> 2 * length (pack ns) = length ns"
  by (induction ns rule: pack.induct) auto

lemma nibbles_from_pack:
  "even (length ns) \<Longrightarrow> \<forall>n\<in>set ns. n < 16 \<Longrightarrow> nibbles_from (pre @ pack ns @ post) (2 * length pre) ns"
proof (induction ns arbitrary: pre rule: pack.induct)
  case (1 a b ns)
  have byte: "unat (word_of_nat (16 * a + b) :: u8) = 16 * a + b"
    using "1.prems"(2) by (simp add: unsigned_of_nat take_bit_nat_eq_self del: of_nat_add of_nat_mult)
  have "nibbles_from ((pre @ [word_of_nat (16 * a + b)]) @ pack ns @ post) (2 * length (pre @ [word_of_nat (16 * a + b) :: u8])) ns"
    using "1.prems" by (intro "1.IH") auto
  then show ?case using "1.prems"(2) by (simp add: nibble_at_def byte nth_append del: of_nat_add of_nat_mult)
qed auto

lemma encode_code_nibbles: "v < 4096 \<Longrightarrow> \<forall>n\<in>set (encode_code v). n < 16"
  by (auto simp: encode_code_def)

lemma encode_line_nibbles: "\<forall>c\<in>set row. unat c < 4 \<Longrightarrow> \<forall>n\<in>set (encode_line row). n < 16"
proof (induction row rule: encode_line.induct)
  case (2 c cs)
  define k where "k = min (length (takeWhile (\<lambda>d. d = c) (c # cs))) 255"
  have "unat c < 4" using "2.prems" by simp
  then have small: "unat c < 4096" "4 * k + unat c < 4096" by (auto simp: k_def)
  have rest: "\<forall>c\<in>set (drop k (c # cs)). unat c < 4" using "2.prems" by (meson in_set_dropD)
  show ?case
    using encode_code_nibbles [OF small(1)] encode_code_nibbles [OF small(2)] "2.IH" [OF refl _ rest [unfolded k_def]]
    by (simp only: encode_line.simps Let_def k_def [symmetric] split: if_splits) auto
qed (simp add: encode_line.simps)

lemma pad_line_nibbles: "\<forall>n\<in>set ns. n < 16 \<Longrightarrow> \<forall>n\<in>set (pad_line ns). n < 16"
  by (simp add: pad_line_def)

lemma encode_field_nibbles:
  assumes "\<forall>line\<in>set lines. \<forall>c\<in>set line. unat c < 4"
  shows "\<forall>n\<in>set (encode_field lines). n < 16"
proof -
  have "\<forall>n\<in>set (pad_line (encode_line line)). n < 16" if "line \<in> set lines" for line
    using assms that by (intro pad_line_nibbles encode_line_nibbles) blast
  then show ?thesis by (simp add: encode_field_def)
qed

lemma even_encode_field: "even (length (encode_field lines))"
  by (induction lines) (auto simp: encode_field_def)

definition bytes_from :: "u8 list \<Rightarrow> nat \<Rightarrow> u8 list \<Rightarrow> bool" where
  "bytes_from packet p bs \<longleftrightarrow> p + length bs \<le> length packet \<and> (\<forall>i < length bs. packet ! (p + i) = bs ! i)"

lemma bytes_from_simps [simp]:
  "bytes_from packet p [] \<longleftrightarrow> p \<le> length packet"
  "bytes_from packet p (b # bs) \<longleftrightarrow> p < length packet \<and> packet ! p = b \<and> bytes_from packet (Suc p) bs"
  unfolding bytes_from_def by (auto simp: less_Suc_eq_0_disj nth_Cons split: nat.splits)

lemma bytes_from_append [simp]:
  "bytes_from packet p (as @ bs) \<longleftrightarrow> bytes_from packet p as \<and> bytes_from packet (p + length as) bs"
proof (induction as arbitrary: p)
  case Nil
  have "bytes_from packet p bs \<Longrightarrow> p \<le> length packet" by (simp add: bytes_from_def)
  then show ?case by auto
qed simp

lemma bytes_from_middle: "bytes_from (pre @ bs @ post) (length pre) bs"
  by (simp add: bytes_from_def nth_append)

definition put_map :: "u8 list \<Rightarrow> u8 list" where
  "put_map entries = [push_bit 4 (entries ! 3) OR entries ! 2, push_bit 4 (entries ! 1) OR entries ! 0]"

definition put_pair :: "nat \<Rightarrow> nat \<Rightarrow> u8 list" where
  "put_pair x1 x2 = [word_of_nat (x1 div 16), word_of_nat (x1 mod 16 * 16 + x2 div 256), word_of_nat (x2 mod 256)]"

lemma nat_or_shift: "b < 2 ^ k \<Longrightarrow> push_bit k a OR b = a * 2 ^ k + (b :: nat)"
proof -
  assume "b < 2 ^ k"
  then have "b = take_bit k b" by (simp add: take_bit_nat_eq_self)
  then have bits: "bit b i \<Longrightarrow> i < k" for i by (metis bit_take_bit_iff)
  have "push_bit k a AND b = 0" by (rule bit_eqI) (auto simp: bit_simps dest: bits)
  then show ?thesis by (simp add: disjunctive_add_eq_or [symmetric] push_bit_eq_mult)
qed

lemma byte_value: "n < 256 \<Longrightarrow> unat (word_of_nat n :: u8) = n"
  by (simp add: unsigned_of_nat take_bit_nat_eq_self)

lemma authored_pair_put:
  assumes "bytes_from packet p (put_pair x1 x2)" and "x1 < 4096" "x2 < 4096"
  shows "authored_pair packet p = Inr (x1, x2)"
proof -
  have b: "x1 div 16 < 256" "x1 mod 16 * 16 + x2 div 256 < 256" "x2 mod 256 < 256" "x2 div 256 < 16"
    using assms(2,3) by auto
  have "(x1 mod 16 * 16 + x2 div 256) div 16 = x1 mod 16" "(x1 mod 16 * 16 + x2 div 256) mod 16 = x2 div 256"
    using b(4) by auto
  then show ?thesis
    using assms(1) b nat_or_shift [of "x1 mod 16" 4 "x1 div 16"] nat_or_shift [of "x2 mod 256" 8 "x2 div 256"]
    by (simp add: authored_pair_def put_pair_def byte_value high_nibble low_nibble del: of_nat_add of_nat_mult)
qed

lemma two_nibbles:
  assumes "c < 16" "d < (16 :: u8)"
  shows "drop_bit 4 (push_bit 4 c OR d) = c" and "(push_bit 4 c OR d) AND 0x0f = d"
proof -
  have "c = take_bit 4 c" "d = take_bit 4 d"
    using assms by (simp_all add: word_unat_eq_iff unsigned_take_bit_eq take_bit_nat_eq_self word_less_nat_alt)
  then have bits: "bit c i \<Longrightarrow> i < 4" "bit d i \<Longrightarrow> i < 4" for i
    by (metis bit_take_bit_iff)+
  show "drop_bit 4 (push_bit 4 c OR d) = c"
    by (rule bit_word_eqI) (auto simp: bit_simps dest: bits)
  have "(push_bit 4 c OR d) AND mask 4 = d" by (rule bit_word_eqI) (auto simp: bit_simps dest: bits)
  then show "(push_bit 4 c OR d) AND 0x0f = d" by (simp add: mask_eq_exp_minus_1)
qed

lemma authored_map_put:
  assumes "bytes_from packet p (put_map entries)" and "length entries = 4" and "\<forall>e\<in>set entries. e < 16"
  shows "authored_map packet p = Inr entries"
proof -
  have e: "i < 4 \<Longrightarrow> entries ! i < 16" for i using assms(2,3) nth_mem by metis
  have "[entries ! 0, entries ! 1, entries ! 2, entries ! 3] = entries"
    by (rule nth_equalityI) (use assms(2) in \<open>auto simp: less_Suc_eq numeral_eq_Suc\<close>)
  then show ?thesis
    using assms(1) by (simp add: authored_map_def put_map_def two_nibbles e del: drop_bit_or)
qed

end
