(* ===== verification/DvdSpuDecode.thy ===== *)
theory DvdSpuDecode
  imports DvdSpuProps
begin

text \<open>
  Decoding a subpicture packet as a whole: whatever the bytes are it gives an error or a complete
  overlay and never panics; an authored packet decodes to the picture it was authored from;
  compositing an overlay blends each of its pixels once and leaves the rest of the frame alone.
\<close>

unbundle bit_operations_syntax

subsection \<open>Decoding stays in bounds\<close>

definition nibble_map :: "u8 list \<Rightarrow> bool" where
  "nibble_map entries \<longleftrightarrow> length entries = 4 \<and> (\<forall>e\<in>set entries. e < 16)"

definition control_ok :: "control_state \<Rightarrow> bool" where
  "control_ok s \<longleftrightarrow> nibble_map (ctl_color_map s) \<and> nibble_map (ctl_alpha s)"

lemma control_ok_initial: "control_ok initial_control"
  by (simp add: control_ok_def nibble_map_def initial_control_def)

lemma control_ok_simps [simp]:
  "control_ok (s\<lparr>ctl_menu := b\<rparr>) = control_ok s"
  "control_ok (s\<lparr>ctl_started := b, ctl_start_date := d\<rparr>) = control_ok s"
  "control_ok (s\<lparr>ctl_end_date := d\<rparr>) = control_ok s"
  "control_ok (s\<lparr>ctl_x1 := x1, ctl_x2 := x2, ctl_y1 := y1, ctl_y2 := y2\<rparr>) = control_ok s"
  "control_ok (s\<lparr>ctl_offset_even := i, ctl_offset_odd := j\<rparr>) = control_ok s"
  "control_ok s \<Longrightarrow> nibble_map entries \<Longrightarrow> control_ok (s\<lparr>ctl_color_map := entries\<rparr>)"
  "control_ok s \<Longrightarrow> nibble_map entries \<Longrightarrow> control_ok (s\<lparr>ctl_alpha := entries\<rparr>)"
  by (simp_all add: control_ok_def)

lemma nibbles_less: "b AND 0x0f < 16" "drop_bit 4 b < 16" for b :: u8
  using unat_byte_less [of b]
  by (simp_all add: word_less_nat_alt low_nibble high_nibble less_mult_imp_div_less del: unat_byte_less)

lemma authored_map_yields: "p + 2 \<le> length packet \<Longrightarrow> yields nibble_map (authored_map packet p)"
  by (simp add: authored_map_def nibble_map_def nibbles_less)

lemma authored_pair_yields: "p + 3 \<le> length packet \<Longrightarrow> yields (\<lambda>_. True) (authored_pair packet p)"
  by (simp add: authored_pair_def)

declare parse_commands.simps [simp del]

lemma parse_commands_yields:
  "control_ok state \<Longrightarrow> yields control_ok (parse_commands packet position date state)"
proof (induction packet position date state rule: parse_commands.induct)
  case (1 packet position date state)
  note IH = "1.IH" [OF _ refl refl, simplified]
  from "1.prems" show ?case
    by (subst parse_commands.simps)
       (auto simp: Let_def intro!: IH yields_bind [OF authored_map_yields]
          yields_bind [OF authored_pair_yields])
qed

lemma control_loop_yields:
  "control_ok state \<Longrightarrow> yields control_ok (control_loop n packet offset date position seen state)"
proof (induction n packet offset date position seen state rule: control_loop.induct)
  case (2 n packet offset date position seen state)
  then show ?case
    by (auto simp: Let_def intro!: yields_bind [OF parse_commands_yields])
qed simp

lemma read_nibble_yields: "yields (\<lambda>_. True) (read_nibble data n)"
  by (auto simp: read_nibble_def index_at_def)

lemma run_value_yields: "yields (\<lambda>_. True) (run_value data ts v n)"
  by (induction data ts v n rule: run_value.induct) (auto intro!: yields_bind [OF read_nibble_yields])

lemma two_bits_less: "unat (ucast (w AND 3) :: u8) < 4" for w :: u16
proof -
  have "w AND 3 = take_bit 2 w" by (simp add: take_bit_eq_mask mask_eq_exp_minus_1)
  then have "unat (w AND 3) < 4" by (simp add: take_bit_eq_mod unat_mod_distrib)
  then show ?thesis by (simp add: unsigned_ucast_eq take_bit_nat_eq_self)
qed

lemma read_run_yields: "yields (\<lambda>(_, c, _). unat c < 4) (read_run data n)"
  unfolding read_run_def by (rule yields_bind [OF run_value_yields]) (auto simp: two_bits_less split: prod.splits)

text \<open>A canvas of \<open>n\<close> palette indices.\<close>

definition canvas :: "nat \<Rightarrow> u8 list \<Rightarrow> bool" where
  "canvas n pixels \<longleftrightarrow> length pixels = n \<and> (\<forall>c\<in>set pixels. unat c < 4)"

lemma canvas_splice:
  assumes "canvas n pixels" and "unat c < 4" and "i + k \<le> n"
  shows "canvas n (splice i (replicate k c) pixels)"
proof -
  have "set (splice i (replicate k c) pixels) \<subseteq> set pixels \<union> {c}"
    by (auto simp: splice_def dest: in_set_takeD in_set_dropD)
  with assms show ?thesis by (auto simp: canvas_def)
qed

lemma decode_row_yields:
  assumes "canvas n pixels" and "y * width + width \<le> n"
  shows "yields (\<lambda>(pixels', _). canvas n pixels') (decode_row data width y x pixels nibble)"
  using assms
proof (induction data width y x pixels nibble rule: decode_row.induct)
  case (1 data width y x pixels nibble)
  have "yields (\<lambda>(pixels', _). canvas n pixels') (go_bind (write_run pixels (y * width + x) count c)
      (\<lambda>pixels'. decode_row data width y (x + count) pixels' nibble'))"
    if run: "x < width" "read_run data nibble = Inr (run, c, nibble')" "unat c < 4"
      "count = (if run = 0 then width - x else run)" "\<not> count > width - x" for run c nibble' count
  proof -
    have fits: "y * width + x + count \<le> n" using run "1.prems"(2) by auto
    have "canvas n (splice (y * width + x) (replicate count c) pixels)"
      using "1.prems"(1) run(3) fits by (rule canvas_splice)
    with "1.IH" [OF run(1) run(2) refl refl run(4,5)] show ?thesis
      using fits "1.prems" by (simp add: write_run_splice canvas_def)
  qed
  with "1.prems"(1) show ?case
    by (subst decode_row.simps) (auto simp: Let_def intro!: yields_bind [OF read_run_yields])
qed

lemma decode_rows_yields:
  "canvas n pixels \<Longrightarrow> height * width \<le> n \<Longrightarrow> yields (canvas n) (decode_rows data width height y pixels nibble)"
proof (induction data width height y pixels nibble rule: decode_rows.induct)
  case (1 data width height y pixels nibble)
  have "y * width + width \<le> n" if "y < height"
  proof -
    have "Suc y * width \<le> height * width" using that by (intro mult_le_mono) auto
    with "1.prems"(2) show ?thesis by simp
  qed
  with 1 show ?case
    by (subst decode_rows.simps) (auto intro!: yields_bind [OF decode_row_yields])
qed

lemma decode_field_yields:
  "canvas n pixels \<Longrightarrow> height * width \<le> n \<Longrightarrow> yields (canvas n) (decode_field packet offset width height parity pixels)"
  by (simp add: decode_field_def decode_rows_yields)

lemma bounded_byte_low: "\<exists>b. bounded_byte (v AND 0xff) = Inr b \<and> ucast b = v AND 0xff"
proof -
  have v: "v AND 0xff = take_bit 8 v" by (simp add: take_bit_eq_mask mask_eq_exp_minus_1)
  have "unat (take_bit 8 v) < 256" by (simp add: take_bit_eq_mod unat_mod_distrib)
  then have "\<not> v AND 0xff > 0xff" by (simp add: v word_less_nat_alt)
  moreover have "ucast (ucast (take_bit 8 v) :: u8) = take_bit 8 v"
    by (rule bit_word_eqI) (auto simp: bit_simps)
  ultimately show ?thesis by (simp add: bounded_byte_def v)
qed

lemma clut_color_ok: "\<exists>c. clut_color value alpha = Inr c \<and> col_a c = alpha"
proof -
  obtain y cr cb where "bounded_byte (drop_bit 16 value AND 0xff) = Inr y"
    "bounded_byte (drop_bit 8 value AND 0xff) = Inr cr" "bounded_byte (value AND 0xff) = Inr cb"
    using bounded_byte_low [of "drop_bit 16 value"] bounded_byte_low [of "drop_bit 8 value"]
      bounded_byte_low [of "value"] by blast
  then show ?thesis by (simp add: clut_color_def split: prod.splits)
qed

lemma palette_entry_ok:
  assumes "control_ok state" and "length clut = 16" and "i < 4"
  shows "\<exists>c. palette_entry clut state i = Inr c"
proof -
  have "ctl_color_map state ! i < 16" using assms by (simp add: control_ok_def nibble_map_def)
  then have "unat (ctl_color_map state ! i) < length clut" using assms(2) by (simp add: word_less_nat_alt)
  with assms clut_color_ok [of "clut ! unat (ctl_color_map state ! i)" "ctl_alpha state ! i * 17"] show ?thesis
    by (auto simp: palette_entry_def control_ok_def nibble_map_def)
qed

lemma palette_ok:
  assumes "control_ok state" and "length clut = 16"
  obtains palette where "go_map (palette_entry clut state) [0, 1, 2, 3] = Inr palette" "length palette = 4"
  using palette_entry_ok [OF assms, of 0] palette_entry_ok [OF assms, of 1] palette_entry_ok [OF assms, of 2]
    palette_entry_ok [OF assms, of 3] by auto

text \<open>A complete overlay: as many pixels as its rectangle holds, each one of its four colours.\<close>

definition overlay_ok :: "overlay \<Rightarrow> bool" where
  "overlay_ok ov \<longleftrightarrow>
     max_x (ov_bounds ov) = min_x (ov_bounds ov) + int (ov_stride ov)
   \<and> 0 < ov_stride ov \<and> ov_stride ov \<le> max_overlay_width
   \<and> min_y (ov_bounds ov) < max_y (ov_bounds ov)
   \<and> max_y (ov_bounds ov) \<le> min_y (ov_bounds ov) + int max_overlay_height
   \<and> int (length (ov_pixels ov)) = int (ov_stride ov) * (max_y (ov_bounds ov) - min_y (ov_bounds ov))
   \<and> (\<forall>c\<in>set (ov_pixels ov). unat c < 4) \<and> length (ov_palette ov) = 4"

lemma decode_display_yields:
  assumes "control_ok state" and "length clut = 16"
  shows "yields overlay_ok (decode_display packet clut state)"
proof -
  define width where "width = ctl_x2 state - ctl_x1 state + 1"
  define height where "height = ctl_y2 state - ctl_y1 state + 1"
  have blank: "canvas (width * height) (replicate (width * height) 0)" by (simp add: canvas_def)
  have palette: "yields (\<lambda>ys. length ys = 4) (go_map (palette_entry clut state) [0, 1, 2, 3])"
  proof -
    obtain ys where "go_map (palette_entry clut state) [0, 1, 2, 3] = Inr ys" "length ys = 4" by (rule palette_ok [OF assms])
    then show ?thesis by (simp only: yields_simps)
  qed
  have pixels: "yields (canvas (width * height)) (if b then decode_field packet i width height 1 field else Inr field)"
    if "canvas (width * height) field" for b i field
    using that by (simp add: decode_field_yields mult.commute)
  have "overlay_ok \<lparr>ov_bounds = image_rect (int (ctl_x1 state)) (int (ctl_y1 state)) (int (ctl_x2 state) + 1) (int (ctl_y2 state) + 1),
      ov_pixels = pixels, ov_stride = width, ov_palette = palette, ov_color_map = ctl_color_map state,
      ov_alpha = ctl_alpha state, ov_start_date = ctl_start_date state, ov_end_date = ctl_end_date state,
      ov_menu = ctl_menu state\<rparr>"
    if "canvas (width * height) pixels" "length palette = 4" "ctl_x1 state \<le> ctl_x2 state" "ctl_y1 state \<le> ctl_y2 state"
      "width \<le> max_overlay_width" "height \<le> max_overlay_height" for pixels palette
  proof -
    have "int width = int (ctl_x2 state) + 1 - int (ctl_x1 state)" "int height = int (ctl_y2 state) + 1 - int (ctl_y1 state)"
      using that by (simp_all add: width_def height_def)
    with that show ?thesis by (simp add: overlay_ok_def image_rect_def canvas_def)
  qed
  then show ?thesis
    unfolding decode_display_def Let_def width_def [symmetric] height_def [symmetric]
    by (intro yields_if yields_simps
        yields_bind [OF decode_field_yields [OF blank]] yields_bind [OF pixels] yields_bind [OF palette]) auto
qed

lemma decode_packet_yields:
  assumes "length clut = 16"
  shows "yields overlay_ok (decode_packet packet clut date)"
proof -
  have "yields overlay_ok (go_bind (control_loop n body offset date position [] initial_control) (decode_display body clut))"
    for n body offset position
    by (rule yields_bind [OF control_loop_yields [OF control_ok_initial]]) (rule decode_display_yields [OF _ assms])
  then show ?thesis by (auto simp: decode_packet_def Let_def)
qed

subsection \<open>An authored packet\<close>

text \<open>A packet with one control block: colour map, alpha map, display area, field offsets, start.\<close>

definition control_block :: "u16 \<Rightarrow> nat \<Rightarrow> u8 list \<Rightarrow> u8 list \<Rightarrow> nat \<times> nat \<Rightarrow> nat \<times> nat \<Rightarrow> nat \<Rightarrow> u8 list" where
  "control_block date control colors alphas xs ys odd_offset =
     put16 (unat date) @ put16 control
     @ 0x03 # put_map colors @ 0x04 # put_map alphas
     @ 0x05 # put_pair (fst xs) (snd xs) @ put_pair (fst ys) (snd ys)
     @ 0x06 # put16 4 @ put16 odd_offset @ [0x01, 0xff]"

definition author_packet :: "u16 \<Rightarrow> nat \<Rightarrow> nat \<Rightarrow> u8 list list \<Rightarrow> u8 list \<Rightarrow> u8 list \<Rightarrow> u8 list" where
  "author_packet date x y rows colors alphas =
     (let evens = pack (encode_field (every_other rows));
          odds = pack (encode_field (every_other (tl rows)));
          control = 4 + length evens + length odds
      in put16 (control + 24) @ put16 control @ evens @ odds
         @ control_block date control colors alphas (x, x + length (hd rows) - 1) (y, y + length rows - 1)
             (4 + length evens))"

lemma u16_at_put16: "bytes_from packet p (put16 n) \<Longrightarrow> n < 65536 \<Longrightarrow> \<exists>w. u16_at packet p = Inr w \<and> unat w = n"
  using put16_value [of n] by (auto simp: put16_def u16_at_def)

lemma length_put [simp]: "length (put16 n) = 2" "length (put_map m) = 2" "length (put_pair i j) = 3"
  by (simp_all add: put16_def put_map_def put_pair_def)

lemma length_control_block [simp]: "length (control_block date control colors alphas xs ys odd_offset) = 24"
  by (simp add: control_block_def)

lemma parse_steps:
  "packet ! q = 0x01 \<Longrightarrow> q < length packet \<Longrightarrow> q' = q + 1 \<Longrightarrow>
     parse_commands packet q date s = parse_commands packet q' date (s\<lparr>ctl_started := True, ctl_start_date := date\<rparr>)"
  "packet ! q = 0x03 \<Longrightarrow> q + 3 \<le> length packet \<Longrightarrow> authored_map packet (q + 1) = Inr m \<Longrightarrow> q' = q + 1 + 2 \<Longrightarrow>
     parse_commands packet q date s = parse_commands packet q' date (s\<lparr>ctl_color_map := m\<rparr>)"
  "packet ! q = 0x04 \<Longrightarrow> q + 3 \<le> length packet \<Longrightarrow> authored_map packet (q + 1) = Inr m \<Longrightarrow> q' = q + 1 + 2 \<Longrightarrow>
     parse_commands packet q date s = parse_commands packet q' date (s\<lparr>ctl_alpha := m\<rparr>)"
  "packet ! q = 0x05 \<Longrightarrow> q + 7 \<le> length packet \<Longrightarrow> authored_pair packet (q + 1) = Inr (x1, x2) \<Longrightarrow>
     authored_pair packet (q + 1 + 3) = Inr (y1, y2) \<Longrightarrow> q' = q + 1 + 6 \<Longrightarrow>
     parse_commands packet q date s
       = parse_commands packet q' date (s\<lparr>ctl_x1 := x1, ctl_x2 := x2, ctl_y1 := y1, ctl_y2 := y2\<rparr>)"
  "packet ! q = 0x06 \<Longrightarrow> q + 5 \<le> length packet \<Longrightarrow> u16_at packet (q + 1) = Inr i \<Longrightarrow>
     u16_at packet (q + 1 + 2) = Inr j \<Longrightarrow> q' = q + 1 + 4 \<Longrightarrow>
     parse_commands packet q date s
       = parse_commands packet q' date (s\<lparr>ctl_offset_even := int (unat i), ctl_offset_odd := int (unat j)\<rparr>)"
  "packet ! q = 0xff \<Longrightarrow> q < length packet \<Longrightarrow> parse_commands packet q date s = Inr s"
       apply (subst parse_commands.simps [of packet q], simp)
      apply (subst parse_commands.simps [of packet q], simp add: Let_def)
     apply (subst parse_commands.simps [of packet q], simp add: Let_def)
    apply (subst parse_commands.simps [of packet q], simp add: Let_def)
   apply (subst parse_commands.simps [of packet q], simp add: Let_def)
  apply (subst parse_commands.simps [of packet q], simp)
  done

lemma control_block_bytes:
  assumes "bytes_from packet (p + 4) (drop 4 (control_block date control colors alphas (x1, x2) (y1, y2) odd_offset))"
  shows "bytes_from packet (p + 5) (put_map colors)" "bytes_from packet (p + 8) (put_map alphas)"
    "bytes_from packet (p + 11) (put_pair x1 x2)" "bytes_from packet (p + 14) (put_pair y1 y2)"
    "bytes_from packet (p + 18) (put16 4)" "bytes_from packet (p + 20) (put16 odd_offset)"
    "p + 23 < length packet" "packet ! (p + 4) = 0x03" "packet ! (p + 7) = 0x04" "packet ! (p + 10) = 0x05"
    "packet ! (p + 17) = 0x06" "packet ! (p + 22) = 0x01" "packet ! (p + 23) = 0xff"
proof -
  have "drop 4 (control_block date control colors alphas (x1, x2) (y1, y2) odd_offset)
      = 0x03 # put_map colors @ 0x04 # put_map alphas @ 0x05 # put_pair x1 x2 @ put_pair y1 y2
        @ 0x06 # put16 4 @ put16 odd_offset @ [0x01, 0xff]"
    by (simp add: control_block_def)
  note c = assms(1) [unfolded this bytes_from_simps bytes_from_append length_put]
  then show "bytes_from packet (p + 5) (put_map colors)" "bytes_from packet (p + 8) (put_map alphas)"
    "bytes_from packet (p + 11) (put_pair x1 x2)" "bytes_from packet (p + 14) (put_pair y1 y2)"
    "bytes_from packet (p + 18) (put16 4)" "bytes_from packet (p + 20) (put16 odd_offset)"
    "p + 23 < length packet" "packet ! (p + 4) = 0x03" "packet ! (p + 7) = 0x04" "packet ! (p + 10) = 0x05"
    "packet ! (p + 17) = 0x06" "packet ! (p + 22) = 0x01" "packet ! (p + 23) = 0xff"
    by (simp_all only: Suc_eq_plus1 add.assoc arith_simps one_plus_numeral numeral_plus_one numeral_plus_numeral add_num_simps)
qed

lemma parse_control_block:
  assumes "bytes_from packet (p + 4) (drop 4 (control_block date control colors alphas (x1, x2) (y1, y2) odd_offset))"
    and "nibble_map colors" "nibble_map alphas" "x1 < 4096" "x2 < 4096" "y1 < 4096" "y2 < 4096" "odd_offset < 65536"
  shows "parse_commands packet (p + 4) date state = Inr (state\<lparr>ctl_started := True, ctl_start_date := date,
    ctl_color_map := colors, ctl_alpha := alphas, ctl_x1 := x1, ctl_y1 := y1, ctl_x2 := x2, ctl_y2 := y2,
    ctl_offset_even := 4, ctl_offset_odd := int odd_offset\<rparr>)"
proof -
  note b = control_block_bytes [OF assms(1)]
  obtain i j where ij: "u16_at packet (p + 18) = (Inr i :: (spu_error, u16) go)" "unat i = 4"
      "u16_at packet (p + 20) = (Inr j :: (spu_error, u16) go)" "unat j = odd_offset"
    using u16_at_put16 [OF b(5)] u16_at_put16 [OF b(6) assms(8)] by auto
  have maps: "authored_map packet (p + 5) = Inr colors" "authored_map packet (p + 8) = Inr alphas"
    using authored_map_put [OF b(1)] authored_map_put [OF b(2)] assms(2,3) by (simp_all add: nibble_map_def)
  note pairs = authored_pair_put [OF b(3) assms(4,5)] authored_pair_put [OF b(4) assms(6,7)]
  have e: "p + 4 + 1 = p + 5" "p + 7 + 1 = p + 8" "p + 10 + 1 = p + 11" "p + 11 + 3 = p + 14" "p + 17 + 1 = p + 18"
    "p + 18 + 2 = p + 20"
    by simp_all
  have "parse_commands packet (p + 4) date state = parse_commands packet (p + 7) date (state\<lparr>ctl_color_map := colors\<rparr>)"
    by (rule parse_steps(2)) (simp_all only: e maps b, use b(7) in simp_all)
  also have "\<dots> = parse_commands packet (p + 10) date (state\<lparr>ctl_color_map := colors, ctl_alpha := alphas\<rparr>)"
    by (rule parse_steps(3)) (simp_all only: e maps b, use b(7) in simp_all)
  also have "\<dots> = parse_commands packet (p + 17) date (state\<lparr>ctl_color_map := colors, ctl_alpha := alphas,
      ctl_x1 := x1, ctl_x2 := x2, ctl_y1 := y1, ctl_y2 := y2\<rparr>)"
    by (rule parse_steps(4)) (simp_all only: e pairs b, use b(7) in simp_all)
  also have "\<dots> = parse_commands packet (p + 22) date (state\<lparr>ctl_color_map := colors, ctl_alpha := alphas,
      ctl_x1 := x1, ctl_x2 := x2, ctl_y1 := y1, ctl_y2 := y2, ctl_offset_even := 4, ctl_offset_odd := int odd_offset\<rparr>)"
  proof -
    have "u16_at packet (p + 17 + 1) = (Inr i :: (spu_error, u16) go)" "u16_at packet (p + 17 + 1 + 2) = (Inr j :: (spu_error, u16) go)"
      by (simp_all only: e ij(1,3))
    from parse_steps(5) [OF b(11) _ this, of "p + 22"] b(7) show ?thesis by (simp add: ij(2,4))
  qed
  also have "\<dots> = parse_commands packet (p + 23) date (state\<lparr>ctl_color_map := colors, ctl_alpha := alphas,
      ctl_x1 := x1, ctl_x2 := x2, ctl_y1 := y1, ctl_y2 := y2, ctl_offset_even := 4, ctl_offset_odd := int odd_offset,
      ctl_started := True, ctl_start_date := date\<rparr>)"
    by (rule parse_steps(1)) (use b(7,12) in simp_all)
  also have "\<dots> = Inr (state\<lparr>ctl_color_map := colors, ctl_alpha := alphas,
      ctl_x1 := x1, ctl_x2 := x2, ctl_y1 := y1, ctl_y2 := y2, ctl_offset_even := 4, ctl_offset_odd := int odd_offset,
      ctl_started := True, ctl_start_date := date\<rparr>)"
    by (rule parse_steps(6)) (use b(7,13) in simp_all)
  finally show ?thesis by simp
qed

text \<open>The bounds of a picture that a packet can hold.\<close>

definition picture_fits :: "nat \<Rightarrow> nat \<Rightarrow> u8 list list \<Rightarrow> bool" where
  "picture_fits x y rows \<longleftrightarrow>
     rows \<noteq> [] \<and> hd rows \<noteq> [] \<and> (\<forall>row\<in>set rows. length row = length (hd rows) \<and> (\<forall>c\<in>set row. unat c < 4))
   \<and> length (hd rows) \<le> max_overlay_width \<and> length rows \<le> max_overlay_height
   \<and> x + length (hd rows) \<le> 4096 \<and> y + length rows \<le> 4096"

lemma picture_lines:
  assumes "picture_fits x y rows" and "width = length (hd rows)"
  shows "\<forall>line\<in>set (every_other rows). length line = width \<and> (\<forall>c\<in>set line. unat c < 4)"
    and "\<forall>line\<in>set (every_other (tl rows)). length line = width \<and> (\<forall>c\<in>set line. unat c < 4)"
proof -
  have all: "length line = width \<and> (\<forall>c\<in>set line. unat c < 4)" if "line \<in> set rows" for line
    using assms(1) that unfolding picture_fits_def assms(2) by blast
  have "set (tl rows) \<subseteq> set rows" by (cases rows) auto
  then have sub: "set (every_other rows) \<subseteq> set rows" "set (every_other (tl rows)) \<subseteq> set rows"
    using set_every_other [of rows] set_every_other [of "tl rows"] by (simp_all only: order_trans)
  show "\<forall>line\<in>set (every_other rows). length line = width \<and> (\<forall>c\<in>set line. unat c < 4)"
    by (rule ballI) (rule all [OF subsetD [OF sub(1)]])
  show "\<forall>line\<in>set (every_other (tl rows)). length line = width \<and> (\<forall>c\<in>set line. unat c < 4)"
    by (rule ballI) (rule all [OF subsetD [OF sub(2)]])
qed

lemma picture_line_counts:
  assumes "rows \<noteq> []" and "height = length rows"
  shows "0 + 2 * length (every_other rows) \<in> {height, height + 1}"
    and "1 + 2 * length (every_other (tl rows)) \<in> {height, height + 1}"
proof -
  obtain n where n: "length rows = Suc n" using assms(1) by (cases rows) auto
  then show "0 + 2 * length (every_other rows) \<in> {height, height + 1}"
    and "1 + 2 * length (every_other (tl rows)) \<in> {height, height + 1}"
    using assms(2) by (simp_all add: length_every_other) presburger+
qed

lemma decode_picture_fields:
  assumes "picture_fits x y rows" and "width = length (hd rows)" and "height = length rows"
    and "body = pre @ pack (encode_field (every_other rows)) @ pack (encode_field (every_other (tl rows))) @ post"
    and "length pre = 4" and "post \<noteq> []"
  shows "go_bind (decode_field body 4 width height 0 (replicate (width * height) 0)) (\<lambda>field.
      if height > 1 then decode_field body (int (4 + length (pack (encode_field (every_other rows))))) width height 1 field
      else Inr field) = Inr (concat rows)"
proof -
  let ?evens = "pack (encode_field (every_other rows))" and ?odds = "pack (encode_field (every_other (tl rows)))"
  have rows: "rows \<noteq> []" "\<forall>row\<in>set rows. length row = width" 
    using assms(1) unfolding picture_fits_def assms(2) by blast+
  note lines = picture_lines [OF assms(1,2)]
  note counts = picture_line_counts [OF rows(1) assms(3)]
  have nibbles: "\<forall>n\<in>set (encode_field (every_other rows)). n < 16" "\<forall>n\<in>set (encode_field (every_other (tl rows))). n < 16"
    using lines by (intro encode_field_nibbles; blast)+
  have at: "nibbles_from body 8 (encode_field (every_other rows))"
    "nibbles_from body (2 * (4 + length ?evens)) (encode_field (every_other (tl rows)))"
    using nibbles_from_pack [OF even_encode_field nibbles(1), of pre "?odds @ post"]
      nibbles_from_pack [OF even_encode_field nibbles(2), of "pre @ ?evens" post]
    by (simp_all add: assms(4,5))
  have offsets: "4 < length body" "4 + length ?evens < length body"
    using assms(5,6) by (simp_all add: assms(4))
  define field where "field = splice_lines width 0 (every_other rows) (replicate (width * height) 0)"
  have even: "decode_field body 4 width height 0 (replicate (width * height) 0) = Inr field"
    using decode_encoded_rows [OF at(1) _ lines(1) counts(1)] offsets(1)
    by (simp add: decode_field_def field_def mult.commute)
  have whole: "splice_lines width 1 (every_other (tl rows)) field = concat rows"
    using two_fields [OF rows] by (simp add: field_def assms(3) mult.commute)
  show ?thesis
  proof (cases "height > 1")
    case True
    have "canvas (width * height) (replicate (width * height) 0)" by (simp add: canvas_def)
    from yieldsD [OF decode_field_yields [OF this] even] have "length field = width * height"
      by (simp add: canvas_def mult.commute)
    then have "decode_rows body width height 1 field (2 * (4 + length ?evens)) = Inr (concat rows)"
      using decode_encoded_rows [OF at(2) _ lines(2) counts(2)] whole by (simp add: mult.commute)
    with even True offsets(2) show ?thesis by (simp add: decode_field_def nat_add_distrib mult.commute)
  next
    case False
    with rows(1) assms(3) have "tl rows = []" by (cases rows) auto
    with whole even False show ?thesis by simp
  qed
qed

lemma decode_picture_display:
  assumes "picture_fits x y rows" and "nibble_map colors" "nibble_map alphas" and "length clut = 16"
    and "body = pre @ pack (encode_field (every_other rows)) @ pack (encode_field (every_other (tl rows))) @ post"
    and "length pre = 4" and "post \<noteq> []"
    and "state = initial_control\<lparr>ctl_started := True, ctl_start_date := date, ctl_color_map := colors, ctl_alpha := alphas,
      ctl_x1 := x, ctl_y1 := y, ctl_x2 := x + length (hd rows) - 1, ctl_y2 := y + length rows - 1,
      ctl_offset_even := 4, ctl_offset_odd := int (4 + length (pack (encode_field (every_other rows))))\<rparr>"
  shows "\<exists>palette. decode_display body clut state = Inr
    \<lparr>ov_bounds = \<lparr>min_x = int x, min_y = int y, max_x = int (x + length (hd rows)), max_y = int (y + length rows)\<rparr>,
     ov_pixels = concat rows, ov_stride = length (hd rows), ov_palette = palette, ov_color_map = colors,
     ov_alpha = alphas, ov_start_date = date, ov_end_date = 0, ov_menu = False\<rparr>"
proof -
  have size: "0 < length (hd rows)" "length (hd rows) \<le> 1024" "0 < length rows" "length rows \<le> 1024"
    using assms(1) unfolding picture_fits_def max_overlay_width_def max_overlay_height_def by blast+
  then have area: "length (hd rows) * length rows \<le> 1024 * 1024" by (intro mult_le_mono) auto
  have dims: "ctl_x2 state - ctl_x1 state + 1 = length (hd rows)" "ctl_y2 state - ctl_y1 state + 1 = length rows"
    using size by (simp_all add: assms(8))
  have "x \<le> x + length (hd rows) - 1" "y \<le> y + length rows - 1" using size by linarith+
  then have shown: "\<not> (ctl_offset_even state < 0 \<or> ctl_offset_odd state < 0 \<or> ctl_x2 state < ctl_x1 state \<or> ctl_y2 state < ctl_y1 state)"
    by (simp add: assms(8))
  have fits: "\<not> (length (hd rows) \<le> 0 \<or> length rows \<le> 0 \<or> length (hd rows) > max_overlay_width
      \<or> length rows > max_overlay_height \<or> length (hd rows) * length rows > max_overlay_pixels)"
    using size area by (simp add: max_overlay_width_def max_overlay_height_def max_overlay_pixels_def)
  have "control_ok state" using assms(2,3) by (simp add: assms(8) control_ok_def)
  then obtain palette where palette: "go_map (palette_entry clut state) [0, 1, 2, 3] = Inr palette"
    using palette_ok assms(4) by blast
  from decode_picture_fields [OF assms(1) refl refl assms(5-7)] obtain field where
    "decode_field body 4 (length (hd rows)) (length rows) 0 (replicate (length (hd rows) * length rows) 0) = Inr field"
    "(if length rows > 1
      then decode_field body (int (4 + length (pack (encode_field (every_other rows))))) (length (hd rows)) (length rows) 1 field
      else Inr field) = Inr (concat rows)"
    unfolding go_bind_Inr by blast
  moreover have "ctl_offset_even state = 4"
    "ctl_offset_odd state = int (4 + length (pack (encode_field (every_other rows))))" "ctl_x1 state = x" "ctl_y1 state = y"
    "ctl_color_map state = colors" "ctl_alpha state = alphas" "ctl_start_date state = date" "ctl_end_date state = 0"
    "ctl_menu state = False"
    by (simp_all add: assms(8) initial_control_def)
  moreover have "int (ctl_x2 state) + 1 = int (x + length (hd rows))" "int (ctl_y2 state) + 1 = int (y + length rows)"
  proof -
    have "ctl_x2 state = x + length (hd rows) - 1" "ctl_y2 state = y + length rows - 1" by (simp_all add: assms(8))
    with size show "int (ctl_x2 state) + 1 = int (x + length (hd rows))" "int (ctl_y2 state) + 1 = int (y + length rows)"
      by linarith+
  qed
  ultimately show ?thesis
    using palette unfolding decode_display_def Let_def dims if_not_P [OF shown] if_not_P [OF fits]
    by (cases "length rows > 1") (simp_all add: image_rect_def del: go_map.simps)
qed

lemma authored_packet_decodes:
  assumes "picture_fits x y rows" and "nibble_map colors" "nibble_map alphas" and "length clut = 16"
    and "date \<le> requested" and "length (author_packet date x y rows colors alphas) \<le> max_packet_bytes"
  shows "\<exists>palette. decode_packet (author_packet date x y rows colors alphas) clut requested = Inr
    \<lparr>ov_bounds = \<lparr>min_x = int x, min_y = int y, max_x = int (x + length (hd rows)), max_y = int (y + length rows)\<rparr>,
     ov_pixels = concat rows, ov_stride = length (hd rows), ov_palette = palette, ov_color_map = colors,
     ov_alpha = alphas, ov_start_date = date, ov_end_date = 0, ov_menu = False\<rparr>"
proof -
  define evens odds where "evens = pack (encode_field (every_other rows))"
    and "odds = pack (encode_field (every_other (tl rows)))"
  define control where "control = 4 + length evens + length odds"
  define block where "block = control_block date control colors alphas (x, x + length (hd rows) - 1)
    (y, y + length rows - 1) (4 + length evens)"
  define packet where "packet = put16 (control + 24) @ put16 control @ evens @ odds @ block"
  have packet: "author_packet date x y rows colors alphas = packet"
    by (simp add: author_packet_def Let_def packet_def block_def control_def evens_def odds_def)
  have len: "length packet = control + 24" by (simp add: packet_def block_def control_def)
  with assms(6) have small: "control + 24 \<le> 65535" by (simp add: packet max_packet_bytes_def)
  have "length (put16 (control + 24) @ put16 control @ evens @ odds) = control" by (simp add: control_def)
  with bytes_from_middle [of "put16 (control + 24) @ put16 control @ evens @ odds" block "[]"]
  have block: "bytes_from packet control block" by (simp only: packet_def append_assoc append_Nil2)
  have bytes: "bytes_from packet 0 (put16 (control + 24))" "bytes_from packet 2 (put16 control)"
      "bytes_from packet control (put16 (unat date))" "bytes_from packet (control + 2) (put16 control)"
    using bytes_from_middle [of "[]" "put16 (control + 24)"] bytes_from_middle [of "put16 (control + 24)" "put16 control"]
      block by (simp_all add: packet_def block_def control_block_def)
  have size: "0 < length (hd rows)" "0 < length rows" "x + length (hd rows) \<le> 4096" "y + length rows \<le> 4096"
    using assms(1) unfolding picture_fits_def by blast+
  then have corners: "x < 4096" "x + length (hd rows) - 1 < 4096" "y < 4096" "y + length rows - 1 < 4096" by linarith+
  have "bytes_from packet (control + 4) (drop 4 block)"
    using block by (simp add: bytes_from_def block_def add.assoc)
  note parsed = parse_control_block [OF this [unfolded block_def] assms(2,3) corners, of initial_control]
  obtain w0 where w0: "u16_at packet 0 = (Inr w0 :: (spu_error, u16) go)" "unat w0 = control + 24"
    using u16_at_put16 [OF bytes(1)] small by auto
  obtain w2 where w2: "u16_at packet 2 = (Inr w2 :: (spu_error, u16) go)" "unat w2 = control"
    using u16_at_put16 [OF bytes(2)] small by auto
  obtain wd where wd: "u16_at packet control = (Inr wd :: (spu_error, u16) go)" "unat wd = unat date"
    using u16_at_put16 [OF bytes(3)] by auto
  obtain wn where wn: "u16_at packet (control + 2) = (Inr wn :: (spu_error, u16) go)" "unat wn = control"
    using u16_at_put16 [OF bytes(4)] small by auto
  have date: "wd = date" using wd(2) by (simp add: word_unat_eq_iff)
  define state where "state = initial_control\<lparr>ctl_started := True, ctl_start_date := date, ctl_color_map := colors,
      ctl_alpha := alphas, ctl_x1 := x, ctl_y1 := y, ctl_x2 := x + length (hd rows) - 1, ctl_y2 := y + length rows - 1,
      ctl_offset_even := 4, ctl_offset_odd := int (4 + length evens)\<rparr>"
  have "4 + length evens < 65536" using small by (simp add: control_def)
  note parsed = parsed [OF this, folded state_def]
  have "control_loop (Suc n) packet control requested control [] initial_control = Inr state" for n
    using wd(1) wn len parsed assms(5) by (simp add: date not_less)
  from this [of 127] have loop: "control_loop max_control_blocks packet control requested control [] initial_control = Inr state"
    by (simp only: max_control_blocks_def) simp
  have "4 \<le> control" by (simp add: control_def)
  then have "decode_packet packet clut requested = decode_display packet clut state"
    using w0 w2 len small loop by (simp add: decode_packet_def max_packet_bytes_def control_def [symmetric])
  moreover have "length (put16 (control + 24) @ put16 control) = 4" "block \<noteq> []"
    "packet = (put16 (control + 24) @ put16 control) @ evens @ odds @ block"
    by (simp_all add: packet_def block_def control_block_def)
  ultimately show ?thesis
    using decode_picture_display [OF assms(1-4), of packet "put16 (control + 24) @ put16 control" block state date]
    by (simp add: packet evens_def odds_def state_def)
qed

subsection \<open>Compositing\<close>

text \<open>The source-over rule on natural numbers.\<close>

definition blend_value :: "nat \<Rightarrow> nat \<Rightarrow> nat \<Rightarrow> nat \<Rightarrow> nat" where
  "blend_value sa da src dst = (src * sa + dst * da) div (sa + da)"

definition blend_reference :: "nrgba \<Rightarrow> nrgba \<Rightarrow> nrgba" where
  "blend_reference c d =
     (if col_a c = 0 then d
      else if col_a c = 0xff then c
      else let sa = unat (col_a c); da = unat (col_a d) * (255 - sa) div 255 in
        \<lparr>col_r = word_of_nat (blend_value sa da (unat (col_r c)) (unat (col_r d))),
         col_g = word_of_nat (blend_value sa da (unat (col_g c)) (unat (col_g d))),
         col_b = word_of_nat (blend_value sa da (unat (col_b c)) (unat (col_b d))),
         col_a = word_of_nat (sa + da)\<rparr>)"

lemma byte_le: "unat (b :: u8) \<le> 255"
  using unat_byte_less [of b] by linarith

lemma blend_value_less:
  assumes "src < 256" "dst < 256" "0 < sa + da"
  shows "blend_value sa da src dst < 256"
proof -
  have "src * sa + dst * da \<le> 255 * sa + 255 * da" using assms by (intro add_mono mult_right_mono) auto
  also have "\<dots> = 255 * (sa + da)" by (simp add: algebra_simps)
  also have "\<dots> < 256 * (sa + da)" using assms(3) by auto
  finally have "src * sa + dst * da < 256 * (sa + da)" .
  then show ?thesis unfolding blend_value_def by (rule less_mult_imp_div_less)
qed

lemma unat_u32_byte: "unat (ucast (b :: u8) :: u32) = unat b"
  by (simp add: unsigned_ucast_eq take_bit_nat_eq_self_iff less_trans [OF unat_byte_less])

lemma blend_channel_ok:
  assumes "unat sa < 256" "unat da < 256" "unat out = unat sa + unat da" "0 < unat out"
  shows "blend_channel sa da out src dst = Inr (word_of_nat (blend_value (unat sa) (unat da) (unat src) (unat dst)))"
proof -
  have "unat src * unat sa \<le> 255 * 255" "unat dst * unat da \<le> 255 * 255"
    using assms(1,2) by (intro mult_le_mono byte_le; simp)+
  then have "unat (ucast src * sa + ucast dst * da) = unat src * unat sa + unat dst * unat da"
    by (simp add: unat_word_ariths unat_u32_byte)
  then have v: "unat ((ucast src * sa + ucast dst * da) div out) = blend_value (unat sa) (unat da) (unat src) (unat dst)"
    by (simp add: unat_div_distrib blend_value_def assms(3))
  moreover have "blend_value (unat sa) (unat da) (unat src) (unat dst) < 256"
    using assms(3,4) by (intro blend_value_less) simp_all
  ultimately have "\<not> (ucast src * sa + ucast dst * da) div out > 0xff" by (simp add: word_less_nat_alt)
  moreover have "ucast ((ucast src * sa + ucast dst * da) div out)
      = (word_of_nat (blend_value (unat sa) (unat da) (unat src) (unat dst)) :: u8)"
    by (simp only: v [symmetric]) simp
  ultimately show ?thesis by (simp add: blend_channel_def bounded_byte_def)
qed

lemma blend_nrgba_ok:
  assumes "in_rect x y (frame_bounds f)"
  shows "blend_nrgba f x y c = Inr (f\<lparr>frame_pixels := (frame_pixels f)((x, y) := blend_reference c (frame_pixels f (x, y)))\<rparr>)"
proof (cases "col_a c = 0 \<or> col_a c = 0xff")
  case True
  then show ?thesis using assms by (auto simp: blend_nrgba_def blend_reference_def set_nrgba_def)
next
  case False
  define d where "d = frame_pixels f (x, y)"
  define sa da where "sa = (ucast (col_a c) :: u32)" and "da = ucast (col_a d) * (255 - sa) div 255"
  have sa: "unat sa = unat (col_a c)" "unat sa < 256" "0 < unat sa" "unat sa \<le> 255"
    using False unat_byte_less [of "col_a c"] by (simp_all add: sa_def unat_u32_byte unat_gt_0 del: unat_byte_less)
  have sub: "unat (255 - sa) = 255 - unat sa" using sa(4) by (simp add: unat_sub word_le_nat_alt)
  have "unat (col_a d) * (255 - unat sa) \<le> 255 * 255" by (intro mult_le_mono byte_le) simp
  then have da: "unat da = unat (col_a d) * (255 - unat sa) div 255"
    by (simp add: da_def unat_div_distrib unat_word_ariths unat_u32_byte sub)
  have "unat (col_a d) * (255 - unat sa) div 255 \<le> 255 * (255 - unat sa) div 255"
    by (intro div_le_mono mult_le_mono1 byte_le)
  then have sum: "unat da \<le> 255 - unat sa" by (simp add: da)
  then have out: "unat (sa + da) = unat sa + unat da" "unat (sa + da) < 256" using sa by (simp_all add: unat_word_ariths)
  have da_small: "unat da < 256" using sum by simp
  have pos: "0 < unat (sa + da)" using out(1) sa(3) by simp
  then have "sa + da \<noteq> 0" by auto
  moreover have "bounded_byte (sa + da) = Inr (word_of_nat (unat sa + unat da))"
    using out(2) unfolding out(1) [symmetric] by (simp add: bounded_byte_def word_less_nat_alt)
  ultimately show ?thesis
    using False assms blend_channel_ok [OF sa(2) da_small out(1) pos]
    by (simp add: blend_nrgba_def blend_reference_def nrgba_at_def d_def [symmetric] sa_def [symmetric] da_def [symmetric]
        sa(1) [symmetric] da [symmetric] set_nrgba_def Let_def)
qed

text \<open>
  The colour of one pixel, stated apart from the code. \<open>k\<close> is one of the overlay's four colours. Inside the
  selected button the highlight's palette word gives it: its hexadecimal digit \<open>k\<close> is the opacity in
  fifteenths, its digit \<open>k + 4\<close> the entry of the colour table.
\<close>

definition hex_digit :: "u32 \<Rightarrow> nat \<Rightarrow> nat" where
  "hex_digit v k = unat v div 16 ^ k mod 16"

definition button_color :: "u32 \<Rightarrow> u32 list \<Rightarrow> nat \<Rightarrow> nrgba" where
  "button_color palette clut k =
     (case clut_color (clut ! hex_digit palette (k + 4)) (word_of_nat (hex_digit palette k * 17)) of
        Inr c \<Rightarrow> c
      | Inl _ \<Rightarrow> \<lparr>col_r = 0, col_g = 0, col_b = 0, col_a = 0\<rparr>)"

definition pixel_at :: "overlay \<Rightarrow> int \<Rightarrow> int \<Rightarrow> nat" where
  "pixel_at ov x y = unat (ov_pixels ov ! nat ((y - min_y (ov_bounds ov)) * int (ov_stride ov) + (x - min_x (ov_bounds ov))))"

definition shown_color :: "overlay \<Rightarrow> u32 list \<Rightarrow> highlight option \<Rightarrow> int \<Rightarrow> int \<Rightarrow> nrgba" where
  "shown_color ov clut high x y =
     (if \<exists>h. high = Some h \<and> x \<in> {min_x (hl_bounds h)..<max_x (hl_bounds h)} \<and> y \<in> {min_y (hl_bounds h)..<max_y (hl_bounds h)}
      then button_color (hl_palette (the high)) clut (pixel_at ov x y)
      else ov_palette ov ! pixel_at ov x y)"

lemma hex_digit_word: "unat (drop_bit (4 * k) v AND 0x0f :: u32) = hex_digit v k"
proof -
  have "drop_bit (4 * k) v AND 0x0f = take_bit 4 (drop_bit (4 * k) v)" by (simp add: take_bit_eq_mask mask_eq_exp_minus_1)
  moreover have "unat (drop_bit (4 * k) v) = unat v div 2 ^ (4 * k)"
    by (simp only: unat_drop_bit_eq) (simp only: drop_bit_eq_div)
  ultimately have "unat (drop_bit (4 * k) v AND 0x0f) = unat v div 2 ^ (4 * k) mod 2 ^ 4"
    by (simp add: take_bit_eq_mod unat_mod_distrib)
  then show ?thesis by (simp add: hex_digit_def power_mult)
qed

lemma bounded_hex_digit: "bounded_byte (drop_bit (4 * k) v AND 0x0f) = Inr (word_of_nat (hex_digit v k))"
proof -
  have "hex_digit v k < 16" by (simp add: hex_digit_def)
  then have "\<not> drop_bit (4 * k) v AND 0x0f > (0xff :: u32)" by (simp add: word_less_nat_alt hex_digit_word)
  moreover have "ucast (drop_bit (4 * k) v AND 0x0f) = (word_of_nat (hex_digit v k) :: u8)"
    by (simp only: hex_digit_word [symmetric]) simp
  ultimately show ?thesis by (simp add: bounded_byte_def)
qed

lemma highlight_entry_ok:
  assumes "unat index < 4"
  shows "highlight_entry palette index
    = Inr (word_of_nat (hex_digit palette (unat index + 4)), word_of_nat (hex_digit palette (unat index)))"
proof -
  have "unat (index * 4) = 4 * unat index" "unat (16 + index * 4) = 4 * (unat index + 4)"
    using assms by (simp_all add: unat_word_ariths)
  then show ?thesis
    using bounded_hex_digit [of "unat index" palette] bounded_hex_digit [of "unat index + 4" palette]
    by (simp add: highlight_entry_def Let_def del: mult_Suc_right)
qed

lemma overlay_color_ok:
  assumes "overlay_ok ov" and "length clut = 16" and "in_rect x y (ov_bounds ov)"
  shows "overlay_color ov clut high x y = Inr (shown_color ov clut high x y)"
proof -
  define i where "i = (y - min_y (ov_bounds ov)) * int (ov_stride ov) + x - min_x (ov_bounds ov)"
  define col where "col = x - min_x (ov_bounds ov)"
  define row where "row = y - min_y (ov_bounds ov)"
  have col: "0 \<le> col" "col < int (ov_stride ov)" and row: "0 \<le> row" "row + 1 \<le> max_y (ov_bounds ov) - min_y (ov_bounds ov)"
    using assms(1,3) by (auto simp: overlay_ok_def in_rect_def col_def row_def)
  have i: "i = row * int (ov_stride ov) + col" by (simp add: i_def col_def row_def)
  have "i < (row + 1) * int (ov_stride ov)" using col by (simp add: i algebra_simps)
  also have "\<dots> \<le> int (ov_stride ov) * (max_y (ov_bounds ov) - min_y (ov_bounds ov))"
    using mult_right_mono [OF row(2), of "int (ov_stride ov)"] by (simp add: mult.commute)
  finally have "i < int (length (ov_pixels ov))" using assms(1) by (simp add: overlay_ok_def)
  moreover have "0 \<le> i" using col(1) row(1) by (simp add: i)
  ultimately have less: "nat i < length (ov_pixels ov)" "\<not> i < 0" by linarith+
  then have index: "unat (ov_pixels ov ! nat i) < 4" "length (ov_palette ov) = 4"
    using assms(1) nth_mem [OF less(1)] by (simp_all add: overlay_ok_def)
  have pixel: "pixel_at ov x y = unat (ov_pixels ov ! nat i)" by (simp add: pixel_at_def i_def add_diff_eq)
  let ?palette = "hl_palette (the high)" and ?k = "unat (ov_pixels ov ! nat i)"
  have entry: "unat (word_of_nat (hex_digit ?palette (?k + 4)) :: u8) = hex_digit ?palette (?k + 4)"
    by (simp add: unat_of_nat hex_digit_def)
  obtain c where c: "clut_color (clut ! hex_digit ?palette (?k + 4)) (word_of_nat (hex_digit ?palette ?k * 17)) = Inr c"
    using clut_color_ok by blast
  have "hex_digit ?palette (?k + 4) < length clut" using assms(2) by (simp add: hex_digit_def)
  with c entry less index show ?thesis
    by (cases high)
      (auto simp: overlay_color_def i_def [symmetric] shown_color_def pixel button_color_def highlight_entry_ok in_rect_def)
qed

text \<open>What one pixel of the frame becomes.\<close>

definition painted :: "overlay \<Rightarrow> u32 list \<Rightarrow> highlight option \<Rightarrow> int \<times> int \<Rightarrow> nrgba \<Rightarrow> nrgba" where
  "painted ov clut high p d = blend_reference (shown_color ov clut high (fst p) (snd p)) d"

lemma composite_pixel_ok:
  assumes "overlay_ok ov" and "length clut = 16" and "in_rect x y (ov_bounds ov)" and "in_rect x y (frame_bounds f)"
  shows "composite_pixel ov clut high y x f
    = Inr (f\<lparr>frame_pixels := (frame_pixels f)((x, y) := painted ov clut high (x, y) (frame_pixels f (x, y)))\<rparr>)"
  using overlay_color_ok [OF assms(1-3), of high] blend_nrgba_ok [OF assms(4)]
  by (simp add: composite_pixel_def painted_def)

text \<open>Painting a set of pixels, each once.\<close>

definition paint :: "overlay \<Rightarrow> u32 list \<Rightarrow> highlight option \<Rightarrow> (int \<times> int) set \<Rightarrow> frame \<Rightarrow> frame" where
  "paint ov clut high ps f =
     f\<lparr>frame_pixels := \<lambda>p. if p \<in> ps then painted ov clut high p (frame_pixels f p) else frame_pixels f p\<rparr>"

lemma paint_simps:
  "frame_bounds (paint ov clut high ps f) = frame_bounds f" "paint ov clut high {} f = f"
  by (simp_all add: paint_def)

lemma paint_paint: "ps \<inter> qs = {} \<Longrightarrow> paint ov clut high qs (paint ov clut high ps f) = paint ov clut high (ps \<union> qs) f"
  by (auto simp: paint_def fun_eq_iff intro!: frame.fold_congs)

lemma composite_row_ok:
  assumes "overlay_ok ov" and "length clut = 16"
    and "\<forall>x\<in>set xs. in_rect x y (ov_bounds ov) \<and> in_rect x y (frame_bounds f)" and "distinct xs"
  shows "go_fold (composite_pixel ov clut high y) xs f = Inr (paint ov clut high ((\<lambda>x. (x, y)) ` set xs) f)"
  using assms(3,4)
proof (induction xs arbitrary: f)
  case (Cons x xs)
  have first: "composite_pixel ov clut high y x f = Inr (paint ov clut high {(x, y)} f)"
    using Cons.prems(1) by (subst composite_pixel_ok [OF assms(1,2)]) (auto simp: paint_def fun_eq_iff intro!: frame.fold_congs)
  have "go_fold (composite_pixel ov clut high y) xs (paint ov clut high {(x, y)} f)
      = Inr (paint ov clut high ((\<lambda>x. (x, y)) ` set xs) (paint ov clut high {(x, y)} f))"
    using Cons.prems by (intro Cons.IH) (simp_all add: paint_simps)
  also have "paint ov clut high ((\<lambda>x. (x, y)) ` set xs) (paint ov clut high {(x, y)} f)
      = paint ov clut high ((\<lambda>x. (x, y)) ` set (x # xs)) f"
    using Cons.prems(2) by (subst paint_paint) auto
  finally show ?case by (simp add: first)
qed (simp add: paint_simps)

lemma composite_rows_ok:
  assumes "overlay_ok ov" and "length clut = 16"
    and "\<forall>y\<in>set ys. \<forall>x\<in>set xs. in_rect x y (ov_bounds ov) \<and> in_rect x y (frame_bounds f)"
    and "distinct xs" "distinct ys"
  shows "go_fold (\<lambda>y. go_fold (composite_pixel ov clut high y) xs) ys f = Inr (paint ov clut high (set xs \<times> set ys) f)"
  using assms(3,5)
proof (induction ys arbitrary: f)
  case (Cons y ys)
  let ?row = "(\<lambda>x. (x, y)) ` set xs"
  have first: "go_fold (composite_pixel ov clut high y) xs f = Inr (paint ov clut high ?row f)"
    using Cons.prems(1) by (intro composite_row_ok [OF assms(1,2) _ assms(4)]) simp
  have "go_fold (\<lambda>y. go_fold (composite_pixel ov clut high y) xs) ys (paint ov clut high ?row f)
      = Inr (paint ov clut high (set xs \<times> set ys) (paint ov clut high ?row f))"
    using Cons.prems by (intro Cons.IH) (simp_all add: paint_simps)
  also have "paint ov clut high (set xs \<times> set ys) (paint ov clut high ?row f)
      = paint ov clut high (set xs \<times> set (y # ys)) f"
  proof -
    have "?row \<inter> set xs \<times> set ys = {}" "?row \<union> set xs \<times> set ys = set xs \<times> set (y # ys)" using Cons.prems(2) by auto
    then show ?thesis by (simp only: paint_paint)
  qed
  finally show ?case by (simp add: first)
qed (simp add: paint_simps)

lemma composite_ok:
  assumes "overlay_ok ov" and "length clut = 16"
  shows "composite f ov clut high = Inr (paint ov clut high
    {p. in_rect (fst p) (snd p) (ov_bounds ov) \<and> in_rect (fst p) (snd p) (frame_bounds f)} f)"
proof -
  define clip where "clip = intersect (ov_bounds ov) (frame_bounds f)"
  have clip: "in_rect x y clip \<longleftrightarrow> in_rect x y (ov_bounds ov) \<and> in_rect x y (frame_bounds f)" for x y
    by (auto simp: clip_def intersect_def Let_def in_rect_def)
  have "set [min_x clip..max_x clip - 1] \<times> set [min_y clip..max_y clip - 1] = {p. in_rect (fst p) (snd p) clip}"
    by (auto simp: in_rect_def)
  moreover have "\<forall>y\<in>set [min_y clip..max_y clip - 1]. \<forall>x\<in>set [min_x clip..max_x clip - 1].
      in_rect x y (ov_bounds ov) \<and> in_rect x y (frame_bounds f)"
    unfolding clip [symmetric] by (auto simp: in_rect_def)
  ultimately show ?thesis
    unfolding composite_def Let_def clip_def [symmetric]
    by (subst composite_rows_ok [OF assms]) (simp_all add: clip)
qed

subsection \<open>Properties\<close>

definition sample_rows :: "u8 list list" where
  "sample_rows = [[1, 1, 2], [3, 3, 3], [0, 1, 0]]"

definition sample_packet :: "u8 list" where
  "sample_packet = author_packet 5 16 32 sample_rows [0, 1, 2, 3] [0, 15, 15, 8]"

definition sample_clut :: "u32 list" where
  "sample_clut = [0x108080, 0xeb8080, 0x515aef, 0x903622, 0x29f06e, 0, 1, 2, 3, 4, 5, 6, 7, 8, 9, 10]"

definition black_frame :: frame where
  "black_frame = \<lparr>frame_bounds = \<lparr>min_x = 0, min_y = 0, max_x = 720, max_y = 576\<rparr>,
     frame_pixels = \<lambda>_. \<lparr>col_r = 0, col_g = 0, col_b = 0, col_a = 0xff\<rparr>\<rparr>"

lemma sample_packet_size: "length sample_packet = 32"
  by code_simp

lemma sample_packet_length: "length sample_packet \<le> max_packet_bytes"
  by (simp add: sample_packet_size max_packet_bytes_def)

lemma sample_picture: "picture_fits 16 32 sample_rows" "nibble_map [0, 1, 2, 3]" "nibble_map [0, 15, 15, 8]"
    "length sample_clut = 16"
  by (simp_all add: picture_fits_def nibble_map_def sample_rows_def sample_clut_def max_overlay_width_def max_overlay_height_def)

lemma sample_decodes: "\<exists>ov. decode_packet sample_packet sample_clut 0xffff = Inr ov"
  using authored_packet_decodes [OF sample_picture, of 5 "0xffff"] sample_packet_length
  unfolding sample_packet_def by auto

text \<open>C20: Decoding is total and safe: any bytes give an error or an overlay, never a panic, and an overlay is complete, with
  exactly one of its four colours for each pixel of a rectangle of at most 1024 by 1024.\<close>

lemma decoded_overlays_are_complete:
  assumes "length clut = 16"
  shows "yields overlay_ok (decode_packet packet clut date)"
  using assms by (rule decode_packet_yields)

lemma decoded_overlays_are_complete_witness: "yields overlay_ok (decode_packet [0, 10, 0, 4, 0, 0, 0, 4, 9, 9] (replicate 16 0) 0)"
  using decoded_overlays_are_complete [of "replicate 16 0" "[0, 10, 0, 4, 0, 0, 0, 4, 9, 9]" 0] by simp

text \<open>Decoding inverts authoring: the packet of any picture that fits, its lines run-length coded in two interlaced
  fields behind one control block, decodes at or after its date to exactly that picture, in its place and with its maps.\<close>

lemma authored_pictures_come_back:
  assumes "picture_fits x y rows" and "nibble_map colors" "nibble_map alphas" and "length clut = 16"
    and "date \<le> requested" and "length (author_packet date x y rows colors alphas) \<le> max_packet_bytes"
  shows "\<exists>palette. decode_packet (author_packet date x y rows colors alphas) clut requested = Inr
    \<lparr>ov_bounds = \<lparr>min_x = int x, min_y = int y, max_x = int (x + length (hd rows)), max_y = int (y + length rows)\<rparr>,
     ov_pixels = concat rows, ov_stride = length (hd rows), ov_palette = palette, ov_color_map = colors,
     ov_alpha = alphas, ov_start_date = date, ov_end_date = 0, ov_menu = False\<rparr>"
  using assms by (rule authored_packet_decodes)

lemma authored_pictures_come_back_witness:
  "\<exists>palette. decode_packet sample_packet sample_clut 0xffff = Inr
    \<lparr>ov_bounds = \<lparr>min_x = 16, min_y = 32, max_x = 19, max_y = 35\<rparr>,
     ov_pixels = [1, 1, 2, 3, 3, 3, 0, 1, 0], ov_stride = 3, ov_palette = palette, ov_color_map = [0, 1, 2, 3],
     ov_alpha = [0, 15, 15, 8], ov_start_date = 5, ov_end_date = 0, ov_menu = False\<rparr>"
  using authored_pictures_come_back [OF sample_picture, of 5 "0xffff"] sample_packet_length
  unfolding sample_packet_def by (simp add: sample_rows_def numeral_3_eq_3)

text \<open>C21: Compositing a decoded overlay never panics and touches only the overlay: each pixel of the overlay's rectangle that
  lies in the frame is blended exactly once over what was there, with the overlay's own colour for it or, inside the selected
  button's rectangle and nowhere else, with the colour and opacity the highlight's palette gives that pixel; every other pixel
  and the frame's bounds stay as they were.\<close>

lemma compositing_blends_once:
  assumes "decode_packet packet clut date = Inr ov" and "length clut = 16"
  shows "\<exists>g. composite f ov clut high = Inr g \<and> frame_bounds g = frame_bounds f
    \<and> (\<forall>x y. frame_pixels g (x, y) =
        (if in_rect x y (ov_bounds ov) \<and> in_rect x y (frame_bounds f)
         then blend_reference (shown_color ov clut high x y) (frame_pixels f (x, y)) else frame_pixels f (x, y)))"
  using composite_ok [OF yieldsD [OF decode_packet_yields [OF assms(2)] assms(1)] assms(2), of f high]
  by (simp add: paint_def painted_def)

text \<open>The first pixel of the picture is inside the button of the highlight, the last one is not.\<close>

definition sample_highlight :: highlight where
  "sample_highlight = \<lparr>hl_bounds = \<lparr>min_x = 16, min_y = 32, max_x = 18, max_y = 34\<rparr>, hl_palette = 0x321080f0\<rparr>"

lemma compositing_blends_once_witness:
  "(case decode_packet sample_packet sample_clut 0xffff of
      Inr ov \<Rightarrow> (case composite black_frame ov sample_clut (Some sample_highlight) of
          Inr g \<Rightarrow> frame_pixels g (16, 32) = blend_reference (button_color 0x321080f0 sample_clut 1) (frame_pixels black_frame (16, 32))
            \<and> frame_pixels g (18, 34) = blend_reference (ov_palette ov ! 0) (frame_pixels black_frame (18, 34))
            \<and> frame_pixels g (15, 32) = frame_pixels black_frame (15, 32)
        | Inl _ \<Rightarrow> False)
    | Inl _ \<Rightarrow> False)"
proof -
  obtain palette where ov: "decode_packet sample_packet sample_clut 0xffff = Inr
      \<lparr>ov_bounds = \<lparr>min_x = 16, min_y = 32, max_x = 19, max_y = 35\<rparr>, ov_pixels = [1, 1, 2, 3, 3, 3, 0, 1, 0], ov_stride = 3,
       ov_palette = palette, ov_color_map = [0, 1, 2, 3], ov_alpha = [0, 15, 15, 8], ov_start_date = 5, ov_end_date = 0, ov_menu = False\<rparr>"
    using authored_packet_decodes [OF sample_picture, of 5 "0xffff"] sample_packet_length
    unfolding sample_packet_def by (auto simp: sample_rows_def numeral_3_eq_3)
  show ?thesis
    using compositing_blends_once [OF ov sample_picture(4), of black_frame "Some sample_highlight"]
    by (auto simp: ov in_rect_def black_frame_def shown_color_def pixel_at_def sample_highlight_def)
qed

end
