(* ===== verification/DvdNav.thy ===== *)
theory DvdNav
  imports DvdBytes
begin

text \<open>
  DVD navigation packets, \<open>internal/dvdvideo/nav/nav.go\<close>: the bit reader, presentation control (PCI) with
  its button tables, data search (DSI), the sector around both, routing of subpicture payloads from
  private stream 1, and the bounded scan of a cell. A bit reader's operation maps the bytes and the bit
  position to a value and the next position. Byte and bit positions are naturals, limits are integers
  as the caller may pass negative ones.
\<close>

unbundle bit_operations_syntax

datatype nav_error = ErrInvalidNAV | ReadError

abbreviation invalid_nav :: "(nav_error, 'a) go" where
  "invalid_nav \<equiv> Inl (Failed ErrInvalidNAV)"

definition sector_size :: nat where "sector_size = 2048"
definition pci_payload_size :: nat where "pci_payload_size = 979"
definition minimum_dsi_payload_size :: nat where "minimum_dsi_payload_size = 32"
definition max_buttons :: nat where "max_buttons = 36"
definition max_button_groups :: nat where "max_button_groups = 3"
definition default_packet_limit :: int where "default_packet_limit = 4096"
definition default_payload_limit :: int where "default_payload_limit = 16777216"
definition default_sector_limit :: int where "default_sector_limit = 4096"

subsection \<open>Data\<close>

record button =
  btn_number :: u8
  btn_color_group :: u8
  btn_x_start :: u16
  btn_y_start :: u16
  btn_x_end :: u16
  btn_y_end :: u16
  btn_auto_action :: bool
  btn_up :: u8
  btn_down :: u8
  btn_left :: u8
  btn_right :: u8
  btn_command :: command

record pci =
  pci_logical_block :: u32
  pci_vobu_category :: u16
  pci_vobu_start_pts :: u32
  pci_vobu_end_pts :: u32
  pci_sequence_end_pts :: u32
  pci_highlight_status :: u16
  pci_highlight_start_pts :: u32
  pci_highlight_end_pts :: u32
  pci_button_select_end_pts :: u32
  pci_group_count :: u8
  pci_button_offset :: u8
  pci_button_count :: u8
  pci_selectable_count :: u8
  pci_forced_select :: u8
  pci_forced_action :: u8
  pci_button_colors :: "u32 list list"
  pci_button_groups :: "button list list"

record dsi =
  dsi_system_clock :: u32
  dsi_logical_block :: u32
  dsi_vobu_end_address :: u32
  dsi_first_reference :: u32
  dsi_second_reference :: u32
  dsi_third_reference :: u32
  dsi_vob_id :: u16
  dsi_cell_id :: u8
  dsi_cell_elapsed :: "u8 list"

record nav_packet =
  nav_pci :: pci
  nav_dsi :: dsi

record spu_fragment =
  frag_stream :: u8
  frag_data :: "u8 list"
  frag_pts :: u64
  frag_has_pts :: bool

record cell_scan_options =
  scan_max_sectors :: int
  scan_max_packets :: int
  scan_max_bytes :: int

record cell_scan =
  scan_packets :: "nav_packet list"
  scan_fragments :: "spu_fragment list"
  scan_sectors :: nat
  scan_truncated :: bool

subsection \<open>The bit reader\<close>

type_synonym 'a bit_op = "u8 list \<Rightarrow> nat \<Rightarrow> (nav_error, 'a \<times> nat) go"

definition br_return :: "'a \<Rightarrow> 'a bit_op" where
  "br_return x data pos = Inr (x, pos)"

definition br_bind :: "'a bit_op \<Rightarrow> ('a \<Rightarrow> 'b bit_op) \<Rightarrow> 'b bit_op" where
  "br_bind m f data pos = go_bind (m data pos) (\<lambda>(x, pos'). f x data pos')"

text \<open>A check that reads nothing.\<close>

definition br_check :: "(nav_error, unit) go \<Rightarrow> unit bit_op" where
  "br_check m data pos = go_bind m (\<lambda>_. Inr ((), pos))"

text \<open>The loop of \<open>read\<close>: one bit per round, the first bit read becomes the highest.\<close>

fun read_loop :: "nat \<Rightarrow> u64 \<Rightarrow> u64 bit_op" where
  "read_loop 0 value data pos = Inr (value, pos)"
| "read_loop (Suc n) value data pos =
     go_bind (index_at data (pos div 8)) (\<lambda>b.
       read_loop n (push_bit 1 value OR ucast (drop_bit (7 - pos mod 8) b AND 1)) data (pos + 1))"

definition read_bits :: "nat \<Rightarrow> u64 bit_op" where
  "read_bits count data pos =
     (if count > 64 \<or> pos + count > length data * 8 then invalid_nav else read_loop count 0 data pos)"

definition skip_bits :: "nat \<Rightarrow> unit bit_op" where
  "skip_bits count data pos = (if pos + count > length data * 8 then invalid_nav else Inr ((), pos + count))"

definition read_u8 :: "nat \<Rightarrow> u8 bit_op" where
  "read_u8 count data pos = go_bind (read_bits count data pos) (\<lambda>(value, pos').
     if value > 0xff then invalid_nav else Inr (ucast value, pos'))"

definition read_u16_bits :: "nat \<Rightarrow> u16 bit_op" where
  "read_u16_bits count data pos = go_bind (read_bits count data pos) (\<lambda>(value, pos').
     if value > 0xffff then invalid_nav else Inr (ucast value, pos'))"

definition read_u16 :: "u16 bit_op" where
  "read_u16 = read_u16_bits 16"

definition read_u32 :: "u32 bit_op" where
  "read_u32 data pos = go_bind (read_bits 32 data pos) (\<lambda>(value, pos').
     if value > 0xffffffff then invalid_nav else Inr (ucast value, pos'))"

subsection \<open>Presentation control\<close>

text \<open>The eight bytes of a button's command.\<close>

fun read_bytes :: "nat \<Rightarrow> u8 list bit_op" where
  "read_bytes 0 = br_return []"
| "read_bytes (Suc n) = br_bind (read_u8 8) (\<lambda>b. br_bind (read_bytes n) (\<lambda>bs. br_return (b # bs)))"

text \<open>One neighbour: two reserved bits, then six.\<close>

definition read_neighbor :: "u8 bit_op" where
  "read_neighbor = br_bind (skip_bits 2) (\<lambda>_. read_u8 6)"

definition read_button :: "button bit_op" where
  "read_button =
     br_bind (read_u8 2) (\<lambda>color. br_bind (read_u16_bits 10) (\<lambda>x_start. br_bind (skip_bits 2) (\<lambda>_.
     br_bind (read_u16_bits 10) (\<lambda>x_end. br_bind (read_u8 2) (\<lambda>auto_action. br_bind (read_u16_bits 10) (\<lambda>y_start.
     br_bind (skip_bits 2) (\<lambda>_. br_bind (read_u16_bits 10) (\<lambda>y_end.
     br_bind read_neighbor (\<lambda>up. br_bind read_neighbor (\<lambda>down. br_bind read_neighbor (\<lambda>left.
     br_bind read_neighbor (\<lambda>right. br_bind (read_bytes 8) (\<lambda>command. br_return
       \<lparr>btn_number = 0, btn_color_group = color, btn_x_start = x_start, btn_y_start = y_start, btn_x_end = x_end,
        btn_y_end = y_end, btn_auto_action = (auto_action \<noteq> 0), btn_up = up, btn_down = down, btn_left = left,
        btn_right = right, btn_command = command\<rparr>)))))))))))))"

definition validate_button :: "button \<Rightarrow> u8 \<Rightarrow> (nav_error, unit) go" where
  "validate_button b count =
     (if btn_color_group b > 3 then invalid_nav
      else if btn_x_start b > btn_x_end b \<or> btn_y_start b > btn_y_end b then invalid_nav
      else if \<exists>n\<in>set [btn_up b, btn_down b, btn_left b, btn_right b]. n > count then invalid_nav
      else Inr ())"

definition validate_header :: "pci \<Rightarrow> (nav_error, unit) go" where
  "validate_header p =
     (if unat (pci_group_count p) > max_button_groups then invalid_nav
      else if unat (pci_button_count p) > max_buttons \<or> pci_selectable_count p > pci_button_count p then invalid_nav
      else if pci_group_count p = 0 then (if pci_button_count p \<noteq> 0 then invalid_nav else Inr ())
      else if unat (pci_button_count p) > max_buttons div unat (pci_group_count p) then invalid_nav
      else if \<exists>n\<in>set [pci_forced_select p AND 0x3f, pci_forced_action p AND 0x3f]. n > pci_button_count p
        then invalid_nav
      else Inr ())"

text \<open>The three display groups of two palette words.\<close>

definition read_color_pair :: "u32 list bit_op" where
  "read_color_pair = br_bind read_u32 (\<lambda>a. br_bind read_u32 (\<lambda>b. br_return [a, b]))"

definition read_colors :: "u32 list list bit_op" where
  "read_colors = br_bind read_color_pair (\<lambda>a. br_bind read_color_pair (\<lambda>b. br_bind read_color_pair (\<lambda>c.
     br_return [a, b, c])))"

definition read_header :: "pci bit_op" where
  "read_header =
     br_bind read_u32 (\<lambda>logical_block. br_bind read_u16 (\<lambda>category. br_bind (skip_bits (16 + 32)) (\<lambda>_.
     br_bind read_u32 (\<lambda>start_pts. br_bind read_u32 (\<lambda>end_pts. br_bind read_u32 (\<lambda>sequence_end.
     br_bind (skip_bits (32 + 32 * 8 + 9 * 32)) (\<lambda>_.
     br_bind read_u16 (\<lambda>status. br_bind read_u32 (\<lambda>hl_start. br_bind read_u32 (\<lambda>hl_end.
     br_bind read_u32 (\<lambda>select_end. br_bind (skip_bits 2) (\<lambda>_. br_bind (read_u8 2) (\<lambda>groups.
     br_bind (skip_bits 12) (\<lambda>_. br_bind (read_u8 8) (\<lambda>offset. br_bind (read_u8 8) (\<lambda>count.
     br_bind (read_u8 8) (\<lambda>selectable. br_bind (skip_bits 8) (\<lambda>_. br_bind (read_u8 8) (\<lambda>forced_select.
     br_bind (read_u8 8) (\<lambda>forced_action. br_bind read_colors (\<lambda>colors. br_return
       \<lparr>pci_logical_block = logical_block, pci_vobu_category = category, pci_vobu_start_pts = start_pts,
        pci_vobu_end_pts = end_pts, pci_sequence_end_pts = sequence_end, pci_highlight_status = status,
        pci_highlight_start_pts = hl_start, pci_highlight_end_pts = hl_end, pci_button_select_end_pts = select_end,
        pci_group_count = groups, pci_button_offset = offset, pci_button_count = count,
        pci_selectable_count = selectable, pci_forced_select = forced_select, pci_forced_action = forced_action,
        pci_button_colors = colors, pci_button_groups = [[], [], []]\<rparr>)))))))))))))))))))))"

definition per_group :: "pci \<Rightarrow> nat" where
  "per_group p = (if pci_group_count p \<noteq> 0 then max_buttons div unat (pci_group_count p) else max_buttons)"

text \<open>\<open>pci.ButtonGroups[group] = append(...)\<close> on the array of three groups.\<close>

definition add_button :: "pci \<Rightarrow> nat \<Rightarrow> button \<Rightarrow> (nav_error, pci) go" where
  "add_button p grp b =
     go_bind (index_at (pci_button_groups p) grp) (\<lambda>bs.
       go_bind (store_at (pci_button_groups p) grp (bs @ [b])) (\<lambda>groups. Inr (p\<lparr>pci_button_groups := groups\<rparr>)))"

text \<open>The body of the loop over the button table, behind the read of its entry.\<close>

definition place_button :: "nat \<Rightarrow> pci \<Rightarrow> button \<Rightarrow> (nav_error, pci) go" where
  "place_button index p b =
     (if pci_group_count p = 0 then Inr p
      else let grp = index div per_group p; position = index mod per_group p in
        if grp \<ge> unat (pci_group_count p) \<or> position \<ge> unat (pci_button_count p) then Inr p
        else let b = b\<lparr>btn_number := word_of_nat (position + 1)\<rparr> in
          go_bind (validate_button b (pci_button_count p)) (\<lambda>_. add_button p grp b))"

text \<open>The loop over its 36 entries.\<close>

fun read_buttons :: "nat list \<Rightarrow> pci \<Rightarrow> pci bit_op" where
  "read_buttons [] p = br_return p"
| "read_buttons (index # rest) p =
     br_bind read_button (\<lambda>b. \<lambda>data pos. go_bind (place_button index p b) (\<lambda>p'. read_buttons rest p' data pos))"

definition parse_pci :: "u8 list \<Rightarrow> (nav_error, pci) go" where
  "parse_pci data =
     (if length data < pci_payload_size then invalid_nav
      else go_bind (slice_of data 0 pci_payload_size) (\<lambda>payload.
        go_bind (br_bind read_header (\<lambda>p. br_bind (br_check (validate_header p)) (\<lambda>_. read_buttons [0..<max_buttons] p))
            payload 0) (\<lambda>(p, _). Inr p)))"

subsection \<open>Data search and the sector\<close>

definition parse_dsi :: "u8 list \<Rightarrow> (nav_error, dsi) go" where
  "parse_dsi data =
     (if length data < minimum_dsi_payload_size then invalid_nav
      else go_bind (u32_at data 0) (\<lambda>clock. go_bind (u32_at data 4) (\<lambda>block. go_bind (u32_at data 8) (\<lambda>vobu_end.
        go_bind (u32_at data 12) (\<lambda>first. go_bind (u32_at data 16) (\<lambda>second. go_bind (u32_at data 20) (\<lambda>third.
        go_bind (u16_at data 24) (\<lambda>vob. go_bind (index_at data 27) (\<lambda>cell. go_bind (slice_of data 28 32) (\<lambda>elapsed.
          Inr \<lparr>dsi_system_clock = clock, dsi_logical_block = block, dsi_vobu_end_address = vobu_end,
               dsi_first_reference = first, dsi_second_reference = second, dsi_third_reference = third,
               dsi_vob_id = vob, dsi_cell_id = cell, dsi_cell_elapsed = elapsed\<rparr>))))))))))"

definition pack_start :: "u8 list" where "pack_start = [0, 0, 1, 0xba]"
definition system_start :: "u8 list" where "system_start = [0, 0, 1, 0xbb]"
definition stream1_start :: "u8 list" where "stream1_start = [0, 0, 1, 0xbd]"
definition stream2_start :: "u8 list" where "stream2_start = [0, 0, 1, 0xbf]"

text \<open>\<open>bytes.Equal(data[offset:offset+4], code)\<close>, behind the length check the code makes first.\<close>

definition starts_with :: "u8 list \<Rightarrow> nat \<Rightarrow> nat \<Rightarrow> u8 list \<Rightarrow> (nav_error, bool) go" where
  "starts_with data offset need code =
     (if offset + need \<le> length data
      then go_bind (slice_of data offset (offset + 4)) (\<lambda>bs. Inr (bs = code)) else Inr False)"

definition pack_end :: "u8 list \<Rightarrow> nat \<Rightarrow> (nav_error, nat) go" where
  "pack_end data offset =
     (if offset + 14 > length data then invalid_nav
      else go_bind (index_at data (offset + 4)) (\<lambda>b.
        if b AND 0x40 = 0 then (if offset + 12 > length data then invalid_nav else Inr (offset + 12))
        else go_bind (index_at data (offset + 13)) (\<lambda>s.
          let end = offset + 14 + unat (s AND 0x07) in if end > length data then invalid_nav else Inr end)))"

text \<open>The optional system header behind the pack header.\<close>

definition skip_system_header :: "u8 list \<Rightarrow> nat \<Rightarrow> (nav_error, nat) go" where
  "skip_system_header sector offset =
     go_bind (starts_with sector offset 6 system_start) (\<lambda>present.
       if present then go_bind (u16_at sector (offset + 4)) (\<lambda>size. Inr (offset + 6 + unat size)) else Inr offset)"

definition private_stream2 :: "u8 list \<Rightarrow> nat \<Rightarrow> u8 \<Rightarrow> (nav_error, u8 list \<times> nat) go" where
  "private_stream2 data offset substream =
     go_bind (starts_with data offset 7 stream2_start) (\<lambda>present.
       if \<not> present then invalid_nav
       else go_bind (u16_at data (offset + 4)) (\<lambda>size.
         let end = offset + 6 + unat size in
         if size < 1 \<or> end > length data then invalid_nav
         else go_bind (index_at data (offset + 6)) (\<lambda>id.
           if id \<noteq> substream then invalid_nav
           else go_bind (slice_of data (offset + 7) end) (\<lambda>payload. Inr (payload, end)))))"

definition parse_nav_sector :: "u8 list \<Rightarrow> (nav_error, nav_packet) go" where
  "parse_nav_sector sector =
     (if length sector \<noteq> sector_size then invalid_nav
      else go_bind (slice_of sector 0 4) (\<lambda>code.
        if code \<noteq> pack_start then invalid_nav
        else go_bind (pack_end sector 0) (\<lambda>offset. go_bind (skip_system_header sector offset) (\<lambda>offset.
          go_bind (private_stream2 sector offset 0) (\<lambda>(pci_payload, succ).
            go_bind (private_stream2 sector succ 1) (\<lambda>(dsi_payload, _).
              go_bind (parse_pci pci_payload) (\<lambda>pci. go_bind (parse_dsi dsi_payload) (\<lambda>dsi.
                Inr \<lparr>nav_pci = pci, nav_dsi = dsi\<rparr>))))))))"

text \<open>An error of \<open>packEnd\<close> means no.\<close>

definition looks_like_nav_sector :: "u8 list \<Rightarrow> (nav_error, bool) go" where
  "looks_like_nav_sector sector =
     (if length sector \<noteq> sector_size then Inr False
      else go_bind (slice_of sector 0 4) (\<lambda>code.
        if code \<noteq> pack_start then Inr False
        else case pack_end sector 0 of
            Inl (Failed _) \<Rightarrow> Inr False
          | Inl Panicked \<Rightarrow> Inl Panicked
          | Inr offset \<Rightarrow> go_bind (skip_system_header sector offset) (\<lambda>offset.
              go_bind (starts_with sector offset 7 stream2_start) (\<lambda>present.
                if present then go_bind (index_at sector (offset + 6)) (\<lambda>id. Inr (id = 0)) else Inr False))))"

subsection \<open>Subpicture fragments\<close>

text \<open>\<open>bytes.Index\<close>.\<close>

fun bytes_index :: "u8 list \<Rightarrow> u8 list \<Rightarrow> nat option" where
  "bytes_index [] code = (if code = [] then Some 0 else None)"
| "bytes_index (b # bs) code =
     (if take (length code) (b # bs) = code then Some 0 else map_option Suc (bytes_index bs code))"

definition decode_pts :: "u8 list \<Rightarrow> (nav_error, u64) go" where
  "decode_pts data =
     go_bind (index_at data 0) (\<lambda>b. go_bind (u16_at data 1) (\<lambda>v. go_bind (u16_at data 3) (\<lambda>w.
       Inr (push_bit 29 (ucast (b AND 0x0e)) OR push_bit 15 (ucast (drop_bit 1 v)) OR ucast (drop_bit 1 w)))))"

text \<open>The presentation time stamp of a packet whose flags say it has one.\<close>

definition fragment_of :: "u8 list \<Rightarrow> nat \<Rightarrow> nat \<Rightarrow> u8 \<Rightarrow> u8 list \<Rightarrow> (nav_error, spu_fragment) go" where
  "fragment_of data offset header_length substream payload =
     go_bind (index_at data (offset + 7)) (\<lambda>flags.
       if flags AND 0x80 \<noteq> 0 then
         (if header_length < 5 then invalid_nav
          else go_bind (slice_of data (offset + 9) (offset + 14)) (\<lambda>bs. go_bind (decode_pts bs) (\<lambda>pts.
            Inr \<lparr>frag_stream = substream, frag_data = payload, frag_pts = pts, frag_has_pts = True\<rparr>)))
       else Inr \<lparr>frag_stream = substream, frag_data = payload, frag_pts = 0, frag_has_pts = False\<rparr>)"

text \<open>The packet at \<open>offset\<close>: the header is checked, the payload routed if it is a subpicture. The result is the
  fragments, their total size and the end of the packet.\<close>

definition route_packet ::
    "u8 list \<Rightarrow> int \<Rightarrow> int \<Rightarrow> nat \<Rightarrow> nat \<Rightarrow> spu_fragment list \<Rightarrow> (nav_error, spu_fragment list \<times> nat \<times> nat) go" where
  "route_packet data packet_limit payload_limit offset bytes fragments =
     (if offset + 6 > length data then invalid_nav
      else go_bind (u16_at data (offset + 4)) (\<lambda>size.
        let end = offset + 6 + unat size in
        if end > length data then invalid_nav
        else if size < 4 \<or> offset + 9 > end then invalid_nav
        else go_bind (index_at data (offset + 6)) (\<lambda>marker.
          if marker AND 0xc0 \<noteq> 0x80 then invalid_nav
          else go_bind (index_at data (offset + 8)) (\<lambda>header.
            let payload = offset + 9 + unat header in
            if payload \<ge> end then invalid_nav
            else go_bind (index_at data payload) (\<lambda>substream.
              if 0x20 \<le> substream \<and> substream \<le> 0x3f then
                (if int (length fragments) \<ge> packet_limit then invalid_nav
                 else go_bind (slice_of data (payload + 1) end) (\<lambda>fragment.
                   let bytes' = bytes + length fragment in
                   if int bytes' > payload_limit then invalid_nav
                   else go_bind (fragment_of data offset (unat header) substream fragment) (\<lambda>item.
                     Inr (fragments @ [item], bytes', end))))
              else Inr (fragments, bytes, end))))))"

lemma route_packet_end:
  "route_packet data m n offset bytes fragments = Inr (fragments', bytes', end) \<Longrightarrow> offset < end \<and> end \<le> length data"
  by (auto simp: route_packet_def Let_def go_bind_Inr split: if_splits)

function route_loop ::
    "u8 list \<Rightarrow> int \<Rightarrow> int \<Rightarrow> nat \<Rightarrow> nat \<Rightarrow> spu_fragment list \<Rightarrow> (nav_error, spu_fragment list) go" where
  "route_loop data packet_limit payload_limit offset bytes fragments =
     (if offset + 6 \<le> length data then
        (case bytes_index (drop offset data) stream1_start of
           None \<Rightarrow> Inr fragments
         | Some i \<Rightarrow> go_bind (route_packet data packet_limit payload_limit (offset + i) bytes fragments)
             (\<lambda>(fragments', bytes', end). route_loop data packet_limit payload_limit end bytes' fragments'))
      else Inr fragments)"
  by pat_completeness auto
termination
  by (relation "measure (\<lambda>(data, _, _, offset, _). length data - offset)") (auto dest!: route_packet_end)

definition route_spu_fragments :: "u8 list \<Rightarrow> int \<Rightarrow> int \<Rightarrow> (nav_error, spu_fragment list) go" where
  "route_spu_fragments data packet_limit payload_limit =
     (let packet_limit = (if packet_limit = 0 then default_packet_limit else packet_limit);
          payload_limit = (if payload_limit = 0 then default_payload_limit else payload_limit)
      in if packet_limit < 0 \<or> payload_limit < 0 then invalid_nav
         else route_loop data packet_limit payload_limit 0 0 [])"

subsection \<open>Scanning a cell\<close>

text \<open>\<open>io.ReaderAt\<close>: what a read of one sector at a byte offset gives, the bytes and whether an error other than
  \<open>io.EOF\<close> came with them. A nil reader is \<open>None\<close>.\<close>

type_synonym sector_reader = "nat \<Rightarrow> u8 list \<times> bool"

text \<open>The fragments of one sector, added one by one under the aggregate limit.\<close>

fun add_fragments :: "int \<Rightarrow> spu_fragment list \<Rightarrow> cell_scan \<Rightarrow> nat \<Rightarrow> (nav_error, cell_scan \<times> nat) go" where
  "add_fragments limit [] scan bytes = Inr (scan, bytes)"
| "add_fragments limit (f # fs) scan bytes =
     (let bytes' = bytes + length (frag_data f) in
      if int bytes' > limit then invalid_nav
      else add_fragments limit fs (scan\<lparr>scan_fragments := scan_fragments scan @ [f]\<rparr>) bytes')"

definition scan_sector ::
    "u8 list \<Rightarrow> int \<Rightarrow> int \<Rightarrow> cell_scan \<Rightarrow> nat \<Rightarrow> (nav_error, cell_scan \<times> nat) go" where
  "scan_sector sector packet_limit payload_limit scan bytes =
     (let scan = scan\<lparr>scan_sectors := scan_sectors scan + 1\<rparr> in
      go_bind (looks_like_nav_sector sector) (\<lambda>nav.
        go_bind (if nav then go_bind (parse_nav_sector sector) (\<lambda>p. Inr (scan\<lparr>scan_packets := scan_packets scan @ [p]\<rparr>))
                 else Inr scan) (\<lambda>scan.
          go_bind (route_spu_fragments sector packet_limit payload_limit) (\<lambda>fragments.
            if int (length (scan_fragments scan) + length fragments) > packet_limit then invalid_nav
            else add_fragments payload_limit fragments scan bytes))))"

fun scan_loop ::
    "sector_reader \<Rightarrow> nat \<Rightarrow> int \<Rightarrow> int \<Rightarrow> nat list \<Rightarrow> cell_scan \<Rightarrow> nat \<Rightarrow> (nav_error, cell_scan) go" where
  "scan_loop read first packet_limit payload_limit [] scan bytes = Inr scan"
| "scan_loop read first packet_limit payload_limit (index # rest) scan bytes =
     (let offset = (first + index) * sector_size in
      if int offset > 2 ^ 63 - 1 then invalid_nav
      else case read offset of (sector, failed) \<Rightarrow>
        if failed then Inl (Failed ReadError)
        else if length sector \<noteq> sector_size then invalid_nav
        else go_bind (scan_sector sector packet_limit payload_limit scan bytes) (\<lambda>(scan', bytes').
          scan_loop read first packet_limit payload_limit rest scan' bytes'))"

definition or_default :: "int \<Rightarrow> int \<Rightarrow> int" where
  "or_default limit fallback = (if limit = 0 then fallback else limit)"

definition scan_cell ::
    "sector_reader option \<Rightarrow> int \<Rightarrow> u32 \<Rightarrow> u32 \<Rightarrow> cell_scan_options \<Rightarrow> (nav_error, cell_scan) go" where
  "scan_cell reader file_size first_sector last_sector opts =
     (case reader of
        None \<Rightarrow> invalid_nav
      | Some read \<Rightarrow>
          if file_size < 0 \<or> first_sector > last_sector then invalid_nav
          else let max_sectors = or_default (scan_max_sectors opts) default_sector_limit;
              packet_limit = or_default (scan_max_packets opts) default_packet_limit;
              payload_limit = or_default (scan_max_bytes opts) default_payload_limit
            in if max_sectors < 0 \<or> packet_limit < 0 \<or> payload_limit < 0 then invalid_nav
            else let count = unat last_sector - unat first_sector + 1;
                truncated = int count > max_sectors;
                count = (if truncated then nat max_sectors else count)
              in if int ((unat first_sector + count) * sector_size) > file_size then invalid_nav
              else scan_loop read (unat first_sector) packet_limit payload_limit [0..<count]
                \<lparr>scan_packets = [], scan_fragments = [], scan_sectors = 0, scan_truncated = truncated\<rparr> 0)"

end
