(* ===== verification/DvdNavProps.thy ===== *)
theory DvdNavProps
  imports DvdNav
begin

text \<open>
  Properties of the navigation parsers: the bit reader computes the number its bits spell; every
  parser and the cell scan are free of panics and give what their callers index by, complete button
  tables and bounded fragments.
\<close>

unbundle bit_operations_syntax

subsection \<open>The bits of a byte string\<close>

definition byte_bits :: "u8 \<Rightarrow> bool list" where
  "byte_bits b = map (bit b) [7, 6, 5, 4, 3, 2, 1, 0]"

definition bits_of :: "u8 list \<Rightarrow> bool list" where
  "bits_of data = concat (map byte_bits data)"

lemma length_byte_bits [simp]: "length (byte_bits b) = 8"
  by (simp add: byte_bits_def)

lemma length_bits_of [simp]: "length (bits_of data) = 8 * length data"
  by (induction data) (simp_all add: bits_of_def)

lemma byte_bits_nth: "i < 8 \<Longrightarrow> byte_bits b ! i = bit b (7 - i)"
  by (auto simp: byte_bits_def less_Suc_eq numeral_eq_Suc)

lemma bits_of_nth: "pos < 8 * length data \<Longrightarrow> bits_of data ! pos = bit (data ! (pos div 8)) (7 - pos mod 8)"
proof (induction data arbitrary: pos)
  case (Cons b data)
  show ?case
  proof (cases "pos < 8")
    case True
    then show ?thesis by (simp add: bits_of_def nth_append byte_bits_nth)
  next
    case False
    have "bits_of (b # data) ! pos = bits_of data ! (pos - 8)"
      using False by (simp add: bits_of_def nth_append)
    also have "\<dots> = bit (data ! ((pos - 8) div 8)) (7 - (pos - 8) mod 8)" using Cons False by auto
    also have "(pos - 8) div 8 = pos div 8 - 1" "(pos - 8) mod 8 = pos mod 8" "0 < pos div 8"
      using False le_div_geq [of 8 pos] le_mod_geq [of 8 pos] by auto
    ultimately show ?thesis by (simp add: nth_Cons')
  qed
qed simp

text \<open>The number that bits spell, highest first.\<close>

definition number :: "bool list \<Rightarrow> nat" where
  "number bs = foldl (\<lambda>n b. 2 * n + of_bool b) 0 bs"

lemma number_acc: "foldl (\<lambda>n b. 2 * n + of_bool b) a bs = a * 2 ^ length bs + number bs"
proof (induction bs rule: rev_induct)
  case (snoc b bs)
  then show ?case by (simp add: number_def algebra_simps)
qed (simp add: number_def)

lemma number_simps [simp]:
  "number [] = 0" "number (b # bs) = of_bool b * 2 ^ length bs + number bs"
  using number_acc [of "of_bool b" bs] by (simp_all add: number_def)

lemma number_less: "number bs < 2 ^ length bs"
  by (induction bs) auto

lemma shift_in_bit:
  assumes "unat (v :: u64) * 2 + 1 < 2 ^ 64"
  shows "unat (push_bit 1 v OR (if b then 1 else 0)) = 2 * unat v + of_bool b"
proof -
  have "push_bit 1 v AND (if b then 1 else 0) = 0"
    by (rule bit_word_eqI) (auto simp: bit_simps bit_double_iff mult.commute [of v 2])
  then have "push_bit 1 v OR (if b then 1 else 0) = push_bit 1 v + (if b then 1 else 0)"
    by (simp add: disjunctive_add_eq_or)
  then show ?thesis using assms by (auto simp: push_bit_eq_mult unat_word_ariths)
qed

lemma read_one: "ucast (drop_bit n (b :: u8) AND 1) = (if bit b n then 1 else 0 :: u64)"
  by (simp add: and_one_eq bit_iff_odd_drop_bit mod_2_eq_odd)

lemma read_loop_value:
  assumes "pos + n \<le> 8 * length data" and "(unat v + 1) * 2 ^ n \<le> 2 ^ 64"
  shows "\<exists>w. read_loop n v data pos = Inr (w, pos + n)
    \<and> unat w = unat v * 2 ^ n + number (take n (drop pos (bits_of data)))"
  using assms
proof (induction n arbitrary: v pos)
  case (Suc n)
  define b where "b = bits_of data ! pos"
  define v' where "v' = push_bit 1 v OR (if b then 1 else 0)"
  have pos: "pos < 8 * length data" "pos div 8 < length data" using Suc.prems(1) by auto
  have two: "(unat v + 1) * 2 \<le> 2 ^ 64"
  proof -
    have "(unat v + 1) * 2 ^ 1 \<le> (unat v + 1) * 2 ^ Suc n" by (intro mult_left_mono power_increasing) auto
    with Suc.prems(2) show ?thesis by simp
  qed
  then have v': "unat v' = 2 * unat v + of_bool b" unfolding v'_def by (intro shift_in_bit) simp
  have "(unat v' + 1) * 2 ^ n \<le> (2 * unat v + 2) * 2 ^ n" by (intro mult_right_mono) (simp_all add: v')
  also have "\<dots> = (unat v + 1) * 2 ^ Suc n" by (simp add: algebra_simps)
  finally have "(unat v' + 1) * 2 ^ n \<le> 2 ^ 64" using Suc.prems(2) by simp
  with Suc.IH [of "pos + 1" v'] Suc.prems(1) obtain w where
    w: "read_loop n v' data (pos + 1) = Inr (w, pos + 1 + n)"
      "unat w = unat v' * 2 ^ n + number (take n (drop (pos + 1) (bits_of data)))" by auto
  have bits: "take (Suc n) (drop pos (bits_of data)) = b # take n (drop (pos + 1) (bits_of data))"
    using pos(1) by (simp add: b_def Cons_nth_drop_Suc [symmetric])
  have len: "length (take n (drop (pos + 1) (bits_of data))) = n" using Suc.prems(1) by simp
  have "read_loop (Suc n) v data pos = read_loop n v' data (pos + 1)"
    using pos by (simp add: read_one v'_def b_def bits_of_nth)
  then show ?case using w len unfolding bits by (simp add: v' algebra_simps)
qed simp

lemma read_bits_value:
  assumes "count \<le> 64" and "pos + count \<le> 8 * length data"
  shows "\<exists>w. read_bits count data pos = Inr (w, pos + count) \<and> unat w = number (take count (drop pos (bits_of data)))"
proof -
  have "(unat (0 :: u64) + 1) * 2 ^ count \<le> 2 ^ 64" using power_increasing [OF assms(1), of "2 :: nat"] by simp
  from read_loop_value [OF assms(2) this] assms show ?thesis by (auto simp: read_bits_def mult.commute)
qed

subsection \<open>Fields\<close>

lemma number_field: "number (take n bs) < 2 ^ n"
proof -
  have "(2 :: nat) ^ length (take n bs) \<le> 2 ^ n" by (rule power_increasing) auto
  with number_less show ?thesis by (rule less_le_trans)
qed

lemma read_narrow:
  assumes "count \<le> LENGTH('a)" "LENGTH('a) \<le> 64" and "pos + count \<le> 8 * length data"
  shows "\<exists>v w. read_bits count data pos = Inr (v, pos + count) \<and> unat v < 2 ^ LENGTH('a)
    \<and> w = (ucast v :: 'a::len word) \<and> unat w = number (take count (drop pos (bits_of data)))"
proof -
  obtain v where v: "read_bits count data pos = Inr (v, pos + count)"
    "unat v = number (take count (drop pos (bits_of data)))"
    using read_bits_value [OF _ assms(3)] assms(1,2) by auto
  have "unat v < 2 ^ count" using v(2) number_field [of count] by simp
  also have "(2 :: nat) ^ count \<le> 2 ^ LENGTH('a)" using assms(1) by (intro power_increasing) auto
  finally have small: "unat v < 2 ^ LENGTH('a)" .
  then have "unat (ucast v :: 'a word) = unat v" by (simp add: unsigned_ucast_eq take_bit_nat_eq_self)
  with v small show ?thesis by auto
qed

lemma read_u8_value:
  assumes "count \<le> 8" and "pos + count \<le> 8 * length data"
  shows "\<exists>w. read_u8 count data pos = Inr (w, pos + count) \<and> unat w = number (take count (drop pos (bits_of data)))"
  using read_narrow [where 'a = 8, OF _ _ assms(2)] assms(1) by (auto simp: read_u8_def word_less_nat_alt)

lemma read_u16_value:
  assumes "count \<le> 16" and "pos + count \<le> 8 * length data"
  shows "\<exists>w. read_u16_bits count data pos = Inr (w, pos + count) \<and> unat w = number (take count (drop pos (bits_of data)))"
  using read_narrow [where 'a = 16, OF _ _ assms(2)] assms(1) by (auto simp: read_u16_bits_def word_less_nat_alt)

lemma read_u32_value:
  assumes "pos + 32 \<le> 8 * length data"
  shows "\<exists>w. read_u32 data pos = Inr (w, pos + 32) \<and> unat w = number (take 32 (drop pos (bits_of data)))"
  using read_narrow [where 'a = 32, OF _ _ assms] by (auto simp: read_u32_def word_less_nat_alt)

text \<open>An operation that reads \<open>n\<close> bits wherever there are that many, to a value with a property, and otherwise fails.\<close>

definition reads :: "nat \<Rightarrow> ('a \<Rightarrow> bool) \<Rightarrow> 'a bit_op \<Rightarrow> bool" where
  "reads n P m \<longleftrightarrow> (\<forall>data pos. yields (\<lambda>(x, pos'). P x \<and> pos' = pos + n) (m data pos))"

lemma reads_bind:
  assumes "reads n P m" and "\<And>x. P x \<Longrightarrow> reads k Q (f x)"
  shows "reads (n + k) Q (br_bind m f)"
proof -
  have "yields (\<lambda>(y, pos'). Q y \<and> pos' = pos + (n + k)) (f x data (pos + n))" if "P x" for x data pos
    using assms(2) [OF that] by (simp add: reads_def add.assoc [symmetric])
  then show ?thesis
    using assms(1) unfolding reads_def br_bind_def
    by (intro allI yields_bind [of "\<lambda>(x, pos'). P x \<and> pos' = _ + n"]) auto
qed

lemma reads_yields: "reads n P m \<Longrightarrow> (\<And>x. P x \<Longrightarrow> Q x) \<Longrightarrow> yields (\<lambda>(x, pos'). Q x) (m data pos)"
  unfolding reads_def by (erule allE, erule allE, erule yields_mono) auto

lemma reads_return: "P x \<Longrightarrow> reads 0 P (br_return x)"
  by (simp add: reads_def br_return_def)

lemma reads_skip: "reads n (\<lambda>_. True) (skip_bits n)"
  by (simp add: reads_def skip_bits_def)

lemma reads_check: "yields (\<lambda>_. P) m \<Longrightarrow> reads 0 (\<lambda>_. P) (br_check m)"
  by (cases m) (simp_all add: reads_def br_check_def yields_def)

lemma read_loop_yields:
  "pos + n \<le> 8 * length data \<Longrightarrow> yields (\<lambda>(_, pos'). pos' = pos + n) (read_loop n v data pos)"
proof (induction n arbitrary: v pos)
  case (Suc n)
  then have "pos div 8 < length data" by auto
  with Suc.IH [of "pos + 1" "push_bit 1 v OR ucast (drop_bit (7 - pos mod 8) (data ! (pos div 8)) AND 1)"] Suc.prems
  show ?case by simp
qed simp

lemma read_bits_yields: "yields (\<lambda>(_, pos'). pos' = pos + n) (read_bits n data pos)"
  by (simp add: read_bits_def read_loop_yields mult.commute)

lemma reads_u8: "n \<le> 8 \<Longrightarrow> reads n (\<lambda>v. unat v < 2 ^ n) (read_u8 n)"
proof -
  assume n: "n \<le> 8"
  have "yields (\<lambda>(v, pos'). unat v < 2 ^ n \<and> pos' = pos + n) (read_u8 n data pos)" for data pos
  proof (cases "pos + n \<le> 8 * length data")
    case True
    from read_u8_value [OF n True] show ?thesis by (auto simp: number_field)
  next
    case False
    then show ?thesis by (simp add: read_u8_def read_bits_def)
  qed
  then show ?thesis by (simp add: reads_def)
qed

lemma reads_words: "reads n (\<lambda>_. True) (read_u16_bits n)" "reads 32 (\<lambda>_. True) read_u32"
  unfolding reads_def read_u16_bits_def read_u32_def
  by (intro allI yields_bind [OF read_bits_yields]; auto)+

lemma reads_u16: "reads 16 (\<lambda>_. True) read_u16"
  unfolding read_u16_def by (rule reads_words)

lemma reads_mono: "reads n P m \<Longrightarrow> (\<And>x. P x \<Longrightarrow> Q x) \<Longrightarrow> n = n' \<Longrightarrow> reads n' Q m"
  unfolding reads_def by (auto intro: yields_mono)

lemma reads_neighbor: "reads 8 (\<lambda>v. unat v < 64) read_neighbor"
proof -
  have "reads (2 + 6) (\<lambda>v. unat v < 2 ^ 6) read_neighbor"
    unfolding read_neighbor_def by (intro reads_bind [OF reads_skip] reads_u8) simp
  then show ?thesis by simp
qed

lemma reads_bytes: "reads (8 * n) (\<lambda>bs. length bs = n) (read_bytes n)"
proof (induction n)
  case 0
  show ?case by (simp add: reads_return)
next
  case (Suc n)
  have "reads (8 + (8 * n + 0)) (\<lambda>bs. length bs = Suc n) (read_bytes (Suc n))"
    unfolding read_bytes.simps by (intro reads_bind [OF reads_u8] reads_bind [OF Suc] reads_return) simp_all
  then show ?case by simp
qed

lemmas reads_steps = reads_bind [OF reads_u8] reads_bind [OF reads_words(1)] reads_bind [OF reads_words(2)]
  reads_bind [OF reads_u16] reads_bind [OF reads_skip] reads_bind [OF reads_neighbor] reads_bind [OF reads_bytes]

lemma reads_button: "reads 144 (\<lambda>b. unat (btn_color_group b) < 4 \<and> length (btn_command b) = 8) read_button"
proof -
  have "reads (2 + (10 + (2 + (10 + (2 + (10 + (2 + (10 + (8 + (8 + (8 + (8 + (8 * 8 + 0)))))))))))))
      (\<lambda>b. unat (btn_color_group b) < 4 \<and> length (btn_command b) = 8) read_button"
    unfolding read_button_def by (intro reads_steps reads_return) simp_all
  then show ?thesis by simp
qed

lemma reads_colors: "reads 192 (\<lambda>cs. length cs = 3 \<and> (\<forall>c\<in>set cs. length c = 2)) read_colors"
proof -
  have "reads (32 + (32 + 0)) (\<lambda>c. length c = 2) read_color_pair"
    unfolding read_color_pair_def by (intro reads_steps reads_return) simp
  then have pair: "reads 64 (\<lambda>c. length c = 2) read_color_pair" by simp
  have "reads (64 + (64 + (64 + 0))) (\<lambda>cs. length cs = 3 \<and> (\<forall>c\<in>set cs. length c = 2)) read_colors"
    unfolding read_colors_def by (intro reads_bind [OF pair] reads_return) simp
  then show ?thesis by simp
qed

definition fresh_header :: "pci \<Rightarrow> bool" where
  "fresh_header p \<longleftrightarrow> pci_button_groups p = [[], [], []]
     \<and> length (pci_button_colors p) = 3 \<and> (\<forall>c\<in>set (pci_button_colors p). length c = 2)"

lemma reads_header: "reads 1136 fresh_header read_header"
proof -
  have "reads (32 + (16 + (16 + 32 + (32 + (32 + (32 + (32 + 32 * 8 + 9 * 32 + (16 + (32 + (32 + (32 + (2 + (2 + (12
      + (8 + (8 + (8 + (8 + (8 + (8 + (192 + 0))))))))))))))))))))) fresh_header read_header"
    unfolding read_header_def by (intro reads_steps reads_bind [OF reads_colors] reads_return) (simp_all add: fresh_header_def)
  then show ?thesis by simp
qed

subsection \<open>The button table\<close>

definition button_ok :: "u8 \<Rightarrow> button \<Rightarrow> bool" where
  "button_ok count b \<longleftrightarrow> btn_x_start b \<le> btn_x_end b \<and> btn_y_start b \<le> btn_y_end b
     \<and> btn_up b \<le> count \<and> btn_down b \<le> count \<and> btn_left b \<le> count \<and> btn_right b \<le> count
     \<and> btn_color_group b \<le> 3 \<and> length (btn_command b) = 8"

definition header_ok :: "pci \<Rightarrow> bool" where
  "header_ok p \<longleftrightarrow> unat (pci_group_count p) \<le> 3
     \<and> unat (pci_button_count p) * max 1 (unat (pci_group_count p)) \<le> 36
     \<and> pci_selectable_count p \<le> pci_button_count p
     \<and> (pci_group_count p = 0 \<longrightarrow> pci_button_count p = 0)
     \<and> (pci_group_count p \<noteq> 0 \<longrightarrow> pci_forced_select p AND 0x3f \<le> pci_button_count p
          \<and> pci_forced_action p AND 0x3f \<le> pci_button_count p)
     \<and> length (pci_button_colors p) = 3 \<and> (\<forall>c\<in>set (pci_button_colors p). length c = 2)"

text \<open>Each display group in use holds the authored number of buttons, numbered from 1; the others are empty.\<close>

definition pci_ok :: "pci \<Rightarrow> bool" where
  "pci_ok p \<longleftrightarrow> header_ok p \<and> length (pci_button_groups p) = 3
     \<and> (\<forall>g < 3. map (\<lambda>b. unat (btn_number b)) (pci_button_groups p ! g)
           = (if g < unat (pci_group_count p) then [1..<unat (pci_button_count p) + 1] else [])
         \<and> (\<forall>b\<in>set (pci_button_groups p ! g). button_ok (pci_button_count p) b))"

lemma header_ok_count: "header_ok p \<Longrightarrow> unat (pci_button_count p) \<le> 36"
proof -
  assume "header_ok p"
  moreover have "unat (pci_button_count p) * 1 \<le> unat (pci_button_count p) * max 1 (unat (pci_group_count p))"
    by (intro mult_le_mono2) simp
  ultimately show ?thesis unfolding header_ok_def by linarith
qed

lemma validate_header_ok:
  "fresh_header p \<Longrightarrow> yields (\<lambda>_. header_ok p) (validate_header p)"
  unfolding validate_header_def header_ok_def fresh_header_def max_button_groups_def max_buttons_def
  by (auto simp: not_less less_eq_div_iff_mult_less_eq word_less_nat_alt word_le_nat_alt unat_eq_0 max_def)

lemma validate_button_ok:
  "length (btn_command b) = 8 \<Longrightarrow> yields (\<lambda>_. button_ok count b) (validate_button b count)"
  by (auto simp: validate_button_def button_ok_def not_less)

text \<open>How many buttons of a group the first \<open>i\<close> entries give.\<close>

definition filled :: "pci \<Rightarrow> nat \<Rightarrow> nat \<Rightarrow> nat" where
  "filled p i g = (if g < unat (pci_group_count p) then min (i - g * per_group p) (unat (pci_button_count p)) else 0)"

definition table_ok :: "pci \<Rightarrow> nat \<Rightarrow> bool" where
  "table_ok p i \<longleftrightarrow> length (pci_button_groups p) = 3
     \<and> (\<forall>g < 3. map (\<lambda>b. unat (btn_number b)) (pci_button_groups p ! g) = [1..<filled p i g + 1]
         \<and> (\<forall>b\<in>set (pci_button_groups p ! g). button_ok (pci_button_count p) b))"

lemma header_ok_groups [simp]: "header_ok (p\<lparr>pci_button_groups := gs\<rparr>) = header_ok p"
  by (simp add: header_ok_def)

lemma per_group_groups [simp]: "per_group (p\<lparr>pci_button_groups := gs\<rparr>) = per_group p"
  by (simp add: per_group_def)

lemma filled_groups [simp]: "filled (p\<lparr>pci_button_groups := gs\<rparr>) i g = filled p i g"
  by (simp add: filled_def)

lemma per_group_bounds:
  assumes "header_ok p" and "pci_group_count p \<noteq> 0"
  shows "unat (pci_button_count p) \<le> per_group p" "unat (pci_group_count p) * per_group p \<le> 36" "0 < per_group p"
proof -
  have gc: "0 < unat (pci_group_count p)" "unat (pci_group_count p) \<le> 3"
    using assms by (simp_all add: header_ok_def unat_gt_0)
  then have per: "per_group p = 36 div unat (pci_group_count p)"
    using assms(2) by (simp add: per_group_def max_buttons_def)
  show "unat (pci_button_count p) \<le> per_group p"
    using assms(1) gc by (simp add: per header_ok_def less_eq_div_iff_mult_less_eq max_def split: if_splits)
  show "unat (pci_group_count p) * per_group p \<le> 36" by (simp add: per)
  show "0 < per_group p" using gc by (simp add: per div_greater_zero_iff)
qed

lemma filled_here:
  assumes "header_ok p" and "pci_group_count p \<noteq> 0"
    and "i div per_group p < unat (pci_group_count p)" and "i mod per_group p < unat (pci_button_count p)"
  shows "filled p i (i div per_group p) = i mod per_group p" "filled p (Suc i) (i div per_group p) = Suc (i mod per_group p)"
proof -
  let ?q = "i div per_group p" and ?r = "i mod per_group p"
  have i: "i = ?q * per_group p + ?r" by simp
  then have "i - ?q * per_group p = ?r" "Suc i - ?q * per_group p = Suc ?r" by linarith+
  with assms(3,4) show "filled p i ?q = ?r" "filled p (Suc i) ?q = Suc ?r"
    unfolding filled_def by (simp_all only: if_True min.absorb1 less_imp_le Suc_leI)
qed

lemma filled_elsewhere:
  assumes "header_ok p" and "pci_group_count p \<noteq> 0"
    and "g \<noteq> i div per_group p \<or> \<not> i mod per_group p < unat (pci_button_count p)"
  shows "filled p (Suc i) g = filled p i g"
proof -
  note per = per_group_bounds [OF assms(1,2)]
  let ?q = "i div per_group p" and ?r = "i mod per_group p"
  have i: "i = ?q * per_group p + ?r" "?r < per_group p" using per(3) by simp_all
  consider (same) "g = ?q" | (before) "g < ?q" | (after) "?q < g" by linarith
  then have "min (Suc i - g * per_group p) (unat (pci_button_count p)) = min (i - g * per_group p) (unat (pci_button_count p))"
  proof cases
    case same
    have "i - g * per_group p = ?r" "Suc i - g * per_group p = Suc ?r" unfolding same using i(1) by linarith+
    with assms(3) same show ?thesis by simp
  next
    case before
    then have "(g + 1) * per_group p \<le> ?q * per_group p" by (intro mult_le_mono1) simp
    then have "g * per_group p + per_group p \<le> i" using i(1) unfolding add_mult_distrib nat_mult_1 by linarith
    with per(1) have "unat (pci_button_count p) \<le> i - g * per_group p" "unat (pci_button_count p) \<le> Suc i - g * per_group p"
      by linarith+
    then show ?thesis by simp
  next
    case after
    then have "(?q + 1) * per_group p \<le> g * per_group p" by (intro mult_le_mono1) simp
    then have "Suc i \<le> g * per_group p" using i unfolding add_mult_distrib nat_mult_1 by linarith
    then show ?thesis by simp
  qed
  then show ?thesis by (simp add: filled_def)
qed

lemma filled_end:
  assumes "header_ok p" and "g < unat (pci_group_count p)"
  shows "filled p 36 g = unat (pci_button_count p)"
proof -
  have "pci_group_count p \<noteq> 0" using assms(2) by auto
  note per = per_group_bounds [OF assms(1) this]
  have "(g + 1) * per_group p \<le> unat (pci_group_count p) * per_group p" using assms(2) by (intro mult_le_mono1) simp
  with per(1,2) assms(2) show ?thesis by (simp add: filled_def)
qed

lemma table_ok_add:
  assumes "header_ok p" "table_ok p i" "pci_group_count p \<noteq> 0"
    and "i div per_group p < unat (pci_group_count p)" "i mod per_group p < unat (pci_button_count p)"
    and "button_ok (pci_button_count p) b" "unat (btn_number b) = i mod per_group p + 1"
  shows "yields (\<lambda>p'. header_ok p' \<and> table_ok p' (Suc i)) (add_button p (i div per_group p) b)"
proof -
  let ?g = "i div per_group p"
  have g: "?g < 3" using assms(1,4) by (simp add: header_ok_def)
  let ?gs = "(pci_button_groups p)[?g := pci_button_groups p ! ?g @ [b]]"
  have "map (\<lambda>b. unat (btn_number b)) (?gs ! k) = [1..<filled p (Suc i) k + 1]
      \<and> (\<forall>b\<in>set (?gs ! k). button_ok (pci_button_count p) b)" if "k < 3" for k
    using assms(2,6,7) that g filled_here [OF assms(1,3,4,5)] filled_elsewhere [OF assms(1,3), of k i]
    by (cases "k = ?g") (auto simp: table_ok_def)
  with assms(1,2) g show ?thesis by (simp add: add_button_def table_ok_def)
qed

lemma table_ok_keep:
  assumes "header_ok p" "table_ok p i"
    and "pci_group_count p \<noteq> 0 \<Longrightarrow> i div per_group p \<ge> unat (pci_group_count p) \<or> i mod per_group p \<ge> unat (pci_button_count p)"
  shows "table_ok p (Suc i)"
proof -
  have "filled p (Suc i) k = filled p i k" for k
  proof (cases "pci_group_count p = 0")
    case False
    then show ?thesis
      using filled_elsewhere [OF assms(1) False, of k i] assms(3) by (cases "k < unat (pci_group_count p)") (auto simp: filled_def)
  qed (simp add: filled_def)
  with assms(2) show ?thesis by (simp add: table_ok_def)
qed

lemma place_button_yields:
  assumes "header_ok p" "table_ok p i" "length (btn_command b) = 8"
  shows "yields (\<lambda>p'. header_ok p' \<and> table_ok p' (Suc i)) (place_button i p b)"
proof (cases "pci_group_count p \<noteq> 0 \<and> i div per_group p < unat (pci_group_count p) \<and> i mod per_group p < unat (pci_button_count p)")
  case False
  then have "table_ok p (Suc i)" using table_ok_keep [OF assms(1,2)] by auto
  with assms(1) False show ?thesis by (auto simp: place_button_def Let_def)
next
  case True
  let ?b = "b\<lparr>btn_number := word_of_nat (i mod per_group p + 1)\<rparr>"
  have "unat (pci_button_count p) \<le> 36" using assms(1) by (rule header_ok_count)
  moreover have "unat (word_of_nat n :: u8) = n" if "n \<le> 36" for n
    using that by (simp add: unsigned_of_nat take_bit_nat_eq_self)
  ultimately have num: "unat (btn_number ?b) = i mod per_group p + 1" using True by (simp del: of_nat_add of_nat_Suc)
  have "yields (\<lambda>_. button_ok (pci_button_count p) ?b) (validate_button ?b (pci_button_count p))"
    using assms(3) by (intro validate_button_ok) simp
  moreover have "button_ok (pci_button_count p) ?b
      \<Longrightarrow> yields (\<lambda>p'. header_ok p' \<and> table_ok p' (Suc i)) (add_button p (i div per_group p) ?b)"
    using table_ok_add [OF assms(1,2)] True num by blast
  ultimately show ?thesis using True by (auto simp: place_button_def Let_def not_le intro: yields_bind)
qed

text \<open>The loop over the table keeps the invariant; it reads its entries' bits or fails, and never panics.\<close>

lemma read_buttons_yields:
  assumes "header_ok p" "table_ok p i" "i \<le> 36"
  shows "yields (\<lambda>(p', pos'). header_ok p' \<and> table_ok p' 36) (read_buttons [i..<36] p data pos)"
  using assms
proof (induction "36 - i" arbitrary: i p pos)
  case 0
  then show ?case by (simp add: br_return_def)
next
  case (Suc n)
  then have upt: "[i..<36] = i # [Suc i..<36]" by (simp add: upt_conv_Cons)
  have rest: "yields (\<lambda>(p', pos'). header_ok p' \<and> table_ok p' 36) (read_buttons [Suc i..<36] p' data pos')"
    if "header_ok p' \<and> table_ok p' (Suc i)" for p' pos'
    using Suc.hyps(1) [of "Suc i" p' pos'] Suc.hyps(2) Suc.prems(3) that by simp
  have button: "yields (\<lambda>(b, pos'). length (btn_command b) = 8) (read_button data pos)"
    by (rule reads_yields [OF reads_button]) simp
  show ?case
    unfolding upt read_buttons.simps br_bind_def
    by (rule yields_bind [OF button])
      (auto intro!: yields_bind [OF place_button_yields [OF Suc.prems(1,2)]] rest)
qed

lemma pci_ok_table: "header_ok p \<Longrightarrow> table_ok p 36 \<Longrightarrow> pci_ok p"
  using filled_end by (auto simp: pci_ok_def table_ok_def filled_def)

lemma parse_pci_yields: "yields pci_ok (parse_pci data)"
proof (cases "length data < pci_payload_size")
  case False
  let ?payload = "take pci_payload_size data"
  have header: "yields (\<lambda>(p, pos'). fresh_header p) (read_header ?payload 0)"
    by (rule reads_yields [OF reads_header])
  have check: "yields (\<lambda>(_, pos'). header_ok p \<and> table_ok p 0) (br_check (validate_header p) ?payload pos)"
    if "fresh_header p" for p pos
    unfolding br_check_def using that
    by (intro yields_bind [OF validate_header_ok [OF that]])
      (simp add: table_ok_def filled_def fresh_header_def less_Suc_eq numeral_3_eq_3)
  have "yields (\<lambda>(p, pos'). header_ok p \<and> table_ok p 36)
      (br_bind read_header (\<lambda>p. br_bind (br_check (validate_header p)) (\<lambda>_. read_buttons [0..<max_buttons] p)) ?payload 0)"
    unfolding br_bind_def max_buttons_def
    by (intro yields_bind [OF header]; clarify; intro yields_bind [OF check]; auto intro: read_buttons_yields)
  then have "yields pci_ok (go_bind (br_bind read_header (\<lambda>p. br_bind (br_check (validate_header p))
      (\<lambda>_. read_buttons [0..<max_buttons] p)) ?payload 0) (\<lambda>(p, _). Inr p))"
    by (rule yields_bind) (auto intro: pci_ok_table)
  with False show ?thesis by (simp add: parse_pci_def)
qed (simp add: parse_pci_def)

subsection \<open>Sectors\<close>

lemma parse_dsi_yields: "yields (\<lambda>d. length (dsi_cell_elapsed d) = 4) (parse_dsi data)"
  by (auto simp: parse_dsi_def minimum_dsi_payload_size_def not_less)

lemma starts_with_yields: "4 \<le> need \<Longrightarrow> yields (\<lambda>present. present \<longrightarrow> offset + need \<le> length data) (starts_with data offset need code)"
  by (auto simp: starts_with_def)

lemma pack_end_yields: "yields (\<lambda>end. offset < end \<and> end \<le> length data) (pack_end data offset)"
  by (auto simp: pack_end_def Let_def)

lemma skip_system_header_yields: "yields (\<lambda>end. offset \<le> end) (skip_system_header sector offset)"
  unfolding skip_system_header_def by (rule yields_bind [OF starts_with_yields]) auto

lemma private_stream2_yields:
  "yields (\<lambda>(payload, end). length payload + 7 + offset = end \<and> end \<le> length data) (private_stream2 data offset sub)"
  unfolding private_stream2_def
  by (rule yields_bind [OF starts_with_yields]) (auto simp: Let_def not_less word_less_nat_alt word_le_nat_alt)

lemma parse_nav_sector_yields: "yields (\<lambda>p. pci_ok (nav_pci p)) (parse_nav_sector sector)"
  unfolding parse_nav_sector_def
  by (auto simp: sector_size_def intro!: yields_bind [OF pack_end_yields] yields_bind [OF skip_system_header_yields]
      yields_bind [OF private_stream2_yields] yields_bind [OF parse_pci_yields] yields_bind [OF parse_dsi_yields])

lemma looks_like_nav_sector_yields: "yields (\<lambda>_. True) (looks_like_nav_sector sector)"
proof -
  have "yields (\<lambda>_. True) (go_bind (skip_system_header sector offset) (\<lambda>offset.
      go_bind (starts_with sector offset 7 stream2_start) (\<lambda>present.
        if present then go_bind (index_at sector (offset + 6)) (\<lambda>id. Inr (id = 0)) else Inr False)))" for offset
    by (rule yields_bind [OF skip_system_header_yields], rule yields_bind [OF starts_with_yields]) auto
  moreover have "pack_end sector 0 \<noteq> Inl Panicked"
    using yields_no_panic [OF pack_end_yields [of 0 sector]] by simp
  ultimately show ?thesis
    by (auto simp: looks_like_nav_sector_def sector_size_def split: sum.split fault.split)
qed

subsection \<open>Fragments and cells\<close>

text \<open>A subpicture stream and a time stamp of 33 bits.\<close>

definition fragment_ok :: "spu_fragment \<Rightarrow> bool" where
  "fragment_ok f \<longleftrightarrow> 0x20 \<le> frag_stream f \<and> frag_stream f \<le> 0x3f \<and> frag_pts f < 2 ^ 33"

definition payload_bytes :: "spu_fragment list \<Rightarrow> nat" where
  "payload_bytes fs = sum_list (map (\<lambda>f. length (frag_data f)) fs)"

lemma payload_bytes_simps [simp]:
  "payload_bytes [] = 0" "payload_bytes (f # fs) = length (frag_data f) + payload_bytes fs"
  "payload_bytes (fs @ gs) = payload_bytes fs + payload_bytes gs"
  by (simp_all add: payload_bytes_def)

definition within :: "int \<Rightarrow> int \<Rightarrow> spu_fragment list \<Rightarrow> bool" where
  "within packet_limit payload_limit fs \<longleftrightarrow> int (length fs) \<le> packet_limit \<and> int (payload_bytes fs) \<le> payload_limit
     \<and> (\<forall>f\<in>set fs. fragment_ok f)"

lemma below_power: "(\<And>i. bit (x :: u64) i \<Longrightarrow> i < 33) \<Longrightarrow> x < 2 ^ 33"
proof -
  assume "\<And>i. bit x i \<Longrightarrow> i < 33"
  then have "take_bit 33 x = x" by (intro bit_word_eqI) (auto simp: bit_take_bit_iff)
  then have "unat x = take_bit 33 (unat x)" by (metis unsigned_take_bit_eq)
  then have "unat x < 2 ^ 33" by (metis take_bit_nat_less_exp)
  then show ?thesis by (simp add: word_less_nat_alt)
qed

lemma pts_less: "push_bit 29 (ucast ((b :: u8) AND 0x0e)) OR push_bit 15 (ucast (drop_bit 1 (v :: u16))) OR ucast (drop_bit 1 (w :: u16)) < (2 ^ 33 :: u64)"
  (is "?x < _")
proof (rule below_power)
  fix i
  have "bit (0x0e :: u8) n \<Longrightarrow> n < 4" for n
    using bit_imp_le_length [of "0x0e :: u8" n] by (auto simp: less_Suc_eq eval_nat_numeral)
  moreover have "bit v n \<Longrightarrow> n < 16" "bit w n \<Longrightarrow> n < 16" for n
    using bit_imp_le_length [of v n] bit_imp_le_length [of w n] by auto
  ultimately show "bit ?x i \<Longrightarrow> i < 33" by (fastforce simp: bit_simps)
qed

lemma decode_pts_yields: "5 \<le> length data \<Longrightarrow> yields (\<lambda>pts. pts < 2 ^ 33) (decode_pts data)"
  using pts_less [simplified] by (cases data) (simp_all add: decode_pts_def)

lemma fragment_of_yields:
  assumes "offset + 9 + header_length \<le> length data" and "0x20 \<le> substream" "substream \<le> 0x3f"
  shows "yields (\<lambda>f. fragment_ok f \<and> frag_data f = payload) (fragment_of data offset header_length substream payload)"
  using assms
  by (auto simp: fragment_of_def fragment_ok_def not_less intro!: yields_bind [OF decode_pts_yields])

lemma within_add:
  "within m n fs \<Longrightarrow> int (length fs) < m \<Longrightarrow> int (payload_bytes fs + length (frag_data f)) \<le> n \<Longrightarrow> fragment_ok f
    \<Longrightarrow> within m n (fs @ [f])"
  by (simp add: within_def)

lemma read_yields:
  "i < length xs \<Longrightarrow> yields (\<lambda>_. True) (index_at xs i :: ('e, 'a) go)"
  "a \<le> b \<Longrightarrow> b \<le> length xs \<Longrightarrow> yields (\<lambda>_. True) (slice_of xs a b :: ('e, 'a list) go)"
  "i + 2 \<le> length bs \<Longrightarrow> yields (\<lambda>_. True) (u16_at bs i :: ('e, u16) go)"
  by simp_all

lemma route_packet_yields:
  assumes "within packet_limit payload_limit fragments" "bytes = payload_bytes fragments"
  shows "yields (\<lambda>(fragments', bytes', end). within packet_limit payload_limit fragments' \<and> bytes' = payload_bytes fragments')
    (route_packet data packet_limit payload_limit offset bytes fragments)"
  unfolding route_packet_def Let_def using assms
  by (intro yields_if read_yields [THEN yields_bind] yields_bind [OF fragment_of_yields])
    (auto simp: not_less not_le intro!: within_add)

declare route_loop.simps [simp del]

lemma route_loop_yields:
  assumes "within packet_limit payload_limit fragments" "bytes = payload_bytes fragments"
  shows "yields (within packet_limit payload_limit) (route_loop data packet_limit payload_limit offset bytes fragments)"
  using assms
proof (induction data packet_limit payload_limit offset bytes fragments rule: route_loop.induct)
  case (1 data packet_limit payload_limit offset bytes fragments)
  show ?case
  proof (cases "offset + 6 \<le> length data")
    case True
    show ?thesis
    proof (cases "bytes_index (drop offset data) stream1_start")
      case (Some i)
      have "yields (within packet_limit payload_limit) (go_bind (route_packet data packet_limit payload_limit (offset + i) bytes fragments)
             (\<lambda>(fragments', bytes', end). route_loop data packet_limit payload_limit end bytes' fragments'))"
        by (rule yields_bind [OF route_packet_yields [OF "1.prems"]]) (auto intro: "1.IH" [OF True Some _ refl refl])
      with True Some show ?thesis by (subst route_loop.simps) simp
    qed (subst route_loop.simps, use True "1.prems" in simp)
  qed (subst route_loop.simps, use "1.prems" in simp)
qed

lemma route_spu_fragments_yields:
  "yields (\<lambda>fs. \<forall>f\<in>set fs. fragment_ok f) (route_spu_fragments data packet_limit payload_limit)"
  unfolding route_spu_fragments_def Let_def
  by (intro yields_if yields_mono [OF route_loop_yields]) (auto simp: within_def)

text \<open>What holds of a scan while it runs: its sectors are counted, its packets well formed, its fragments within the limits.\<close>

definition scan_ok :: "int \<Rightarrow> int \<Rightarrow> nat \<Rightarrow> cell_scan \<Rightarrow> bool" where
  "scan_ok packet_limit payload_limit n scan \<longleftrightarrow> scan_sectors scan = n \<and> length (scan_packets scan) \<le> n
     \<and> (\<forall>p\<in>set (scan_packets scan). pci_ok (nav_pci p)) \<and> within packet_limit payload_limit (scan_fragments scan)"

lemma add_fragments_yields:
  assumes "scan_ok packet_limit payload_limit n scan" "bytes = payload_bytes (scan_fragments scan)"
    and "int (length (scan_fragments scan) + length fs) \<le> packet_limit" "\<forall>f\<in>set fs. fragment_ok f"
  shows "yields (\<lambda>(scan', bytes'). scan_ok packet_limit payload_limit n scan' \<and> bytes' = payload_bytes (scan_fragments scan')
    \<and> scan_truncated scan' = scan_truncated scan) (add_fragments payload_limit fs scan bytes)"
  using assms
proof (induction fs arbitrary: scan bytes)
  case (Cons f fs)
  then have "scan_ok packet_limit payload_limit n (scan\<lparr>scan_fragments := scan_fragments scan @ [f]\<rparr>)"
    if "int (bytes + length (frag_data f)) \<le> payload_limit"
    using that by (auto simp: scan_ok_def intro!: within_add)
  with Cons.IH [of "scan\<lparr>scan_fragments := scan_fragments scan @ [f]\<rparr>" "bytes + length (frag_data f)"] Cons.prems
  show ?case by (auto simp: Let_def)
qed simp

lemma scan_sector_yields:
  assumes "scan_ok packet_limit payload_limit n scan" "bytes = payload_bytes (scan_fragments scan)"
  shows "yields (\<lambda>(scan', bytes'). scan_ok packet_limit payload_limit (n + 1) scan' \<and> bytes' = payload_bytes (scan_fragments scan')
    \<and> scan_truncated scan' = scan_truncated scan) (scan_sector sector packet_limit payload_limit scan bytes)"
proof -
  let ?scan = "scan\<lparr>scan_sectors := scan_sectors scan + 1\<rparr>"
  have nav: "yields (\<lambda>s. scan_ok packet_limit payload_limit (n + 1) s \<and> scan_fragments s = scan_fragments scan
        \<and> scan_truncated s = scan_truncated scan)
      (if nav then go_bind (parse_nav_sector sector) (\<lambda>p. Inr (?scan\<lparr>scan_packets := scan_packets ?scan @ [p]\<rparr>)) else Inr ?scan)" for nav
    using assms(1) by (auto simp: scan_ok_def intro!: yields_bind [OF parse_nav_sector_yields])
  show ?thesis
    unfolding scan_sector_def Let_def
    by (rule yields_bind [OF looks_like_nav_sector_yields], rule yields_bind [OF nav],
        rule yields_bind [OF route_spu_fragments_yields], rule yields_if)
      (auto simp: assms(2) not_less intro!: yields_mono [OF add_fragments_yields])
qed

lemma scan_loop_yields:
  assumes "scan_ok packet_limit payload_limit n scan" "bytes = payload_bytes (scan_fragments scan)"
  shows "yields (\<lambda>scan'. scan_ok packet_limit payload_limit (n + length indices) scan' \<and> scan_truncated scan' = scan_truncated scan)
    (scan_loop read start packet_limit payload_limit indices scan bytes)"
  using assms
proof (induction indices arbitrary: n scan bytes)
  case (Cons i indices)
  show ?case
    unfolding scan_loop.simps Let_def
    by (auto split: prod.split intro!: yields_bind [OF scan_sector_yields [OF Cons.prems]] yields_mono [OF Cons.IH])
qed simp

lemma scan_cell_yields:
  "yields (\<lambda>scan. scan_ok (or_default (scan_max_packets opts) default_packet_limit) (or_default (scan_max_bytes opts) default_payload_limit)
        (scan_sectors scan) scan
      \<and> int (scan_sectors scan) \<le> or_default (scan_max_sectors opts) default_sector_limit
      \<and> (if scan_truncated scan then int (scan_sectors scan) = or_default (scan_max_sectors opts) default_sector_limit
          else scan_sectors scan = unat last_sector - unat first_sector + 1))
    (scan_cell reader file_size first_sector last_sector opts)"
proof -
  have start: "scan_ok m n 0 \<lparr>scan_packets = [], scan_fragments = [], scan_sectors = 0, scan_truncated = t\<rparr>" if "0 \<le> m" "0 \<le> n" for m n t
    using that by (simp add: scan_ok_def within_def)
  have count: "scan_ok m n k s \<Longrightarrow> scan_sectors s = k \<and> scan_ok m n (scan_sectors s) s" for m n k s by (simp add: scan_ok_def)
  show ?thesis
    unfolding scan_cell_def Let_def
    by (cases reader) (auto simp: not_less dest: count split: if_splits intro!: yields_mono [OF scan_loop_yields [OF start]])
qed

subsection \<open>The properties\<close>

text \<open>The bit reader computes the big-endian number its bits spell, or fails where there are not enough of them.\<close>

lemma bit_reader_is_big_endian:
  "read_bits count data pos =
     (if count \<le> 64 \<and> pos + count \<le> 8 * length data
      then Inr (word_of_nat (number (take count (drop pos (bits_of data)))), pos + count) else invalid_nav)"
proof (cases "count \<le> 64 \<and> pos + count \<le> 8 * length data")
  case True
  then obtain w where w: "read_bits count data pos = Inr (w, pos + count)"
    "unat w = number (take count (drop pos (bits_of data)))" using read_bits_value by blast
  from w(2) [symmetric] have "word_of_nat (number (take count (drop pos (bits_of data)))) = w" by simp
  with True w(1) show ?thesis by simp
qed (auto simp: read_bits_def mult.commute)

text \<open>Parsing presentation control is total: any bytes give an error or a packet whose button table is complete, each display
  group in use with the authored number of buttons in order, each with a proper rectangle and neighbours that exist.\<close>

lemma button_tables_are_complete: "yields pci_ok (parse_pci data)"
  by (rule parse_pci_yields)

text \<open>C23: Scanning a cell never panics, whatever the disc and the limits: it gives an error or a scan of exactly the sectors
  asked for, or as many as the limit allows when it says so, with well-formed packets and with fragments of subpicture
  streams only, within the packet and the byte limit.\<close>

lemma cell_scans_stay_within_limits:
  "yields (\<lambda>scan. int (scan_sectors scan) \<le> or_default (scan_max_sectors opts) default_sector_limit
      \<and> scan_sectors scan = (if scan_truncated scan then nat (or_default (scan_max_sectors opts) default_sector_limit)
          else unat last_sector - unat first_sector + 1)
      \<and> length (scan_packets scan) \<le> scan_sectors scan
      \<and> list_all (\<lambda>p. pci_ok (nav_pci p)) (scan_packets scan)
      \<and> int (length (scan_fragments scan)) \<le> or_default (scan_max_packets opts) default_packet_limit
      \<and> int (payload_bytes (scan_fragments scan)) \<le> or_default (scan_max_bytes opts) default_payload_limit
      \<and> list_all fragment_ok (scan_fragments scan))
    (scan_cell reader file_size first_sector last_sector opts)"
  by (rule yields_mono [OF scan_cell_yields]) (auto simp: scan_ok_def within_def list_all_iff split: if_splits)

end
