(* ===== verification/DvdNavAuthor.thy ===== *)
theory DvdNavAuthor
  imports DvdNavProps
begin

text \<open>
  Round trips of the navigation parsers. A disc author's side is written down from the format, big-endian
  bit fields for presentation control and packets of private stream 1 for subpictures; parsing and routing
  give back what was authored.
\<close>

unbundle bit_operations_syntax

subsection \<open>Writing bits\<close>

text \<open>The low \<open>n\<close> bits of a number, highest first.\<close>

fun put :: "nat \<Rightarrow> nat \<Rightarrow> bool list" where
  "put 0 v = []"
| "put (Suc n) v = bit v n # put n v"

lemma length_put_bits [simp]: "length (put n v) = n"
  by (induction n) auto

lemma number_put: "number (put n v) = take_bit n v"
  by (induction n) (simp_all add: take_bit_Suc_from_most mult.commute)

lemma number_put_small: "v < 2 ^ n \<Longrightarrow> number (put n v) = v"
  by (simp add: number_put take_bit_nat_eq_self)

lemma put_take_bit: "n \<le> k \<Longrightarrow> put n (take_bit k v) = put n v"
  by (induction n) (simp_all add: bit_take_bit_iff)

lemma put_number: "put (length bs) (number bs) = bs"
proof (induction bs)
  case (Cons b bs)
  let ?v = "of_bool b * 2 ^ length bs + number bs"
  have less: "number bs < 2 ^ length bs" by (rule number_less)
  have "bit ?v (length bs) = b" using less by (cases b) (auto simp: bit_iff_odd div_add_self1)
  moreover have "take_bit (length bs) ?v = number bs" using less by (simp add: take_bit_eq_mod)
  then have "put (length bs) ?v = bs" using Cons put_take_bit [OF order_refl, of "length bs" ?v] by simp
  ultimately show ?case by simp
qed simp

lemma byte_bits_put: "byte_bits b = put 8 (unat b)"
  by (simp add: byte_bits_def eval_nat_numeral bit_unsigned_iff)

text \<open>Bytes from bits.\<close>

fun pack_bits :: "bool list \<Rightarrow> u8 list" where
  "pack_bits (a # b # c # d # e # f # g # h # bs) = word_of_nat (number [a, b, c, d, e, f, g, h]) # pack_bits bs"
| "pack_bits bs = []"

lemma bits_of_pack: "8 dvd length bs \<Longrightarrow> bits_of (pack_bits bs) = bs"
proof (induction bs rule: pack_bits.induct)
  case (1 a b c d e f g h bs)
  let ?eight = "[a, b, c, d, e, f, g, h]"
  have "number ?eight < 2 ^ 8" using number_less [of ?eight] by simp
  then have "unat (word_of_nat (number ?eight) :: u8) = number ?eight"
    by (simp add: unsigned_of_nat take_bit_nat_eq_self del: number_simps)
  moreover have "put 8 (number ?eight) = ?eight"
    using put_number [of ?eight] by (simp add: eval_nat_numeral del: put.simps number_simps)
  ultimately have "byte_bits (word_of_nat (number ?eight)) = ?eight" by (simp add: byte_bits_put del: put.simps number_simps)
  moreover have "8 dvd length bs" using 1(2) by simp presburger
  ultimately show ?case using 1(1) by (simp add: bits_of_def del: number_simps)
qed (auto simp: bits_of_def dest: dvd_imp_le)

lemma length_pack_bits: "8 dvd length bs \<Longrightarrow> 8 * length (pack_bits bs) = length bs"
  using bits_of_pack [of bs] length_bits_of [of "pack_bits bs"] by simp

subsection \<open>Reading what was written\<close>

definition spells :: "u8 list \<Rightarrow> nat \<Rightarrow> bool list \<Rightarrow> bool" where
  "spells data pos bs \<longleftrightarrow> pos + length bs \<le> 8 * length data \<and> take (length bs) (drop pos (bits_of data)) = bs"

lemma spells_append:
  "spells data pos (bs @ cs) \<longleftrightarrow> spells data pos bs \<and> spells data (pos + length bs) cs"
  unfolding spells_def by (auto simp: take_add add.commute)

text \<open>An operation that reads a value back from its bits.\<close>

definition reads_back :: "'a bit_op \<Rightarrow> bool list \<Rightarrow> 'a \<Rightarrow> bool" where
  "reads_back m bs x \<longleftrightarrow> (\<forall>data pos. spells data pos bs \<longrightarrow> m data pos = Inr (x, pos + length bs))"

lemma reads_backD: "reads_back m bs x \<Longrightarrow> spells data pos bs \<Longrightarrow> m data pos = Inr (x, pos + length bs)"
  by (simp add: reads_back_def)

lemma reads_back_bind:
  "reads_back m bs x \<Longrightarrow> reads_back (f x) cs y \<Longrightarrow> reads_back (br_bind m f) (bs @ cs) y"
  by (simp add: reads_back_def br_bind_def spells_append add.assoc)

lemma reads_back_return: "reads_back (br_return x) [] x"
  by (simp add: reads_back_def br_return_def)

lemma reads_back_skip: "length bs = n \<Longrightarrow> reads_back (skip_bits n) bs ()"
  by (auto simp: reads_back_def skip_bits_def spells_def mult.commute)

lemma reads_back_check: "m = Inr () \<Longrightarrow> reads_back (br_check m) [] ()"
  by (simp add: reads_back_def br_check_def)

lemma reads_back_u8: "n \<le> 8 \<Longrightarrow> unat v < 2 ^ n \<Longrightarrow> reads_back (read_u8 n) (put n (unat v)) v"
proof -
  assume n: "n \<le> 8" and v: "unat v < 2 ^ n"
  have "read_u8 n data pos = Inr (v, pos + n)" if "spells data pos (put n (unat v))" for data pos
  proof -
    from that obtain w where "read_u8 n data pos = Inr (w, pos + n)" "unat w = unat v"
      using read_u8_value [OF n, of pos data] number_put_small [OF v] by (auto simp: spells_def)
    then show ?thesis by (simp add: word_unat_eq_iff)
  qed
  then show ?thesis by (simp add: reads_back_def)
qed

lemma reads_back_u16_bits: "n \<le> 16 \<Longrightarrow> unat v < 2 ^ n \<Longrightarrow> reads_back (read_u16_bits n) (put n (unat v)) v"
proof -
  assume n: "n \<le> 16" and v: "unat v < 2 ^ n"
  have "read_u16_bits n data pos = Inr (v, pos + n)" if "spells data pos (put n (unat v))" for data pos
  proof -
    from that obtain w where "read_u16_bits n data pos = Inr (w, pos + n)" "unat w = unat v"
      using read_u16_value [OF n, of pos data] number_put_small [OF v] by (auto simp: spells_def)
    then show ?thesis by (simp add: word_unat_eq_iff)
  qed
  then show ?thesis by (simp add: reads_back_def)
qed

lemma reads_back_u16: "reads_back read_u16 (put 16 (unat v)) v"
  unfolding read_u16_def using unsigned_less [of v] by (intro reads_back_u16_bits) auto

lemma reads_back_u32: "reads_back read_u32 (put 32 (unat v)) v"
proof -
  have v: "unat v < 2 ^ 32" using unsigned_less [of v] by simp
  have "read_u32 data pos = Inr (v, pos + 32)" if "spells data pos (put 32 (unat v))" for data pos
  proof -
    from that obtain w where "read_u32 data pos = Inr (w, pos + 32)" "unat w = unat v"
      using read_u32_value [of pos data] number_put_small [OF v] by (auto simp: spells_def)
    then show ?thesis by (simp add: word_unat_eq_iff)
  qed
  then show ?thesis by (simp add: reads_back_def)
qed

subsection \<open>Presentation control\<close>

definition put_neighbor :: "u8 \<Rightarrow> bool list" where
  "put_neighbor n = put 2 0 @ put 6 (unat n)"

definition put_button :: "button \<Rightarrow> bool list" where
  "put_button b =
     put 2 (unat (btn_color_group b)) @ put 10 (unat (btn_x_start b)) @ put 2 0 @ put 10 (unat (btn_x_end b))
     @ put 2 (of_bool (btn_auto_action b)) @ put 10 (unat (btn_y_start b)) @ put 2 0 @ put 10 (unat (btn_y_end b))
     @ put_neighbor (btn_up b) @ put_neighbor (btn_down b) @ put_neighbor (btn_left b) @ put_neighbor (btn_right b)
     @ bits_of (btn_command b)"

definition put_colors :: "u32 list list \<Rightarrow> bool list" where
  "put_colors cs = concat (map (\<lambda>c. concat (map (\<lambda>w. put 32 (unat w)) c)) cs)"

definition put_header :: "pci \<Rightarrow> bool list" where
  "put_header p =
     put 32 (unat (pci_logical_block p)) @ put 16 (unat (pci_vobu_category p)) @ put 48 0
     @ put 32 (unat (pci_vobu_start_pts p)) @ put 32 (unat (pci_vobu_end_pts p)) @ put 32 (unat (pci_sequence_end_pts p))
     @ put 576 0
     @ put 16 (unat (pci_highlight_status p)) @ put 32 (unat (pci_highlight_start_pts p))
     @ put 32 (unat (pci_highlight_end_pts p)) @ put 32 (unat (pci_button_select_end_pts p))
     @ put 2 0 @ put 2 (unat (pci_group_count p)) @ put 12 0 @ put 8 (unat (pci_button_offset p))
     @ put 8 (unat (pci_button_count p)) @ put 8 (unat (pci_selectable_count p)) @ put 8 0
     @ put 8 (unat (pci_forced_select p)) @ put 8 (unat (pci_forced_action p)) @ put_colors (pci_button_colors p)"

text \<open>An entry of the table: the groups in use share it evenly, what they leave is zero.\<close>

definition put_entry :: "pci \<Rightarrow> nat \<Rightarrow> bool list" where
  "put_entry p i =
     (if i div per_group p < unat (pci_group_count p) \<and> i mod per_group p < unat (pci_button_count p)
      then put_button (pci_button_groups p ! (i div per_group p) ! (i mod per_group p)) else put 144 0)"

definition author_pci :: "pci \<Rightarrow> u8 list" where
  "author_pci p = pack_bits (put_header p @ concat (map (put_entry p) [0..<36]) @ put 1512 0)"

text \<open>What can be authored: a complete table whose coordinates fit their ten bits.\<close>

definition button_fits :: "button \<Rightarrow> bool" where
  "button_fits b \<longleftrightarrow> btn_x_end b < 1024 \<and> btn_y_end b < 1024"

definition pci_fits :: "pci \<Rightarrow> bool" where
  "pci_fits p \<longleftrightarrow> pci_ok p \<and> (\<forall>g\<in>set (pci_button_groups p). \<forall>b\<in>set g. button_fits b)"

lemma reads_back_neighbor: "unat n < 64 \<Longrightarrow> reads_back read_neighbor (put_neighbor n) n"
  unfolding read_neighbor_def put_neighbor_def
  by (intro reads_back_bind [OF reads_back_skip] reads_back_u8) simp_all

lemma reads_back_bytes: "reads_back (read_bytes (length bs)) (bits_of bs) bs"
proof (induction bs)
  case Nil
  show ?case by (simp add: bits_of_def reads_back_return)
next
  case (Cons b bs)
  have b: "reads_back (read_u8 8) (put 8 (unat b)) b" by (rule reads_back_u8) simp_all
  from reads_back_bind [OF b, OF reads_back_bind [OF Cons reads_back_return]]
  show ?case by (simp add: bits_of_def byte_bits_put)
qed

lemma reads_back_button:
  assumes "button_ok count b" "button_fits b" "unat count \<le> 36"
  shows "reads_back read_button (put_button b) (b\<lparr>btn_number := 0\<rparr>)"
proof -
  have c: "length (btn_command b) = 8" using assms(1) by (simp add: button_ok_def)
  have bounds: "unat (btn_color_group b) < 4" "unat (btn_x_start b) < 1024" "unat (btn_x_end b) < 1024"
      "unat (btn_y_start b) < 1024" "unat (btn_y_end b) < 1024"
      "unat (btn_up b) < 64" "unat (btn_down b) < 64" "unat (btn_left b) < 64" "unat (btn_right b) < 64"
    using assms by (auto simp: button_ok_def button_fits_def word_le_nat_alt word_less_nat_alt)
  have auto_action: "reads_back (read_u8 2) (put 2 (of_bool (btn_auto_action b))) (if btn_auto_action b then 1 else 0)"
    using reads_back_u8 [of 2 "if btn_auto_action b then 1 else 0"] by (cases "btn_auto_action b") simp_all
  show ?thesis
    unfolding read_button_def put_button_def
    by (rule reads_back_bind [OF reads_back_u8] reads_back_bind [OF reads_back_u16_bits] reads_back_bind [OF reads_back_skip]
        reads_back_bind [OF auto_action] reads_back_bind [OF reads_back_neighbor]
        reads_back_bind [OF reads_back_bytes [of "btn_command b", unfolded c], where cs = "[]", unfolded append_Nil2]; (simp add: bounds; fail)?)+
       (simp add: reads_back_def br_return_def)
qed

lemma length_two: "length c = 2 \<Longrightarrow> \<exists>a b. c = [a, b]"
  by (auto simp: length_Suc_conv eval_nat_numeral)

lemma reads_back_colors:
  assumes "length cs = 3" "\<forall>c\<in>set cs. length c = 2"
  shows "reads_back read_colors (put_colors cs) cs"
proof -
  obtain x y z where cs: "cs = [x, y, z]" using assms(1) by (auto simp: length_Suc_conv eval_nat_numeral)
  with assms(2) obtain a b c d e f where "x = [a, b]" "y = [c, d]" "z = [e, f]"
    using length_two [of x] length_two [of y] length_two [of z] by auto
  moreover have pair: "reads_back read_color_pair (put 32 (unat a) @ put 32 (unat b) @ []) [a, b]" for a b
    unfolding read_color_pair_def by (intro reads_back_bind [OF reads_back_u32] reads_back_return)
  moreover have "reads_back read_colors ((put 32 (unat a) @ put 32 (unat b) @ []) @ (put 32 (unat c) @ put 32 (unat d) @ [])
      @ (put 32 (unat e) @ put 32 (unat f) @ []) @ []) [[a, b], [c, d], [e, f]]"
    unfolding read_colors_def by (intro reads_back_bind [OF pair] reads_back_return)
  ultimately show ?thesis by (simp add: cs put_colors_def del: put.simps)
qed

lemma reads_back_header:
  assumes "header_ok p"
  shows "reads_back read_header (put_header p) (p\<lparr>pci_button_groups := [[], [], []]\<rparr>)"
proof -
  have groups: "unat (pci_group_count p) < 4" and byte: "unat (b :: u8) < 256" for b
    using assms unsigned_less [of b] by (simp_all add: header_ok_def)
  have colors: "reads_back read_colors (put_colors (pci_button_colors p)) (pci_button_colors p)"
    using assms by (intro reads_back_colors) (simp_all add: header_ok_def)
  show ?thesis
    unfolding read_header_def put_header_def
    by (rule reads_back_bind [OF reads_back_u8] reads_back_bind [OF reads_back_u16] reads_back_bind [OF reads_back_u32]
        reads_back_bind [OF reads_back_skip] reads_back_bind [OF colors, where cs = "[]", unfolded append_Nil2];
        (simp add: groups byte del: put.simps; fail)?)+
       (simp add: reads_back_def br_return_def)
qed

text \<open>The table while it is read.\<close>

definition taken :: "pci \<Rightarrow> nat \<Rightarrow> button list list" where
  "taken p i = map (\<lambda>g. take (filled p i g) (pci_button_groups p ! g)) [0, 1, 2]"

lemma taken_start: "taken p 0 = [[], [], []]"
  by (simp add: taken_def filled_def)

lemma taken_end:
  assumes "pci_ok p"
  shows "taken p 36 = pci_button_groups p"
proof -
  have ok: "header_ok p" and len: "length (pci_button_groups p) = 3" using assms by (simp_all add: pci_ok_def)
  have "take (filled p 36 g) (pci_button_groups p ! g) = pci_button_groups p ! g" if "g < 3" for g
  proof -
    have "map (\<lambda>b. unat (btn_number b)) (pci_button_groups p ! g)
        = (if g < unat (pci_group_count p) then [1..<unat (pci_button_count p) + 1] else [])"
      using assms that by (simp add: pci_ok_def)
    then have "length (pci_button_groups p ! g) = (if g < unat (pci_group_count p) then unat (pci_button_count p) else 0)"
      by (metis diff_add_inverse2 length_map length_upt list.size(3))
    then show ?thesis using filled_end [OF ok, of g] by (auto split: if_splits)
  qed
  then have "taken p 36 = map ((!) (pci_button_groups p)) [0..<length (pci_button_groups p)]"
    by (simp add: taken_def len eval_nat_numeral)
  then show ?thesis by (simp add: map_nth)
qed

lemma place_authored_button:
  assumes "pci_fits p" and "i div per_group p < unat (pci_group_count p)" "i mod per_group p < unat (pci_button_count p)"
  defines "b \<equiv> pci_button_groups p ! (i div per_group p) ! (i mod per_group p)"
  shows "place_button i (p\<lparr>pci_button_groups := taken p i\<rparr>) (b\<lparr>btn_number := 0\<rparr>) = Inr (p\<lparr>pci_button_groups := taken p (Suc i)\<rparr>)"
    and "button_ok (pci_button_count p) b" "button_fits b"
proof -
  let ?g = "i div per_group p" and ?k = "i mod per_group p"
  have ok: "pci_ok p" "header_ok p" using assms(1) by (simp_all add: pci_fits_def pci_ok_def)
  have g0: "pci_group_count p \<noteq> 0" using assms(2) by auto
  have g: "?g < 3" using assms(2) ok(2) by (simp add: header_ok_def)
  have len: "length (pci_button_groups p) = 3" using ok(1) by (simp add: pci_ok_def)
  have nums: "map (\<lambda>b. unat (btn_number b)) (pci_button_groups p ! ?g) = [1..<unat (pci_button_count p) + 1]"
    using ok(1) g assms(2) by (simp add: pci_ok_def)
  then have k: "?k < length (pci_button_groups p ! ?g)" using assms(3) by (metis diff_add_inverse2 length_map length_upt)
  then have mem: "b \<in> set (pci_button_groups p ! ?g)" "pci_button_groups p ! ?g \<in> set (pci_button_groups p)"
    using g len by (simp_all add: b_def)
  then show fits: "button_ok (pci_button_count p) b" "button_fits b"
    using ok(1) g assms(1) by (auto simp: pci_ok_def pci_fits_def)
  have "unat (btn_number b) = ?k + 1" using arg_cong [OF nums, of "\<lambda>ns. ns ! ?k"] k assms(3)
    by (simp add: b_def del: upt_Suc)
  moreover have "word_of_nat (unat (btn_number b)) = btn_number b" by simp
  ultimately have "word_of_nat (?k + 1) = btn_number b" by (simp only:)
  then have num: "b\<lparr>btn_number := word_of_nat (?k + 1)\<rparr> = b" by simp
  have valid: "validate_button b (pci_button_count p) = Inr ()"
    using fits(1) by (auto simp: validate_button_def button_ok_def not_less)
  note here = filled_here [OF ok(2) g0 assms(2,3)]
  have "take (filled p (Suc i) ?g) (pci_button_groups p ! ?g) = take (filled p i ?g) (pci_button_groups p ! ?g) @ [b]"
    using here k by (simp add: b_def take_Suc_conv_app_nth)
  moreover have "filled p (Suc i) h = filled p i h" if "h \<noteq> ?g" for h
    using filled_elsewhere [OF ok(2) g0, of h i] that by simp
  ultimately have "(taken p i)[?g := taken p i ! ?g @ [b]] = taken p (Suc i)"
    using g unfolding taken_def by (auto simp: less_Suc_eq eval_nat_numeral)
  with valid num show "place_button i (p\<lparr>pci_button_groups := taken p i\<rparr>) (b\<lparr>btn_number := 0\<rparr>)
      = Inr (p\<lparr>pci_button_groups := taken p (Suc i)\<rparr>)"
    using assms(2,3) g0 g by (simp add: place_button_def add_button_def taken_def Let_def del: of_nat_add of_nat_Suc)
qed

lemma unused_entry:
  "\<exists>b. reads_back read_button (put 144 0) b"
proof -
  let ?b = "\<lparr>btn_number = 0, btn_color_group = 0, btn_x_start = 0, btn_y_start = 0, btn_x_end = 0, btn_y_end = 0,
      btn_auto_action = False, btn_up = 0, btn_down = 0, btn_left = 0, btn_right = 0, btn_command = replicate 8 0\<rparr>"
  have "reads_back read_button (put_button ?b) (?b\<lparr>btn_number := 0\<rparr>)"
    by (rule reads_back_button [of 0]) (simp_all add: button_ok_def button_fits_def)
  moreover have "put_button ?b = put 144 0"
    by (simp add: put_button_def put_neighbor_def bits_of_def byte_bits_put eval_nat_numeral)
  ultimately show ?thesis by metis
qed

lemma reads_back_table:
  assumes "pci_fits p" "i \<le> 36"
  shows "reads_back (read_buttons [i..<36] (p\<lparr>pci_button_groups := taken p i\<rparr>)) (concat (map (put_entry p) [i..<36]))
    (p\<lparr>pci_button_groups := taken p 36\<rparr>)"
  using assms(2)
proof (induction "36 - i" arbitrary: i)
  case 0
  then show ?case by (simp add: reads_back_return)
next
  case (Suc n)
  then have upt: "[i..<36] = i # [Suc i..<36]" by (simp add: upt_conv_Cons)
  let ?p = "\<lambda>i. p\<lparr>pci_button_groups := taken p i\<rparr>"
  have "\<exists>b. reads_back read_button (put_entry p i) b \<and> place_button i (?p i) b = Inr (?p (Suc i))"
  proof (cases "i div per_group p < unat (pci_group_count p) \<and> i mod per_group p < unat (pci_button_count p)")
    case True
    note b = place_authored_button [OF assms(1) conjunct1 [OF True] conjunct2 [OF True]]
    have "unat (pci_button_count p) \<le> 36" using assms(1) by (intro header_ok_count) (simp add: pci_fits_def pci_ok_def)
    with reads_back_button [OF b(2,3)] b(1) True show ?thesis by (auto simp: put_entry_def)
  next
    case False
    obtain b where b: "reads_back read_button (put 144 0) b" using unused_entry by blast
    have ok: "header_ok p" using assms(1) by (simp add: pci_fits_def pci_ok_def)
    have "filled p (Suc i) g = filled p i g" for g
    proof (cases "pci_group_count p = 0")
      case nonzero: False
      then show ?thesis using filled_elsewhere [OF ok nonzero, of g i] False
        by (cases "g < unat (pci_group_count p)") (auto simp: filled_def)
    qed (simp add: filled_def)
    then have "taken p (Suc i) = taken p i" by (simp add: taken_def)
    with b False show ?thesis by (auto simp: put_entry_def place_button_def Let_def not_less)
  qed
  then obtain b where b: "reads_back read_button (put_entry p i) b" "place_button i (?p i) b = Inr (?p (Suc i))" by blast
  have rest: "reads_back (read_buttons [Suc i..<36] (?p (Suc i))) (concat (map (put_entry p) [Suc i..<36])) (?p 36)"
    using Suc by simp
  show ?case unfolding upt read_buttons.simps list.map concat.simps
    by (rule reads_back_bind [OF b(1)]) (use rest b(2) in \<open>simp add: reads_back_def\<close>)
qed

lemma validate_header_accepts: "header_ok p \<Longrightarrow> validate_header p = Inr ()"
proof (cases "pci_group_count p = 0")
  case False
  assume ok: "header_ok p"
  have "1 \<le> unat (pci_group_count p)" using False by (simp add: unat_gt_0 Suc_le_eq)
  then have "unat (pci_button_count p) \<le> 36 div unat (pci_group_count p)"
    using ok by (simp add: header_ok_def max_def less_eq_div_iff_mult_less_eq)
  then show ?thesis using ok header_ok_count [OF ok] False
    by (auto simp: validate_header_def header_ok_def max_button_groups_def max_buttons_def not_less)
qed (auto simp: validate_header_def header_ok_def max_button_groups_def max_buttons_def not_less)

lemma length_put_header:
  assumes "header_ok p"
  shows "length (put_header p) = 1136"
proof -
  obtain x y z where cs: "pci_button_colors p = [x, y, z]" using assms by (auto simp: header_ok_def length_Suc_conv eval_nat_numeral)
  have "length (put_colors (pci_button_colors p)) = 192"
    using assms length_two [of x] length_two [of y] length_two [of z] by (auto simp: header_ok_def cs put_colors_def simp del: put.simps)
  then show ?thesis by (simp add: put_header_def del: put.simps)
qed

lemma length_put_entry:
  assumes "pci_fits p"
  shows "length (put_entry p i) = 144"
proof (cases "i div per_group p < unat (pci_group_count p) \<and> i mod per_group p < unat (pci_button_count p)")
  case True
  from place_authored_button(2) [OF assms conjunct1 [OF True] conjunct2 [OF True]] True
  show ?thesis by (simp add: put_entry_def put_button_def put_neighbor_def button_ok_def del: put.simps)
next
  case False
  then show ?thesis by (auto simp: put_entry_def simp del: put.simps)
qed

lemma authored_pci_parses:
  assumes "pci_fits p"
  shows "parse_pci (author_pci p) = Inr p"
proof -
  let ?table = "concat (map (put_entry p) [0..<36])"
  let ?bits = "put_header p @ ?table @ put 1512 0"
  have ok: "pci_ok p" "header_ok p" using assms by (simp_all add: pci_fits_def pci_ok_def)
  have "length ?table = sum_list (map (\<lambda>_. 144) [0..<36 :: nat])"
    by (simp add: length_concat length_put_entry [OF assms] comp_def del: upt_Suc)
  then have table: "length ?table = 5184" by (simp add: sum_list_triv del: upt_Suc)
  have bits: "length ?bits = 8 * 979" by (simp only: length_append length_put_header [OF ok(2)] table length_put_bits)
  then have "8 dvd length ?bits" by (rule dvdI)
  from bits_of_pack [OF this] length_pack_bits [OF this] have data: "bits_of (author_pci p) = ?bits" "length (author_pci p) = 979"
    unfolding author_pci_def [symmetric] bits by simp_all
  have "spells (author_pci p) 0 ?bits"
    by (simp only: spells_def data bits add_0 drop0 order_refl take_all simp_thms)
  then have spelled: "spells (author_pci p) 0 (put_header p @ [] @ ?table)" by (simp add: spells_append)
  let ?start = "p\<lparr>pci_button_groups := [[], [], []]\<rparr>"
  have "reads_back (read_buttons [0..<36] ?start) ?table (p\<lparr>pci_button_groups := taken p 36\<rparr>)"
    using reads_back_table [OF assms, of 0] by (simp add: taken_start del: upt_Suc)
  then have rest: "reads_back (read_buttons [0..<36] ?start) ?table p" by (simp add: taken_end [OF ok(1)] del: upt_Suc)
  have check: "reads_back (br_check (validate_header ?start)) [] ()"
    using ok(2) by (intro reads_back_check validate_header_accepts) simp
  have "reads_back (br_bind read_header (\<lambda>p. br_bind (br_check (validate_header p)) (\<lambda>_. read_buttons [0..<36] p)))
      (put_header p @ [] @ ?table) p"
    by (rule reads_back_bind [OF reads_back_header [OF ok(2)]], rule reads_back_bind [OF check rest])
  from reads_backD [OF this spelled] show ?thesis by (simp add: parse_pci_def pci_payload_size_def max_buttons_def data(2) del: upt_Suc)
qed

subsection \<open>Subpicture packets\<close>

text \<open>The time stamp in its five bytes, and a packet of private stream 1 around a payload of some substream.\<close>

definition encode_pts :: "u64 \<Rightarrow> u8 list" where
  "encode_pts pts =
     (let v = push_bit 1 (ucast (drop_bit 15 pts)) OR 1 :: u16; w = push_bit 1 (ucast pts) OR 1 :: u16 in
      [ucast (drop_bit 29 pts) AND 0x0e OR 0x21, ucast (drop_bit 8 v), ucast v, ucast (drop_bit 8 w), ucast w])"

definition pes :: "spu_fragment \<Rightarrow> u8 list" where
  "pes f =
     (let stamp = (if frag_has_pts f then encode_pts (frag_pts f) else []);
          body = [0x80, if frag_has_pts f then 0x80 else 0, word_of_nat (length stamp)] @ stamp @ frag_stream f # frag_data f
      in stream1_start @ put16 (length body) @ body)"

definition routable :: "spu_fragment \<Rightarrow> bool" where
  "routable f \<longleftrightarrow> length (frag_data f) \<le> 65000 \<and> frag_pts f < 2 ^ 33 \<and> (\<not> frag_has_pts f \<longrightarrow> frag_pts f = 0)"

definition is_spu :: "spu_fragment \<Rightarrow> bool" where
  "is_spu f \<longleftrightarrow> 0x20 \<le> frag_stream f \<and> frag_stream f \<le> 0x3f"

lemma be16_split: "be16 (ucast (drop_bit 8 v)) (ucast v) = (v :: u16)"
  unfolding be16_def by (rule bit_word_eqI) (auto simp: bit_simps dest: bit_imp_le_length)

lemma bit_0e: "bit (0x0e :: u8) n \<longleftrightarrow> n \<in> {1, 2, 3}"
  by (cases "n < 8") (auto simp: less_Suc_eq eval_nat_numeral dest: bit_imp_le_length)

lemma decode_pts_words:
  fixes v w :: u16
  shows "decode_pts [a, ucast (drop_bit 8 v), ucast v, ucast (drop_bit 8 w), ucast w]
    = Inr (push_bit 29 (ucast (a AND 0x0e)) OR push_bit 15 (ucast (drop_bit 1 v)) OR ucast (drop_bit 1 w))"
  by (simp add: decode_pts_def be16_split)

lemma decode_pts_encode:
  assumes "pts < 2 ^ 33"
  shows "decode_pts (encode_pts pts) = Inr pts"
proof -
  have "unat (take_bit 33 pts) = unat pts"
    using assms by (simp add: unsigned_take_bit_eq take_bit_nat_eq_self word_less_nat_alt)
  then have "pts = take_bit 33 pts" by (simp add: word_unat_eq_iff)
  then have high: "bit pts i \<Longrightarrow> i < 33" for i by (metis bit_take_bit_iff)
  have five: "(ucast (drop_bit 29 pts) AND 0x0e OR 0x21 :: u8) AND 0x0e = ucast (drop_bit 29 pts) AND 0x0e"
    by (rule bit_word_eqI) (auto simp: bit_simps bit_0e less_Suc_eq eval_nat_numeral)
  have seven: "bit (drop_bit 1 (push_bit 1 v OR 1)) i \<longleftrightarrow> i < 15 \<and> bit v i" for v :: u16 and i
    by (auto simp: bit_simps bit_double_iff mult.commute [of v 2] dest: bit_imp_le_length)
  define x y where "x = drop_bit 1 (push_bit 1 (ucast (drop_bit 15 pts)) OR 1 :: u16)"
    and "y = drop_bit 1 (push_bit 1 (ucast pts) OR 1 :: u16)"
  have xy: "bit x i \<longleftrightarrow> i < 15 \<and> bit pts (15 + i)" "bit y i \<longleftrightarrow> i < 15 \<and> bit pts i" for i
    unfolding x_def y_def seven by (auto simp: bit_simps)
  have "push_bit 29 (ucast ((ucast (drop_bit 29 pts) :: u8) AND 0x0e)) OR push_bit 15 (ucast x) OR ucast y = pts"
  proof (rule bit_word_eqI)
    fix i :: nat
    assume i: "i < LENGTH(64)"
    consider "i < 15" | "15 \<le> i" "i < 30" | "i = 30 \<or> i = 31 \<or> i = 32" | "33 \<le> i" by linarith
    then show "bit (push_bit 29 (ucast ((ucast (drop_bit 29 pts) :: u8) AND 0x0e)) OR push_bit 15 (ucast x) OR ucast y :: u64) i
        = bit pts i"
    proof cases
      case 4
      with high [of i] have "\<not> bit pts i" by auto
      with 4 show ?thesis by (simp add: bit_simps bit_0e xy)
    qed (use i in \<open>auto simp: bit_simps bit_0e xy\<close>)
  qed
  then show ?thesis unfolding encode_pts_def Let_def decode_pts_words five x_def y_def by (rule arg_cong [where f = Inr])
qed

definition header_size :: "spu_fragment \<Rightarrow> nat" where
  "header_size f = (if frag_has_pts f then 5 else 0)"

lemma pes_shape:
  assumes "routable f"
  defines "hl \<equiv> header_size f" and "n \<equiv> length (frag_data f)"
  shows "length (pes f) = 10 + hl + n" "unat (be16 (pes f ! 4) (pes f ! 5)) = 4 + hl + n"
    "take 4 (pes f) = stream1_start" "pes f ! 6 = 0x80" "pes f ! 7 = (if frag_has_pts f then 0x80 else 0)"
    "unat (pes f ! 8) = hl" "pes f ! (9 + hl) = frag_stream f" "drop (10 + hl) (pes f) = frag_data f"
    "frag_has_pts f \<Longrightarrow> take 5 (drop 9 (pes f)) = encode_pts (frag_pts f)"
proof -
  have n: "4 + hl + n < 65536" using assms(1) by (simp add: hl_def n_def header_size_def routable_def)
  define s where "s = put16 (4 + hl + n)"
  obtain s0 s1 where s: "s = [s0, s1]" by (simp add: s_def put16_def)
  have size: "unat (be16 s0 s1) = 4 + hl + n" using put16_value [OF n] by (simp add: s_def [symmetric] s)
  have pes: "pes f = stream1_start @ [s0, s1, 0x80, if frag_has_pts f then 0x80 else 0, word_of_nat hl]
      @ (if frag_has_pts f then encode_pts (frag_pts f) else []) @ frag_stream f # frag_data f"
    using s unfolding s_def
    by (cases "frag_has_pts f") (simp_all add: pes_def hl_def n_def header_size_def encode_pts_def Let_def stream1_start_def eval_nat_numeral)
  obtain a b c d e where enc: "encode_pts (frag_pts f) = [a, b, c, d, e]" by (simp add: encode_pts_def Let_def)
  show "length (pes f) = 10 + hl + n" "unat (be16 (pes f ! 4) (pes f ! 5)) = 4 + hl + n"
    "take 4 (pes f) = stream1_start" "pes f ! 6 = 0x80" "pes f ! 7 = (if frag_has_pts f then 0x80 else 0)"
    "unat (pes f ! 8) = hl" "pes f ! (9 + hl) = frag_stream f" "drop (10 + hl) (pes f) = frag_data f"
    "frag_has_pts f \<Longrightarrow> take 5 (drop 9 (pes f)) = encode_pts (frag_pts f)"
    using size by (auto simp: pes enc hl_def n_def header_size_def stream1_start_def)
qed

lemma nth_within: "k < length p \<Longrightarrow> (pre @ p @ rest) ! (length pre + k) = p ! k"
  by (simp add: nth_append)

lemma take_within: "a + k \<le> length p \<Longrightarrow> take k (drop (length pre + a) (pre @ p @ rest)) = take k (drop a p)"
  by simp

lemma route_authored_packet:
  assumes "routable f" and "is_spu f \<Longrightarrow> within m n (fs @ [f])" and "bytes = payload_bytes fs"
  shows "route_packet (pre @ pes f @ rest) m n (length pre) bytes fs =
    Inr (if is_spu f then fs @ [f] else fs, payload_bytes (if is_spu f then fs @ [f] else fs), length pre + length (pes f))"
proof -
  let ?data = "pre @ pes f @ rest" and ?hl = "header_size f" and ?n = "length (frag_data f)"
  note shape = pes_shape [OF assms(1)]
  have at: "k < 10 + ?hl + ?n \<Longrightarrow> (index_at ?data (length pre + k) :: (nav_error, u8) go) = Inr (pes f ! k)" for k
    using nth_within [of k "pes f" pre rest] shape(1) by simp
  have size: "(u16_at ?data (length pre + 4) :: (nav_error, u16) go) = Inr (be16 (pes f ! 4) (pes f ! 5))"
    using nth_within [of 4 "pes f" pre rest] nth_within [of 5 "pes f" pre rest] shape(1) by (simp add: add.commute)
  have payload: "(slice_of ?data (length pre + 9 + ?hl + 1) (length pre + 6 + (4 + ?hl + ?n)) :: (nav_error, u8 list) go) = Inr (frag_data f)"
    using shape(1,8) by (simp add: slice_of_def)
  have stamp: "(slice_of ?data (length pre + 9) (length pre + 14) :: (nav_error, u8 list) go) = Inr (encode_pts (frag_pts f))" if "frag_has_pts f"
    using that shape(1,9) by (simp add: slice_of_def header_size_def)
  have item: "fragment_of ?data (length pre) ?hl (frag_stream f) (frag_data f) = Inr f"
    using at [of 7] shape(5) stamp decode_pts_encode [of "frag_pts f"] assms(1)
    by (cases "frag_has_pts f") (auto simp: fragment_of_def header_size_def routable_def)
  have small: "\<not> be16 (pes f ! 4) (pes f ! 5) < 4" using shape(2) by (simp add: word_less_nat_alt)
  show ?thesis
    using shape(1,2,4,6,7) at [of 6] at [of 8] at [of "9 + ?hl"] size payload item small assms(2,3)
    by (auto simp: route_packet_def Let_def is_spu_def within_def add.assoc)
qed

lemma bytes_index_here: "take 4 p = stream1_start \<Longrightarrow> bytes_index (p @ rest) stream1_start = Some 0"
proof -
  assume "take 4 p = stream1_start"
  then have "p = stream1_start @ drop 4 p" by (metis append_take_drop_id)
  then obtain q where "p = stream1_start @ q" by blast
  then show ?thesis by (simp add: stream1_start_def)
qed

lemma pes_code: "take 4 (pes f) = stream1_start"
  by (simp add: pes_def stream1_start_def Let_def)

lemma route_authored_packets:
  assumes "\<forall>f\<in>set fs. routable f" and "within m n (gs @ filter is_spu fs)" and "bytes = payload_bytes gs" "offset = length pre"
  shows "route_loop (pre @ concat (map pes fs)) m n offset bytes gs = Inr (gs @ filter is_spu fs)"
  using assms
proof (induction fs arbitrary: pre gs bytes offset)
  case Nil
  then show ?case by (subst route_loop.simps) simp
next
  case (Cons f fs)
  let ?data = "pre @ concat (map pes (f # fs))"
  let ?gs = "if is_spu f then gs @ [f] else gs"
  have ok: "routable f" "is_spu f \<Longrightarrow> within m n (gs @ [f])" using Cons.prems(1,2) by (auto simp: within_def)
  have packet: "route_packet ?data m n (length pre) bytes gs = Inr (?gs, payload_bytes ?gs, length pre + length (pes f))"
    using route_authored_packet [OF ok Cons.prems(3), of pre "concat (map pes fs)"] by simp
  have index: "bytes_index (drop (length pre) ?data) stream1_start = Some 0"
    using bytes_index_here [OF pes_code] by simp
  have "length pre + 6 \<le> length ?data" using pes_shape(1) [OF ok(1)] by simp
  then have "route_loop ?data m n offset bytes gs = route_loop ?data m n (length pre + length (pes f)) (payload_bytes ?gs) ?gs"
    using packet index Cons.prems(4) by (subst route_loop.simps) simp
  also have "\<dots> = Inr (?gs @ filter is_spu fs)"
    using Cons.IH [of ?gs "payload_bytes ?gs" "length pre + length (pes f)" "pre @ pes f"] Cons.prems(1,2)
    by (simp split del: if_split) (simp split: if_splits)
  also have "?gs @ filter is_spu fs = gs @ filter is_spu (f # fs)" by simp
  finally show ?case .
qed

subsection \<open>The properties\<close>

definition sample_button :: "nat \<Rightarrow> button" where
  "sample_button n = \<lparr>btn_number = word_of_nat n, btn_color_group = 1, btn_x_start = 100, btn_y_start = 40, btn_x_end = 300,
     btn_y_end = 80, btn_auto_action = (n = 2), btn_up = 1, btn_down = 2, btn_left = 0, btn_right = 2,
     btn_command = [0x30, 2, 0, 0, 0, 1, 0, 0]\<rparr>"

definition sample_pci :: pci where
  "sample_pci =
     \<lparr>pci_logical_block = 5, pci_vobu_category = 0, pci_vobu_start_pts = 90000, pci_vobu_end_pts = 180000,
      pci_sequence_end_pts = 0, pci_highlight_status = 1, pci_highlight_start_pts = 90000, pci_highlight_end_pts = 0xffffffff,
      pci_button_select_end_pts = 0xffffffff, pci_group_count = 1, pci_button_offset = 0, pci_button_count = 2,
      pci_selectable_count = 2, pci_forced_select = 1, pci_forced_action = 0,
      pci_button_colors = [[0x1234ffff, 0], [0, 0], [0, 0]],
      pci_button_groups = [[sample_button 1, sample_button 2], [], []]\<rparr>"

lemma all_less_three: "(\<forall>g < (3 :: nat). P g) \<longleftrightarrow> P 0 \<and> P 1 \<and> P 2"
  by (auto simp: less_Suc_eq numeral_3_eq_3 numeral_2_eq_2)

lemma sample_pci_fits: "pci_fits sample_pci"
  by (auto simp: pci_fits_def pci_ok_def header_ok_def button_ok_def button_fits_def sample_pci_def sample_button_def
      all_less_three upt_conv_Cons)

definition sample_fragments :: "spu_fragment list" where
  "sample_fragments =
     [\<lparr>frag_stream = 0x20, frag_data = [0, 8, 1, 2], frag_pts = 90000, frag_has_pts = True\<rparr>,
      \<lparr>frag_stream = 0x80, frag_data = [9, 9], frag_pts = 0, frag_has_pts = False\<rparr>,
      \<lparr>frag_stream = 0x20, frag_data = [3, 4, 5, 6], frag_pts = 0, frag_has_pts = False\<rparr>]"

text \<open>C22: Parsing presentation control inverts authoring it: from the bits of any well-formed table whose coordinates fit their
  fields, every field, every button and every command byte comes back.\<close>

lemma authored_buttons_come_back:
  assumes "pci_fits p"
  shows "parse_pci (author_pci p) = Inr p"
  using assms by (rule authored_pci_parses)

lemma authored_buttons_come_back_witness: "parse_pci (author_pci sample_pci) = Inr sample_pci"
  by (rule authored_buttons_come_back [OF sample_pci_fits])

text \<open>C24: Routing inverts packetisation: from packets of private stream 1 in any order, subpictures and others, with or without
  33-bit time stamps, with payloads of at most 65000 bytes, whose subpicture fragments together stay within the packet and the
  payload limit (neither of them zero), the router gives exactly those fragments, in order, with their payloads and stamps.\<close>

lemma routing_inverts_packetisation:
  assumes "\<forall>f\<in>set fs. routable f" and "within m n (filter is_spu fs)" and "m \<noteq> 0" "n \<noteq> 0"
  shows "route_spu_fragments (concat (map pes fs)) m n = Inr (filter is_spu fs)"
  using route_authored_packets [OF assms(1), of m n "[]" 0 0 "[]"] assms(2-4)
  by (auto simp: route_spu_fragments_def within_def)

lemma routing_inverts_packetisation_witness:
  "route_spu_fragments (concat (map pes sample_fragments)) 10 100 = Inr [sample_fragments ! 0, sample_fragments ! 2]"
  using routing_inverts_packetisation [of sample_fragments 10 100]
  by (simp add: sample_fragments_def routable_def within_def is_spu_def fragment_ok_def)

end
