(* ===== verification/DvdIfo.thy ===== *)
theory DvdIfo
  imports DvdBytes Clock
begin

text \<open>
  The menu structures of a disc, \<open>internal/dvdvideo/ifo/ifo.go\<close>: the bounded reader, the language units,
  program chains with their command, program and cell tables, one IFO file, and the inventory of a
  VIDEO_TS directory with the fallback to the BUP copies. Offsets are naturals, as the code only adds to
  them; messages are dropped from errors.
\<close>

unbundle bit_operations_syntax

datatype ifo_error = ErrInvalidIFO | ErrTooLarge | IfoReadError | IfoErrors ifo_error ifo_error

abbreviation invalid_ifo :: "(ifo_error, 'a) go" where
  "invalid_ifo \<equiv> Inl (Failed ErrInvalidIFO)"

definition ifo_sector_size :: nat where "ifo_sector_size = 2048"
definition pgc_size :: nat where "pgc_size = 236"
definition max_ifo_bytes :: nat where "max_ifo_bytes = 67108864"
definition max_language_units :: nat where "max_language_units = 99"
definition max_program_chains :: nat where "max_program_chains = 999"

subsection \<open>Data\<close>

type_synonym ifo_kind = u8
definition kind_manager :: ifo_kind where "kind_manager = 1"
definition kind_title_set :: ifo_kind where "kind_title_set = 2"

record dvd_time =
  time_hour :: u8
  time_minute :: u8
  time_second :: u8
  time_frame :: u8

record cell_playback =
  cell_flags :: u16
  cell_still_time :: u8
  cell_command_number :: u8
  cell_playback_time :: dvd_time
  cell_first_sector :: u32
  cell_first_ilvu_end :: u32
  cell_last_vobu_start :: u32
  cell_last_sector :: u32

record cell_position =
  position_vob :: u16
  position_cell :: u8

record program_chain =
  pgc_number :: nat
  pgc_entry_id :: u8
  pgc_menu_id :: u8
  pgc_programs :: u8
  pgc_cells :: u8
  pgc_playback_time :: dvd_time
  pgc_next :: u16
  pgc_previous :: u16
  pgc_go_up :: u16
  pgc_playback_mode :: u8
  pgc_still_time :: u8
  pgc_audio_control :: "u16 list"
  pgc_subpicture_control :: "u32 list"
  pgc_palette :: "u32 list"
  pgc_pre_commands :: "command list"
  pgc_post_commands :: "command list"
  pgc_cell_commands :: "command list"
  pgc_program_map :: "u8 list"
  pgc_cell_playback :: "cell_playback list"
  pgc_cell_positions :: "cell_position list"

record language_unit =
  lang_code :: "u8 list"
  lang_extension :: u8
  lang_exists :: u8
  lang_program_chains :: "program_chain list"

record ifo_file =
  file_kind :: ifo_kind
  file_vts :: int
  file_recovered :: bool
  file_first_play :: "program_chain option"
  file_languages :: "language_unit list"
  file_source_name :: string

record dvd_disc =
  disc_manager :: ifo_file
  disc_title_sets :: "ifo_file list"

subsection \<open>Playback time\<close>

definition decode_bcd :: "u8 \<Rightarrow> (ifo_error, int) go" where
  "decode_bcd v =
     (if drop_bit 4 v > 9 \<or> v AND 0x0f > 9 then invalid_ifo
      else Inr (int (unat (drop_bit 4 v)) * 10 + int (unat (v AND 0x0f))))"

definition go_second :: int where "go_second = 1000000000"

text \<open>\<open>Duration\<close>, in nanoseconds.\<close>

definition duration :: "dvd_time \<Rightarrow> (ifo_error, int) go" where
  "duration t =
     go_bind (decode_bcd (time_hour t)) (\<lambda>hour. go_bind (decode_bcd (time_minute t)) (\<lambda>minute.
       if minute > 59 then invalid_ifo
       else go_bind (decode_bcd (time_second t)) (\<lambda>second.
         if second > 59 then invalid_ifo
         else go_bind (decode_bcd (time_frame t AND 0x3f)) (\<lambda>frames.
           let d = hour * (3600 * go_second) + minute * (60 * go_second) + second * go_second;
               rate = time_frame t AND 0xc0
           in if rate = 0 then (if frames \<noteq> 0 then invalid_ifo else Inr d)
              else if rate = 0x40 then (if frames \<ge> 25 then invalid_ifo else Inr (d + frames * go_second div 25))
              else if rate = 0xc0 then
                (if frames \<ge> 30 then invalid_ifo else Inr (d + frames * 1001 * go_second div 30000))
              else invalid_ifo))))"

subsection \<open>The bounded reader\<close>

definition ifo_bytes :: "u8 list \<Rightarrow> nat \<Rightarrow> nat \<Rightarrow> (ifo_error, u8 list) go" where
  "ifo_bytes data offset count =
     (if offset + count > length data then invalid_ifo else slice_of data offset (offset + count))"

definition ifo_u16 :: "u8 list \<Rightarrow> nat \<Rightarrow> (ifo_error, u16) go" where
  "ifo_u16 data offset = go_bind (ifo_bytes data offset 2) (\<lambda>bs. u16_at bs 0)"

definition ifo_u32 :: "u8 list \<Rightarrow> nat \<Rightarrow> (ifo_error, u32) go" where
  "ifo_u32 data offset = go_bind (ifo_bytes data offset 4) (\<lambda>bs. u32_at bs 0)"

definition bounded_uint32 :: "u32 \<Rightarrow> (ifo_error, nat) go" where
  "bounded_uint32 v = (if unat v > max_ifo_bytes then invalid_ifo else Inr (unat v))"

text \<open>A loop that fills a slice entry by entry.\<close>

fun go_map :: "('a \<Rightarrow> ('e, 'b) go) \<Rightarrow> 'a list \<Rightarrow> ('e, 'b list) go" where
  "go_map f [] = Inr []"
| "go_map f (x # xs) = go_bind (f x) (\<lambda>y. go_bind (go_map f xs) (\<lambda>ys. Inr (y # ys)))"

definition read_dvd_time :: "u8 list \<Rightarrow> (ifo_error, dvd_time) go" where
  "read_dvd_time data =
     go_bind (index_at data 0) (\<lambda>hour. go_bind (index_at data 1) (\<lambda>minute. go_bind (index_at data 2) (\<lambda>second.
       go_bind (index_at data 3) (\<lambda>frame.
         Inr \<lparr>time_hour = hour, time_minute = minute, time_second = second, time_frame = frame\<rparr>))))"

subsection \<open>The tables of a program chain\<close>

definition command_table :: "u8 list \<Rightarrow> nat \<Rightarrow> (ifo_error, command list \<times> command list \<times> command list) go" where
  "command_table data base =
     go_bind (ifo_bytes data base 8) (\<lambda>header.
     go_bind (u16_at header 0) (\<lambda>pre. go_bind (u16_at header 2) (\<lambda>post. go_bind (u16_at header 4) (\<lambda>cell.
     go_bind (u16_at header 6) (\<lambda>last_byte.
       let count = unat pre + unat post + unat cell in
       if unat last_byte < 7 \<or> count > (unat last_byte + 1 - 8) div 8 then invalid_ifo
       else go_bind (ifo_bytes data (base + 8) (count * 8)) (\<lambda>bytes.
         go_bind (go_map (\<lambda>index. slice_of bytes (index * 8) ((index + 1) * 8)) [0..<count]) (\<lambda>commands.
           let pre_end = unat pre; post_end = pre_end + unat post in
           go_bind (slice_of commands 0 pre_end) (\<lambda>pre_commands.
             go_bind (slice_of commands pre_end post_end) (\<lambda>post_commands.
               go_bind (slice_of commands post_end (length commands)) (\<lambda>cell_commands.
                 Inr (pre_commands, post_commands, cell_commands)))))))))))"

definition read_cell_playback :: "u8 list \<Rightarrow> (ifo_error, cell_playback) go" where
  "read_cell_playback item =
     go_bind (u16_at item 0) (\<lambda>flags. go_bind (index_at item 2) (\<lambda>still. go_bind (index_at item 3) (\<lambda>command.
     go_bind (slice_of item 4 8) (\<lambda>time. go_bind (read_dvd_time time) (\<lambda>playback.
     go_bind (u32_at item 8) (\<lambda>first_sector. go_bind (u32_at item 12) (\<lambda>ilvu_end.
     go_bind (u32_at item 16) (\<lambda>vobu_start. go_bind (u32_at item 20) (\<lambda>last_sector.
       if first_sector > last_sector \<or> vobu_start > last_sector then invalid_ifo
       else Inr \<lparr>cell_flags = flags, cell_still_time = still, cell_command_number = command,
         cell_playback_time = playback, cell_first_sector = first_sector, cell_first_ilvu_end = ilvu_end,
         cell_last_vobu_start = vobu_start, cell_last_sector = last_sector\<rparr>)))))))))"

definition cell_playback_table :: "u8 list \<Rightarrow> nat \<Rightarrow> nat \<Rightarrow> (ifo_error, cell_playback list) go" where
  "cell_playback_table data base count =
     go_bind (ifo_bytes data base (count * 24)) (\<lambda>bytes.
       go_map (\<lambda>index. go_bind (slice_of bytes (index * 24) ((index + 1) * 24)) read_cell_playback) [0..<count])"

definition cell_position_table :: "u8 list \<Rightarrow> nat \<Rightarrow> nat \<Rightarrow> (ifo_error, cell_position list) go" where
  "cell_position_table data base count =
     go_bind (ifo_bytes data base (count * 4)) (\<lambda>bytes.
       go_map (\<lambda>index. go_bind (slice_of bytes (index * 4) ((index + 1) * 4)) (\<lambda>item.
         go_bind (u16_at item 0) (\<lambda>vob. go_bind (index_at item 3) (\<lambda>cell.
           Inr \<lparr>position_vob = vob, position_cell = cell\<rparr>)))) [0..<count])"

definition program_map_invalid :: "u8 \<Rightarrow> u8 list \<Rightarrow> bool" where
  "program_map_invalid cells program_map \<longleftrightarrow>
     list_ex (\<lambda>index. program_map ! index = 0 \<or> program_map ! index > cells
       \<or> index > 0 \<and> program_map ! index < program_map ! (index - 1)) [0..<length program_map]"

definition read_program_map :: "u8 list \<Rightarrow> nat \<Rightarrow> u8 \<Rightarrow> u8 \<Rightarrow> nat \<Rightarrow> (ifo_error, u8 list) go" where
  "read_program_map data base programs cells offset =
     (if programs = 0 then Inr []
      else if offset < pgc_size then invalid_ifo
      else go_bind (ifo_bytes data (base + offset) (unat programs)) (\<lambda>program_map.
        if program_map_invalid cells program_map then invalid_ifo else Inr program_map))"

definition read_cell_tables ::
    "u8 list \<Rightarrow> nat \<Rightarrow> u8 \<Rightarrow> nat \<Rightarrow> nat \<Rightarrow> (ifo_error, cell_playback list \<times> cell_position list) go" where
  "read_cell_tables data base cells playback_offset position_offset =
     (if cells = 0 then Inr ([], [])
      else if playback_offset < pgc_size \<or> position_offset < pgc_size then invalid_ifo
      else go_bind (cell_playback_table data (base + playback_offset) (unat cells)) (\<lambda>playback.
        go_bind (cell_position_table data (base + position_offset) (unat cells)) (\<lambda>positions.
          Inr (playback, positions))))"

text \<open>The fixed header of a program chain, without the tables it points to.\<close>

definition read_pgc_header :: "u8 list \<Rightarrow> nat \<Rightarrow> u8 \<Rightarrow> (ifo_error, program_chain) go" where
  "read_pgc_header fixed number entry_id =
     go_bind (index_at fixed 2) (\<lambda>programs. go_bind (index_at fixed 3) (\<lambda>cells.
       if programs > cells then invalid_ifo
       else go_bind (slice_of fixed 4 8) (\<lambda>time. go_bind (read_dvd_time time) (\<lambda>playback.
         go_bind (u16_at fixed 156) (\<lambda>succ. go_bind (u16_at fixed 158) (\<lambda>previous. go_bind (u16_at fixed 160) (\<lambda>go_up.
         go_bind (index_at fixed 162) (\<lambda>mode. go_bind (index_at fixed 163) (\<lambda>still.
         go_bind (go_map (\<lambda>index. u16_at fixed (12 + index * 2)) [0..<8]) (\<lambda>audio.
         go_bind (go_map (\<lambda>index. u32_at fixed (28 + index * 4)) [0..<32]) (\<lambda>subpicture.
         go_bind (go_map (\<lambda>index. u32_at fixed (164 + index * 4)) [0..<16]) (\<lambda>palette.
           Inr \<lparr>pgc_number = number, pgc_entry_id = entry_id, pgc_menu_id = entry_id AND 0x0f,
             pgc_programs = programs, pgc_cells = cells, pgc_playback_time = playback, pgc_next = succ,
             pgc_previous = previous, pgc_go_up = go_up, pgc_playback_mode = mode, pgc_still_time = still,
             pgc_audio_control = audio, pgc_subpicture_control = subpicture, pgc_palette = palette,
             pgc_pre_commands = [], pgc_post_commands = [], pgc_cell_commands = [], pgc_program_map = [],
             pgc_cell_playback = [], pgc_cell_positions = []\<rparr>))))))))))))"

definition read_program_chain :: "u8 list \<Rightarrow> nat \<Rightarrow> nat \<Rightarrow> u8 \<Rightarrow> (ifo_error, program_chain) go" where
  "read_program_chain data base number entry_id =
     go_bind (ifo_bytes data base pgc_size) (\<lambda>fixed. go_bind (read_pgc_header fixed number entry_id) (\<lambda>pgc.
     go_bind (u16_at fixed 228) (\<lambda>command_offset. go_bind (u16_at fixed 230) (\<lambda>program_offset.
     go_bind (u16_at fixed 232) (\<lambda>playback_offset. go_bind (u16_at fixed 234) (\<lambda>position_offset.
     go_bind (if command_offset \<noteq> 0 then command_table data (base + unat command_offset) else Inr ([], [], []))
       (\<lambda>(pre, post, cell).
     go_bind (read_program_map data base (pgc_programs pgc) (pgc_cells pgc) (unat program_offset)) (\<lambda>program_map.
     go_bind (read_cell_tables data base (pgc_cells pgc) (unat playback_offset) (unat position_offset))
       (\<lambda>(playback, positions).
         Inr (pgc\<lparr>pgc_pre_commands := pre, pgc_post_commands := post, pgc_cell_commands := cell,
           pgc_program_map := program_map, pgc_cell_playback := playback, pgc_cell_positions := positions\<rparr>))))))))))"

subsection \<open>Program chain tables and language units\<close>

definition read_chain_entry :: "u8 list \<Rightarrow> nat \<Rightarrow> nat \<Rightarrow> nat \<Rightarrow> (ifo_error, program_chain) go" where
  "read_chain_entry data base end index =
     (let offset = base + 8 + index * 8 in
      go_bind (ifo_bytes data offset 1) (\<lambda>entry. go_bind (ifo_u32 data (offset + 4)) (\<lambda>start.
        go_bind (bounded_uint32 start) (\<lambda>start_offset.
          let pgc_base = base + start_offset in
          if start_offset < 8 \<or> pgc_base > end \<or> pgc_size > end - pgc_base then invalid_ifo
          else go_bind (index_at entry 0) (read_program_chain data pgc_base (index + 1))))))"

definition program_chain_table :: "u8 list \<Rightarrow> nat \<Rightarrow> nat \<Rightarrow> (ifo_error, program_chain list) go" where
  "program_chain_table data base parent_end =
     go_bind (ifo_u16 data base) (\<lambda>count.
       if unat count > max_program_chains then invalid_ifo
       else go_bind (ifo_u32 data (base + 4)) (\<lambda>last_byte. go_bind (bounded_uint32 last_byte) (\<lambda>last_offset.
         if last_offset < 7 \<or> base > parent_end \<or> last_offset \<ge> parent_end - base then invalid_ifo
         else let end = base + last_offset + 1 in
           if base + 8 + unat count * 8 > end then invalid_ifo
           else go_map (read_chain_entry data base end) [0..<unat count])))"

definition read_language_entry :: "u8 list \<Rightarrow> nat \<Rightarrow> nat \<Rightarrow> nat \<Rightarrow> (ifo_error, language_unit) go" where
  "read_language_entry data base end index =
     (let offset = base + 8 + index * 8 in
      go_bind (ifo_bytes data offset 2) (\<lambda>code. go_bind (ifo_u32 data (offset + 4)) (\<lambda>start.
        go_bind (bounded_uint32 start) (\<lambda>start_offset.
          let pgcit_base = base + start_offset in
          if start_offset < 8 \<or> pgcit_base \<ge> end then invalid_ifo
          else go_bind (program_chain_table data pgcit_base end) (\<lambda>chains.
            go_bind (index_at data (offset + 2)) (\<lambda>extension. go_bind (index_at data (offset + 3)) (\<lambda>exists_mask.
              Inr \<lparr>lang_code = code, lang_extension = extension, lang_exists = exists_mask,
                   lang_program_chains = chains\<rparr>)))))))"

definition language_units :: "u8 list \<Rightarrow> nat \<Rightarrow> (ifo_error, language_unit list) go" where
  "language_units data base =
     go_bind (ifo_u16 data base) (\<lambda>count.
       if unat count > max_language_units then invalid_ifo
       else go_bind (ifo_u32 data (base + 4)) (\<lambda>last_byte. go_bind (bounded_uint32 last_byte) (\<lambda>last_offset.
         if last_offset < 7 \<or> base > length data \<or> last_offset \<ge> length data - base then invalid_ifo
         else let end = base + last_offset + 1 in
           if base + 8 + unat count * 8 > end then invalid_ifo
           else go_map (read_language_entry data base end) [0..<unat count])))"

subsection \<open>One file\<close>

text \<open>\<open>DVDVIDEO-VMG\<close> and \<open>DVDVIDEO-VTS\<close>.\<close>

definition manager_identifier :: "u8 list" where
  "manager_identifier = [0x44, 0x56, 0x44, 0x56, 0x49, 0x44, 0x45, 0x4f, 0x2d, 0x56, 0x4d, 0x47]"

definition title_set_identifier :: "u8 list" where
  "title_set_identifier = [0x44, 0x56, 0x44, 0x56, 0x49, 0x44, 0x45, 0x4f, 0x2d, 0x56, 0x54, 0x53]"

text \<open>What depends on the kind: the identifier, the sector of the language table and the first-play chain.\<close>

definition read_domain ::
    "u8 list \<Rightarrow> ifo_kind \<Rightarrow> int \<Rightarrow> (ifo_error, u8 list \<times> u32 \<times> program_chain option) go" where
  "read_domain data kind vts =
     (if kind = kind_manager then
        go_bind (ifo_u32 data 200) (\<lambda>sector. go_bind (ifo_u32 data 132) (\<lambda>first_play.
          if first_play \<noteq> 0 then
            go_bind (read_program_chain data (unat first_play) 0 0) (\<lambda>pgc. Inr (manager_identifier, sector, Some pgc))
          else Inr (manager_identifier, sector, None)))
      else if kind = kind_title_set then
        (if vts \<le> 0 \<or> vts > 99 then invalid_ifo
         else go_bind (ifo_u32 data 208) (\<lambda>sector. Inr (title_set_identifier, sector, None)))
      else invalid_ifo)"

definition parse_ifo :: "u8 list \<Rightarrow> ifo_kind \<Rightarrow> int \<Rightarrow> (ifo_error, ifo_file) go" where
  "parse_ifo data kind vts =
     (if length data > max_ifo_bytes then Inl (Failed ErrTooLarge)
      else go_bind (read_domain data kind vts) (\<lambda>(identifier, pgci_sector, first_play).
        go_bind (ifo_bytes data 0 (length identifier)) (\<lambda>header.
          let file = \<lparr>file_kind = kind, file_vts = vts, file_recovered = False, file_first_play = first_play,
            file_languages = [], file_source_name = []\<rparr> in
          if header \<noteq> identifier then invalid_ifo
          else if pgci_sector = 0 then Inr file
          else if unat pgci_sector > max_ifo_bytes div ifo_sector_size then invalid_ifo
          else go_bind (bounded_uint32 pgci_sector) (\<lambda>sector.
            let base = sector * ifo_sector_size in
            if base > length data then invalid_ifo
            else go_bind (language_units data base) (\<lambda>languages. Inr (file\<lparr>file_languages := languages\<rparr>))))))"

subsection \<open>A directory\<close>

record dir_entry =
  entry_name :: string
  entry_is_dir :: bool
  entry_is_symlink :: bool

text \<open>\<open>strconv.Atoi\<close> on two bytes: two digits, or a sign and a digit.\<close>

definition digit_value :: "char \<Rightarrow> int" where
  "digit_value c = int (of_char c) - 48"

definition is_digit :: "char \<Rightarrow> bool" where
  "is_digit c \<longleftrightarrow> 0 \<le> digit_value c \<and> digit_value c \<le> 9"

definition atoi2 :: "char \<Rightarrow> char \<Rightarrow> int option" where
  "atoi2 a b =
     (if \<not> is_digit b then None
      else if is_digit a then Some (10 * digit_value a + digit_value b)
      else if a = CHR ''+'' then Some (digit_value b)
      else if a = CHR ''-'' then Some (- digit_value b) else None)"

definition title_set_number :: "string \<Rightarrow> int option" where
  "title_set_number name =
     (if length name \<noteq> 12 \<or> take 4 name \<noteq> ''VTS_'' \<or> drop 6 name \<noteq> ''_0.IFO'' \<and> drop 6 name \<noteq> ''_0.BUP'' then None
      else case atoi2 (name ! 4) (name ! 5) of
          None \<Rightarrow> None
        | Some vts \<Rightarrow> if vts > 0 \<and> vts \<le> 99 then Some vts else None)"

text \<open>\<open>fmt.Sprintf("VTS_%02d_0.IFO", vts)\<close>.\<close>

definition vts_name :: "int \<Rightarrow> string \<Rightarrow> string" where
  "vts_name vts extension = ''VTS_'' @ pad 2 vts @ ''_0.'' @ extension"

text \<open>The file system: what opening and reading an entry of the directory gives.\<close>

type_synonym ifo_source = "string \<Rightarrow> u8 list option"

definition read_bounded :: "ifo_source \<Rightarrow> string \<Rightarrow> (ifo_error, u8 list) go" where
  "read_bounded source name =
     (case source name of
        None \<Rightarrow> Inl (Failed IfoReadError)
      | Some content \<Rightarrow>
          let data = take (max_ifo_bytes + 1) content in
          if length data > max_ifo_bytes then Inl (Failed ErrTooLarge) else Inr data)"

definition parse_file :: "ifo_source \<Rightarrow> string \<Rightarrow> ifo_kind \<Rightarrow> int \<Rightarrow> (ifo_error, ifo_file) go" where
  "parse_file source name kind vts =
     go_bind (read_bounded source name) (\<lambda>data. go_bind (parse_ifo data kind vts) (\<lambda>file.
       Inr (file\<lparr>file_source_name := name\<rparr>)))"

definition primary_file :: "ifo_source \<Rightarrow> (string \<times> string) list \<Rightarrow> string \<Rightarrow> ifo_kind \<Rightarrow> int \<Rightarrow> (ifo_error, ifo_file) go" where
  "primary_file source names ifo_name kind vts =
     (case map_of names ifo_name of
        Some primary \<Rightarrow> parse_file source primary kind vts
      | None \<Rightarrow> invalid_ifo)"

definition inspect_pair ::
    "ifo_source \<Rightarrow> (string \<times> string) list \<Rightarrow> string \<Rightarrow> string \<Rightarrow> ifo_kind \<Rightarrow> int \<Rightarrow> (ifo_error, ifo_file) go" where
  "inspect_pair source names ifo_name bup_name kind vts =
     (case primary_file source names ifo_name kind vts of
        Inr file \<Rightarrow> Inr file
      | Inl Panicked \<Rightarrow> Inl Panicked
      | Inl (Failed primary_error) \<Rightarrow>
          (case map_of names bup_name of
             None \<Rightarrow> Inl (Failed primary_error)
           | Some backup \<Rightarrow>
               (case parse_file source backup kind vts of
                  Inr file \<Rightarrow> Inr (file\<lparr>file_recovered := True\<rparr>)
                | Inl Panicked \<Rightarrow> Inl Panicked
                | Inl (Failed backup_error) \<Rightarrow> Inl (Failed (IfoErrors primary_error backup_error)))))"

definition manager_names :: "string list" where
  "manager_names = [''VIDEO_TS.IFO'', ''VIDEO_TS.BUP'']"

text \<open>The names of the directory by their upper-case form, in the order they were met.\<close>

fun collect_names ::
    "(string \<Rightarrow> string) \<Rightarrow> dir_entry list \<Rightarrow> (string \<times> string) list \<Rightarrow> (ifo_error, (string \<times> string) list) go" where
  "collect_names upper [] names = Inr names"
| "collect_names upper (e # es) names =
     (if entry_is_dir e then collect_names upper es names
      else let u = upper (entry_name e) in
        if entry_is_symlink e then
          (if u \<in> set manager_names \<or> title_set_number u \<noteq> None then invalid_ifo else collect_names upper es names)
        else if map_of names u \<noteq> None then invalid_ifo
        else collect_names upper es (names @ [(u, entry_name e)]))"

text \<open>The loop over the names, which a map gives in any order.\<close>

fun title_set_files ::
    "ifo_source \<Rightarrow> (string \<times> string) list \<Rightarrow> string list \<Rightarrow> int list \<Rightarrow> ifo_file list \<Rightarrow> (ifo_error, ifo_file list) go" where
  "title_set_files source names [] seen files = Inr files"
| "title_set_files source names (n # ns) seen files =
     (case title_set_number n of
        None \<Rightarrow> title_set_files source names ns seen files
      | Some vts \<Rightarrow>
          if vts \<in> set seen then title_set_files source names ns seen files
          else go_bind (inspect_pair source names (vts_name vts ''IFO'') (vts_name vts ''BUP'') kind_title_set vts) (\<lambda>file.
            title_set_files source names ns (vts # seen) (files @ [file])))"

definition inspect_entries ::
    "(string \<Rightarrow> string) \<Rightarrow> (string list \<Rightarrow> string list) \<Rightarrow> ifo_source \<Rightarrow> dir_entry list \<Rightarrow> (ifo_error, dvd_disc) go" where
  "inspect_entries upper order source entries =
     go_bind (collect_names upper entries []) (\<lambda>names.
       go_bind (inspect_pair source names ''VIDEO_TS.IFO'' ''VIDEO_TS.BUP'' kind_manager 0) (\<lambda>manager.
         go_bind (title_set_files source names (order (map fst names)) [] []) (\<lambda>files.
           Inr \<lparr>disc_manager = manager, disc_title_sets = sort_key file_vts files\<rparr>)))"

text \<open>\<open>InspectDirectory\<close>: the deferred \<open>recover\<close> turns a panic into an error. A directory that cannot be read is \<open>None\<close>.\<close>

definition inspect_directory ::
    "(string \<Rightarrow> string) \<Rightarrow> (string list \<Rightarrow> string list) \<Rightarrow> ifo_source \<Rightarrow> dir_entry list option \<Rightarrow> (ifo_error, dvd_disc) go" where
  "inspect_directory upper order source entries =
     (case entries of
        None \<Rightarrow> Inl (Failed IfoReadError)
      | Some es \<Rightarrow>
          (case inspect_entries upper order source es of
             Inl Panicked \<Rightarrow> invalid_ifo
           | r \<Rightarrow> r))"

end
