(* ===== verification/DvdGraph.thy ===== *)
theory DvdGraph
  imports DvdNav DvdIfo "HOL-Library.Product_Lexorder"
begin

text \<open>
  Discovery of a disc's menus, \<open>internal/dvdvideo/graph/graph.go\<close>: the inventory of menu programs, the
  resolution of transitions, the identities screens and states are deduplicated by, and the bounded
  traversal over cloned machine states with the structural pass behind it. SHA-256 is the argument
  \<open>digest\<close>, the live-state resolver and the cancellation of the context are functions of the number of
  the call, the clock and the draws of the virtual machine are those of its model. A panic of the resolver is one of the
  discovery. Logging and progress
  reports change nothing and are left out, as are the counters only the log shows.
\<close>

unbundle bit_operations_syntax

type_synonym digest = "u8 list"

datatype graph_error = ErrDiscovery

text \<open>The error of a live-state resolver.\<close>

datatype live_error = ErrLiveState

abbreviation no_live_state :: "(live_error, 'a) go" where
  "no_live_state \<equiv> Inl (Failed ErrLiveState)"

definition default_max_items :: int where "default_max_items = 6"
definition default_max_states :: int where "default_max_states = 4096"
definition default_max_depth :: int where "default_max_depth = 64"
definition default_max_buttons :: int where "default_max_buttons = 16384"
definition max_menu_items :: int where "max_menu_items = 32"

subsection \<open>Data\<close>

datatype discovery_source = DiscoveryReachable | DiscoveryStructural

record coordinate =
  co_kind :: ifo_kind
  co_vts :: int
  co_language :: int
  co_pgc :: int
  co_program :: int
  co_cell :: int
  co_menu :: u8

record live_state =
  live_visible :: bool
  live_buttons :: "button list"
  live_fingerprint :: "u8 list"
  live_has_overlay :: bool
  live_has_highlight :: bool
  live_authored_still :: bool
  live_authored_entry :: bool

record graph_warning =
  warning_code :: string
  warning_message :: string

record screen =
  screen_coordinate :: coordinate
  screen_discovery :: discovery_source
  screen_identity :: digest
  screen_registers :: registers
  screen_live :: live_state

record graph_result =
  result_screens :: "screen list"
  result_inventoried :: nat
  result_visited_states :: nat
  result_visited_buttons :: nat
  result_complete :: bool
  result_partial :: bool
  result_truncated :: bool
  result_warnings :: "graph_warning list"

record menu_node =
  node_coordinate :: coordinate
  node_pgc :: program_chain

record traversal_state =
  st_node :: menu_node
  st_registers :: registers
  st_depth :: int
  st_run_pre :: bool
  st_utility :: bool

record graph_options =
  opt_language :: "u8 list"
  opt_max_items :: int
  opt_max_states :: int
  opt_max_depth :: int
  opt_max_buttons :: int
  opt_registers :: registers
  opt_command_budget :: int

text \<open>What the traversal calls outside itself.\<close>

record graph_env =
  ge_digest :: "u8 list \<Rightarrow> digest"
  ge_resolve :: "nat \<Rightarrow> coordinate \<Rightarrow> program_chain \<Rightarrow> registers \<Rightarrow> (live_error, live_state) go"
  ge_cancelled :: "nat \<Rightarrow> bool"
  ge_now :: "nat \<Rightarrow> time"
  ge_random :: "(nat \<Rightarrow> u16 \<Rightarrow> u16) option"

text \<open>The variables of \<open>Discover\<close>: the queue, the four sets, the control layouts and the result; and the calls of the
  resolver so far, and how often the context, the clock and the random source have been asked.\<close>

type_synonym request = "coordinate \<times> program_chain \<times> registers"

record discovery =
  d_queue :: "traversal_state list"
  d_seen :: "digest list"
  d_reached :: "coordinate list"
  d_classified :: "coordinate list"
  d_screen_ids :: "digest list"
  d_layouts :: "(digest \<times> button list) list"
  d_result :: graph_result
  d_requests :: "request list"
  d_polls :: nat
  d_now_calls :: nat
  d_random_calls :: nat

subsection \<open>The inventory\<close>

definition cell_for_program :: "program_chain \<Rightarrow> int \<Rightarrow> int" where
  "cell_for_program pgc program =
     (if program > 0 \<and> program \<le> int (length (pgc_program_map pgc)) \<and> pgc_program_map pgc ! nat (program - 1) \<noteq> 0
      then int (unat (pgc_program_map pgc ! nat (program - 1))) else max program 1)"

fun last_program :: "nat \<Rightarrow> int \<Rightarrow> u8 list \<Rightarrow> int \<Rightarrow> int" where
  "last_program index program [] cell = program"
| "last_program index program (first_cell # rest) cell =
     (if int (unat first_cell) > cell then program else last_program (index + 1) (int index + 1) rest cell)"

definition program_for_cell :: "program_chain \<Rightarrow> int \<Rightarrow> int" where
  "program_for_cell pgc cell = last_program 0 1 (pgc_program_map pgc) cell"

fun first_index :: "('a \<Rightarrow> bool) \<Rightarrow> 'a list \<Rightarrow> nat option" where
  "first_index P [] = None"
| "first_index P (x # xs) = (if P x then Some 0 else map_option Suc (first_index P xs))"

text \<open>\<open>selectLanguage\<close>, with -1 as \<open>None\<close>; \<open>en\<close> is the code 0x65, 0x6e.\<close>

definition select_language :: "language_unit list \<Rightarrow> u8 list \<Rightarrow> nat option" where
  "select_language units requested =
     (case first_index (\<lambda>u. requested \<noteq> [] \<and> lang_code u = requested) units of
        Some i \<Rightarrow> Some i
      | None \<Rightarrow>
          (case first_index (\<lambda>u. lang_code u = [0x65, 0x6e]) units of
             Some i \<Rightarrow> Some i
           | None \<Rightarrow> if units \<noteq> [] then Some 0 else None))"

definition menu_priority :: "u8 \<Rightarrow> int" where
  "menu_priority menu =
     (if menu = 2 then 0 else if menu = 3 then 1 else if menu = 7 then 2 else if menu = 5 then 3
      else if menu = 4 then 4 else if menu = 6 then 5 else 6)"

definition program_node :: "ifo_file \<Rightarrow> nat \<Rightarrow> program_chain \<Rightarrow> nat \<Rightarrow> menu_node" where
  "program_node file language pgc program =
     \<lparr>node_coordinate = \<lparr>co_kind = file_kind file, co_vts = file_vts file, co_language = int language + 1,
        co_pgc = int (pgc_number pgc), co_program = int program, co_cell = cell_for_program pgc (int program),
        co_menu = pgc_menu_id pgc\<rparr>,
      node_pgc = pgc\<rparr>"

definition chain_nodes :: "ifo_file \<Rightarrow> nat \<Rightarrow> program_chain \<Rightarrow> menu_node list" where
  "chain_nodes file language pgc =
     (if pgc_programs pgc = 0 \<or> pgc_cells pgc = 0 then []
      else map (program_node file language pgc) [1..<unat (pgc_programs pgc) + 1])"

definition file_nodes :: "u8 list \<Rightarrow> ifo_file \<Rightarrow> menu_node list" where
  "file_nodes language file =
     (case select_language (file_languages file) language of
        None \<Rightarrow> []
      | Some i \<Rightarrow> concat (map (chain_nodes file i) (lang_program_chains (file_languages file ! i))))"

definition is_entry :: "menu_node \<Rightarrow> bool" where
  "is_entry n \<longleftrightarrow> co_program (node_coordinate n) = 1 \<and> pgc_entry_id (node_pgc n) AND 0x80 \<noteq> 0"

definition seed_order :: "menu_node \<Rightarrow> int \<times> int \<times> int" where
  "seed_order n = (menu_priority (co_menu (node_coordinate n)), co_vts (node_coordinate n), co_pgc (node_coordinate n))"

definition inventory :: "dvd_disc \<Rightarrow> u8 list \<Rightarrow> menu_node list \<times> menu_node list" where
  "inventory disc language =
     (let nodes = concat (map (file_nodes language) (disc_manager disc # disc_title_sets disc));
          seeds = sort_key seed_order (filter is_entry nodes)
      in (nodes, if seeds = [] \<and> nodes \<noteq> [] then [hd nodes] else seeds))"

subsection \<open>Transitions\<close>

type_synonym node_key = "ifo_kind \<times> int \<times> int \<times> int"

definition key :: "coordinate \<Rightarrow> node_key" where
  "key c = (co_kind c, co_vts c, co_language c, co_pgc c)"

type_synonym node_lookup = "(node_key \<times> menu_node) list"

definition add_node :: "node_lookup \<Rightarrow> menu_node \<Rightarrow> node_lookup" where
  "add_node m n = (if map_of m (key (node_coordinate n)) = None then m @ [(key (node_coordinate n), n)] else m)"

definition build_lookup :: "menu_node list \<Rightarrow> node_lookup" where
  "build_lookup nodes = foldl add_node [] nodes"

text \<open>The three results of \<open>resolveLink\<close>: a node, a terminal command, or neither.\<close>

datatype link_target = Target menu_node | Terminal | Unresolved

definition target_of :: "bool \<Rightarrow> menu_node \<Rightarrow> link_target" where
  "target_of resolved n = (if resolved then Target n else Unresolved)"

text \<open>Matches differ in their program chain, as one language unit of a file is inventoried.\<close>

definition find_menu :: "node_lookup \<Rightarrow> ifo_kind \<Rightarrow> int \<Rightarrow> int \<Rightarrow> link_target" where
  "find_menu lookup kind vts menu =
     (let matches = filter (\<lambda>n. co_kind (node_coordinate n) = kind \<and> co_vts (node_coordinate n) = vts
          \<and> int (unat (co_menu (node_coordinate n))) = menu) (map snd lookup)
      in case sort_key (\<lambda>n. co_pgc (node_coordinate n)) matches of [] \<Rightarrow> Unresolved | n # _ \<Rightarrow> Target n)"

definition lookup_chain :: "node_lookup \<Rightarrow> coordinate \<Rightarrow> int \<Rightarrow> link_target" where
  "lookup_chain lookup c pgc =
     (if pgc = 0 then Unresolved
      else case map_of lookup (key (c\<lparr>co_pgc := pgc\<rparr>)) of Some n \<Rightarrow> Target n | None \<Rightarrow> Unresolved)"

text \<open>The same program chain at another program or another cell.\<close>

definition at_program :: "menu_node \<Rightarrow> int \<Rightarrow> menu_node" where
  "at_program n program =
     n\<lparr>node_coordinate := (node_coordinate n)\<lparr>co_program := program, co_cell := cell_for_program (node_pgc n) program\<rparr>\<rparr>"

definition at_cell :: "menu_node \<Rightarrow> int \<Rightarrow> menu_node" where
  "at_cell n cell =
     n\<lparr>node_coordinate := (node_coordinate n)\<lparr>co_cell := cell, co_program := program_for_cell (node_pgc n) cell\<rparr>\<rparr>"

definition resolve_link :: "menu_node \<Rightarrow> link \<Rightarrow> node_lookup \<Rightarrow> link_target" where
  "resolve_link current l lookup =
     (let c = node_coordinate current; pgc = node_pgc current;
          data1 = int (unat (link_data1 l)); data3 = int (unat (link_data3 l));
          programs = int (unat (pgc_programs pgc)); cells = int (unat (pgc_cells pgc)) in
      case link_command l of
        LinkNoLink \<Rightarrow> Unresolved
      | LinkPGCN \<Rightarrow> lookup_chain lookup c data1
      | LinkNextPGC \<Rightarrow> lookup_chain lookup c (int (unat (pgc_next pgc)))
      | LinkPreviousPGC \<Rightarrow> lookup_chain lookup c (int (unat (pgc_previous pgc)))
      | LinkGoUpPGC \<Rightarrow> lookup_chain lookup c (int (unat (pgc_go_up pgc)))
      | LinkTopCell \<Rightarrow> Target current
      | LinkTopProgram \<Rightarrow> Target (at_program current (co_program c))
      | LinkTopPGC \<Rightarrow> Target (at_program current 1)
      | LinkNextCell \<Rightarrow> target_of (co_cell c + 1 \<le> cells) (at_cell current (co_cell c + 1))
      | LinkPreviousCell \<Rightarrow> target_of (co_cell c - 1 > 0) (at_cell current (co_cell c - 1))
      | LinkNextProgram \<Rightarrow> target_of (co_program c + 1 \<le> programs) (at_program current (co_program c + 1))
      | LinkPreviousProgram \<Rightarrow> target_of (co_program c - 1 > 0) (at_program current (co_program c - 1))
      | LinkPGN \<Rightarrow> target_of (data1 > 0 \<and> data1 \<le> programs) (at_program current data1)
      | LinkCN \<Rightarrow> target_of (data1 > 0 \<and> data1 \<le> cells) (at_cell current data1)
      | JumpVMGMMenu \<Rightarrow> find_menu lookup kind_manager 0 data1
      | CallVMGMMenu \<Rightarrow> find_menu lookup kind_manager 0 data1
      | JumpVTSM \<Rightarrow> find_menu lookup kind_title_set data1 data3
      | CallVTSM \<Rightarrow> find_menu lookup kind_title_set (co_vts c) data1
      | JumpVMGMPGC \<Rightarrow> lookup_chain lookup (c\<lparr>co_kind := kind_manager, co_vts := 0\<rparr>) data1
      | CallVMGMPGC \<Rightarrow> lookup_chain lookup (c\<lparr>co_kind := kind_manager, co_vts := 0\<rparr>) data1
      | LinkReserved4 \<Rightarrow> Unresolved
      | LinkReserved8 \<Rightarrow> Unresolved
      | LinkReserved14 \<Rightarrow> Unresolved
      | LinkReserved15 \<Rightarrow> Unresolved
      | _ \<Rightarrow> Terminal)"

definition transition :: "traversal_state \<Rightarrow> menu_node \<Rightarrow> registers \<Rightarrow> traversal_state" where
  "transition current target regs =
     (let same = key (node_coordinate (st_node current)) = key (node_coordinate target) in
      \<lparr>st_node = target, st_registers = regs, st_depth = st_depth current + 1, st_run_pre = \<not> same,
       st_utility = (st_utility current \<and> same)\<rparr>)"

subsection \<open>Identities\<close>

text \<open>\<open>coordinateValue\<close> panics outside the range of \<open>uint32\<close>.\<close>

definition coordinate_value :: "int \<Rightarrow> (graph_error, u32) go" where
  "coordinate_value v = (if v < 0 \<or> v > 2 ^ 32 - 1 then Inl Panicked else Inr (word_of_int v))"

definition put_u16 :: "u16 \<Rightarrow> u8 list" where
  "put_u16 v = [ucast (drop_bit 8 v), ucast v]"

definition put_u32 :: "u32 \<Rightarrow> u8 list" where
  "put_u32 v = [ucast (drop_bit 24 v), ucast (drop_bit 16 v), ucast (drop_bit 8 v), ucast v]"

definition write_coordinate :: "coordinate \<Rightarrow> (graph_error, u8 list) go" where
  "write_coordinate c =
     go_bind (coordinate_value (co_vts c)) (\<lambda>vts. go_bind (coordinate_value (co_language c)) (\<lambda>language.
     go_bind (coordinate_value (co_pgc c)) (\<lambda>pgc. go_bind (coordinate_value (co_program c)) (\<lambda>program.
     go_bind (coordinate_value (co_cell c)) (\<lambda>cell.
       Inr ([co_kind c] @ put_u32 vts @ put_u32 language @ put_u32 pgc @ put_u32 program @ put_u32 cell @ [co_menu c]))))))"

definition register_bytes :: "registers \<Rightarrow> u8 list" where
  "register_bytes r =
     concat (map put_u16 (reg_general r)) @ concat (map put_u16 (reg_system r))
     @ map (\<lambda>m. if m then 1 else 0) (reg_counter_mode r)"

definition state_identity :: "(u8 list \<Rightarrow> digest) \<Rightarrow> coordinate \<Rightarrow> registers \<Rightarrow> (graph_error, digest) go" where
  "state_identity digest c r = go_bind (write_coordinate c) (\<lambda>bs. Inr (digest (bs @ register_bytes r)))"

definition traversal_identity ::
    "(u8 list \<Rightarrow> digest) \<Rightarrow> coordinate \<Rightarrow> registers \<Rightarrow> bool \<Rightarrow> (graph_error, digest) go" where
  "traversal_identity digest c r run_pre =
     go_bind (state_identity digest c r) (\<lambda>s. Inr (digest (s @ [if run_pre then 1 else 0])))"

definition button_bytes :: "button \<Rightarrow> u8 list" where
  "button_bytes b =
     btn_command b @ put_u16 (btn_x_start b) @ put_u16 (btn_y_start b) @ put_u16 (btn_x_end b) @ put_u16 (btn_y_end b)
     @ [btn_up b, btn_down b, btn_left b, btn_right b]"

definition semantic_identity ::
    "(u8 list \<Rightarrow> digest) \<Rightarrow> coordinate \<Rightarrow> registers \<Rightarrow> live_state \<Rightarrow> (graph_error, digest) go" where
  "semantic_identity digest c r live =
     go_bind (state_identity digest c r) (\<lambda>s.
       Inr (digest (s @ live_fingerprint live @ concat (map button_bytes (live_buttons live)))))"

definition control_bytes :: "button \<Rightarrow> u8 list" where
  "control_bytes b =
     btn_command b @ [btn_number b, btn_color_group b, if btn_auto_action b then 1 else 0, btn_up b, btn_down b,
       btn_left b, btn_right b]"

definition control_identity ::
    "(u8 list \<Rightarrow> digest) \<Rightarrow> coordinate \<Rightarrow> live_state \<Rightarrow> (graph_error, digest \<times> bool) go" where
  "control_identity digest c live =
     (if live_buttons live = [] then Inr (replicate 32 0, False)
      else go_bind (coordinate_value (co_vts c)) (\<lambda>vts. go_bind (coordinate_value (co_language c)) (\<lambda>language.
        go_bind (coordinate_value (int (length (live_buttons live)))) (\<lambda>count.
          let scope = [co_kind c] @ put_u32 vts @ put_u32 language @ [co_menu c] @ put_u32 count in
          Inr (digest (scope @ concat (map control_bytes (live_buttons live))), True)))))"

definition coordinate_distance :: "u16 \<Rightarrow> u16 \<Rightarrow> u16" where
  "coordinate_distance left right = (if left \<ge> right then left - right else right - left)"

definition buttons_close :: "button \<Rightarrow> button \<Rightarrow> bool" where
  "buttons_close a b \<longleftrightarrow> \<not> (coordinate_distance (btn_x_start a) (btn_x_start b) > 8
     \<or> coordinate_distance (btn_y_start a) (btn_y_start b) > 8
     \<or> coordinate_distance (btn_x_end a) (btn_x_end b) > 8
     \<or> coordinate_distance (btn_y_end a) (btn_y_end b) > 8)"

definition button_layouts_close :: "button list \<Rightarrow> button list \<Rightarrow> bool" where
  "button_layouts_close left right \<longleftrightarrow> length left = length right \<and> list_all2 buttons_close left right"

text \<open>The map from identities to layouts as the list of its entries.\<close>

definition has_equivalent_controls :: "(digest \<times> button list) list \<Rightarrow> digest \<Rightarrow> button list \<Rightarrow> bool" where
  "has_equivalent_controls layouts identity buttons \<longleftrightarrow>
     list_ex (\<lambda>(i, known). i = identity \<and> button_layouts_close known buttons) layouts"

definition remember_control_layout ::
    "(digest \<times> button list) list \<Rightarrow> digest \<Rightarrow> button list \<Rightarrow> (digest \<times> button list) list" where
  "remember_control_layout layouts identity buttons = layouts @ [(identity, buttons)]"

subsection \<open>Steps of the traversal\<close>

definition mark_partial :: "string \<Rightarrow> string \<Rightarrow> discovery \<Rightarrow> discovery" where
  "mark_partial code message d =
     (let r = (d_result d)\<lparr>result_partial := True\<rparr> in
      d\<lparr>d_result :=
        (if \<exists>w\<in>set (result_warnings r). warning_code w = code then r
         else r\<lparr>result_warnings := result_warnings r @ [\<lparr>warning_code = code, warning_message = message\<rparr>]\<rparr>)\<rparr>)"

definition enqueue :: "traversal_state \<Rightarrow> discovery \<Rightarrow> discovery" where
  "enqueue s d = d\<lparr>d_queue := d_queue d @ [s]\<rparr>"

text \<open>\<open>vm.Execute\<close> on a clone of the registers. Execution always ends with registers (\<open>run_table_ends\<close>), so the last case
  is never taken.\<close>

definition run_table ::
    "graph_env \<Rightarrow> int \<Rightarrow> command list \<Rightarrow> registers \<Rightarrow> discovery \<Rightarrow> (vm_result \<times> vm_error option) \<times> registers \<times> discovery" where
  "run_table env budget commands regs d =
     (case execute (ge_now env) (ge_random env) commands
         (Some (registers.extend regs \<lparr>now_calls = d_now_calls d, random_calls = d_random_calls d\<rparr>)) budget of
        Some (out, Some r) \<Rightarrow>
          (out, registers.truncate r, d\<lparr>d_now_calls := now_calls r, d_random_calls := random_calls r\<rparr>)
      | _ \<Rightarrow> ((stopped 0, Some ErrInvalidCommand), regs, d))"

text \<open>A call of the resolver: its error is \<open>None\<close>, its panic is the discovery's.\<close>

definition resolve_live ::
    "graph_env \<Rightarrow> coordinate \<Rightarrow> program_chain \<Rightarrow> registers \<Rightarrow> discovery \<Rightarrow> (graph_error, live_state option \<times> discovery) go" where
  "resolve_live env c pgc regs d =
     (let asked = d\<lparr>d_requests := d_requests d @ [(c, pgc, regs)]\<rparr> in
      case ge_resolve env (length (d_requests d)) c pgc regs of
        Inl Panicked \<Rightarrow> Inl Panicked
      | Inl (Failed _) \<Rightarrow> Inr (None, asked)
      | Inr live \<Rightarrow> Inr (Some live, asked))"

text \<open>A selected screen within the item limit.\<close>

definition store_screen ::
    "int \<Rightarrow> discovery_source \<Rightarrow> coordinate \<Rightarrow> registers \<Rightarrow> live_state \<Rightarrow> digest \<Rightarrow> digest \<times> bool \<Rightarrow> discovery \<Rightarrow> discovery" where
  "store_screen max_items source c regs live screen_id control d =
     (let r = d_result d in
      if max_items > 0 \<and> int (length (result_screens r)) \<ge> max_items
      then d\<lparr>d_result := r\<lparr>result_truncated := True\<rparr>\<rparr>
      else d\<lparr>d_screen_ids := List.insert screen_id (d_screen_ids d),
             d_layouts := (if snd control then remember_control_layout (d_layouts d) (fst control) (live_buttons live)
               else d_layouts d),
             d_result := r\<lparr>result_screens := result_screens r @
               [\<lparr>screen_coordinate = c, screen_discovery = source, screen_identity = screen_id,
                 screen_registers = regs, screen_live = live\<rparr>]\<rparr>\<rparr>)"

definition select_screen ::
    "graph_env \<Rightarrow> graph_options \<Rightarrow> coordinate \<Rightarrow> registers \<Rightarrow> live_state \<Rightarrow> discovery \<Rightarrow> (graph_error, discovery) go" where
  "select_screen env opts c regs live d =
     go_bind (semantic_identity (ge_digest env) c regs live) (\<lambda>screen_id.
       go_bind (control_identity (ge_digest env) c live) (\<lambda>control.
         if screen_id \<in> set (d_screen_ids d) then Inr d
         else if snd control \<and> has_equivalent_controls (d_layouts d) (fst control) (live_buttons live) then Inr d
         else Inr (store_screen (opt_max_items opts) DiscoveryReachable c regs live screen_id control d)))"

definition follow_link ::
    "traversal_state \<Rightarrow> node_lookup \<Rightarrow> link \<Rightarrow> registers \<Rightarrow> string \<Rightarrow> string \<Rightarrow> discovery \<Rightarrow> discovery" where
  "follow_link current lookup l regs code message d =
     (case resolve_link (st_node current) l lookup of
        Target target \<Rightarrow> enqueue (transition current target regs) d
      | Terminal \<Rightarrow> d
      | Unresolved \<Rightarrow> mark_partial code message d)"

text \<open>The loop over the buttons of a resolved state; the button limit ends it.\<close>

fun follow_buttons ::
    "graph_env \<Rightarrow> graph_options \<Rightarrow> node_lookup \<Rightarrow> traversal_state \<Rightarrow> registers \<Rightarrow> button list \<Rightarrow> discovery \<Rightarrow> discovery" where
  "follow_buttons env opts lookup current regs [] d = d"
| "follow_buttons env opts lookup current regs (b # bs) d =
     (if int (result_visited_buttons (d_result d)) \<ge> opt_max_buttons opts
      then mark_partial ''button_limit'' ''menu button limit reached'' d
      else
        (let r = d_result d; d = d\<lparr>d_result := r\<lparr>result_visited_buttons := result_visited_buttons r + 1\<rparr>\<rparr> in
         case run_table env (opt_command_budget opts) [btn_command b] regs d of ((out, err), regs', d) \<Rightarrow>
           follow_buttons env opts lookup current regs bs
             (if err \<noteq> None then mark_partial ''button_command'' ''menu button command failed'' d
              else if res_has_link out
                then follow_link current lookup (res_link out) regs' ''unsupported_button_link''
                  ''menu button target was not resolved'' d
              else if regs' \<noteq> regs
                then enqueue \<lparr>st_node = st_node current, st_registers = regs', st_depth = st_depth current + 1,
                  st_run_pre = False, st_utility = st_utility current\<rparr> d
              else d)))"

text \<open>The post commands, or the next program chain.\<close>

definition follow_post ::
    "graph_env \<Rightarrow> graph_options \<Rightarrow> node_lookup \<Rightarrow> traversal_state \<Rightarrow> registers \<Rightarrow> discovery \<Rightarrow> discovery" where
  "follow_post env opts lookup current regs d =
     (let pgc = node_pgc (st_node current); c = node_coordinate (st_node current) in
      case run_table env (opt_command_budget opts) (pgc_post_commands pgc) regs d of ((out, err), regs', d) \<Rightarrow>
        if err \<noteq> None then mark_partial ''post_command'' ''menu post-command failed'' d
        else if res_has_link out
          then follow_link current lookup (res_link out) regs' ''unsupported_post_link''
            ''menu post-command target was not resolved'' d
        else if pgc_next pgc \<noteq> 0 then
          (case map_of lookup (key (c\<lparr>co_pgc := int (unat (pgc_next pgc))\<rparr>)) of
             Some target \<Rightarrow> enqueue \<lparr>st_node = target, st_registers = regs', st_depth = st_depth current + 1,
               st_run_pre = True, st_utility = False\<rparr> d
           | None \<Rightarrow> d)
        else d)"

text \<open>A state behind its pre-commands: it is resolved, its screen selected, its buttons and its end followed.\<close>

definition classify_state ::
    "graph_env \<Rightarrow> graph_options \<Rightarrow> node_lookup \<Rightarrow> traversal_state \<Rightarrow> registers \<Rightarrow> discovery \<Rightarrow> (graph_error, discovery) go" where
  "classify_state env opts lookup current regs d =
     (let c = node_coordinate (st_node current) in
      go_bind (resolve_live env c (node_pgc (st_node current)) regs d) (\<lambda>(resolved, d).
        case resolved of
          None \<Rightarrow> Inr (mark_partial ''live_state'' ''menu NAV/SPU state could not be resolved'' d)
        | Some live \<Rightarrow>
            let d = d\<lparr>d_reached := List.insert c (d_reached d), d_classified := List.insert c (d_classified d)\<rparr> in
            go_bind (if live_visible live \<and> \<not> st_utility current then select_screen env opts c regs live d else Inr d)
              (\<lambda>d. Inr (follow_post env opts lookup current regs
                 (follow_buttons env opts lookup current regs (live_buttons live) d)))))"

text \<open>A state not seen before.\<close>

definition visit_state ::
    "graph_env \<Rightarrow> graph_options \<Rightarrow> node_lookup \<Rightarrow> traversal_state \<Rightarrow> discovery \<Rightarrow> (graph_error, discovery) go" where
  "visit_state env opts lookup current d =
     (if st_run_pre current then
        (case run_table env (opt_command_budget opts) (pgc_pre_commands (node_pgc (st_node current))) (st_registers current) d
         of ((out, err), regs, d) \<Rightarrow>
           if err \<noteq> None then Inr (mark_partial ''pre_command'' ''menu pre-command failed'' d)
           else if res_has_link out
             then Inr (follow_link current lookup (res_link out) regs ''unsupported_pre_link''
               ''menu pre-command target was not resolved'' d)
           else classify_state env opts lookup current regs d)
      else classify_state env opts lookup current (st_registers current) d)"

text \<open>One round of the loop: what it does with the head of the queue, and whether the loop goes on.\<close>

definition count_visit :: "digest \<Rightarrow> discovery \<Rightarrow> discovery" where
  "count_visit identity d =
     (let r = d_result d in
      d\<lparr>d_seen := List.insert identity (d_seen d), d_result := r\<lparr>result_visited_states := result_visited_states r + 1\<rparr>\<rparr>)"

definition discover_round ::
    "graph_env \<Rightarrow> graph_options \<Rightarrow> node_lookup \<Rightarrow> traversal_state \<Rightarrow> discovery \<Rightarrow> (graph_error, bool \<times> discovery) go" where
  "discover_round env opts lookup current d =
     (if st_depth current > opt_max_depth opts
      then Inr (True, mark_partial ''depth_limit'' ''menu branch depth limit reached'' d)
      else go_bind (traversal_identity (ge_digest env) (node_coordinate (st_node current)) (st_registers current) (st_run_pre current))
        (\<lambda>identity.
          if identity \<in> set (d_seen d) then Inr (True, d)
          else if int (length (d_seen d)) \<ge> opt_max_states opts
            then Inr (False, mark_partial ''state_limit'' ''menu state limit reached'' d)
          else go_bind (visit_state env opts lookup current (count_visit identity d)) (\<lambda>d. Inr (True, d))))"

text \<open>What each step leaves alone, for the loop to end.\<close>

lemma seen_frame:
  "d_seen (mark_partial code message d) = d_seen d" "d_seen (enqueue s d) = d_seen d"
  "d_seen (follow_link current lookup l regs code message d) = d_seen d"
  "d_seen (store_screen n source c regs live screen_id control d) = d_seen d"
  by (simp_all add: mark_partial_def enqueue_def follow_link_def store_screen_def Let_def split: link_target.split)

lemma run_table_frame: "run_table env budget commands regs d = (out, regs', d') \<Longrightarrow>
    d' = d\<lparr>d_now_calls := d_now_calls d', d_random_calls := d_random_calls d'\<rparr>"
  by (auto simp: run_table_def split: option.splits prod.splits)

lemma run_table_seen: "run_table env budget commands regs d = (out, regs', d') \<Longrightarrow> d_seen d' = d_seen d"
  by (drule run_table_frame) (metis discovery.select_convs(2) discovery.surjective discovery.update_convs(10,11))

lemma follow_buttons_seen: "d_seen (follow_buttons env opts lookup current regs bs d) = d_seen d"
proof (induction env opts lookup current regs bs d rule: follow_buttons.induct)
  case (2 env opts lookup current regs b bs d)
  then show ?case by (auto simp: Let_def seen_frame split: prod.splits dest!: run_table_seen)
qed simp

lemma follow_post_seen: "d_seen (follow_post env opts lookup current regs d) = d_seen d"
  by (auto simp: follow_post_def Let_def seen_frame split: prod.split option.split dest!: run_table_seen)

lemma select_screen_seen: "select_screen env opts c regs live d = Inr d' \<Longrightarrow> d_seen d' = d_seen d"
  by (auto simp: select_screen_def go_bind_Inr seen_frame split: if_splits)

text \<open>A call of the resolver that returns: what it gave, and the call among those made.\<close>

definition asked :: "coordinate \<Rightarrow> program_chain \<Rightarrow> registers \<Rightarrow> discovery \<Rightarrow> discovery" where
  "asked c pgc regs d = d\<lparr>d_requests := d_requests d @ [(c, pgc, regs)]\<rparr>"

lemma resolve_live_cases:
  assumes "resolve_live env c pgc regs d = Inr (resolved, d')"
  obtains (error) "resolved = None" "d' = asked c pgc regs d" "\<forall>live. ge_resolve env (length (d_requests d)) c pgc regs \<noteq> Inr live"
  | (live) live where "resolved = Some live" "d' = asked c pgc regs d" "ge_resolve env (length (d_requests d)) c pgc regs = Inr live"
proof (cases "ge_resolve env (length (d_requests d)) c pgc regs")
  case (Inl e)
  then show ?thesis using assms error by (cases e) (auto simp: resolve_live_def asked_def Let_def)
next
  case (Inr live)
  then show ?thesis using assms that(2) by (auto simp: resolve_live_def asked_def Let_def)
qed

definition reached_state :: "coordinate \<Rightarrow> discovery \<Rightarrow> discovery" where
  "reached_state c d = d\<lparr>d_reached := List.insert c (d_reached d), d_classified := List.insert c (d_classified d)\<rparr>"

lemma classify_state_cases:
  assumes "classify_state env opts lookup current regs d = Inr d'"
  obtains (error) "d' = mark_partial ''live_state'' ''menu NAV/SPU state could not be resolved''
      (asked (node_coordinate (st_node current)) (node_pgc (st_node current)) regs d)"
      "\<forall>live. ge_resolve env (length (d_requests d)) (node_coordinate (st_node current)) (node_pgc (st_node current)) regs \<noteq> Inr live"
  | (live) live d1 where
      "ge_resolve env (length (d_requests d)) (node_coordinate (st_node current)) (node_pgc (st_node current)) regs = Inr live"
      "(if live_visible live \<and> \<not> st_utility current then select_screen env opts (node_coordinate (st_node current)) regs live else Inr)
        (reached_state (node_coordinate (st_node current)) (asked (node_coordinate (st_node current)) (node_pgc (st_node current)) regs d)) = Inr d1"
      "d' = follow_post env opts lookup current regs (follow_buttons env opts lookup current regs (live_buttons live) d1)"
proof -
  obtain resolved d0 where resolved: "resolve_live env (node_coordinate (st_node current)) (node_pgc (st_node current)) regs d = Inr (resolved, d0)"
    using assms by (auto simp: classify_state_def go_bind_Inr Let_def)
  then show ?thesis
  proof (cases rule: resolve_live_cases)
    case error
    then show ?thesis using assms resolved that(1) by (simp add: classify_state_def Let_def)
  next
    case (live live)
    then show ?thesis using assms resolved that(2) [of live]
      by (auto simp: classify_state_def Let_def go_bind_Inr reached_state_def split: if_splits)
  qed
qed

lemma classify_state_seen: "classify_state env opts lookup current regs d = Inr d' \<Longrightarrow> d_seen d' = d_seen d"
  by (erule classify_state_cases)
    (auto simp: asked_def reached_state_def seen_frame follow_post_seen follow_buttons_seen split: if_splits dest!: select_screen_seen)

lemma visit_state_seen: "visit_state env opts lookup current d = Inr d' \<Longrightarrow> d_seen d' = d_seen d"
  by (auto simp: visit_state_def seen_frame split: if_splits prod.splits dest!: classify_state_seen run_table_seen)

lemma discover_round_seen:
  "discover_round env opts lookup current d = Inr (True, d') \<Longrightarrow>
    d' = d \<or> (\<exists>code message. d' = mark_partial code message d)
    \<or> length (d_seen d') = length (d_seen d) + 1 \<and> int (length (d_seen d)) < opt_max_states opts"
  by (auto simp: discover_round_def go_bind_Inr count_visit_def Let_def List.insert_def split: if_splits dest!: visit_state_seen)

text \<open>The traversal; a cancelled context ends it with an error. It takes a state off the queue in every round and puts
  states on it only when it has seen a new one, of which there are at most \<open>MaxStates\<close>.\<close>

function discover_loop ::
    "graph_env \<Rightarrow> graph_options \<Rightarrow> node_lookup \<Rightarrow> discovery \<Rightarrow> (graph_error, discovery) go" where
  "discover_loop env opts lookup d =
     (case d_queue d of
        [] \<Rightarrow> Inr d
      | current # rest \<Rightarrow>
          if ge_cancelled env (d_polls d) then Inl (Failed ErrDiscovery)
          else go_bind (discover_round env opts lookup current (d\<lparr>d_queue := rest, d_polls := d_polls d + 1\<rparr>)) (\<lambda>(more, d').
            if more then discover_loop env opts lookup d' else Inr d'))"
  by pat_completeness auto
termination
proof (relation "(\<lambda>(env, opts, lookup, d). nat (opt_max_states opts) - length (d_seen d))
    <*mlex*> measure (\<lambda>(env, opts, lookup, d). length (d_queue d))", goal_cases)
  case 1
  show ?case by (intro wf_mlex wf_measure)
next
  case (2 env opts lookup d current rest x more d')
  then have "discover_round env opts lookup current (d\<lparr>d_queue := rest, d_polls := d_polls d + 1\<rparr>) = Inr (True, d')" by auto
  from discover_round_seen [OF this] 2(1) show ?case
    by (auto simp: mlex_prod_def mark_partial_def Let_def)
qed

subsection \<open>The structural pass\<close>

text \<open>A menu program navigation did not reach, resolved with the initial registers.\<close>

definition structural_screen ::
    "graph_env \<Rightarrow> graph_options \<Rightarrow> coordinate \<Rightarrow> live_state \<Rightarrow> discovery \<Rightarrow> (graph_error, discovery) go" where
  "structural_screen env opts c live d =
     go_bind (semantic_identity (ge_digest env) c (opt_registers opts) live) (\<lambda>screen_id.
       if screen_id \<in> set (d_screen_ids d) then Inr d
       else go_bind (control_identity (ge_digest env) c live) (\<lambda>control.
         if snd control \<and> has_equivalent_controls (d_layouts d) (fst control) (live_buttons live) then Inr d
         else Inr (store_screen (opt_max_items opts) DiscoveryStructural c (opt_registers opts) live screen_id control
           (mark_partial ''structural_only'' ''visible menu was not reached through navigation'' d))))"

definition structural_node ::
    "graph_env \<Rightarrow> graph_options \<Rightarrow> menu_node \<Rightarrow> discovery \<Rightarrow> (graph_error, discovery) go" where
  "structural_node env opts item d =
     (let c = node_coordinate item in
      if c \<in> set (d_reached d) then Inr d
      else go_bind (resolve_live env c (node_pgc item) (opt_registers opts) d) (\<lambda>(resolved, d).
        case resolved of
          None \<Rightarrow> Inr (mark_partial ''structural_state'' ''structural menu candidate could not be classified'' d)
        | Some live \<Rightarrow>
            let d = d\<lparr>d_classified := List.insert c (d_classified d)\<rparr> in
            if \<not> live_visible live \<or> live_buttons live = [] then Inr d
            else structural_screen env opts c live d))"

fun structural_pass ::
    "graph_env \<Rightarrow> graph_options \<Rightarrow> menu_node list \<Rightarrow> discovery \<Rightarrow> (graph_error, discovery) go" where
  "structural_pass env opts [] d = Inr d"
| "structural_pass env opts (item # items) d =
     go_bind (structural_node env opts item d) (structural_pass env opts items)"

subsection \<open>Discovery\<close>

definition with_default :: "int \<Rightarrow> int \<Rightarrow> int" where
  "with_default v fallback = (if v = 0 then fallback else v)"

definition effective_options :: "graph_options \<Rightarrow> graph_options" where
  "effective_options opts =
     opts\<lparr>opt_max_items := with_default (opt_max_items opts) default_max_items,
          opt_max_states := with_default (opt_max_states opts) default_max_states,
          opt_max_depth := with_default (opt_max_depth opts) default_max_depth,
          opt_max_buttons := with_default (opt_max_buttons opts) default_max_buttons\<rparr>"

definition options_invalid :: "graph_options \<Rightarrow> bool" where
  "options_invalid opts \<longleftrightarrow> opt_max_items opts < 0 \<or> opt_max_items opts > max_menu_items
     \<or> opt_max_states opts < 0 \<or> opt_max_depth opts < 0 \<or> opt_max_buttons opts < 0"

definition seed_state :: "graph_options \<Rightarrow> bool \<Rightarrow> menu_node \<Rightarrow> traversal_state" where
  "seed_state opts fallback seed =
     \<lparr>st_node = seed, st_registers = opt_registers opts, st_depth = 0, st_run_pre = True,
      st_utility = (fallback \<and> co_kind (node_coordinate seed) = kind_manager \<and> co_menu (node_coordinate seed) = 0)\<rparr>"

definition initial_result :: "nat \<Rightarrow> graph_result" where
  "initial_result inventoried =
     \<lparr>result_screens = [], result_inventoried = inventoried, result_visited_states = 0, result_visited_buttons = 0,
      result_complete = False, result_partial = False, result_truncated = False, result_warnings = []\<rparr>"

definition initial_discovery :: "graph_options \<Rightarrow> menu_node list \<Rightarrow> menu_node list \<Rightarrow> discovery" where
  "initial_discovery opts nodes seeds =
     (let fallback = length seeds = 1 \<and> pgc_entry_id (node_pgc (hd seeds)) AND 0x80 = 0 in
      \<lparr>d_queue = map (seed_state opts fallback) seeds, d_seen = [], d_reached = [], d_classified = [],
       d_screen_ids = [], d_layouts = [], d_result = initial_result (length nodes),
       d_requests = [], d_polls = 0, d_now_calls = 0, d_random_calls = 0\<rparr>)"

text \<open>The last lines of \<open>Discover\<close>: the result, and whether an error comes with it.\<close>

definition finish_discovery :: "menu_node list \<Rightarrow> discovery \<Rightarrow> graph_result \<times> graph_error option" where
  "finish_discovery nodes d =
     (let r = d_result d;
          r = r\<lparr>result_complete := (\<not> result_partial r \<and> \<not> result_truncated r \<and> length (d_classified d) = length nodes)\<rparr>
      in (r, if result_screens r = [] then Some ErrDiscovery else None))"

text \<open>\<open>Discover\<close>. An error without a result is a failure; a nil resolver is \<open>None\<close>. What was asked of the resolver is
  kept beside the result, as the resolver remembers it.\<close>

definition discover_with ::
    "graph_env option \<Rightarrow> dvd_disc \<Rightarrow> graph_options
      \<Rightarrow> (graph_error, (graph_result \<times> graph_error option) \<times> request list) go" where
  "discover_with env disc opts =
     (case env of
        None \<Rightarrow> Inl (Failed ErrDiscovery)
      | Some env \<Rightarrow>
          let opts = effective_options opts in
          if options_invalid opts then Inl (Failed ErrDiscovery)
          else case inventory disc (opt_language opts) of (nodes, seeds) \<Rightarrow>
            if nodes = [] then Inr ((initial_result 0, Some ErrDiscovery), [])
            else go_bind (discover_loop env opts (build_lookup nodes) (initial_discovery opts nodes seeds)) (\<lambda>d.
              go_bind (structural_pass env opts nodes d) (\<lambda>d. Inr (finish_discovery nodes d, d_requests d))))"

definition discover ::
    "graph_env option \<Rightarrow> dvd_disc \<Rightarrow> graph_options \<Rightarrow> (graph_error, graph_result \<times> graph_error option) go" where
  "discover env disc opts = go_bind (discover_with env disc opts) (\<lambda>(r, _). Inr r)"

end
