(* ===== verification/DvdIfoProps.thy ===== *)
theory DvdIfoProps
  imports DvdIfo "HOL-Library.Multiset"
begin

text \<open>
  Properties of the menu structures: parsing any bytes gives an error or a file whose tables are complete
  and in range, and never panics; the inventory of a directory does not depend on the order in which the
  map of its names is walked, and falls back to a backup exactly when the primary file fails; playback
  times convert exactly.
\<close>

unbundle bit_operations_syntax

subsection \<open>Reading in bounds\<close>

lemma ifo_bytes_yields: "yields (\<lambda>bs. length bs = n \<and> offset + n \<le> length data) (ifo_bytes data offset n)"
  by (simp add: ifo_bytes_def)

lemma ifo_u16_yields: "yields (\<lambda>_. True) (ifo_u16 data offset)"
  unfolding ifo_u16_def by (rule yields_bind [OF ifo_bytes_yields]) simp

lemma ifo_u32_yields: "yields (\<lambda>_. True) (ifo_u32 data offset)"
  unfolding ifo_u32_def by (rule yields_bind [OF ifo_bytes_yields]) simp

lemma bounded_uint32_yields: "yields (\<lambda>n. n \<le> max_ifo_bytes) (bounded_uint32 v)"
  by (simp add: bounded_uint32_def)

lemma go_map_yields:
  assumes "\<And>x. x \<in> set xs \<Longrightarrow> yields (P x) (f x)"
  shows "yields (\<lambda>ys. list_all2 P xs ys) (go_map f xs)"
  using assms
proof (induction xs)
  case (Cons x xs)
  have x: "yields (P x) (f x)" and xs: "yields (list_all2 P xs) (go_map f xs)" using Cons by auto
  show ?case unfolding go_map.simps by (rule yields_bind [OF x], rule yields_bind [OF xs]) simp
qed simp

lemma go_map_upto:
  assumes "\<And>i. i < n \<Longrightarrow> yields (P i) (f i)"
  shows "yields (\<lambda>ys. length ys = n \<and> (\<forall>i < n. P i (ys ! i))) (go_map f [0..<n])"
  by (rule yields_mono [OF go_map_yields [where P = P]]) (use assms in \<open>auto simp: list_all2_conv_all_nth\<close>)

lemma fetch_yields:
  "i < length bs \<Longrightarrow> yields (\<lambda>_. True) (index_at bs i :: (ifo_error, u8) go)"
  "i + 2 \<le> length bs \<Longrightarrow> yields (\<lambda>_. True) (u16_at bs i :: (ifo_error, u16) go)"
  "i + 4 \<le> length bs \<Longrightarrow> yields (\<lambda>_. True) (u32_at bs i :: (ifo_error, u32) go)"
  "a \<le> b \<Longrightarrow> b \<le> length xs \<Longrightarrow> yields (\<lambda>ys. length ys = b - a \<and> ys = take (b - a) (drop a xs)) (slice_of xs a b :: (ifo_error, 'a list) go)"
  by simp_all

lemmas fetch = fetch_yields [THEN yields_bind] yields_bind [OF ifo_bytes_yields] yields_bind [OF ifo_u16_yields]
  yields_bind [OF ifo_u32_yields] yields_bind [OF bounded_uint32_yields]

lemma read_dvd_time_yields: "4 \<le> length data \<Longrightarrow> yields (\<lambda>_. True) (read_dvd_time data)"
  unfolding read_dvd_time_def by (intro fetch) auto

text \<open>The table of \<open>n\<close> items of \<open>k\<close> bytes.\<close>

lemma item_bound: "length bs = n * k \<Longrightarrow> i < n \<Longrightarrow> (i + 1) * k \<le> length bs"
  by (simp del: mult_Suc add: mult_le_mono1)

lemma command_table_yields:
  "yields (\<lambda>(pre, post, cell). \<forall>c\<in>set pre \<union> set post \<union> set cell. length c = 8) (command_table data base)"
proof -
  have commands: "yields (\<lambda>cs. length cs = n \<and> (\<forall>c\<in>set cs. length c = 8)) (go_map (\<lambda>i. slice_of bs (i * 8) ((i + 1) * 8)) [0..<n] :: (ifo_error, command list) go)"
    if "length bs = n * 8 \<and> offset + n * 8 \<le> length data" for bs :: "u8 list" and n offset
  proof -
    have "yields (\<lambda>cs. length cs = n \<and> (\<forall>i < n. length (cs ! i) = 8)) (go_map (\<lambda>i. slice_of bs (i * 8) ((i + 1) * 8)) [0..<n] :: (ifo_error, command list) go)"
      using item_bound [of bs n 8] that by (intro go_map_upto) (simp add: slice_of_def)
    then show ?thesis by (rule yields_mono) (auto simp: in_set_conv_nth)
  qed
  show ?thesis
    unfolding command_table_def Let_def
    by (intro fetch yields_if yields_bind [OF commands]) (auto dest: in_set_takeD in_set_dropD)
qed

subsection \<open>Well-formed structures\<close>

definition cell_ok :: "cell_playback \<Rightarrow> bool" where
  "cell_ok c \<longleftrightarrow> cell_first_sector c \<le> cell_last_sector c \<and> cell_last_vobu_start c \<le> cell_last_sector c"

definition chain_ok :: "nat \<Rightarrow> program_chain \<Rightarrow> bool" where
  "chain_ok n p \<longleftrightarrow> pgc_number p = n \<and> pgc_menu_id p = pgc_entry_id p AND 0x0f \<and> pgc_programs p \<le> pgc_cells p
     \<and> length (pgc_audio_control p) = 8 \<and> length (pgc_subpicture_control p) = 32 \<and> length (pgc_palette p) = 16
     \<and> (\<forall>c\<in>set (pgc_pre_commands p) \<union> set (pgc_post_commands p) \<union> set (pgc_cell_commands p). length c = 8)
     \<and> length (pgc_program_map p) = unat (pgc_programs p) \<and> sorted (pgc_program_map p)
     \<and> (\<forall>c\<in>set (pgc_program_map p). 0 < c \<and> c \<le> pgc_cells p)
     \<and> length (pgc_cell_playback p) = unat (pgc_cells p) \<and> (\<forall>c\<in>set (pgc_cell_playback p). cell_ok c)
     \<and> length (pgc_cell_positions p) = unat (pgc_cells p)"

definition unit_ok :: "language_unit \<Rightarrow> bool" where
  "unit_ok u \<longleftrightarrow> length (lang_code u) = 2 \<and> length (lang_program_chains u) \<le> 999
     \<and> (\<forall>i < length (lang_program_chains u). chain_ok (i + 1) (lang_program_chains u ! i))"

definition file_ok :: "ifo_file \<Rightarrow> bool" where
  "file_ok f \<longleftrightarrow> length (file_languages f) \<le> 99 \<and> (\<forall>u\<in>set (file_languages f). unit_ok u)
     \<and> pred_option (chain_ok 0) (file_first_play f)"

lemma read_cell_playback_yields: "length item = 24 \<Longrightarrow> yields cell_ok (read_cell_playback item)"
  unfolding read_cell_playback_def
  by (intro fetch yields_if yields_bind [OF read_dvd_time_yields]) (auto simp: cell_ok_def not_less)

lemma table_yields:
  assumes "length bs = n * k" and "\<And>item. length item = k \<Longrightarrow> yields P (f item)"
  shows "yields (\<lambda>ys. length ys = n \<and> (\<forall>y\<in>set ys. P y))
    (go_map (\<lambda>index. go_bind (slice_of bs (index * k) ((index + 1) * k)) f) [0..<n] :: (ifo_error, 'a list) go)"
proof -
  have "yields (\<lambda>ys. length ys = n \<and> (\<forall>i < n. P (ys ! i)))
    (go_map (\<lambda>index. go_bind (slice_of bs (index * k) ((index + 1) * k)) f) [0..<n] :: (ifo_error, 'a list) go)"
    using item_bound [of bs n k] assms(1) by (intro go_map_upto fetch assms(2)) simp_all
  then show ?thesis by (rule yields_mono) (auto simp: in_set_conv_nth)
qed

lemma cell_playback_table_yields:
  "yields (\<lambda>cs. length cs = n \<and> (\<forall>c\<in>set cs. cell_ok c)) (cell_playback_table data base n)"
  unfolding cell_playback_table_def by (intro fetch table_yields read_cell_playback_yields) simp_all

lemma cell_position_table_yields: "yields (\<lambda>ps. length ps = n) (cell_position_table data base n)"
proof -
  have "yields (\<lambda>ps. length ps = n \<and> (\<forall>p\<in>set ps. True)) (cell_position_table data base n)"
    unfolding cell_position_table_def by (intro fetch table_yields) (auto simp: index_at_def)
  then show ?thesis by simp
qed

lemma program_map_valid:
  "\<not> program_map_invalid cells m \<longleftrightarrow> sorted m \<and> (\<forall>c\<in>set m. 0 < c \<and> c \<le> cells)"
proof -
  have "sorted m \<longleftrightarrow> (\<forall>i. Suc i < length m \<longrightarrow> m ! i \<le> m ! Suc i)" by (rule sorted_iff_nth_Suc)
  moreover have "(\<forall>i < length m. 0 < i \<longrightarrow> \<not> m ! i < m ! (i - 1)) \<longleftrightarrow> (\<forall>i. Suc i < length m \<longrightarrow> m ! i \<le> m ! Suc i)"
    by (auto simp: not_less gr0_conv_Suc)
  ultimately show ?thesis
    by (auto simp: program_map_invalid_def list_ex_iff all_set_conv_all_nth not_less word_gt_0)
qed

lemma read_program_map_yields:
  "yields (\<lambda>m. length m = unat programs \<and> sorted m \<and> (\<forall>c\<in>set m. 0 < c \<and> c \<le> cells)) (read_program_map data base programs cells offset)"
  unfolding read_program_map_def
  by (intro yields_if fetch) (use program_map_valid in auto)

lemma read_cell_tables_yields:
  "yields (\<lambda>(playback, positions). length playback = unat cells \<and> (\<forall>c\<in>set playback. cell_ok c) \<and> length positions = unat cells)
    (read_cell_tables data base cells playback_offset position_offset)"
  unfolding read_cell_tables_def
  by (intro yields_if yields_bind [OF cell_playback_table_yields] yields_bind [OF cell_position_table_yields]) auto

lemma read_pgc_header_yields:
  assumes "length fixed = pgc_size"
  shows "yields (\<lambda>p. pgc_number p = n \<and> pgc_menu_id p = pgc_entry_id p AND 0x0f \<and> pgc_programs p \<le> pgc_cells p
     \<and> length (pgc_audio_control p) = 8 \<and> length (pgc_subpicture_control p) = 32 \<and> length (pgc_palette p) = 16)
    (read_pgc_header fixed n entry)"
proof -
  have len: "length fixed = 236" using assms by (simp add: pgc_size_def)
  have u16s: "yields (\<lambda>ys. length ys = k \<and> (\<forall>i < k. True)) (go_map (\<lambda>index. u16_at fixed (a + index * 2)) [0..<k] :: (ifo_error, u16 list) go)"
    if "a + k * 2 \<le> 236" for a k
    using that len by (intro go_map_upto) simp
  have u32s: "yields (\<lambda>ys. length ys = k \<and> (\<forall>i < k. True)) (go_map (\<lambda>index. u32_at fixed (a + index * 4)) [0..<k] :: (ifo_error, u32 list) go)"
    if "a + k * 4 \<le> 236" for a k
    using that len by (intro go_map_upto) simp
  show ?thesis
    unfolding read_pgc_header_def
    by (intro fetch yields_if yields_bind [OF read_dvd_time_yields] yields_bind [OF u16s] yields_bind [OF u32s])
      (auto simp: len not_less)
qed

lemma read_program_chain_yields: "yields (chain_ok n) (read_program_chain data base n entry)"
proof -
  have commands: "yields (\<lambda>(pre, post, cell). \<forall>c\<in>set pre \<union> set post \<union> set cell. length c = 8)
      (if command_offset \<noteq> 0 then command_table data (base + unat command_offset) else Inr ([], [], []))" for command_offset :: u16
    using command_table_yields by auto
  show ?thesis
    unfolding read_program_chain_def
    by (intro fetch yields_bind [OF read_pgc_header_yields] yields_bind [OF commands] yields_bind [OF read_program_map_yields]
        yields_bind [OF read_cell_tables_yields])
      (auto simp: pgc_size_def chain_ok_def intro!: fetch yields_bind [OF commands] yields_bind [OF read_program_map_yields]
        yields_bind [OF read_cell_tables_yields])
qed

lemma read_chain_entry_yields: "yields (chain_ok (i + 1)) (read_chain_entry data base end i)"
  unfolding read_chain_entry_def Let_def
  by (intro fetch yields_if read_program_chain_yields) simp_all

lemma program_chain_table_yields:
  "yields (\<lambda>cs. length cs \<le> 999 \<and> (\<forall>i < length cs. chain_ok (i + 1) (cs ! i))) (program_chain_table data base end)"
  unfolding program_chain_table_def Let_def
  by (intro fetch yields_if yields_mono [OF go_map_upto [OF read_chain_entry_yields]]) (auto simp: max_program_chains_def)

lemma read_language_entry_yields:
  assumes "base + 8 + (i + 1) * 8 \<le> length data"
  shows "yields unit_ok (read_language_entry data base end i)"
  unfolding read_language_entry_def Let_def using assms
  by (intro fetch yields_if yields_bind [OF program_chain_table_yields]) (auto simp: unit_ok_def)

lemma language_units_yields:
  "yields (\<lambda>us. length us \<le> 99 \<and> (\<forall>u\<in>set us. unit_ok u)) (language_units data base)"
proof -
  have units: "yields (\<lambda>us. length us = n \<and> (\<forall>i < n. unit_ok (us ! i))) (go_map (read_language_entry data base stop) [0..<n])"
    if "\<not> base + 8 + n * 8 > stop" "stop \<le> length data" for n stop
  proof (intro go_map_upto read_language_entry_yields)
    fix i assume "i < n"
    then have "(i + 1) * 8 \<le> n * 8" by (intro mult_le_mono1) simp
    with that show "base + 8 + (i + 1) * 8 \<le> length data" by linarith
  qed
  show ?thesis
    unfolding language_units_def Let_def
    by (intro fetch yields_if yields_mono [OF units]) (auto simp: max_language_units_def in_set_conv_nth)
qed

lemma parse_ifo_yields: "yields file_ok (parse_ifo data kind vts)"
proof -
  have domain: "yields (\<lambda>(identifier, sector, first_play). pred_option (chain_ok 0) first_play) (read_domain data kind vts)"
    unfolding read_domain_def
    by (intro yields_if fetch yields_bind [OF read_program_chain_yields]) auto
  show ?thesis
    unfolding parse_ifo_def Let_def
    by (intro yields_if yields_bind [OF domain]; (simp split: prod.splits)?)
      (auto simp: file_ok_def intro!: fetch yields_if yields_bind [OF language_units_yields])
qed

subsection \<open>The directory\<close>

lemma parse_file_yields: "yields (\<lambda>f. file_ok f \<and> file_vts f = vts \<and> file_source_name f = name) (parse_file source name kind vts)"
proof -
  have vts: "yields (\<lambda>f. file_ok f \<and> file_vts f = vts) (parse_ifo data kind vts)" for data
  proof -
    have "parse_ifo data kind vts = Inr f \<Longrightarrow> file_vts f = vts" for f
      by (auto simp: parse_ifo_def Let_def go_bind_Inr split: if_splits prod.splits)
    then show ?thesis using parse_ifo_yields [of data kind vts] by (auto simp: yields_def split: sum.splits)
  qed
  have "yields (\<lambda>_. True) (read_bounded source name)"
    by (auto simp: read_bounded_def Let_def split: option.split)
  then show ?thesis unfolding parse_file_def
    by (rule yields_bind) (auto simp: file_ok_def intro!: yields_bind [OF vts])
qed

lemma inspect_pair_yields: "yields (\<lambda>f. file_ok f \<and> file_vts f = vts) (inspect_pair source names ifo_name bup_name kind vts)"
proof -
  have primary: "yields (\<lambda>f. file_ok f \<and> file_vts f = vts) (primary_file source names ifo_name kind vts)"
    by (auto simp: primary_file_def split: option.split intro: yields_mono [OF parse_file_yields])
  have backup: "yields (\<lambda>f. file_ok f \<and> file_vts f = vts) (parse_file source name kind vts)" for name
    by (rule yields_mono [OF parse_file_yields]) simp
  show ?thesis
    unfolding inspect_pair_def
    using primary backup by (fastforce simp: yields_def file_ok_def split: sum.splits fault.splits option.splits)
qed

lemma collect_names_yields: "yields (\<lambda>_. True) (collect_names upper es names)"
  by (induction es arbitrary: names) (auto simp: Let_def)

text \<open>The title sets a walk over the names finds, each once.\<close>

fun new_numbers :: "string list \<Rightarrow> int list \<Rightarrow> int list" where
  "new_numbers [] seen = []"
| "new_numbers (n # ns) seen =
     (case title_set_number n of
        None \<Rightarrow> new_numbers ns seen
      | Some vts \<Rightarrow> if vts \<in> set seen then new_numbers ns seen else vts # new_numbers ns (vts # seen))"

lemma new_numbers_set:
  "set (new_numbers ns seen) = {v. \<exists>n\<in>set ns. title_set_number n = Some v} - set seen \<and> distinct (new_numbers ns seen)"
  by (induction ns arbitrary: seen) (auto split: option.splits)

lemma title_set_range: "title_set_number n = Some v \<Longrightarrow> 0 < v \<and> v \<le> 99"
  by (auto simp: title_set_number_def split: if_splits option.splits)

abbreviation title_set_file :: "ifo_source \<Rightarrow> (string \<times> string) list \<Rightarrow> int \<Rightarrow> (ifo_error, ifo_file) go" where
  "title_set_file source names v \<equiv> inspect_pair source names (vts_name v ''IFO'') (vts_name v ''BUP'') kind_title_set v"

lemma title_set_files_Inr:
  "title_set_files source names ns seen files = Inr fs \<longleftrightarrow>
    (\<forall>v\<in>set (new_numbers ns seen). \<exists>f. title_set_file source names v = Inr f)
    \<and> fs = files @ map (\<lambda>v. projr (title_set_file source names v)) (new_numbers ns seen)"
proof (induction ns arbitrary: seen files)
  case (Cons n ns)
  then show ?case by (auto simp: go_bind_Inr split: option.splits)
qed auto

lemma title_set_files_yields:
  "yields (\<lambda>fs. map file_vts fs = map file_vts files @ new_numbers ns seen \<and> (\<forall>f\<in>set fs. f \<in> set files \<or> file_ok f))
    (title_set_files source names ns seen files)"
proof (induction ns arbitrary: seen files)
  case (Cons n ns)
  show ?case
  proof (cases "title_set_number n")
    case (Some v)
    show ?thesis
    proof (cases "v \<in> set seen")
      case False
      have "yields (\<lambda>fs. map file_vts fs = map file_vts files @ new_numbers (n # ns) seen \<and> (\<forall>f\<in>set fs. f \<in> set files \<or> file_ok f))
          (go_bind (title_set_file source names v) (\<lambda>f. title_set_files source names ns (v # seen) (files @ [f])))"
        by (rule yields_bind [OF inspect_pair_yields], rule yields_mono [OF Cons.IH]) (use Some False in auto)
      with Some False show ?thesis by simp
    qed (use Some Cons.IH in simp)
  qed (use Cons.IH in simp)
qed simp

definition disc_ok :: "dvd_disc \<Rightarrow> bool" where
  "disc_ok d \<longleftrightarrow> file_ok (disc_manager d) \<and> file_vts (disc_manager d) = 0 \<and> list_all file_ok (disc_title_sets d)
     \<and> sorted_wrt (<) (map file_vts (disc_title_sets d))
     \<and> list_all (\<lambda>f. 0 < file_vts f \<and> file_vts f \<le> 99) (disc_title_sets d)"

lemma sorted_title_sets:
  assumes "distinct (map file_vts fs)"
  shows "sorted_wrt (<) (map file_vts (sort_key file_vts fs))"
proof -
  have "distinct (map file_vts (sort_key file_vts fs))"
    by (rule mset_eq_imp_distinct_iff [THEN iffD1, OF _ assms]) simp
  then show ?thesis by (simp add: strict_sorted_iff)
qed

lemma inspect_entries_yields: "yields disc_ok (inspect_entries upper order source es)"
proof -
  have files: "yields (\<lambda>fs. map file_vts fs = new_numbers ns [] \<and> (\<forall>f\<in>set fs. file_ok f)) (title_set_files source names ns [] [])"
    for names ns
    by (rule yields_mono [OF title_set_files_yields]) simp
  have ok: "distinct (map file_vts fs)" "\<forall>f\<in>set fs. 0 < file_vts f \<and> file_vts f \<le> 99"
    if "map file_vts fs = new_numbers ns []" for fs ns
  proof -
    show "distinct (map file_vts fs)" using new_numbers_set [of ns "[]"] that by simp
    show "\<forall>f\<in>set fs. 0 < file_vts f \<and> file_vts f \<le> 99"
    proof
      fix f assume "f \<in> set fs"
      then have "file_vts f \<in> set (new_numbers ns [])" unfolding that [symmetric] by simp
      then show "0 < file_vts f \<and> file_vts f \<le> 99" using new_numbers_set [of ns "[]"] title_set_range by auto
    qed
  qed
  show ?thesis
    unfolding inspect_entries_def
    by (intro yields_bind [OF collect_names_yields] yields_bind [OF inspect_pair_yields] yields_bind [OF files])
      (auto simp: disc_ok_def list_all_iff intro: sorted_title_sets dest: ok)
qed

text \<open>Walking the names in another order finds the same title sets and sorts them the same.\<close>

lemma title_sets_any_order:
  assumes "set ns = set ms"
    and "title_set_files source names ns [] [] = Inr fs"
  shows "\<exists>gs. title_set_files source names ms [] [] = Inr gs \<and> sort_key file_vts gs = sort_key file_vts fs"
proof -
  let ?F = "\<lambda>v. projr (title_set_file source names v)"
  have sets: "set (new_numbers ns []) = set (new_numbers ms [])" "distinct (new_numbers ns [])" "distinct (new_numbers ms [])"
    using new_numbers_set [of ns "[]"] new_numbers_set [of ms "[]"] assms(1) by auto
  note walked = assms(2) [unfolded title_set_files_Inr sets(1) append_Nil]
  note fs = conjunct2 [OF walked] and all = conjunct1 [OF walked]
  let ?gs = "map ?F (new_numbers ms [])"
  have gs: "title_set_files source names ms [] [] = Inr ?gs" unfolding title_set_files_Inr using all by simp
  have "mset (new_numbers ms []) = mset (new_numbers ns [])" 
    using set_eq_iff_mset_eq_distinct [OF sets(3,2)] sets(1) by simp
  then have perm: "mset ?gs = mset (sort_key file_vts fs)" by (simp add: fs)
  have "map file_vts ?gs = new_numbers ms []"
    using title_set_files_yields [of "[]" ms "[]" source names] unfolding gs by simp
  then have "distinct (map file_vts ?gs)" using sets(3) by (simp only:)
  then have inj: "inj_on file_vts (set ?gs)" unfolding distinct_map [of file_vts] by (rule conjunct2)
  have "sort_key file_vts ?gs = sort_key file_vts fs"
    by (rule sort_key_inj_key_eq [OF perm inj]) simp
  with gs show ?thesis by blast
qed

subsection \<open>The properties\<close>

definition bcd :: "nat \<Rightarrow> u8" where
  "bcd n = word_of_nat (16 * (n div 10) + n mod 10)"

lemma decode_bcd_encode: "n < 100 \<Longrightarrow> decode_bcd (bcd n) = Inr (int n)"
proof -
  assume n: "n < 100"
  then have tens: "n div 10 < 10" by simp
  have low: "n mod 10 < 10" by simp
  from tens low have "16 * (n div 10) + n mod 10 < 256" by linarith
  then have value_of: "unat (bcd n) = 16 * (n div 10) + n mod 10"
    by (simp add: bcd_def unsigned_of_nat take_bit_nat_eq_self del: of_nat_add of_nat_mult)
  have hi: "unat (drop_bit 4 (bcd n)) = n div 10"
    using low by (simp add: drop_bit_eq_div unat_div_distrib value_of)
  have "bcd n AND 0x0f = take_bit 4 (bcd n)" by (simp add: take_bit_eq_mask mask_eq_exp_minus_1)
  then have lo: "unat (bcd n AND 0x0f) = n mod 10"
    using low by (simp add: take_bit_eq_mod unat_mod_distrib value_of)
  have "\<not> drop_bit 4 (bcd n) > 9" "\<not> bcd n AND 0x0f > 9" using tens low by (auto simp: word_less_nat_alt hi lo)
  moreover have "int (n div 10) * 10 + int (n mod 10) = int n" by (simp add: zdiv_int zmod_int)
  ultimately show ?thesis by (simp add: decode_bcd_def hi lo)
qed

lemma frame_byte:
  assumes "n < 30" and "rate \<in> {0x40, 0xc0}"
  shows "(rate OR bcd n) AND 0x3f = bcd n" "(rate OR bcd n) AND 0xc0 = rate"
proof -
  have "n div 10 < 3" "n mod 10 < 10" using assms(1) by (simp_all add: less_mult_imp_div_less)
  then have "16 * (n div 10) + n mod 10 < 64" by linarith
  then have "unat (bcd n) < 2 ^ 6"
    by (simp add: bcd_def unsigned_of_nat take_bit_nat_eq_self del: of_nat_add of_nat_mult)
  then have "take_bit 6 (bcd n) = bcd n"
    by (simp add: word_unat_eq_iff unsigned_take_bit_eq take_bit_nat_eq_self)
  then have high: "bit (bcd n) i \<Longrightarrow> i < 6" for i by (metis bit_take_bit_iff)
  have high: "\<not> bit (bcd n) 6" "\<not> bit (bcd n) 7" using high [of 6] high [of 7] by auto
  have eight: "i < LENGTH(8) \<longleftrightarrow> i \<in> {0, 1, 2, 3, 4, 5, 6, 7}" for i by auto
  show "(rate OR bcd n) AND 0x3f = bcd n" "(rate OR bcd n) AND 0xc0 = rate"
    using assms(2) high by (intro bit_word_eqI; unfold eight; auto simp: bit_and_iff bit_or_iff)+
qed

definition dvd_time_of :: "u8 \<Rightarrow> nat \<Rightarrow> nat \<Rightarrow> nat \<Rightarrow> nat \<Rightarrow> dvd_time" where
  "dvd_time_of rate h m s f = \<lparr>time_hour = bcd h, time_minute = bcd m, time_second = bcd s, time_frame = rate OR bcd f\<rparr>"

lemma duration_of_encoded:
  assumes "h < 100" "m < 60" "s < 60" and "rate \<in> {0x40, 0xc0}" "f < (if rate = 0x40 then 25 else 30)"
  shows "duration (dvd_time_of rate h m s f) = Inr (int h * (3600 * go_second) + int m * (60 * go_second) + int s * go_second
    + (if rate = 0x40 then int f * go_second div 25 else int f * 1001 * go_second div 30000))"
proof -
  have f: "f < 30" using assms(5) by (simp split: if_splits)
  show ?thesis
    using assms decode_bcd_encode [of h] decode_bcd_encode [of m] decode_bcd_encode [of s] decode_bcd_encode [of f] f
      frame_byte [OF f assms(4)]
    by (auto simp: duration_def dvd_time_of_def Let_def)
qed

text \<open>A smallest manager, and a directory of its own and one title set.\<close>

definition empty_manager :: "u8 list" where
  "empty_manager = manager_identifier @ replicate 192 0"

definition empty_title_set :: "u8 list" where
  "empty_title_set = title_set_identifier @ replicate 200 0"

definition empty_file :: "ifo_kind \<Rightarrow> int \<Rightarrow> string \<Rightarrow> ifo_file" where
  "empty_file kind vts name = \<lparr>file_kind = kind, file_vts = vts, file_recovered = False, file_first_play = None,
     file_languages = [], file_source_name = name\<rparr>"

definition plain_entry :: "string \<Rightarrow> dir_entry" where
  "plain_entry name = \<lparr>entry_name = name, entry_is_dir = False, entry_is_symlink = False\<rparr>"

definition sample_source :: ifo_source where
  "sample_source name = (if name = ''VIDEO_TS.IFO'' then Some empty_manager
     else if name = ''VTS_01_0.IFO'' then Some empty_title_set else None)"

lemma be32_zero: "be32 0 0 0 0 = 0"
  by (simp add: be32_def)

lemma empty_manager_parses: "parse_file sample_source ''VIDEO_TS.IFO'' kind_manager 0 = Inr (empty_file kind_manager 0 ''VIDEO_TS.IFO'')"
  by (simp add: parse_file_def read_bounded_def sample_source_def Let_def max_ifo_bytes_def empty_manager_def manager_identifier_def
      parse_ifo_def read_domain_def ifo_u32_def ifo_bytes_def slice_of_def u32_at_def be32_zero empty_file_def nth_append)

lemma empty_title_set_parses:
  "parse_file sample_source ''VTS_01_0.IFO'' kind_title_set 1 = Inr (empty_file kind_title_set 1 ''VTS_01_0.IFO'')"
  by (simp add: parse_file_def read_bounded_def sample_source_def Let_def max_ifo_bytes_def empty_title_set_def
      title_set_identifier_def parse_ifo_def read_domain_def kind_manager_def kind_title_set_def ifo_u32_def ifo_bytes_def
      slice_of_def u32_at_def be32_zero empty_file_def nth_append)

definition sample_disc :: dvd_disc where
  "sample_disc = \<lparr>disc_manager = empty_file kind_manager 0 ''VIDEO_TS.IFO'',
     disc_title_sets = [empty_file kind_title_set 1 ''VTS_01_0.IFO'']\<rparr>"

lemma sample_names:
  "title_set_number ''VIDEO_TS.IFO'' = None" "title_set_number ''VTS_01_0.IFO'' = Some 1"
  "title_set_number ''VTS_+1_0.IFO'' = Some 1" "vts_name 1 ''IFO'' = ''VTS_01_0.IFO''" "vts_name 1 ''BUP'' = ''VTS_01_0.BUP''"
  by code_simp+

lemma sample_inventory:
  "inspect_directory (\<lambda>s. s) (\<lambda>ns. ns) sample_source (Some [plain_entry ''VIDEO_TS.IFO'', plain_entry ''VTS_01_0.IFO'']) = Inr sample_disc"
  by (simp add: inspect_directory_def inspect_entries_def plain_entry_def manager_names_def sample_names inspect_pair_def
      primary_file_def empty_manager_parses empty_title_set_parses sample_disc_def Let_def)

text \<open>C25: Parsing an IFO is total: any bytes give an error or a file whose tables are complete and in range, never a panic.\<close>

lemma parsed_files_are_complete: "yields file_ok (parse_ifo data kind vts)"
  by (rule parse_ifo_yields)

lemma inventories_are_well_formed: "yields disc_ok (inspect_directory upper order source entries)"
  using inspect_entries_yields [of upper order source "the entries"]
  by (auto simp: inspect_directory_def yields_def split: option.split sum.splits fault.splits)

text \<open>C26: The inventory of a directory is the same whatever the order in which the map of its names is walked.\<close>

lemma inventory_ignores_walk_order:
  assumes "\<And>ns. mset (order ns) = mset ns" and "\<And>ns. mset (order' ns) = mset ns"
  shows "inspect_directory upper order source entries = Inr d \<longleftrightarrow> inspect_directory upper order' source entries = Inr d"
proof -
  have walk: "inspect_entries upper o2 source es = Inr d"
    if "inspect_entries upper o1 source es = Inr d" "\<And>ns. mset (o1 ns) = mset ns" "\<And>ns. mset (o2 ns) = mset ns" for o1 o2 es
  proof -
    have "set (o1 ns) = set (o2 ns)" for ns using that(2,3) by (metis set_mset_mset)
    from that(1) title_sets_any_order [OF this] show ?thesis
      unfolding inspect_entries_def go_bind_Inr by fastforce
  qed
  show ?thesis
    using walk [OF _ assms] walk [OF _ assms(2,1)] inspect_entries_yields [THEN yields_no_panic]
    by (auto simp: inspect_directory_def split: option.splits sum.splits fault.splits)
qed

lemma inventory_ignores_walk_order_witness:
  "inspect_directory (\<lambda>s. s) rev sample_source (Some [plain_entry ''VIDEO_TS.IFO'', plain_entry ''VTS_01_0.IFO'']) = Inr sample_disc"
  using inventory_ignores_walk_order [of "\<lambda>ns. ns" rev "\<lambda>s. s" sample_source
      "Some [plain_entry ''VIDEO_TS.IFO'', plain_entry ''VTS_01_0.IFO'']" sample_disc]
  by (simp add: sample_inventory)

text \<open>Playback times are exact: the time code of any hours, minutes, seconds and frames of the two frame rates converts to
  that many nanoseconds.\<close>

lemma playback_times_convert_exactly:
  assumes "h < 100" "m < 60" "s < 60" and "rate \<in> {0x40, 0xc0}" "f < (if rate = 0x40 then 25 else 30)"
  shows "duration (dvd_time_of rate h m s f) = Inr (int h * (3600 * go_second) + int m * (60 * go_second) + int s * go_second
    + (if rate = 0x40 then int f * go_second div 25 else int f * 1001 * go_second div 30000))"
  using assms by (rule duration_of_encoded)

lemma playback_times_convert_exactly_witness:
  "duration (dvd_time_of 0x40 1 2 3 24) = Inr 3723960000000 \<and> duration (dvd_time_of 0xc0 0 0 1 29) = Inr 1967633333"
  using playback_times_convert_exactly [of 1 2 3 "0x40" 24] playback_times_convert_exactly [of 0 0 1 "0xc0" 29]
  by (simp add: go_second_def)

text \<open>A file called \<open>VTS_+1_0.IFO\<close> counts as title set 1, as \<open>strconv.Atoi\<close> accepts a sign: on a disc without that title
  set the whole inventory then fails.\<close>

lemma signed_name_fails_inventory:
  "title_set_number ''VTS_+1_0.IFO'' = Some 1
   \<and> inspect_directory (\<lambda>s. s) (\<lambda>ns. ns) sample_source (Some [plain_entry ''VIDEO_TS.IFO''])
       = Inr \<lparr>disc_manager = empty_file kind_manager 0 ''VIDEO_TS.IFO'', disc_title_sets = []\<rparr>
   \<and> inspect_directory (\<lambda>s. s) (\<lambda>ns. ns) sample_source (Some [plain_entry ''VIDEO_TS.IFO'', plain_entry ''VTS_+1_0.IFO'']) = invalid_ifo"
  by (simp add: inspect_directory_def inspect_entries_def plain_entry_def manager_names_def sample_names inspect_pair_def
      primary_file_def empty_manager_parses Let_def)

end
