(* ===== verification/DvdGraphProps.thy ===== *)
theory DvdGraphProps
  imports DvdGraph DvdIfoProps
begin

text \<open>
  Properties of menu discovery: on any inventoried disc it never panics, ends, and stays within the item,
  state and button limits; what it selects are distinct screens at coordinates of the inventory; the number
  of rounds of its loop is bounded by the limits.
\<close>

unbundle bit_operations_syntax

subsection \<open>The nodes of the inventory\<close>

definition pgc_ok :: "program_chain \<Rightarrow> bool" where
  "pgc_ok p \<longleftrightarrow> (\<exists>n \<le> 999. chain_ok n p) \<and> 0 < pgc_programs p"

definition in_range :: "coordinate \<Rightarrow> bool" where
  "in_range c \<longleftrightarrow> 0 \<le> co_vts c \<and> co_vts c \<le> 99 \<and> 0 < co_language c \<and> co_language c \<le> 99 \<and> 0 < co_pgc c \<and> co_pgc c \<le> 999"

text \<open>A place in the program chain of an inventoried node: its program and its cell exist.\<close>

definition place_ok :: "menu_node set \<Rightarrow> menu_node \<Rightarrow> bool" where
  "place_ok nodes n \<longleftrightarrow>
     (\<exists>m\<in>nodes. key (node_coordinate m) = key (node_coordinate n) \<and> co_menu (node_coordinate m) = co_menu (node_coordinate n)
        \<and> node_pgc m = node_pgc n)
     \<and> 0 < co_program (node_coordinate n) \<and> co_program (node_coordinate n) \<le> int (unat (pgc_programs (node_pgc n)))
     \<and> 0 < co_cell (node_coordinate n) \<and> co_cell (node_coordinate n) \<le> int (unat (pgc_cells (node_pgc n)))"

definition nodes_ok :: "menu_node set \<Rightarrow> bool" where
  "nodes_ok nodes \<longleftrightarrow> (\<forall>n\<in>nodes. place_ok nodes n \<and> pgc_ok (node_pgc n) \<and> in_range (node_coordinate n))"

lemma pgc_cells: "pgc_ok p \<Longrightarrow> unat (pgc_programs p) \<le> unat (pgc_cells p) \<and> 0 < unat (pgc_programs p)"
  by (auto simp: pgc_ok_def chain_ok_def word_le_nat_alt word_gt_0 unat_gt_0)

lemma cell_for_program_ok:
  assumes "pgc_ok p" "0 < program" "program \<le> int (unat (pgc_programs p))"
  shows "0 < cell_for_program p program \<and> cell_for_program p program \<le> int (unat (pgc_cells p))"
proof -
  from assms(1) obtain n where ok: "chain_ok n p" by (auto simp: pgc_ok_def)
  then have len: "length (pgc_program_map p) = unat (pgc_programs p)" by (simp add: chain_ok_def)
  have "nat (program - 1) < length (pgc_program_map p)" using assms(2,3) by (simp only: len)
  then have "pgc_program_map p ! nat (program - 1) \<in> set (pgc_program_map p)" by simp
  then have "0 < pgc_program_map p ! nat (program - 1)" "pgc_program_map p ! nat (program - 1) \<le> pgc_cells p"
    using ok by (auto simp: chain_ok_def)
  then have cell: "0 < unat (pgc_program_map p ! nat (program - 1))" "unat (pgc_program_map p ! nat (program - 1)) \<le> unat (pgc_cells p)"
    "pgc_program_map p ! nat (program - 1) \<noteq> 0"
    by (simp_all add: word_le_nat_alt word_gt_0 unat_gt_0)
  have "cell_for_program p program = int (unat (pgc_program_map p ! nat (program - 1)))"
    using assms(2,3) len cell(3) by (simp add: cell_for_program_def)
  with cell(1,2) show ?thesis by (simp only: of_nat_0_less_iff of_nat_le_iff)
qed

lemma last_program_ok:
  assumes "0 < program" "program \<le> int (index + length cells)" "0 < length cells \<longrightarrow> program \<le> int index + 1"
  shows "0 < last_program index program cells cell \<and> last_program index program cells cell \<le> max program (int (index + length cells))"
  using assms
proof (induction cells arbitrary: index program)
  case (Cons c cells)
  then show ?case using Cons.IH [of "int index + 1" "index + 1"] by (auto simp: algebra_simps)
qed simp

lemma program_for_cell_ok:
  assumes "pgc_ok p"
  shows "0 < program_for_cell p cell \<and> program_for_cell p cell \<le> int (unat (pgc_programs p))"
proof -
  from assms obtain n where ok: "chain_ok n p" by (auto simp: pgc_ok_def)
  then have len: "length (pgc_program_map p) = unat (pgc_programs p)" by (simp add: chain_ok_def)
  have "1 \<le> int (unat (pgc_programs p))" using pgc_cells [OF assms] by linarith
  then show ?thesis
    using last_program_ok [of 1 0 "pgc_program_map p" cell] by (simp add: program_for_cell_def len)
qed

lemma place_ok_program:
  assumes "place_ok nodes n" "nodes_ok nodes" "0 < program" "program \<le> int (unat (pgc_programs (node_pgc n)))"
  shows "place_ok nodes (at_program n program)"
proof -
  have "pgc_ok (node_pgc n)" using assms(1,2) by (auto simp: place_ok_def nodes_ok_def)
  from cell_for_program_ok [OF this assms(3,4)] assms show ?thesis
    by (auto simp: place_ok_def at_program_def key_def)
qed

lemma place_ok_cell:
  assumes "place_ok nodes n" "nodes_ok nodes" "0 < cell" "cell \<le> int (unat (pgc_cells (node_pgc n)))"
  shows "place_ok nodes (at_cell n cell)"
proof -
  have "pgc_ok (node_pgc n)" using assms(1,2) by (auto simp: place_ok_def nodes_ok_def)
  from program_for_cell_ok [OF this, of cell] assms show ?thesis
    by (auto simp: place_ok_def at_cell_def key_def)
qed

definition lookup_ok :: "menu_node set \<Rightarrow> node_lookup \<Rightarrow> bool" where
  "lookup_ok nodes lookup \<longleftrightarrow> (\<forall>(k, n)\<in>set lookup. place_ok nodes n)"

lemma build_lookup_ok: "nodes_ok (set nodes) \<Longrightarrow> lookup_ok (set nodes) (build_lookup nodes)"
proof -
  assume ok: "nodes_ok (set nodes)"
  have "lookup_ok (set nodes) (foldl add_node m ns)" if "lookup_ok (set nodes) m" "set ns \<subseteq> set nodes" for m ns
    using that
  proof (induction ns arbitrary: m)
    case (Cons n ns)
    then have "lookup_ok (set nodes) (add_node m n)" using ok by (auto simp: add_node_def lookup_ok_def nodes_ok_def)
    with Cons show ?case by simp
  qed simp
  from this [of "[]" nodes] show ?thesis by (simp add: build_lookup_def lookup_ok_def)
qed

lemma lookup_chain_ok: "lookup_ok nodes lookup \<Longrightarrow> lookup_chain lookup c pgc = Target n \<Longrightarrow> place_ok nodes n"
  by (auto simp: lookup_chain_def lookup_ok_def split: if_splits option.splits dest: map_of_SomeD)

lemma find_menu_ok:
  assumes "lookup_ok nodes lookup" "find_menu lookup kind vts menu = Target n"
  shows "place_ok nodes n"
proof -
  let ?matches = "filter (\<lambda>n. co_kind (node_coordinate n) = kind \<and> co_vts (node_coordinate n) = vts
      \<and> int (unat (co_menu (node_coordinate n))) = menu) (map snd lookup)"
  from assms(2) obtain rest where "sort_key (\<lambda>n. co_pgc (node_coordinate n)) ?matches = n # rest"
    unfolding find_menu_def Let_def by (auto split: list.splits)
  then have "n \<in> set (sort_key (\<lambda>n. co_pgc (node_coordinate n)) ?matches)" by (simp del: set_sort)
  then show ?thesis using assms(1) by (auto simp: lookup_ok_def)
qed

text \<open>Every transition that resolves leads to a place of the inventory.\<close>

lemma resolve_link_ok:
  assumes "nodes_ok nodes" "lookup_ok nodes lookup" "place_ok nodes current" "resolve_link current l lookup = Target n"
  shows "place_ok nodes n"
proof -
  have pgc: "pgc_ok (node_pgc current)" using assms(1,3) by (auto simp: place_ok_def nodes_ok_def)
  have here: "0 < co_program (node_coordinate current)" "co_program (node_coordinate current) \<le> int (unat (pgc_programs (node_pgc current)))"
      "0 < co_cell (node_coordinate current)" "co_cell (node_coordinate current) \<le> int (unat (pgc_cells (node_pgc current)))"
    using assms(3) by (simp_all add: place_ok_def)
  show ?thesis
    using assms(3,4) here pgc_cells [OF pgc]
    by (cases "link_command l")
      (auto simp: resolve_link_def Let_def target_of_def split: if_splits
        intro!: place_ok_program [OF assms(3,1)] place_ok_cell [OF assms(3,1)]
        dest: lookup_chain_ok [OF assms(2)] find_menu_ok [OF assms(2)])
qed

subsection \<open>The inventory of a disc\<close>

lemma select_language_less: "select_language units requested = Some i \<Longrightarrow> i < length units"
proof -
  have first: "first_index P xs = Some i \<Longrightarrow> i < length xs" for P and xs :: "language_unit list" and i
    by (induction xs arbitrary: i) (auto split: if_splits)
  show "select_language units requested = Some i \<Longrightarrow> i < length units"
    by (auto simp: select_language_def split: option.splits if_splits dest: first)
qed

lemma file_nodes_ok:
  assumes "file_ok f" "0 \<le> file_vts f" "file_vts f \<le> 99" "n \<in> set (file_nodes language f)"
  shows "pgc_ok (node_pgc n) \<and> in_range (node_coordinate n) \<and> place_ok {n} n"
proof -
  obtain i where i: "select_language (file_languages f) language = Some i"
    using assms(4) by (cases "select_language (file_languages f) language") (simp_all add: file_nodes_def)
  let ?u = "file_languages f ! i"
  note less = select_language_less [OF i]
  then have unit: "unit_ok ?u" and langs: "length (file_languages f) \<le> 99" using assms(1) by (auto simp: file_ok_def)
  from assms(4) i obtain p where p: "p \<in> set (lang_program_chains ?u)" and n: "n \<in> set (chain_nodes f i p)"
    by (auto simp: file_nodes_def)
  from p obtain k where k: "k < length (lang_program_chains ?u)" "p = lang_program_chains ?u ! k" by (auto simp: in_set_conv_nth)
  then have chain: "chain_ok (k + 1) p" and small: "k + 1 \<le> 999" using unit by (auto simp: unit_ok_def)
  from n obtain program where program: "1 \<le> program" "program \<le> unat (pgc_programs p)" "pgc_programs p \<noteq> 0"
      and node: "n = program_node f i p program"
    by (auto simp: chain_nodes_def split: if_splits)
  have pgc: "pgc_ok p" using chain small program(3) by (auto simp: pgc_ok_def word_gt_0 intro!: exI [of _ "k + 1"])
  have bounds: "0 < int program" "int program \<le> int (unat (pgc_programs p))" using program by linarith+
  have "pgc_number p = k + 1" using chain by (simp add: chain_ok_def)
  then have "in_range (node_coordinate n)" using assms(2,3) less langs small by (simp add: node program_node_def in_range_def)
  moreover have "place_ok {n} n" using cell_for_program_ok [OF pgc bounds] bounds by (simp add: node program_node_def place_ok_def)
  ultimately show ?thesis using pgc by (simp add: node program_node_def)
qed

lemma place_ok_mono: "place_ok ns n \<Longrightarrow> ns \<subseteq> ms \<Longrightarrow> place_ok ms n"
  by (auto simp: place_ok_def)

lemma inventory_ok:
  assumes "disc_ok disc" "inventory disc language = (nodes, seeds)"
  shows "nodes_ok (set nodes)" "set seeds \<subseteq> set nodes"
proof -
  have files: "file_ok f \<and> 0 \<le> file_vts f \<and> file_vts f \<le> 99" if "f \<in> set (disc_manager disc # disc_title_sets disc)" for f
    using assms(1) that by (auto simp: disc_ok_def list_all_iff)
  have nodes: "set nodes = (\<Union>f\<in>set (disc_manager disc # disc_title_sets disc). set (file_nodes language f))"
    using assms(2) by (auto simp: inventory_def Let_def)
  show "nodes_ok (set nodes)"
    unfolding nodes_ok_def
  proof
    fix n assume n: "n \<in> set nodes"
    then obtain f where "f \<in> set (disc_manager disc # disc_title_sets disc)" "n \<in> set (file_nodes language f)"
      unfolding nodes by blast
    note f = this files [OF this(1)]
    have "pgc_ok (node_pgc n) \<and> in_range (node_coordinate n) \<and> place_ok {n} n"
      using f by (intro file_nodes_ok) blast+
    moreover have "{n} \<subseteq> set nodes" using n by simp
    ultimately show "place_ok (set nodes) n \<and> pgc_ok (node_pgc n) \<and> in_range (node_coordinate n)"
      using place_ok_mono by blast
  qed
  define ns where "ns = concat (map (file_nodes language) (disc_manager disc # disc_title_sets disc))"
  have "set (snd (inventory disc language)) \<subseteq> set (fst (inventory disc language))"
    unfolding inventory_def Let_def ns_def [symmetric] by auto
  then show "set seeds \<subseteq> set nodes" unfolding assms(2) by simp
qed

subsection \<open>Identities never panic\<close>

lemma coordinate_value_yields: "0 \<le> v \<Longrightarrow> v < 2 ^ 32 \<Longrightarrow> yields (\<lambda>_. True) (coordinate_value v)"
  by (simp add: coordinate_value_def)

lemma place_in_range:
  assumes "nodes_ok nodes" "place_ok nodes n"
  shows "in_range (node_coordinate n)" "0 < co_program (node_coordinate n)" "co_program (node_coordinate n) < 256"
    "0 < co_cell (node_coordinate n)" "co_cell (node_coordinate n) < 256"
proof -
  obtain m where m: "m \<in> nodes" "key (node_coordinate m) = key (node_coordinate n)" using assms(2) by (auto simp: place_ok_def)
  then have "in_range (node_coordinate m)" using assms(1) by (auto simp: nodes_ok_def)
  with m(2) show "in_range (node_coordinate n)" by (simp add: in_range_def key_def)
  have "int (unat (b :: u8)) < 256" for b using unat_byte_less [of b] by linarith
  with assms(2) show "0 < co_program (node_coordinate n)" "co_program (node_coordinate n) < 256"
    "0 < co_cell (node_coordinate n)" "co_cell (node_coordinate n) < 256"
    unfolding place_ok_def by (meson le_less_trans)+
qed

lemma write_coordinate_yields:
  assumes "nodes_ok nodes" "place_ok nodes n"
  shows "yields (\<lambda>_. True) (write_coordinate (node_coordinate n))"
  unfolding write_coordinate_def
  by (intro yields_bind [OF coordinate_value_yields]) (use place_in_range [OF assms] in \<open>auto simp: in_range_def\<close>)

lemma identities_yield:
  assumes "nodes_ok nodes" "place_ok nodes n" "length (live_buttons live) < 2 ^ 32"
  shows "yields (\<lambda>_. True) (traversal_identity digest (node_coordinate n) regs run_pre)"
    "yields (\<lambda>_. True) (semantic_identity digest (node_coordinate n) regs live)"
    "yields (\<lambda>(_, has). has = (live_buttons live \<noteq> [])) (control_identity digest (node_coordinate n) live)"
proof -
  have state: "yields (\<lambda>_. True) (state_identity digest (node_coordinate n) regs)"
    unfolding state_identity_def by (rule yields_bind [OF write_coordinate_yields [OF assms(1,2)]]) simp
  show "yields (\<lambda>_. True) (traversal_identity digest (node_coordinate n) regs run_pre)"
    unfolding traversal_identity_def by (rule yields_bind [OF state]) simp
  show "yields (\<lambda>_. True) (semantic_identity digest (node_coordinate n) regs live)"
    unfolding semantic_identity_def by (rule yields_bind [OF state]) simp
  show "yields (\<lambda>(_, has). has = (live_buttons live \<noteq> [])) (control_identity digest (node_coordinate n) live)"
    unfolding control_identity_def Let_def
    by (intro yields_if yields_bind [OF coordinate_value_yields]) (use place_in_range [OF assms(1,2)] assms(3) in \<open>auto simp: in_range_def\<close>)
qed

subsection \<open>The invariant of the traversal\<close>

definition result_ok :: "menu_node set \<Rightarrow> graph_options \<Rightarrow> graph_result \<Rightarrow> bool" where
  "result_ok nodes opts r \<longleftrightarrow>
     (\<forall>s\<in>set (result_screens r). \<exists>n. place_ok nodes n \<and> node_coordinate n = screen_coordinate s)
     \<and> distinct (map screen_identity (result_screens r))
     \<and> int (length (result_screens r)) \<le> opt_max_items opts
     \<and> int (result_visited_states r) \<le> opt_max_states opts \<and> int (result_visited_buttons r) \<le> opt_max_buttons opts
     \<and> distinct (map warning_code (result_warnings r)) \<and> result_partial r = (result_warnings r \<noteq> [])"

text \<open>\<open>k\<close> is how many states may still be queued for what has been counted.\<close>

text \<open>The resolver was asked about a coordinate with these registers and gave this state.\<close>

definition answered :: "graph_env \<Rightarrow> request list \<Rightarrow> coordinate \<Rightarrow> registers \<Rightarrow> live_state \<Rightarrow> bool" where
  "answered env requests c regs live \<longleftrightarrow>
     (\<exists>i pgc. i < length requests \<and> requests ! i = (c, pgc, regs) \<and> ge_resolve env i c pgc regs = Inr live)"

definition request_ok :: "menu_node set \<Rightarrow> request \<Rightarrow> bool" where
  "request_ok nodes r \<longleftrightarrow> (\<exists>n. place_ok nodes n \<and> node_coordinate n = fst r \<and> node_pgc n = fst (snd r))"

definition requests_ok :: "graph_env \<Rightarrow> menu_node set \<Rightarrow> request list \<Rightarrow> screen list \<Rightarrow> bool" where
  "requests_ok env nodes requests screens \<longleftrightarrow> (\<forall>r\<in>set requests. request_ok nodes r)
     \<and> (\<forall>s\<in>set screens. answered env requests (screen_coordinate s) (screen_registers s) (screen_live s))"

lemma answered_more: "answered env requests c regs live \<Longrightarrow> answered env (requests @ later) c regs live"
  unfolding answered_def by (elim exE conjE, rename_tac i pgc, rule_tac x = i in exI, rule_tac x = pgc in exI) (simp add: nth_append)

lemma answered_now: "ge_resolve env (length requests) c pgc regs = Inr live \<Longrightarrow> answered env (requests @ [(c, pgc, regs)]) c regs live"
  unfolding answered_def by (rule exI [of _ "length requests"], rule exI [of _ pgc]) simp

definition run_ok :: "graph_env \<Rightarrow> nat \<Rightarrow> menu_node set \<Rightarrow> graph_options \<Rightarrow> nat \<Rightarrow> discovery \<Rightarrow> bool" where
  "run_ok env n nodes opts k d \<longleftrightarrow>
     result_ok nodes opts (d_result d) \<and> d_screen_ids d = rev (map screen_identity (result_screens (d_result d)))
     \<and> result_visited_states (d_result d) = length (d_seen d)
     \<and> (\<forall>s\<in>set (d_queue d). place_ok nodes (st_node s))
     \<and> requests_ok env nodes (d_requests d) (result_screens (d_result d))
     \<and> d_polls d + length (d_queue d) + k \<le> n + length (d_seen d) + result_visited_buttons (d_result d)"

lemma run_ok_untouched [simp]:
  "run_ok env n nodes opts k (d\<lparr>d_now_calls := a, d_random_calls := b\<rparr>) = run_ok env n nodes opts k d"
  "run_ok env n nodes opts k (d\<lparr>d_classified := c\<rparr>) = run_ok env n nodes opts k d"
  "run_ok env n nodes opts k (d\<lparr>d_reached := c', d_classified := c\<rparr>) = run_ok env n nodes opts k d"
  by (simp_all add: run_ok_def)

lemma run_ok_less: "run_ok env n nodes opts k d \<Longrightarrow> j \<le> k \<Longrightarrow> run_ok env n nodes opts j d"
  by (simp add: run_ok_def)

lemma run_ok_table:
  "run_table env budget commands regs d = (out, regs', d') \<Longrightarrow> run_ok env n nodes opts k d' = run_ok env n nodes opts k d"
  by (drule run_table_frame, erule ssubst) simp

lemma run_ok_request:
  "run_ok env n nodes opts k d \<Longrightarrow> place_ok nodes m \<Longrightarrow> run_ok env n nodes opts k (asked (node_coordinate m) (node_pgc m) regs d)"
  by (auto simp: asked_def run_ok_def requests_ok_def request_ok_def answered_more)

lemma run_ok_reached [simp]: "run_ok env n nodes opts k (reached_state c d) = run_ok env n nodes opts k d"
  by (simp add: reached_state_def run_ok_def)

lemma request_fields [simp]:
  "d_requests (asked c pgc regs d) = d_requests d @ [(c, pgc, regs)]" "d_requests (reached_state c d) = d_requests d"
  "d_classified (asked c pgc regs d) = d_classified d" "d_classified (reached_state c d) = List.insert c (d_classified d)"
  "d_reached (asked c pgc regs d) = d_reached d" "d_reached (reached_state c d) = List.insert c (d_reached d)"
  by (simp_all add: asked_def reached_state_def)

text \<open>A call of the resolver that does not panic.\<close>

lemma resolve_live_bind:
  assumes "yields (\<lambda>_. True) (ge_resolve env (length (d_requests d)) c pgc regs)" and "yields P (f (None, asked c pgc regs d))"
    and "\<And>live. ge_resolve env (length (d_requests d)) c pgc regs = Inr live \<Longrightarrow> yields P (f (Some live, asked c pgc regs d))"
  shows "yields P (go_bind (resolve_live env c pgc regs d) f)"
  using assms by (cases "ge_resolve env (length (d_requests d)) c pgc regs") (auto simp: resolve_live_def asked_def Let_def split: fault.split)

lemma run_ok_mark: "run_ok env n nodes opts k d \<Longrightarrow> run_ok env n nodes opts k (mark_partial code message d)"
  by (auto simp: run_ok_def result_ok_def mark_partial_def Let_def)

lemma run_ok_enqueue: "run_ok env n nodes opts (Suc k) d \<Longrightarrow> place_ok nodes (st_node s) \<Longrightarrow> run_ok env n nodes opts k (enqueue s d)"
  by (auto simp: run_ok_def enqueue_def)

lemma run_ok_store:
  assumes "run_ok env n nodes opts k d" "screen_id \<notin> set (d_screen_ids d)" "place_ok nodes m" "0 < opt_max_items opts"
    "answered env (d_requests d) (node_coordinate m) regs live"
  shows "run_ok env n nodes opts k (store_screen (opt_max_items opts) source (node_coordinate m) regs live screen_id control d)"
  using assms by (auto simp: run_ok_def result_ok_def requests_ok_def store_screen_def Let_def not_le)

lemma run_ok_count:
  assumes "run_ok env n nodes opts k d" "int (length (d_seen d)) < opt_max_states opts" "identity \<notin> set (d_seen d)"
  shows "run_ok env n nodes opts (Suc k) (count_visit identity d)"
  using assms by (auto simp: run_ok_def result_ok_def count_visit_def Let_def List.insert_def)

lemma run_ok_button:
  assumes "run_ok env n nodes opts k d" "int (result_visited_buttons (d_result d)) < opt_max_buttons opts"
  shows "run_ok env n nodes opts (Suc k) (d\<lparr>d_result := (d_result d)\<lparr>result_visited_buttons := result_visited_buttons (d_result d) + 1\<rparr>\<rparr>)"
  using assms by (auto simp: run_ok_def result_ok_def)

lemma run_ok_follow_link:
  assumes "nodes_ok nodes" "lookup_ok nodes lookup" "place_ok nodes (st_node current)" "run_ok env n nodes opts (Suc k) d"
  shows "run_ok env n nodes opts k (follow_link current lookup l regs code message d)"
  using assms run_ok_less [of env n nodes opts "Suc k" d k]
  by (auto simp: follow_link_def transition_def Let_def split: link_target.split
      intro!: run_ok_enqueue run_ok_mark dest: resolve_link_ok)

lemma run_ok_follow_buttons:
  assumes "nodes_ok nodes" "lookup_ok nodes lookup" "place_ok nodes (st_node current)" "run_ok env n nodes opts k d"
  shows "run_ok env n nodes opts k (follow_buttons env opts lookup current regs bs d)"
  using assms
proof (induction bs arbitrary: d)
  case (Cons b bs)
  show ?case
  proof (cases "int (result_visited_buttons (d_result d)) \<ge> opt_max_buttons opts")
    case False
    let ?d = "d\<lparr>d_result := (d_result d)\<lparr>result_visited_buttons := result_visited_buttons (d_result d) + 1\<rparr>\<rparr>"
    obtain out err regs' d' where table: "run_table env (opt_command_budget opts) [btn_command b] regs ?d = ((out, err), regs', d')"
      by (metis prod.exhaust)
    have ok: "run_ok env n nodes opts (Suc k) d'"
      using run_ok_button [OF Cons.prems(4)] False run_ok_table [OF table, of n nodes opts "Suc k"] by simp
    note less = run_ok_less [OF ok, of k]
    let ?next = "if err \<noteq> None then mark_partial ''button_command'' ''menu button command failed'' d'
      else if res_has_link out then follow_link current lookup (res_link out) regs' ''unsupported_button_link''
        ''menu button target was not resolved'' d'
      else if regs' \<noteq> regs then enqueue \<lparr>st_node = st_node current, st_registers = regs', st_depth = st_depth current + 1,
        st_run_pre = False, st_utility = st_utility current\<rparr> d'
      else d'"
    have "run_ok env n nodes opts k ?next"
      using less Cons.prems(3) run_ok_follow_link [OF Cons.prems(1-3) ok] ok by (simp add: run_ok_mark run_ok_enqueue)
    moreover have "follow_buttons env opts lookup current regs (b # bs) d = follow_buttons env opts lookup current regs bs ?next"
      using False table by (simp add: Let_def)
    ultimately show ?thesis using Cons.IH [OF Cons.prems(1-3)] by metis
  qed (use Cons.prems in \<open>simp add: run_ok_mark\<close>)
qed simp

lemma run_ok_follow_post:
  assumes "nodes_ok nodes" "lookup_ok nodes lookup" "place_ok nodes (st_node current)" "run_ok env n nodes opts (Suc k) d"
  shows "run_ok env n nodes opts k (follow_post env opts lookup current regs d)"
proof -
  obtain out err regs' d' where table: "run_table env (opt_command_budget opts) (pgc_post_commands (node_pgc (st_node current))) regs d
      = ((out, err), regs', d')" by (metis prod.exhaust)
  have ok: "run_ok env n nodes opts (Suc k) d'" using run_ok_table [OF table] assms(4) by simp
  note less = run_ok_less [OF ok, of k]
  show ?thesis
    using table ok less assms(2) run_ok_follow_link [OF assms(1-3) ok]
    by (auto simp: follow_post_def Let_def lookup_ok_def intro!: run_ok_mark run_ok_enqueue split: option.split dest!: map_of_SomeD)
qed

text \<open>On the program chains of a parsed file the resolver does not panic, and it gives no more buttons than a 32-bit count can
  hold; a display group has at most 36.\<close>

definition resolver_bounded :: "graph_env \<Rightarrow> bool" where
  "resolver_bounded env \<longleftrightarrow> (\<forall>i c pgc regs. pgc_ok pgc \<longrightarrow>
     yields (\<lambda>live. length (live_buttons live) < 2 ^ 32) (ge_resolve env i c pgc regs))"

definition setting_ok :: "menu_node set \<Rightarrow> graph_env \<Rightarrow> graph_options \<Rightarrow> node_lookup \<Rightarrow> bool" where
  "setting_ok nodes env opts lookup \<longleftrightarrow> nodes_ok nodes \<and> lookup_ok nodes lookup \<and> resolver_bounded env \<and> 0 < opt_max_items opts"

lemma settingD:
  assumes "setting_ok nodes env opts lookup"
  shows "nodes_ok nodes" "lookup_ok nodes lookup" "0 < opt_max_items opts"
    "place_ok nodes m \<Longrightarrow> yields (\<lambda>live. length (live_buttons live) < 2 ^ 32) (ge_resolve env i c (node_pgc m) regs)"
proof -
  show "nodes_ok nodes" "lookup_ok nodes lookup" "0 < opt_max_items opts" using assms by (simp_all add: setting_ok_def)
  show "yields (\<lambda>live. length (live_buttons live) < 2 ^ 32) (ge_resolve env i c (node_pgc m) regs)" if m: "place_ok nodes m"
  proof -
    have "pgc_ok (node_pgc m)" using assms m by (auto simp: setting_ok_def place_ok_def nodes_ok_def)
    then show ?thesis using assms by (simp add: setting_ok_def resolver_bounded_def)
  qed
qed

lemma select_screen_ok:
  assumes "run_ok env n nodes opts k d" "place_ok nodes m" "length (live_buttons live) < 2 ^ 32"
    and setting: "setting_ok nodes env opts lookup" and asked: "answered env (d_requests d) (node_coordinate m) regs live"
  shows "yields (run_ok env n nodes opts k) (select_screen env opts (node_coordinate m) regs live d)"
proof -
  note nodes = settingD(1) [OF setting] and items = settingD(3) [OF setting]
  show ?thesis
    unfolding select_screen_def
    by (rule yields_bind [OF identities_yield(2) [OF nodes assms(2,3)]],
        rule yields_bind [OF identities_yield(3) [OF nodes assms(2,3)]])
      (simp add: assms(1) run_ok_store [OF assms(1) _ assms(2) items asked])
qed

lemma structural_screen_ok:
  assumes "run_ok env n nodes opts k d" "place_ok nodes m" "length (live_buttons live) < 2 ^ 32"
    and setting: "setting_ok nodes env opts lookup"
    and asked: "answered env (d_requests d) (node_coordinate m) (opt_registers opts) live"
  shows "yields (run_ok env n nodes opts k) (structural_screen env opts (node_coordinate m) live d)"
proof -
  note nodes = settingD(1) [OF setting] and items = settingD(3) [OF setting]
  have "d_screen_ids (mark_partial code message d) = d_screen_ids d" "d_requests (mark_partial code message d) = d_requests d" for code message
    by (simp_all add: mark_partial_def Let_def)
  then show ?thesis
    unfolding structural_screen_def
    by (intro yields_bind [OF identities_yield(2) [OF nodes assms(2,3)]] yields_if
        yields_bind [OF identities_yield(3) [OF nodes assms(2,3)]])
      (simp_all add: assms(1) asked run_ok_store [OF run_ok_mark [OF assms(1)] _ assms(2) items])
qed

lemma classify_state_ok:
  assumes "run_ok env n nodes opts (Suc k) d" "place_ok nodes (st_node current)" and setting: "setting_ok nodes env opts lookup"
  shows "yields (run_ok env n nodes opts k) (classify_state env opts lookup current regs d)"
proof -
  note nodes = settingD(1) [OF setting] and lookup = settingD(2) [OF setting]
  note bounded = settingD(4) [OF setting assms(2), of "length (d_requests d)" "node_coordinate (st_node current)" regs]
  let ?c = "node_coordinate (st_node current)" and ?pgc = "node_pgc (st_node current)"
  let ?asked = "asked ?c ?pgc regs d"
  have ok: "run_ok env n nodes opts (Suc k) ?asked" by (rule run_ok_request [OF assms(1,2)])
  show ?thesis
    unfolding classify_state_def Let_def
  proof (rule resolve_live_bind [OF yields_mono [OF bounded]])
    fix live assume live: "ge_resolve env (length (d_requests d)) ?c ?pgc regs = Inr live"
    then have small: "length (live_buttons live) < 2 ^ 32" using yieldsD [OF bounded] by simp
    have "answered env (d_requests (reached_state ?c ?asked)) ?c regs live" using answered_now [OF live] by simp
    then have "yields (run_ok env n nodes opts (Suc k)) (if live_visible live \<and> \<not> st_utility current
        then select_screen env opts ?c regs live (reached_state ?c ?asked) else Inr (reached_state ?c ?asked))"
      using ok by (intro yields_if select_screen_ok [OF _ assms(2) small setting]) (simp_all only: yields_simps run_ok_reached)
    then show "yields (run_ok env n nodes opts k) (case (Some live, ?asked) of (resolved, d) \<Rightarrow> case resolved of
        None \<Rightarrow> Inr (mark_partial ''live_state'' ''menu NAV/SPU state could not be resolved'' d)
      | Some live \<Rightarrow> go_bind (if live_visible live \<and> \<not> st_utility current
          then select_screen env opts ?c regs live (d\<lparr>d_reached := List.insert ?c (d_reached d), d_classified := List.insert ?c (d_classified d)\<rparr>)
          else Inr (d\<lparr>d_reached := List.insert ?c (d_reached d), d_classified := List.insert ?c (d_classified d)\<rparr>))
        (\<lambda>d. Inr (follow_post env opts lookup current regs (follow_buttons env opts lookup current regs (live_buttons live) d))))"
      unfolding prod.case option.case reached_state_def [symmetric]
      by (rule yields_bind) (simp add: run_ok_follow_post [OF nodes lookup assms(2)] run_ok_follow_buttons [OF nodes lookup assms(2)])
  qed (use ok in \<open>simp_all add: run_ok_mark run_ok_less [of _ _ _ _ "Suc k"]\<close>)
qed

lemma visit_state_ok:
  assumes "run_ok env n nodes opts (Suc k) d" "place_ok nodes (st_node current)" and setting: "setting_ok nodes env opts lookup"
  shows "yields (run_ok env n nodes opts k) (visit_state env opts lookup current d)"
proof -
  obtain out err regs' d' where table: "run_table env (opt_command_budget opts) (pgc_pre_commands (node_pgc (st_node current)))
      (st_registers current) d = ((out, err), regs', d')" by (metis prod.exhaust)
  have ok: "run_ok env n nodes opts (Suc k) d'" using run_ok_table [OF table] assms(1) by simp
  show ?thesis
    using table classify_state_ok [OF ok assms(2,3)] classify_state_ok [OF assms] run_ok_mark [OF run_ok_less [OF ok, of k]]
      run_ok_follow_link [OF settingD(1,2) [OF setting] assms(2) ok]
    by (simp add: visit_state_def)
qed

lemma discover_round_ok:
  assumes "run_ok env n nodes opts 0 d" "place_ok nodes (st_node current)" and setting: "setting_ok nodes env opts lookup"
  shows "yields (\<lambda>(more, d'). run_ok env n nodes opts 0 d') (discover_round env opts lookup current d)"
proof -
  have identity: "yields (\<lambda>_. True) (traversal_identity (ge_digest env) (node_coordinate (st_node current)) (st_registers current) (st_run_pre current))"
    using identities_yield(1) [OF settingD(1) [OF setting] assms(2), of "\<lparr>live_visible = False, live_buttons = [], live_fingerprint = [],
      live_has_overlay = False, live_has_highlight = False, live_authored_still = False, live_authored_entry = False\<rparr>"] by simp
  show ?thesis
    unfolding discover_round_def
    by (intro yields_if yields_bind [OF identity] yields_bind [OF visit_state_ok [OF run_ok_count [OF assms(1)] assms(2,3)]])
      (simp_all add: assms(1) run_ok_mark)
qed

declare discover_loop.simps [simp del]

lemma discover_loop_ok:
  assumes "run_ok env n nodes opts 0 d" "setting_ok nodes env opts lookup"
  shows "yields (run_ok env n nodes opts 0) (discover_loop env opts lookup d)"
  using assms
proof (induction env opts lookup d rule: discover_loop.induct)
  case (1 env opts lookup d)
  show ?case
  proof (cases "d_queue d")
    case (Cons current rest)
    let ?d = "d\<lparr>d_queue := rest, d_polls := d_polls d + 1\<rparr>"
    have ok: "run_ok env n nodes opts 0 ?d" "place_ok nodes (st_node current)" using "1.prems"(1) Cons by (auto simp: run_ok_def)
    have "yields (run_ok env n nodes opts 0) (go_bind (discover_round env opts lookup current ?d) (\<lambda>(more, d').
        if more then discover_loop env opts lookup d' else Inr d'))" if "\<not> ge_cancelled env (d_polls d)"
      by (rule yields_bind [OF discover_round_ok [OF ok "1.prems"(2)]]) (use "1.IH" [OF Cons that] "1.prems"(2) in auto)
    then show ?thesis using Cons by (subst discover_loop.simps) simp
  qed (subst discover_loop.simps, use "1.prems" in simp)
qed

lemma structural_node_ok:
  assumes "run_ok env n nodes opts k d" "place_ok nodes item" and setting: "setting_ok nodes env opts lookup"
  shows "yields (run_ok env n nodes opts k) (structural_node env opts item d)"
proof -
  let ?c = "node_coordinate item" and ?regs = "opt_registers opts"
  let ?asked = "asked ?c (node_pgc item) ?regs d"
  let ?d = "?asked\<lparr>d_classified := List.insert ?c (d_classified ?asked)\<rparr>"
  note bounded = settingD(4) [OF setting assms(2), of "length (d_requests d)" ?c ?regs]
  have ok: "run_ok env n nodes opts k ?asked" by (rule run_ok_request [OF assms(1,2)])
  have live: "yields (run_ok env n nodes opts k) (structural_screen env opts ?c live ?d)"
    if live: "ge_resolve env (length (d_requests d)) ?c (node_pgc item) ?regs = Inr live" for live
  proof (rule structural_screen_ok [OF _ assms(2) _ setting])
    show "run_ok env n nodes opts k ?d" using ok by simp
    show "length (live_buttons live) < 2 ^ 32" using yieldsD [OF bounded live] .
    show "answered env (d_requests ?d) ?c ?regs live" using answered_now [OF live] by simp
  qed
  show ?thesis
    unfolding structural_node_def Let_def
    by (rule yields_if, simp add: assms(1), rule resolve_live_bind [OF yields_mono [OF bounded]])
      (use ok live in \<open>simp_all add: run_ok_mark del: request_fields\<close>)
qed

lemma structural_pass_ok:
  assumes "run_ok env n nodes opts 0 d" "set items \<subseteq> nodes" and setting: "setting_ok nodes env opts lookup"
  shows "yields (run_ok env n nodes opts 0) (structural_pass env opts items d)"
  using assms(1,2)
proof (induction items arbitrary: d)
  case (Cons item items)
  have place: "place_ok nodes item" using settingD(1) [OF setting] Cons.prems(2) by (auto simp: nodes_ok_def)
  have "yields (run_ok env n nodes opts 0) (structural_node env opts item d)"
    using Cons.prems(1) structural_node_ok [OF Cons.prems(1) place setting] by simp
  then show ?case using Cons.IH Cons.prems(2) by (auto intro: yields_bind)
qed simp

lemma initial_ok:
  assumes "\<not> options_invalid opts" "nodes_ok (set nodes)" "set seeds \<subseteq> set nodes"
  shows "run_ok env (length seeds) (set nodes) opts 0 (initial_discovery opts nodes seeds)"
  using assms
  by (auto simp: run_ok_def result_ok_def requests_ok_def initial_discovery_def initial_result_def Let_def options_invalid_def seed_state_def nodes_ok_def)

lemma effective_items: "\<not> options_invalid (effective_options opts) \<Longrightarrow> 0 < opt_max_items (effective_options opts)
    \<and> opt_max_items (effective_options opts) \<le> 32"
  by (auto simp: options_invalid_def effective_options_def with_default_def default_max_items_def max_menu_items_def)

lemma effective_language [simp]: "opt_language (effective_options opts) = opt_language opts"
  by (simp add: effective_options_def)

lemma setting_of_disc:
  assumes "disc_ok disc" "inventory disc language = (nodes, seeds)" "resolver_bounded env" "\<not> options_invalid (effective_options opts)"
  shows "setting_ok (set nodes) env (effective_options opts) (build_lookup nodes)"
  using assms inventory_ok [OF assms(1,2)] build_lookup_ok [of nodes] effective_items [of opts] by (simp add: setting_ok_def)

lemma discover_loop_disc:
  assumes "disc_ok disc" "inventory disc language = (nodes, seeds)" "resolver_bounded env" "\<not> options_invalid (effective_options opts)"
  shows "yields (run_ok env (length seeds) (set nodes) (effective_options opts) 0)
    (discover_loop env (effective_options opts) (build_lookup nodes) (initial_discovery (effective_options opts) nodes seeds))"
  by (rule discover_loop_ok [OF initial_ok [OF assms(4) inventory_ok [OF assms(1,2)]] setting_of_disc [OF assms]])

text \<open>What a discovery gives: its result, and the requests it made of the resolver.\<close>

definition found_ok :: "graph_env \<Rightarrow> dvd_disc \<Rightarrow> graph_options \<Rightarrow> (graph_result \<times> graph_error option) \<times> request list \<Rightarrow> bool" where
  "found_ok env disc opts f \<longleftrightarrow> (case f of ((r, e), requests) \<Rightarrow>
     result_ok (set (fst (inventory disc (opt_language opts)))) (effective_options opts) r
     \<and> requests_ok env (set (fst (inventory disc (opt_language opts)))) requests (result_screens r)
     \<and> opt_max_items (effective_options opts) \<le> 32 \<and> (e = None) = (result_screens r \<noteq> [])
     \<and> (if result_complete r then \<not> result_truncated r \<and> result_warnings r = [] else True))"

lemma discover_with_yields:
  assumes "disc_ok disc" "resolver_bounded env"
  shows "yields (found_ok env disc opts) (discover_with (Some env) disc opts)"
proof (cases "options_invalid (effective_options opts)")
  case False
  obtain nodes seeds where inv: "inventory disc (opt_language opts) = (nodes, seeds)" by (metis prod.exhaust)
  note items = effective_items [OF False]
  have "yields (found_ok env disc opts)
    (go_bind (discover_loop env (effective_options opts) (build_lookup nodes) (initial_discovery (effective_options opts) nodes seeds)) (\<lambda>d.
      go_bind (structural_pass env (effective_options opts) nodes d) (\<lambda>d. Inr (finish_discovery nodes d, d_requests d))))"
    by (rule yields_bind [OF discover_loop_disc [OF assms(1) inv assms(2) False]],
        rule yields_bind [OF structural_pass_ok [OF _ order_refl setting_of_disc [OF assms(1) inv assms(2) False]]], assumption)
      (auto simp: finish_discovery_def Let_def run_ok_def result_ok_def found_ok_def inv items)
  moreover have "result_ok {} (effective_options opts) (initial_result 0)" "requests_ok env {} [] (result_screens (initial_result 0))"
    using False items by (simp_all add: result_ok_def requests_ok_def initial_result_def options_invalid_def)
  ultimately show ?thesis using False items inv
    by (auto simp: discover_with_def Let_def initial_result_def found_ok_def elim: yields_mono)
qed (simp add: discover_with_def Let_def)

lemma discover_yields:
  assumes "disc_ok disc" "resolver_bounded env"
  shows "yields (\<lambda>(r, e). result_ok (set (fst (inventory disc (opt_language opts)))) (effective_options opts) r
      \<and> opt_max_items (effective_options opts) \<le> 32 \<and> (e = None) = (result_screens r \<noteq> [])) (discover (Some env) disc opts)"
  unfolding discover_def by (rule yields_bind [OF discover_with_yields [OF assms]]) (auto simp: found_ok_def)

subsection \<open>A disc with one menu\<close>

text \<open>One menu program of two cells; its button links to the second.\<close>

definition sample_chain :: program_chain where
  "sample_chain =
     \<lparr>pgc_number = 1, pgc_entry_id = 0x83, pgc_menu_id = 3, pgc_programs = 1, pgc_cells = 2,
      pgc_playback_time = \<lparr>time_hour = 0, time_minute = 0, time_second = 1, time_frame = 0x40\<rparr>,
      pgc_next = 0, pgc_previous = 0, pgc_go_up = 0, pgc_playback_mode = 0, pgc_still_time = 0,
      pgc_audio_control = replicate 8 0, pgc_subpicture_control = replicate 32 0, pgc_palette = replicate 16 0,
      pgc_pre_commands = [], pgc_post_commands = [], pgc_cell_commands = [], pgc_program_map = [1],
      pgc_cell_playback = replicate 2 \<lparr>cell_flags = 0, cell_still_time = 255, cell_command_number = 0,
        cell_playback_time = \<lparr>time_hour = 0, time_minute = 0, time_second = 1, time_frame = 0x40\<rparr>,
        cell_first_sector = 0, cell_first_ilvu_end = 0, cell_last_vobu_start = 0, cell_last_sector = 0\<rparr>,
      pgc_cell_positions = replicate 2 \<lparr>position_vob = 1, position_cell = 1\<rparr>\<rparr>"

definition menu_disc :: dvd_disc where
  "menu_disc = \<lparr>disc_manager = (empty_file kind_manager 0 ''VIDEO_TS.IFO'')\<lparr>file_languages :=
       [\<lparr>lang_code = [0x65, 0x6e], lang_extension = 0, lang_exists = 0x80, lang_program_chains = [sample_chain]\<rparr>]\<rparr>,
     disc_title_sets = []\<rparr>"

lemma menu_disc_ok: "disc_ok menu_disc"
  by (simp add: menu_disc_def disc_ok_def file_ok_def unit_ok_def chain_ok_def cell_ok_def sample_chain_def empty_file_def)

definition cell_two :: command where
  "cell_two = [0x20, 0x07, 0, 0, 0, 0, 0, 0x02]"

definition menu_button :: button where
  "menu_button = \<lparr>btn_number = 1, btn_color_group = 1, btn_x_start = 100, btn_y_start = 40, btn_x_end = 300, btn_y_end = 80,
     btn_auto_action = False, btn_up = 0, btn_down = 0, btn_left = 0, btn_right = 0, btn_command = cell_two\<rparr>"

definition menu_live :: "button list \<Rightarrow> live_state" where
  "menu_live bs = \<lparr>live_visible = True, live_buttons = bs, live_fingerprint = [], live_has_overlay = True,
     live_has_highlight = False, live_authored_still = True, live_authored_entry = True\<rparr>"

definition menu_env :: graph_env where
  "menu_env = \<lparr>ge_digest = (\<lambda>bs. bs),
     ge_resolve = (\<lambda>i c pgc regs. Inr (menu_live (if co_cell c = 1 then [menu_button] else []))),
     ge_cancelled = (\<lambda>_. False), ge_now = (\<lambda>_. 1), ge_random = None\<rparr>"

definition menu_options :: graph_options where
  "menu_options = \<lparr>opt_language = [], opt_max_items = 0, opt_max_states = 0, opt_max_depth = 0, opt_max_buttons = 0,
     opt_registers = \<lparr>reg_general = replicate 16 0, reg_system = replicate 24 0, reg_counter_mode = replicate 16 False,
       reg_counter_origin = replicate 16 0\<rparr>, opt_command_budget = 0\<rparr>"

subsection \<open>The properties\<close>

text \<open>C27: Discovery on any disc the inventory accepts, with any resolver that does not panic on the chains of a parsed file
  and whose buttons a 32-bit count can hold, never panics: it gives an error, or a result within the item, state and button limits whose screens are pairwise distinct and lie at
  places of the inventory, and an error comes with it exactly when it has no screen.\<close>

lemma discovery_stays_in_bounds:
  assumes "disc_ok disc" and "resolver_bounded env"
  shows "yields (\<lambda>(r, e).
      int (length (result_screens r)) \<le> opt_max_items (effective_options opts) \<and> length (result_screens r) \<le> 32
      \<and> int (result_visited_states r) \<le> opt_max_states (effective_options opts)
      \<and> int (result_visited_buttons r) \<le> opt_max_buttons (effective_options opts)
      \<and> distinct (map screen_identity (result_screens r))
      \<and> list_all (\<lambda>s. \<exists>n. place_ok (set (fst (inventory disc (opt_language opts)))) n \<and> node_coordinate n = screen_coordinate s)
          (result_screens r)
      \<and> (e = None) = (result_screens r \<noteq> [])) (discover (Some env) disc opts)"
  by (rule yields_mono [OF discover_yields [OF assms]]) (auto simp: result_ok_def list_all_iff)

lemma menu_env_bounded: "resolver_bounded menu_env"
  by (auto simp: resolver_bounded_def menu_env_def menu_live_def)

lemma discovery_stays_in_bounds_witness:
  "(case discover (Some menu_env) menu_disc menu_options of
      Inr (r, e) \<Rightarrow> length (result_screens r) \<le> 32 \<and> distinct (map screen_identity (result_screens r)) | Inl _ \<Rightarrow> True)"
  using discovery_stays_in_bounds [OF menu_disc_ok menu_env_bounded, of menu_options]
  by (auto simp: yields_def split: sum.splits)

text \<open>C28: The traversal ends: it goes round its loop at most once for each seed, each state and each button its limits allow,
  whatever the commands do.\<close>

lemma discovery_rounds_are_bounded:
  assumes "disc_ok disc" and "inventory disc language = (nodes, seeds)" and "resolver_bounded env"
    and "\<not> options_invalid (effective_options opts)"
  shows "yields (\<lambda>d. int (d_polls d) \<le> int (length seeds) + opt_max_states (effective_options opts)
        + opt_max_buttons (effective_options opts))
    (discover_loop env (effective_options opts) (build_lookup nodes) (initial_discovery (effective_options opts) nodes seeds))"
  by (rule yields_mono [OF discover_loop_disc [OF assms]]) (auto simp: run_ok_def result_ok_def)

lemma discovery_rounds_are_bounded_witness:
  "(case inventory menu_disc [] of (nodes, seeds) \<Rightarrow>
      yields (\<lambda>d. int (d_polls d) \<le> int (length seeds) + 4096 + 16384)
        (discover_loop menu_env (effective_options menu_options) (build_lookup nodes)
          (initial_discovery (effective_options menu_options) nodes seeds)))"
proof -
  obtain nodes seeds where inv: "inventory menu_disc [] = (nodes, seeds)" by (metis prod.exhaust)
  have "\<not> options_invalid (effective_options menu_options)"
    "opt_max_states (effective_options menu_options) = 4096" "opt_max_buttons (effective_options menu_options) = 16384"
    by (simp_all add: options_invalid_def effective_options_def menu_options_def with_default_def default_max_items_def
        max_menu_items_def default_max_states_def default_max_depth_def default_max_buttons_def)
  with discovery_rounds_are_bounded [OF menu_disc_ok inv menu_env_bounded, of menu_options] inv show ?thesis by simp
qed

end
