(* ===== verification/DvdCompletion.thy ===== *)
theory DvdCompletion
  imports DvdGraphProps
begin

text \<open>
  When a discovery reports itself complete: the coordinates it has classified are exactly those the resolver
  answered for, every inventoried program is among them unless the result is partial, and so the count of
  classified coordinates can equal the count of programs only when no other coordinate was resolved.
\<close>

subsection \<open>What only the resolver's answers change\<close>

definition ledger :: "discovery \<Rightarrow> request list \<times> coordinate list \<times> coordinate list" where
  "ledger d = (d_requests d, d_classified d, d_reached d)"

lemma ledger_frame [simp]:
  "ledger (mark_partial code message d) = ledger d" "ledger (enqueue s d) = ledger d" "ledger (count_visit identity d) = ledger d"
  "ledger (follow_link current lookup l regs code message d) = ledger d"
  "ledger (store_screen n source c regs live screen_id control d) = ledger d"
  by (simp_all add: ledger_def mark_partial_def enqueue_def count_visit_def follow_link_def store_screen_def Let_def split: link_target.split)

lemma run_table_ledger: "run_table env budget commands regs d = (out, regs', d') \<Longrightarrow> ledger d' = ledger d"
  by (auto simp: run_table_def ledger_def split: option.splits prod.splits)

lemma follow_buttons_ledger [simp]: "ledger (follow_buttons env opts lookup current regs bs d) = ledger d"
proof (induction env opts lookup current regs bs d rule: follow_buttons.induct)
  case (2 env opts lookup current regs b bs d)
  then show ?case by (auto simp: Let_def split: prod.splits dest!: run_table_ledger) (simp_all add: ledger_def)
qed simp

lemma follow_post_ledger [simp]: "ledger (follow_post env opts lookup current regs d) = ledger d"
  by (auto simp: follow_post_def Let_def split: prod.split option.split dest!: run_table_ledger)

lemma select_screen_ledger: "select_screen env opts c regs live d = Inr d' \<Longrightarrow> ledger d' = ledger d"
  by (auto simp: select_screen_def go_bind_Inr split: if_splits)

lemma structural_screen_ledger: "structural_screen env opts c live d = Inr d' \<Longrightarrow> ledger d' = ledger d"
  by (auto simp: structural_screen_def go_bind_Inr split: if_splits)

subsection \<open>The classified coordinates\<close>

lemma answered_append:
  "answered env (requests @ [(c, pgc, regs)]) c' regs' live \<longleftrightarrow>
     answered env requests c' regs' live \<or> c' = c \<and> regs' = regs \<and> ge_resolve env (length requests) c pgc regs = Inr live"
  (is "?more \<longleftrightarrow> ?old \<or> ?new")
proof
  assume ?more
  then obtain i pgc' where i: "i < Suc (length requests)" "(requests @ [(c, pgc, regs)]) ! i = (c', pgc', regs')"
    "ge_resolve env i c' pgc' regs' = Inr live" by (auto simp: answered_def)
  then show "?old \<or> ?new"
    by (cases "i < length requests") (auto simp: answered_def nth_append less_Suc_eq)
qed (auto intro: answered_more answered_now)

definition charted :: "graph_env \<Rightarrow> discovery \<Rightarrow> bool" where
  "charted env d \<longleftrightarrow> distinct (d_classified d) \<and> set (d_reached d) \<subseteq> set (d_classified d)
     \<and> set (d_classified d) = {c. \<exists>regs live. answered env (d_requests d) c regs live}"

lemma charted_ledger: "ledger d' = ledger d \<Longrightarrow> charted env d' = charted env d"
  by (simp add: charted_def ledger_def)

lemma charted_error:
  "charted env d \<Longrightarrow> \<forall>live. ge_resolve env (length (d_requests d)) c pgc regs \<noteq> Inr live \<Longrightarrow> charted env (asked c pgc regs d)"
  by (auto simp only: charted_def request_fields answered_append)

lemma charted_live:
  assumes "charted env d" "ge_resolve env (length (d_requests d)) c pgc regs = Inr live"
    "d_requests d' = d_requests d @ [(c, pgc, regs)]" "d_classified d' = List.insert c (d_classified d)"
    "set (d_reached d') \<subseteq> insert c (set (d_reached d))"
  shows "charted env d'"
  using assms by (auto simp: charted_def answered_append)

lemma classify_state_charted: "classify_state env opts lookup current regs d = Inr d' \<Longrightarrow> charted env d \<Longrightarrow> charted env d'"
proof (erule classify_state_cases)
  fix live d1
  let ?c = "node_coordinate (st_node current)" and ?pgc = "node_pgc (st_node current)"
  assume ok: "charted env d" and live: "ge_resolve env (length (d_requests d)) ?c ?pgc regs = Inr live"
    and d1: "(if live_visible live \<and> \<not> st_utility current then select_screen env opts ?c regs live else Inr)
      (reached_state ?c (asked ?c ?pgc regs d)) = Inr d1"
    and d': "d' = follow_post env opts lookup current regs (follow_buttons env opts lookup current regs (live_buttons live) d1)"
  have "ledger d' = ledger (reached_state ?c (asked ?c ?pgc regs d))"
    using d1 select_screen_ledger by (auto simp: d' split: if_splits)
  moreover have "charted env (reached_state ?c (asked ?c ?pgc regs d))" by (rule charted_live [OF ok live]) auto
  ultimately show "charted env d'" using charted_ledger by metis
qed (simp add: charted_ledger [OF ledger_frame(1)] charted_error)

lemma visit_state_charted: "visit_state env opts lookup current d = Inr d' \<Longrightarrow> charted env d \<Longrightarrow> charted env d'"
  by (auto simp: visit_state_def split: if_splits prod.splits dest!: run_table_ledger
      intro: classify_state_charted charted_ledger [THEN iffD2] charted_ledger [OF ledger_frame(1), THEN iffD2]
        charted_ledger [OF ledger_frame(4), THEN iffD2])

lemma discover_round_charted:
  "discover_round env opts lookup current d = Inr (again, d') \<Longrightarrow> charted env d \<Longrightarrow> charted env d'"
  by (auto simp: discover_round_def go_bind_Inr charted_ledger [OF ledger_frame(1)] charted_ledger [OF ledger_frame(3)]
      split: if_splits dest!: visit_state_charted)

lemma discover_loop_charted: "discover_loop env opts lookup d = Inr d' \<Longrightarrow> charted env d \<Longrightarrow> charted env d'"
proof (induction env opts lookup d rule: discover_loop.induct)
  case (1 env opts lookup d)
  show ?case
  proof (cases "d_queue d")
    case (Cons current rest)
    let ?d = "d\<lparr>d_queue := rest, d_polls := d_polls d + 1\<rparr>"
    from "1.prems"(1) Cons obtain again d1 where calm: "\<not> ge_cancelled env (d_polls d)"
      and round: "discover_round env opts lookup current ?d = Inr (again, d1)"
      and rest: "(if again then discover_loop env opts lookup d1 else Inr d1) = Inr d'"
      by (subst (asm) discover_loop.simps) (auto simp: go_bind_Inr split: if_splits)
    have "charted env ?d" using "1.prems"(2) by (auto simp: charted_def)
    then have "charted env d1" by (rule discover_round_charted [OF round])
    then show ?thesis using "1.IH" [OF Cons calm round refl] rest by (cases again) simp_all
  qed (use "1.prems" in \<open>simp add: discover_loop.simps\<close>)
qed

text \<open>Behind the structural pass each program is classified, unless the result is partial.\<close>

lemma partial_mark [simp]: "result_partial (d_result (mark_partial code message d))"
  by (simp add: mark_partial_def Let_def)

lemma structural_screen_partial:
  assumes "structural_screen env opts c live d = Inr d'" "result_partial (d_result d)"
  shows "result_partial (d_result d')"
proof -
  have "result_partial (d_result (store_screen n source c regs live screen_id control d))" if "result_partial (d_result d)"
    for n source regs screen_id control d
    using that by (simp add: store_screen_def Let_def)
  then show ?thesis using assms by (auto simp: structural_screen_def go_bind_Inr split: if_splits)
qed

lemma structural_node_cases:
  assumes "structural_node env opts item d = Inr d'"
  obtains (known) "d' = d" "node_coordinate item \<in> set (d_reached d)"
  | (error) "ledger d' = ledger (asked (node_coordinate item) (node_pgc item) (opt_registers opts) d)" "result_partial (d_result d')"
      "\<forall>live. ge_resolve env (length (d_requests d)) (node_coordinate item) (node_pgc item) (opt_registers opts) \<noteq> Inr live"
  | (live) live where "ge_resolve env (length (d_requests d)) (node_coordinate item) (node_pgc item) (opt_registers opts) = Inr live"
      "ledger d' = (d_requests d @ [(node_coordinate item, node_pgc item, opt_registers opts)],
        List.insert (node_coordinate item) (d_classified d), d_reached d)"
      "result_partial (d_result d) \<longrightarrow> result_partial (d_result d')"
proof (cases "node_coordinate item \<in> set (d_reached d)")
  case False
  then obtain resolved d1 where resolved: "resolve_live env (node_coordinate item) (node_pgc item) (opt_registers opts) d = Inr (resolved, d1)"
    using assms by (auto simp: structural_node_def go_bind_Inr Let_def)
  then show ?thesis
  proof (cases rule: resolve_live_cases)
    case error
    then have "d' = mark_partial ''structural_state'' ''structural menu candidate could not be classified''
        (asked (node_coordinate item) (node_pgc item) (opt_registers opts) d)"
      using assms False resolved by (simp add: structural_node_def Let_def)
    with error(3) that(2) show ?thesis by simp
  next
    case (live live)
    let ?d = "(asked (node_coordinate item) (node_pgc item) (opt_registers opts) d)
      \<lparr>d_classified := List.insert (node_coordinate item) (d_classified d)\<rparr>"
    have "d' = ?d \<or> structural_screen env opts (node_coordinate item) live ?d = Inr d'"
      using live(1,2) assms False resolved by (auto simp: structural_node_def Let_def asked_def split: if_splits)
    then have "ledger d' = ledger ?d" "result_partial (d_result ?d) \<longrightarrow> result_partial (d_result d')"
      using structural_screen_ledger structural_screen_partial by blast+
    then show ?thesis using live(3) that(3) [of live] by (simp add: ledger_def asked_def)
  qed
qed (use assms that(1) in \<open>simp add: structural_node_def Let_def\<close>)

lemma structural_node_charted:
  assumes "structural_node env opts item d = Inr d'" "charted env d"
  shows "charted env d'" "set (d_classified d) \<subseteq> set (d_classified d')"
    "node_coordinate item \<in> set (d_classified d') \<or> result_partial (d_result d')"
    "result_partial (d_result d) \<Longrightarrow> result_partial (d_result d')"
proof -
  have "charted env d' \<and> set (d_classified d) \<subseteq> set (d_classified d')
    \<and> (node_coordinate item \<in> set (d_classified d') \<or> result_partial (d_result d'))
    \<and> (result_partial (d_result d) \<longrightarrow> result_partial (d_result d'))"
    using assms(1)
  proof (cases rule: structural_node_cases)
    case known
    then show ?thesis using assms(2) by (auto simp: charted_def)
  next
    case error
    then show ?thesis using charted_ledger [OF error(1)] charted_error [OF assms(2) error(3)] by (simp add: ledger_def)
  next
    case (live live)
    then have "charted env d'" by (intro charted_live [OF assms(2) live(1)]) (auto simp: ledger_def)
    then show ?thesis using live(2,3) by (auto simp: ledger_def)
  qed
  then show "charted env d'" "set (d_classified d) \<subseteq> set (d_classified d')"
    "node_coordinate item \<in> set (d_classified d') \<or> result_partial (d_result d')"
    "result_partial (d_result d) \<Longrightarrow> result_partial (d_result d')" by blast+
qed

lemma structural_pass_charted:
  assumes "structural_pass env opts items d = Inr d'" "charted env d"
  shows "charted env d' \<and> set (d_classified d) \<subseteq> set (d_classified d') \<and> (result_partial (d_result d) \<longrightarrow> result_partial (d_result d'))
    \<and> (set (map node_coordinate items) \<subseteq> set (d_classified d') \<or> result_partial (d_result d'))"
  using assms
proof (induction items arbitrary: d)
  case (Cons item items)
  then obtain d1 where d1: "structural_node env opts item d = Inr d1" and rest: "structural_pass env opts items d1 = Inr d'"
    by (auto simp: go_bind_Inr)
  note here = structural_node_charted [OF d1 Cons.prems(2)]
  from Cons.IH [OF rest here(1)] here show ?case by auto
qed simp

subsection \<open>The coordinates of the inventory\<close>

lemma distinct_concat_map:
  assumes "distinct xs" and "\<And>x. x \<in> set xs \<Longrightarrow> distinct (f x)"
    and "\<And>x y. x \<in> set xs \<Longrightarrow> y \<in> set xs \<Longrightarrow> x \<noteq> y \<Longrightarrow> set (f x) \<inter> set (f y) = {}"
  shows "distinct (concat (map f xs))"
  using assms by (induction xs) auto

lemma chain_nodes_coordinates:
  "set (map node_coordinate (chain_nodes f i p)) \<subseteq> {c. co_vts c = file_vts f \<and> co_pgc c = int (pgc_number p)}"
  "distinct (map node_coordinate (chain_nodes f i p))"
proof -
  have "inj_on (\<lambda>n. node_coordinate (program_node f i p n)) A" for A by (auto simp: program_node_def inj_on_def)
  then have "distinct (map (\<lambda>n. node_coordinate (program_node f i p n)) [1..<unat (pgc_programs p) + 1])"
    by (simp add: distinct_map del: upt_Suc)
  then show "distinct (map node_coordinate (chain_nodes f i p))"
    by (simp add: chain_nodes_def comp_def del: upt_Suc)
qed (auto simp: chain_nodes_def program_node_def)

lemma file_nodes_coordinates:
  assumes "file_ok f"
  shows "set (map node_coordinate (file_nodes language f)) \<subseteq> {c. co_vts c = file_vts f}"
    "distinct (map node_coordinate (file_nodes language f))"
proof -
  show "set (map node_coordinate (file_nodes language f)) \<subseteq> {c. co_vts c = file_vts f}"
    using chain_nodes_coordinates(1) by (fastforce simp: file_nodes_def split: option.split)
  show "distinct (map node_coordinate (file_nodes language f))"
  proof (cases "select_language (file_languages f) language")
    case (Some i)
    let ?u = "file_languages f ! i"
    have unit: "unit_ok ?u" using assms select_language_less [OF Some] by (auto simp: file_ok_def)
    then have "map pgc_number (lang_program_chains ?u) = [1..<length (lang_program_chains ?u) + 1]"
      by (intro nth_equalityI) (auto simp: unit_ok_def chain_ok_def simp del: upt_Suc)
    then have "distinct (map pgc_number (lang_program_chains ?u))" by (metis distinct_upt)
    then have chains: "distinct (lang_program_chains ?u)" "inj_on pgc_number (set (lang_program_chains ?u))"
      by (simp_all add: distinct_map)
    have apart: "set (map node_coordinate (chain_nodes f i p)) \<inter> set (map node_coordinate (chain_nodes f i q)) = {}"
      if "p \<in> set (lang_program_chains ?u)" "q \<in> set (lang_program_chains ?u)" "p \<noteq> q" for p q
    proof -
      have "pgc_number p \<noteq> pgc_number q" using chains(2) that by (auto dest: inj_onD)
      then show ?thesis using chain_nodes_coordinates(1) [of f i p] chain_nodes_coordinates(1) [of f i q] by fastforce
    qed
    from distinct_concat_map [OF chains(1) chain_nodes_coordinates(2) apart] show ?thesis
      using Some by (simp add: file_nodes_def map_concat comp_def)
  qed (simp add: file_nodes_def)
qed

lemma inventory_coordinates:
  assumes "disc_ok disc"
  shows "distinct (map node_coordinate (fst (inventory disc language)))"
proof -
  let ?files = "disc_manager disc # disc_title_sets disc"
  have ok: "file_ok f" if "f \<in> set ?files" for f using assms that by (auto simp: disc_ok_def list_all_iff)
  have "sorted_wrt (<) (map file_vts ?files)" using assms by (auto simp: disc_ok_def list_all_iff)
  then have "distinct (map file_vts ?files)" by (simp only: strict_sorted_iff)
  then have files: "distinct ?files" "inj_on file_vts (set ?files)" unfolding distinct_map by blast+
  have apart: "set (map node_coordinate (file_nodes language f)) \<inter> set (map node_coordinate (file_nodes language g)) = {}"
    if "f \<in> set ?files" "g \<in> set ?files" "f \<noteq> g" for f g
  proof -
    have "file_vts f \<noteq> file_vts g" using inj_onD [OF files(2) _ that(1,2)] that(3) by blast
    then show ?thesis using file_nodes_coordinates(1) [OF ok [OF that(1)], of language]
      file_nodes_coordinates(1) [OF ok [OF that(2)], of language] by fastforce
  qed
  have "map node_coordinate (fst (inventory disc language)) = concat (map (\<lambda>f. map node_coordinate (file_nodes language f)) ?files)"
    by (simp add: inventory_def Let_def map_concat comp_def)
  moreover have "distinct (concat (map (\<lambda>f. map node_coordinate (file_nodes language f)) ?files))"
    by (rule distinct_concat_map [OF files(1) file_nodes_coordinates(2) [OF ok] apart])
  ultimately show ?thesis by (simp only:)
qed

subsection \<open>The property\<close>

declare execute_loop.simps [code]

lemma initial_charted: "charted env (initial_discovery opts nodes seeds)"
  by (simp add: charted_def initial_discovery_def Let_def answered_def)

lemma covering_counts:
  assumes "distinct cs" "distinct ns" "set ns \<subseteq> set cs"
  shows "length cs = length ns \<longleftrightarrow> set cs \<subseteq> set ns"
  using assms by (metis List.finite_set card_subset_eq distinct_card order_antisym order_refl)

text \<open>C29: When a discovery is complete: on any parsed disc with a menu program and with any resolver, a result that is neither partial nor truncated is
  reported complete exactly when every menu state the resolver gave was asked of the first cell of an inventoried program. So a
  traversal that resolved a cell in the middle of a program is never reported complete, though every program was reached.\<close>

lemma middle_cells_prevent_completion:
  assumes "disc_ok disc" and "discover_with (Some env) disc opts = Inr ((r, e), requests)"
    and "fst (inventory disc (opt_language opts)) \<noteq> []"
  shows "result_complete r \<longleftrightarrow> \<not> result_partial r \<and> \<not> result_truncated r
    \<and> {c. \<exists>regs live. answered env requests c regs live} \<subseteq> set (map node_coordinate (fst (inventory disc (opt_language opts))))"
proof -
  obtain nodes seeds where inv: "inventory disc (opt_language opts) = (nodes, seeds)" by (metis prod.exhaust)
  from assms(2,3) inv obtain d1 d where
    loop: "discover_loop env (effective_options opts) (build_lookup nodes) (initial_discovery (effective_options opts) nodes seeds) = Inr d1"
    and pass: "structural_pass env (effective_options opts) nodes d1 = Inr d"
    and r: "(r, e) = finish_discovery nodes d" "requests = d_requests d"
    by (auto simp: discover_with_def Let_def go_bind_Inr split: if_splits)
  from structural_pass_charted [OF pass discover_loop_charted [OF loop initial_charted]]
  have charted: "charted env d" and all: "set (map node_coordinate nodes) \<subseteq> set (d_classified d) \<or> result_partial (d_result d)" by auto
  have distinct: "distinct (map node_coordinate nodes)" using inventory_coordinates [OF assms(1), of "opt_language opts"] inv by simp
  have "result_complete r \<longleftrightarrow> \<not> result_partial (d_result d) \<and> \<not> result_truncated (d_result d) \<and> length (d_classified d) = length nodes"
    "result_partial r = result_partial (d_result d)" "result_truncated r = result_truncated (d_result d)"
    using r(1) by (simp_all add: finish_discovery_def Let_def)
  then show ?thesis
    using covering_counts [of "d_classified d" "map node_coordinate nodes"] charted all distinct r(2) inv by (auto simp: charted_def)
qed

lemma middle_cells_prevent_completion_witness:
  "(case discover_with (Some menu_env) menu_disc menu_options of
      Inr ((r, e), requests) \<Rightarrow> \<not> result_partial r \<and> \<not> result_truncated r \<and> e = None \<and> \<not> result_complete r
    | Inl _ \<Rightarrow> False)"
proof -
  have run: "(case discover_with (Some menu_env) menu_disc menu_options of
      Inr ((r, e), requests) \<Rightarrow> \<not> result_partial r \<and> \<not> result_truncated r \<and> e = None
        \<and> (\<exists>i\<in>set [0..<length requests]. co_cell (fst (requests ! i)) = 2)
    | Inl _ \<Rightarrow> False)"
    by code_simp
  then obtain r requests where found: "discover_with (Some menu_env) menu_disc menu_options = Inr ((r, None), requests)"
    and quiet: "\<not> result_partial r" "\<not> result_truncated r" and middle: "\<exists>i\<in>set [0..<length requests]. co_cell (fst (requests ! i)) = 2"
    by (simp split: sum.splits prod.splits del: set_upt)
  have nodes: "fst (inventory menu_disc (opt_language menu_options)) \<noteq> []
      \<and> list_all (\<lambda>n. co_cell (node_coordinate n) = 1) (fst (inventory menu_disc (opt_language menu_options)))"
    by code_simp
  from middle obtain i where i: "i < length requests" "co_cell (fst (requests ! i)) = 2" by auto
  obtain c pgc regs where request: "requests ! i = (c, pgc, regs)" by (metis prod.exhaust)
  have "answered menu_env requests c regs (menu_live (if co_cell c = 1 then [menu_button] else []))"
    unfolding answered_def using i(1) request by (auto simp: menu_env_def)
  moreover have "c \<notin> set (map node_coordinate (fst (inventory menu_disc (opt_language menu_options))))"
    using nodes i(2) request by (auto simp: list_all_iff)
  ultimately have "\<not> result_complete r"
    using middle_cells_prevent_completion [OF menu_disc_ok found] nodes by blast
  then show ?thesis using found quiet by simp
qed

end
