(* ===== verification/DvdResolver.thy ===== *)
theory DvdResolver
  imports DvdSpu DvdGraph
begin

text \<open>
  The resolver of menu states, \<open>internal/dvdvideo/engine/resolver.go\<close>: the menu files of a \<open>VIDEO_TS\<close>
  directory, the choice of a navigation packet, of its buttons and of the selected one, of the subpicture
  shown, the place of the frame in the program, and the cache of what was resolved. The record
  \<open>resolver\<close> is \<open>directoryResolver\<close>. A file is what \<open>os.Open\<close>, \<open>Stat\<close> and \<open>ReadAt\<close> give for its name and does not
  change while the disc is read; paths are names of the directory.
\<close>

unbundle bit_operations_syntax

subsection \<open>Data\<close>

text \<open>An opened file: what \<open>Stat\<close> says of it (a directory, its size), and its sectors.\<close>

record vob_file =
  vob_stat :: "(bool \<times> int) option"
  vob_read :: sector_reader

type_synonym vob_source = "string \<Rightarrow> vob_file option"

text \<open>The zero overlay beside a false flag is \<open>None\<close>; it is never read.\<close>

record resolved_state =
  rv_live :: live_state
  rv_buttons :: "button list"
  rv_overlay :: "overlay option"
  rv_highlight :: "highlight option"
  rv_palette :: "u32 list"
  rv_target :: int
  rv_truncated :: bool

type_synonym resolver_key = "coordinate \<times> registers"

record resolver =
  rs_files :: "int \<rightharpoonup> string"
  rs_scan :: cell_scan_options
  rs_cache :: "resolver_key \<rightharpoonup> resolved_state"
  rs_chains :: "node_key \<rightharpoonup> program_chain"

subsection \<open>The menu files of a directory\<close>

definition manager_vob :: string where
  "manager_vob = ''VIDEO_TS.VOB''"

definition menu_vob_name :: "string \<Rightarrow> bool" where
  "menu_vob_name upper \<longleftrightarrow> length upper = 12 \<and> take 4 upper = ''VTS_'' \<and> drop 6 upper = ''_0.VOB''"

definition menu_vob_number :: "string \<Rightarrow> int option" where
  "menu_vob_number upper =
     (case atoi2 (upper ! 4) (upper ! 5) of
        None \<Rightarrow> None
      | Some vts \<Rightarrow> if vts \<ge> 1 \<and> vts \<le> 99 then Some vts else None)"

definition add_menu_file :: "int \<Rightarrow> string \<Rightarrow> (int \<rightharpoonup> string) \<Rightarrow> (live_error, int \<rightharpoonup> string) go" where
  "add_menu_file vts name files = (if files vts \<noteq> None then no_live_state else Inr (files(vts \<mapsto> name)))"

fun menu_files :: "(string \<Rightarrow> string) \<Rightarrow> dir_entry list \<Rightarrow> (int \<rightharpoonup> string) \<Rightarrow> (live_error, int \<rightharpoonup> string) go" where
  "menu_files upper [] files = Inr files"
| "menu_files upper (e # es) files =
     (if entry_is_dir e then menu_files upper es files
      else let u = upper (entry_name e) in
        if entry_is_symlink e \<and> (u = manager_vob \<or> menu_vob_name u) then no_live_state
        else if u = manager_vob then go_bind (add_menu_file 0 (entry_name e) files) (menu_files upper es)
        else if menu_vob_name u then
          (case menu_vob_number u of
             None \<Rightarrow> menu_files upper es files
           | Some vts \<Rightarrow> go_bind (add_menu_file vts (entry_name e) files) (menu_files upper es))
        else menu_files upper es files)"

text \<open>\<open>newDirectoryResolver\<close>; a directory that cannot be read is \<open>None\<close>.\<close>

definition new_directory_resolver ::
    "(string \<Rightarrow> string) \<Rightarrow> dir_entry list option \<Rightarrow> cell_scan_options \<Rightarrow> (live_error, resolver) go" where
  "new_directory_resolver upper entries scan =
     (case entries of
        None \<Rightarrow> no_live_state
      | Some es \<Rightarrow> go_bind (menu_files upper es Map.empty) (\<lambda>files.
          Inr \<lparr>rs_files = files, rs_scan = scan, rs_cache = Map.empty, rs_chains = Map.empty\<rparr>))"

subsection \<open>Navigation: the packet, the buttons, the selected button\<close>

text \<open>An authored position of 0 matches any packet, as does a packet with a 0.\<close>

definition at_position :: "cell_position \<Rightarrow> nav_packet \<Rightarrow> bool" where
  "at_position position packet \<longleftrightarrow>
     \<not> (position_vob position \<noteq> 0 \<and> dsi_vob_id (nav_dsi packet) \<noteq> 0 \<and> dsi_vob_id (nav_dsi packet) \<noteq> position_vob position)
   \<and> \<not> (position_cell position \<noteq> 0 \<and> dsi_cell_id (nav_dsi packet) \<noteq> 0
        \<and> dsi_cell_id (nav_dsi packet) \<noteq> position_cell position)"

definition is_live :: "nav_packet \<Rightarrow> bool" where
  "is_live packet \<longleftrightarrow> pci_highlight_status (nav_pci packet) \<noteq> 0 \<or> pci_button_count (nav_pci packet) \<noteq> 0"

definition select_nav_packet :: "nav_packet list \<Rightarrow> cell_position \<Rightarrow> (live_error, nav_packet \<times> u32) go" where
  "select_nav_packet packets position =
     (case filter (at_position position) packets of
        [] \<Rightarrow> no_live_state
      | p # ps \<Rightarrow>
          Inr (case find is_live (p # ps) of None \<Rightarrow> p | Some live \<Rightarrow> live, pci_vobu_start_pts (nav_pci p)))"

definition select_button_group :: "pci \<Rightarrow> button list" where
  "select_button_group p = (case find (\<lambda>bs. bs \<noteq> []) (pci_button_groups p) of None \<Rightarrow> [] | Some bs \<Rightarrow> bs)"

definition selected_number :: "pci \<Rightarrow> button list \<Rightarrow> registers \<Rightarrow> u8" where
  "selected_number p bs regs =
     (let forced = pci_forced_select p AND 0x3f; current = ucast (reg_system regs ! 8 AND 0x3f) in
      if forced \<noteq> 0 then forced else if current \<noteq> 0 then current else btn_number (hd bs))"

definition button_highlight :: "pci \<Rightarrow> button \<Rightarrow> (live_error, highlight) go" where
  "button_highlight p b =
     go_bind (index_at (pci_button_colors p) (unat (btn_color_group b - 1))) (\<lambda>colors.
       go_bind (index_at colors 0) (\<lambda>palette.
         Inr \<lparr>hl_bounds = image_rect (int (unat (btn_x_start b))) (int (unat (btn_y_start b)))
                (int (unat (btn_x_end b)) + 1) (int (unat (btn_y_end b)) + 1),
              hl_palette = palette\<rparr>))"

definition highlightable :: "u8 \<Rightarrow> button \<Rightarrow> bool" where
  "highlightable number b \<longleftrightarrow>
     \<not> (btn_number b \<noteq> number \<or> btn_color_group b = 0 \<or> unat (btn_color_group b) > max_button_groups)"

definition select_highlight :: "pci \<Rightarrow> button list \<Rightarrow> registers \<Rightarrow> (live_error, highlight option) go" where
  "select_highlight p bs regs =
     (if bs = [] then Inr None
      else case find (highlightable (selected_number p bs regs)) bs of
          None \<Rightarrow> Inr None
        | Some b \<Rightarrow> go_bind (button_highlight p b) (\<lambda>h. Inr (Some h)))"

subsection \<open>The subpicture\<close>

record timed_packet =
  tp_packet :: spu_packet
  tp_pts :: u64
  tp_has_pts :: bool

text \<open>The variables of the loop over the fragments.\<close>

record overlay_scan =
  os_streams :: reassembler
  os_pts :: "u64 list"
  os_has_pts :: "bool list"
  os_packets :: "timed_packet list"

definition new_overlay_scan :: overlay_scan where
  "new_overlay_scan = \<lparr>os_streams = new_reassembler, os_pts = replicate 32 0, os_has_pts = replicate 32 False, os_packets = []\<rparr>"

text \<open>The packets a fragment completed; the first takes the time stamp of its stream.\<close>

fun add_packets :: "nat \<Rightarrow> spu_packet list \<Rightarrow> overlay_scan \<Rightarrow> (live_error, overlay_scan) go" where
  "add_packets index [] s = Inr s"
| "add_packets index (p # ps) s =
     go_bind (index_at (os_pts s) index) (\<lambda>pts. go_bind (index_at (os_has_pts s) index) (\<lambda>has_pts.
       go_bind (store_at (os_has_pts s) index False) (\<lambda>flags.
         add_packets index ps (s\<lparr>os_packets := os_packets s @ [\<lparr>tp_packet = p, tp_pts = pts, tp_has_pts = has_pts\<rparr>],
           os_has_pts := flags\<rparr>))))"

definition stamp_stream :: "nat \<Rightarrow> spu_fragment \<Rightarrow> overlay_scan \<Rightarrow> (live_error, overlay_scan) go" where
  "stamp_stream index f s =
     (if frag_has_pts f then
        go_bind (store_at (os_pts s) index (frag_pts f)) (\<lambda>times. go_bind (store_at (os_has_pts s) index True) (\<lambda>flags.
          Inr (s\<lparr>os_pts := times, os_has_pts := flags\<rparr>)))
      else Inr s)"

definition add_fragment :: "spu_fragment \<Rightarrow> overlay_scan \<Rightarrow> (live_error, overlay_scan) go" where
  "add_fragment f s =
     (let index = unat (frag_stream f - 0x20) in
      go_bind (stamp_stream index f s) (\<lambda>s.
        case push (frag_stream f) (frag_data f) (os_streams s) of (complete, streams) \<Rightarrow>
          (case complete of
             Inl Panicked \<Rightarrow> Inl Panicked
           | Inl (Failed _) \<Rightarrow> Inr (s\<lparr>os_streams := streams\<rparr>)
           | Inr packets \<Rightarrow> add_packets index packets (s\<lparr>os_streams := streams\<rparr>))))"

text \<open>\<open>preferredSPUStreams\<close>: the logical stream of the register first, each physical stream once; every stream if none is
  authored.\<close>

definition control_streams :: "u32 \<Rightarrow> u8 list" where
  "control_streams control =
     (if control AND 0x80000000 = 0 then []
      else map (\<lambda>shift. ucast (0x20 + (drop_bit shift control AND 0x1f))) [24, 16, 8, 0])"

definition stream_order :: "program_chain \<Rightarrow> registers \<Rightarrow> nat list" where
  "stream_order pgc regs =
     (let logical = unat (reg_system regs ! 2 AND 0x1f); count = length (pgc_subpicture_control pgc)
      in (if logical < count then [logical] else []) @ filter (\<lambda>i. i \<noteq> logical) [0..<count])"

definition add_stream :: "u8 list \<Rightarrow> u8 \<Rightarrow> u8 list" where
  "add_stream streams stream = (if stream \<in> set streams then streams else streams @ [stream])"

definition preferred_spu_streams :: "program_chain \<Rightarrow> registers \<Rightarrow> u8 list" where
  "preferred_spu_streams pgc regs =
     (let streams = foldl add_stream [] (concat (map (\<lambda>i. control_streams (pgc_subpicture_control pgc ! i)) (stream_order pgc regs)))
      in if streams = [] then map (\<lambda>i. 0x20 + word_of_nat i) [0..<32] else streams)"

definition bounded_control_date :: "u64 \<Rightarrow> u16" where
  "bounded_control_date v = (if v > 0xffff then 0xffff else ucast v)"

definition control_date :: "u64 \<Rightarrow> timed_packet \<Rightarrow> u16" where
  "control_date target p =
     (if tp_has_pts p then (if target \<ge> tp_pts p then bounded_control_date ((target - tp_pts p) div 1024) else 0)
      else 0xffff)"

text \<open>The first packet of a stream that decodes, and the first stream with such a packet.\<close>

fun try_packets :: "u8 \<Rightarrow> u32 list \<Rightarrow> u64 \<Rightarrow> timed_packet list \<Rightarrow> (live_error, overlay option) go" where
  "try_packets stream palette target [] = Inr None"
| "try_packets stream palette target (p # ps) =
     (if pkt_stream (tp_packet p) \<noteq> stream then try_packets stream palette target ps
      else case decode_packet (pkt_data (tp_packet p)) palette (control_date target p) of
          Inr ov \<Rightarrow> Inr (Some ov)
        | Inl Panicked \<Rightarrow> Inl Panicked
        | Inl (Failed _) \<Rightarrow> try_packets stream palette target ps)"

fun try_streams :: "u8 list \<Rightarrow> u32 list \<Rightarrow> u64 \<Rightarrow> timed_packet list \<Rightarrow> (live_error, overlay option) go" where
  "try_streams [] palette target packets = Inr None"
| "try_streams (stream # streams) palette target packets =
     go_bind (try_packets stream palette target packets) (\<lambda>found.
       if found \<noteq> None then Inr found else try_streams streams palette target packets)"

definition select_overlay ::
    "spu_fragment list \<Rightarrow> program_chain \<Rightarrow> registers \<Rightarrow> u64 \<Rightarrow> (live_error, overlay option) go" where
  "select_overlay fragments pgc regs target =
     go_bind (go_fold add_fragment fragments new_overlay_scan) (\<lambda>s.
       try_streams (preferred_spu_streams pgc regs) (pgc_palette pgc) target (os_packets s))"

subsection \<open>The place of the frame\<close>

definition first_cell_of :: "program_chain \<Rightarrow> coordinate \<Rightarrow> (live_error, int) go" where
  "first_cell_of pgc c =
     (if co_program c \<le> int (length (pgc_program_map pgc))
      then go_bind (index_at (pgc_program_map pgc) (nat (co_program c - 1))) (\<lambda>cell. Inr (int (unat cell)))
      else Inr (co_program c))"

text \<open>The sum over the cells before the one shown.\<close>

fun add_durations :: "program_chain \<Rightarrow> int list \<Rightarrow> int \<Rightarrow> (live_error, int) go" where
  "add_durations pgc [] target = Inr target"
| "add_durations pgc (cell # cells) target =
     go_bind (index_at (pgc_cell_playback pgc) (nat (cell - 1))) (\<lambda>playback.
       case duration (cell_playback_time playback) of
         Inl Panicked \<Rightarrow> Inl Panicked
       | Inl (Failed _) \<Rightarrow> no_live_state
       | Inr d \<Rightarrow> add_durations pgc cells (target + d))"

definition target_duration :: "program_chain \<Rightarrow> coordinate \<Rightarrow> u32 \<Rightarrow> u32 \<Rightarrow> (live_error, int) go" where
  "target_duration pgc c first_pts selected_pts =
     (if co_program c < 1 \<or> co_program c > int (unat (pgc_programs pgc)) \<or> co_cell c < 1
         \<or> co_cell c > int (unat (pgc_cells pgc)) then no_live_state
      else go_bind (first_cell_of pgc c) (\<lambda>first_cell.
        if first_cell < 1 \<or> first_cell > co_cell c then no_live_state
        else go_bind (add_durations pgc [first_cell..co_cell c - 1] 0) (\<lambda>target.
          Inr (if selected_pts \<ge> first_pts
            then target + int (unat (selected_pts - first_pts)) * go_second div 90000 else target))))"

subsection \<open>The state of a coordinate\<close>

text \<open>\<open>strconv.Itoa\<close> on the coordinates of an overlay, and \<open>Rectangle.String\<close>.\<close>

function itoa_nat :: "int \<Rightarrow> string" where
  "itoa_nat n = (if n < 10 then [digit n] else itoa_nat (n div 10) @ [digit (n mod 10)])"
  by pat_completeness auto
termination by (relation "measure nat") auto

definition itoa :: "int \<Rightarrow> string" where
  "itoa n = (if n < 0 then CHR ''-'' # itoa_nat (- n) else itoa_nat n)"

definition rect_string :: "rect \<Rightarrow> string" where
  "rect_string r = ''('' @ itoa (min_x r) @ '','' @ itoa (min_y r) @ '')-('' @ itoa (max_x r) @ '','' @ itoa (max_y r) @ '')''"

definition live_fingerprint_of :: "(u8 list \<Rightarrow> digest) \<Rightarrow> nav_packet \<Rightarrow> overlay option \<Rightarrow> digest" where
  "live_fingerprint_of digest packet shown =
     digest (put_u32 (pci_vobu_start_pts (nav_pci packet)) @ put_u32 (pci_highlight_start_pts (nav_pci packet))
       @ put_u16 (dsi_vob_id (nav_dsi packet)) @ [dsi_cell_id (nav_dsi packet), pci_forced_select (nav_pci packet)]
       @ (case shown of None \<Rightarrow> [] | Some ov \<Rightarrow> ov_pixels ov @ map of_char (rect_string (ov_bounds ov))))"

definition authored_still_state :: "program_chain \<Rightarrow> coordinate \<Rightarrow> bool" where
  "authored_still_state pgc c \<longleftrightarrow> pgc_still_time pgc \<noteq> 0
     \<or> co_cell c > 0 \<and> co_cell c \<le> int (length (pgc_cell_playback pgc))
       \<and> cell_still_time (pgc_cell_playback pgc ! nat (co_cell c - 1)) \<noteq> 0"

definition authored_entry_state :: "program_chain \<Rightarrow> coordinate \<Rightarrow> bool" where
  "authored_entry_state pgc c \<longleftrightarrow> pgc_entry_id pgc AND 0x80 \<noteq> 0 \<and> co_program c = 1"

definition visible_menu_state :: "program_chain \<Rightarrow> coordinate \<Rightarrow> button list \<Rightarrow> bool \<Rightarrow> bool \<Rightarrow> bool" where
  "visible_menu_state pgc c bs has_overlay has_highlight \<longleftrightarrow>
     bs \<noteq> [] \<or> has_overlay \<or> has_highlight \<or> authored_still_state pgc c \<or> authored_entry_state pgc c"

definition live_state_of ::
    "(u8 list \<Rightarrow> digest) \<Rightarrow> program_chain \<Rightarrow> coordinate \<Rightarrow> nav_packet \<Rightarrow> button list \<Rightarrow> highlight option \<Rightarrow> overlay option
      \<Rightarrow> live_state" where
  "live_state_of digest pgc c packet bs high shown =
     \<lparr>live_visible = visible_menu_state pgc c bs (shown \<noteq> None) (high \<noteq> None), live_buttons = bs,
      live_fingerprint = live_fingerprint_of digest packet shown, live_has_overlay = (shown \<noteq> None),
      live_has_highlight = (high \<noteq> None), live_authored_still = authored_still_state pgc c,
      live_authored_entry = authored_entry_state pgc c\<rparr>"

text \<open>What a scanned cell shows.\<close>

definition detail_of ::
    "(u8 list \<Rightarrow> digest) \<Rightarrow> cell_scan \<Rightarrow> cell_position \<Rightarrow> coordinate \<Rightarrow> program_chain \<Rightarrow> registers
      \<Rightarrow> (live_error, resolved_state) go" where
  "detail_of digest scan position c pgc regs =
     go_bind (select_nav_packet (scan_packets scan) position) (\<lambda>(packet, first_pts).
       let p = nav_pci packet; bs = select_button_group p;
           target_pts = (if pci_highlight_start_pts p = 0 then pci_vobu_start_pts p else pci_highlight_start_pts p) in
       go_bind (select_highlight p bs regs) (\<lambda>high.
         go_bind (select_overlay (scan_fragments scan) pgc regs (ucast target_pts)) (\<lambda>shown.
           go_bind (target_duration pgc c first_pts (pci_vobu_start_pts p)) (\<lambda>target.
             Inr \<lparr>rv_live = live_state_of digest pgc c packet bs high shown, rv_buttons = bs, rv_overlay = shown,
                  rv_highlight = high, rv_palette = pgc_palette pgc, rv_target = target,
                  rv_truncated = scan_truncated scan\<rparr>))))"

text \<open>The part of \<open>resolve\<close> behind the cache: the file is opened and the cell scanned.\<close>

definition scan_menu_cell ::
    "vob_source \<Rightarrow> string \<Rightarrow> cell_playback \<Rightarrow> cell_scan_options \<Rightarrow> (live_error, cell_scan) go" where
  "scan_menu_cell source name cell opts =
     (case source name of
        None \<Rightarrow> no_live_state
      | Some f \<Rightarrow>
          (case vob_stat f of
             None \<Rightarrow> no_live_state
           | Some (is_dir, bytes) \<Rightarrow>
               if is_dir \<or> bytes \<le> 0 then no_live_state
               else case scan_cell (Some (vob_read f)) bytes (cell_first_sector cell) (cell_last_sector cell) opts of
                   Inl Panicked \<Rightarrow> Inl Panicked
                 | Inl (Failed _) \<Rightarrow> no_live_state
                 | Inr scan \<Rightarrow> Inr scan))"

definition read_state ::
    "(u8 list \<Rightarrow> digest) \<Rightarrow> vob_source \<Rightarrow> (int \<rightharpoonup> string) \<Rightarrow> cell_scan_options \<Rightarrow> coordinate \<Rightarrow> program_chain \<Rightarrow> registers
      \<Rightarrow> (live_error, resolved_state) go" where
  "read_state digest source files opts c pgc regs =
     (if co_cell c < 1 \<or> co_cell c > int (length (pgc_cell_playback pgc)) \<or> co_cell c > int (length (pgc_cell_positions pgc))
      then no_live_state
      else case files (co_vts c) of
          None \<Rightarrow> no_live_state
        | Some name \<Rightarrow>
            go_bind (index_at (pgc_cell_playback pgc) (nat (co_cell c - 1))) (\<lambda>cell.
              go_bind (index_at (pgc_cell_positions pgc) (nat (co_cell c - 1))) (\<lambda>position.
                go_bind (scan_menu_cell source name cell opts) (\<lambda>scan.
                  detail_of digest scan position c pgc regs))))"

text \<open>\<open>resolve\<close>, and \<open>Resolve\<close>, which remembers the program chain. \<open>cancelled\<close> is what \<open>ctx.Err\<close> says.\<close>

definition resolve ::
    "(u8 list \<Rightarrow> digest) \<Rightarrow> vob_source \<Rightarrow> bool \<Rightarrow> coordinate \<Rightarrow> program_chain \<Rightarrow> registers \<Rightarrow> resolver
      \<Rightarrow> (live_error, resolved_state) go \<times> resolver" where
  "resolve digest source cancelled c pgc regs rs =
     (if cancelled then (no_live_state, rs)
      else case rs_cache rs (c, regs) of
          Some cached \<Rightarrow> (Inr cached, rs)
        | None \<Rightarrow>
            (case read_state digest source (rs_files rs) (rs_scan rs) c pgc regs of
               Inl e \<Rightarrow> (Inl e, rs)
             | Inr detail \<Rightarrow> (Inr detail, rs\<lparr>rs_cache := (rs_cache rs)((c, regs) \<mapsto> detail)\<rparr>)))"

definition resolve_coordinate ::
    "(u8 list \<Rightarrow> digest) \<Rightarrow> vob_source \<Rightarrow> bool \<Rightarrow> coordinate \<Rightarrow> program_chain \<Rightarrow> registers \<Rightarrow> resolver
      \<Rightarrow> (live_error, live_state) go \<times> resolver" where
  "resolve_coordinate digest source cancelled c pgc regs rs =
     (case resolve digest source cancelled c pgc regs rs of
        (Inl e, rs) \<Rightarrow> (Inl e, rs)
      | (Inr detail, rs) \<Rightarrow> (Inr (rv_live detail), rs\<lparr>rs_chains := (rs_chains rs)(key c \<mapsto> pgc)\<rparr>))"

text \<open>\<open>programChain\<close>; the zero value of a chain that was never resolved.\<close>

definition zero_chain :: program_chain where
  "zero_chain =
     \<lparr>pgc_number = 0, pgc_entry_id = 0, pgc_menu_id = 0, pgc_programs = 0, pgc_cells = 0,
      pgc_playback_time = \<lparr>time_hour = 0, time_minute = 0, time_second = 0, time_frame = 0\<rparr>,
      pgc_next = 0, pgc_previous = 0, pgc_go_up = 0, pgc_playback_mode = 0, pgc_still_time = 0,
      pgc_audio_control = replicate 8 0, pgc_subpicture_control = replicate 32 0, pgc_palette = replicate 16 0,
      pgc_pre_commands = [], pgc_post_commands = [], pgc_cell_commands = [], pgc_program_map = [],
      pgc_cell_playback = [], pgc_cell_positions = []\<rparr>"

definition program_chain_of :: "resolver \<Rightarrow> coordinate \<Rightarrow> program_chain" where
  "program_chain_of rs c = (case rs_chains rs (key c) of None \<Rightarrow> zero_chain | Some pgc \<Rightarrow> pgc)"

subsection \<open>The calls of a discovery\<close>

text \<open>What the resolver answers without its cache; a panic stays one. \<open>cancelled\<close> is what the context says at each call.\<close>

definition direct_answer ::
    "(u8 list \<Rightarrow> digest) \<Rightarrow> vob_source \<Rightarrow> (int \<rightharpoonup> string) \<Rightarrow> cell_scan_options \<Rightarrow> (nat \<Rightarrow> bool)
      \<Rightarrow> nat \<Rightarrow> coordinate \<Rightarrow> program_chain \<Rightarrow> registers \<Rightarrow> (live_error, live_state) go" where
  "direct_answer digest source files opts cancelled i c pgc regs =
     (if cancelled i then no_live_state
      else go_bind (read_state digest source files opts c pgc regs) (\<lambda>detail. Inr (rv_live detail)))"

text \<open>A sequence of calls on one state.\<close>

fun run_calls :: "('r \<Rightarrow> 's \<Rightarrow> 'a \<times> 's) \<Rightarrow> 'r list \<Rightarrow> 's \<Rightarrow> 'a list \<times> 's" where
  "run_calls call [] s = ([], s)"
| "run_calls call (r # rs) s =
     (case call r s of (x, s') \<Rightarrow> (case run_calls call rs s' of (xs, s'') \<Rightarrow> (x # xs, s'')))"

type_synonym numbered_request = "nat \<times> request"

definition resolver_call ::
    "(u8 list \<Rightarrow> digest) \<Rightarrow> vob_source \<Rightarrow> (nat \<Rightarrow> bool) \<Rightarrow> numbered_request \<Rightarrow> resolver \<Rightarrow> (live_error, live_state) go \<times> resolver" where
  "resolver_call digest source cancelled r rs =
     (case r of (i, c, pgc, regs) \<Rightarrow> resolve_coordinate digest source (cancelled i) c pgc regs rs)"

text \<open>The environment of a discovery whose states come from the files of a directory.\<close>

definition directory_env ::
    "graph_env \<Rightarrow> vob_source \<Rightarrow> resolver \<Rightarrow> (nat \<Rightarrow> bool) \<Rightarrow> graph_env" where
  "directory_env env source rs cancelled =
     env\<lparr>ge_resolve := direct_answer (ge_digest env) source (rs_files rs) (rs_scan rs) cancelled\<rparr>"

text \<open>The resolver after the calls a discovery made of it, on a disc it was made for.\<close>

definition after_requests :: "(u8 list \<Rightarrow> digest) \<Rightarrow> vob_source \<Rightarrow> (nat \<Rightarrow> bool) \<Rightarrow> request list \<Rightarrow> resolver \<Rightarrow> (live_error, live_state) go list \<times> resolver" where
  "after_requests digest source cancelled requests = run_calls (resolver_call digest source cancelled) (enumerate 0 requests)"

end
