(* ===== verification/DvdCapture.thy ===== *)
theory DvdCapture
  imports DvdResolver
begin

text \<open>
  Capturing the menus of a disc, \<open>internal/dvdvideo/render/render.go\<close> and \<open>internal/dvdvideo/engine/engine.go\<close>:
  the arguments of FFmpeg, its bounded output, the probe of what it can do, the decoding of a frame, and
  the capture that inventories a directory, discovers its menus and composes a picture of each. What is
  outside the program is an argument: running a process, the PNG decoder of the standard library, the
  six-digit formatting of a floating-point number, the context, and the files of the directory. The time
  limits only enter the contexts and are left out, as are logging and progress reports.
\<close>

unbundle bit_operations_syntax

subsection \<open>Bounded output\<close>

definition max_diagnostic_bytes :: int where "max_diagnostic_bytes = 65536"
definition max_frame_bytes :: int where "max_frame_bytes = 67108864"
definition max_frame_width :: int where "max_frame_width = 4096"
definition max_frame_height :: int where "max_frame_height = 4096"
definition max_frame_pixels :: int where "max_frame_pixels = 16777216"

datatype render_error = ErrCapability | ErrFrame | ErrOutputLimit | ErrRun

record run_output =
  out_stdout :: string
  out_stderr :: string

record limit_writer =
  lw_data :: string
  lw_limit :: int
  lw_exceeded :: bool

definition limit_write :: "string \<Rightarrow> limit_writer \<Rightarrow> limit_writer" where
  "limit_write data w =
     (let remaining = lw_limit w - int (length (lw_data w)) in
      if remaining \<le> 0 then w\<lparr>lw_exceeded := True\<rparr>
      else if int (length data) > remaining
        then w\<lparr>lw_data := lw_data w @ take (nat remaining) data, lw_exceeded := True\<rparr>
      else w\<lparr>lw_data := lw_data w @ data\<rparr>)"

definition new_writer :: "int \<Rightarrow> limit_writer" where
  "new_writer limit = \<lparr>lw_data = [], lw_limit = limit, lw_exceeded = False\<rparr>"

text \<open>A process: what it writes to both outputs, piece by piece, and whether it fails. \<open>look\<close> is \<open>exec.LookPath\<close>.\<close>

record process_run =
  run_stdout :: "string list"
  run_stderr :: "string list"
  run_failed :: bool

definition exec_run ::
    "(string \<Rightarrow> string option) \<Rightarrow> (string \<Rightarrow> string list \<Rightarrow> process_run) \<Rightarrow> string \<Rightarrow> string list \<Rightarrow> int
      \<Rightarrow> run_output \<times> render_error option" where
  "exec_run look process executable args stdout_limit =
     (if stdout_limit \<le> 0 then (\<lparr>out_stdout = [], out_stderr = []\<rparr>, Some ErrRun)
      else case look executable of
          None \<Rightarrow> (\<lparr>out_stdout = [], out_stderr = []\<rparr>, Some ErrRun)
        | Some resolved \<Rightarrow>
            let p = process resolved args;
                out = fold limit_write (run_stdout p) (new_writer stdout_limit);
                err = fold limit_write (run_stderr p) (new_writer max_diagnostic_bytes)
            in (\<lparr>out_stdout = lw_data out, out_stderr = lw_data err\<rparr>,
                if lw_exceeded out \<or> lw_exceeded err then Some ErrOutputLimit
                else if run_failed p then Some ErrRun else None))"

text \<open>A \<open>Runner\<close>; the context and the time limits are its own.\<close>

type_synonym runner = "string \<Rightarrow> string list \<Rightarrow> int \<Rightarrow> run_output \<times> render_error option"

subsection \<open>What FFmpeg can do\<close>

record capability =
  cap_available :: bool
  cap_version :: string
  cap_bluray_available :: bool
  cap_bluray_checked :: bool
  cap_options :: "string list"

definition no_capability :: capability where
  "no_capability = \<lparr>cap_available = False, cap_version = [], cap_bluray_available = False, cap_bluray_checked = False,
     cap_options = []\<rparr>"

definition required_options :: "string list" where
  "required_options = [''-menu'', ''-menu_lu'', ''-menu_vts'', ''-pgc'', ''-pg'']"

text \<open>\<open>strings.Fields\<close>, \<open>TrimRight(s, ",:")\<close>, \<open>Contains\<close> and \<open>Split\<close> at line ends.\<close>

fun span_field :: "string \<Rightarrow> string \<times> string" where
  "span_field [] = ([], [])"
| "span_field (c # s) = (if leading_space (c # s) then ([], c # s) else (case span_field s of (a, b) \<Rightarrow> (c # a, b)))"

lemma span_field_append: "span_field s = (a, b) \<Longrightarrow> s = a @ b"
  by (induction s arbitrary: a b) (auto split: if_splits prod.splits)

lemma trim_left_suffix: "\<exists>q. s = q @ trim_left s"
proof (induction s rule: length_induct)
  case (1 s)
  show ?case
  proof (cases s)
    case (Cons a u)
    show ?thesis
      using trim_left_step [of a u]
    proof
      assume "\<exists>t q. a # u = q @ t \<and> length t < length (a # u) \<and> trim_left (a # u) = trim_left t"
      then obtain t q where t: "s = q @ t" "length t < length s" "trim_left s = trim_left t" using Cons by blast
      then obtain p where "t = p @ trim_left t" using 1 by blast
      then have "s = (q @ p) @ trim_left s" using t by simp
      then show ?thesis by blast
    qed (use Cons in simp)
  qed simp
qed

function string_fields :: "string \<Rightarrow> string list" where
  "string_fields s =
     (case trim_left s of
        [] \<Rightarrow> []
      | c # t \<Rightarrow> (case span_field t of (a, b) \<Rightarrow> (c # a) # string_fields b))"
  by pat_completeness auto
termination
proof (relation "measure length", goal_cases)
  case (2 s c t a b)
  obtain q where "s = q @ trim_left s" using trim_left_suffix by blast
  then have "length s = length q + length (trim_left s)" by (metis length_append)
  moreover have "t = a @ b" using 2 span_field_append by simp
  ultimately show ?case using 2 by simp
qed simp

definition trim_marks :: "string \<Rightarrow> string" where
  "trim_marks s = rev (dropWhile (\<lambda>c. c = CHR '','' \<or> c = CHR '':'') (rev s))"

fun contains_text :: "string \<Rightarrow> string \<Rightarrow> bool" where
  "contains_text [] part = (part = [])"
| "contains_text (c # s) part = (take (length part) (c # s) = part \<or> contains_text s part)"

fun split_lines :: "string \<Rightarrow> string list" where
  "split_lines [] = [[]]"
| "split_lines (c # s) = (if byte c = 10 then [] # split_lines s
     else (case split_lines s of [] \<Rightarrow> [[c]] | l # ls \<Rightarrow> (c # l) # ls))"

definition trim_carriage :: "string \<Rightarrow> string" where
  "trim_carriage s = (if s \<noteq> [] \<and> byte (last s) = 13 then butlast s else s)"

definition first_line :: "string \<Rightarrow> string" where
  "first_line s = take 256 (trim_space (trim_carriage (hd (split_lines (trim_space s)))))"

definition or_else :: "string \<Rightarrow> string \<Rightarrow> string" where
  "or_else a b = (if a \<noteq> [] then a else b)"

definition option_fields :: "string \<Rightarrow> string list" where
  "option_fields text = map trim_marks (filter (\<lambda>f. take 1 f = ''-'') (string_fields text))"

text \<open>\<open>Probe\<close>; with an error it gives the version it knows.\<close>

definition probe :: "runner option \<Rightarrow> string \<Rightarrow> capability \<times> render_error option" where
  "probe runner executable =
     (case runner of
        None \<Rightarrow> (no_capability, Some ErrCapability)
      | Some run \<Rightarrow>
          if blank executable then (no_capability, Some ErrCapability)
          else case run executable [''-hide_banner'', ''-version''] max_diagnostic_bytes of (version_out, version_err) \<Rightarrow>
            if version_err \<noteq> None then (no_capability, Some ErrCapability)
            else let version = or_else (first_line (out_stdout version_out)) (first_line (out_stderr version_out)) in
              case run executable [''-hide_banner'', ''-h'', ''demuxer=dvdvideo''] max_diagnostic_bytes of (help, err) \<Rightarrow>
                if err \<noteq> None then (no_capability\<lparr>cap_version := version\<rparr>, Some ErrCapability)
                else let text = out_stdout help @ out_stderr help;
                    available = option_fields text
                  in if \<not> set required_options \<subseteq> set available
                    then (no_capability\<lparr>cap_version := version\<rparr>, Some ErrCapability)
                    else if \<not> contains_text (to_lower text) ''dvdvideo''
                      then (no_capability\<lparr>cap_version := version\<rparr>, Some ErrCapability)
                    else (\<lparr>cap_available = True, cap_version = version, cap_bluray_available = False,
                           cap_bluray_checked = False, cap_options = required_options\<rparr>, None))"

text \<open>The loop over the lines of \<open>ffmpeg -protocols\<close>.\<close>

fun find_bluray :: "string list \<Rightarrow> bool \<Rightarrow> bool \<Rightarrow> bool \<times> render_error option" where
  "find_bluray [] in_input found_input = (False, if found_input then None else Some ErrRun)"
| "find_bluray (l # ls) in_input found_input =
     (let line = trim_space l in
      if line = ''Input:'' then find_bluray ls True True
      else if line = ''Output:'' then find_bluray ls False found_input
      else if line = ''bluray'' \<and> in_input then (True, None)
      else find_bluray ls in_input found_input)"

definition probe_bluray :: "runner option \<Rightarrow> string \<Rightarrow> bool \<times> render_error option" where
  "probe_bluray runner executable =
     (case runner of
        None \<Rightarrow> (False, Some ErrRun)
      | Some run \<Rightarrow>
          if blank executable then (False, Some ErrRun)
          else case run executable [''-hide_banner'', ''-protocols''] max_diagnostic_bytes of (out, err) \<Rightarrow>
            if err \<noteq> None then (False, Some ErrRun) else find_bluray (split_lines (out_stdout out)) False False)"

subsection \<open>A frame\<close>

record frame_request =
  fr_source :: string
  fr_vts :: int
  fr_language :: int
  fr_pgc :: int
  fr_program :: int
  fr_target :: int
  fr_deinterlace :: bool

text \<open>The PNG decoder, and \<open>strconv.FormatFloat(seconds, 'f', 6, 64)\<close> of a number of nanoseconds.\<close>

record codec =
  png_config :: "string \<Rightarrow> (int \<times> int) option"
  png_decode :: "string \<Rightarrow> frame option"
  format_duration :: "int \<Rightarrow> string"

definition request_invalid :: "frame_request \<Rightarrow> bool" where
  "request_invalid r \<longleftrightarrow> fr_vts r < 0 \<or> fr_vts r > 99 \<or> fr_language r < 1 \<or> fr_language r > 99 \<or> fr_pgc r < 1
     \<or> fr_pgc r > 999 \<or> fr_program r < 1 \<or> fr_program r > 255 \<or> fr_target r < 0"

definition build_args :: "codec \<Rightarrow> frame_request \<Rightarrow> (render_error, string list) go" where
  "build_args codec r =
     (if blank (fr_source r) then Inl (Failed ErrFrame)
      else if request_invalid r then Inl (Failed ErrFrame)
      else Inr ([''-hide_banner'', ''-loglevel'', ''error'', ''-f'', ''dvdvideo'', ''-menu'', ''1'',
          ''-menu_vts'', itoa (fr_vts r), ''-menu_lu'', itoa (fr_language r), ''-pgc'', itoa (fr_pgc r), ''-pg'', itoa (fr_program r)]
        @ (if fr_target r > 0 then [''-ss'', format_duration codec (fr_target r)] else [])
        @ [''-i'', fr_source r, ''-map'', ''0:v:0'', ''-an'', ''-sn'', ''-dn'']
        @ (if fr_deinterlace r then [''-vf'', ''bwdif=mode=send_frame:parity=auto:deint=all''] else [])
        @ [''-frames:v'', ''1'', ''-c:v'', ''png'', ''-f'', ''image2pipe'', ''pipe:1'']))"

definition frame_too_large :: "int \<Rightarrow> int \<Rightarrow> bool" where
  "frame_too_large width height \<longleftrightarrow> width \<le> 0 \<or> height \<le> 0 \<or> width > max_frame_width \<or> height > max_frame_height
     \<or> width * height > max_frame_pixels"

definition decode_frame :: "codec \<Rightarrow> runner option \<Rightarrow> string \<Rightarrow> frame_request \<Rightarrow> (render_error, frame) go" where
  "decode_frame codec runner executable r =
     (case runner of
        None \<Rightarrow> Inl (Failed ErrFrame)
      | Some run \<Rightarrow>
          if blank executable then Inl (Failed ErrFrame)
          else go_bind (build_args codec r) (\<lambda>args.
            case run executable args max_frame_bytes of (out, err) \<Rightarrow>
              if err \<noteq> None then Inl (Failed ErrFrame)
              else if out_stdout out = [] then Inl (Failed ErrFrame)
              else case png_config codec (out_stdout out) of
                  None \<Rightarrow> Inl (Failed ErrFrame)
                | Some (width, height) \<Rightarrow>
                    if frame_too_large width height then Inl (Failed ErrFrame)
                    else case png_decode codec (take (nat max_frame_bytes) (out_stdout out)) of
                        None \<Rightarrow> Inl (Failed ErrFrame)
                      | Some f \<Rightarrow> Inr f))"

subsection \<open>Capturing\<close>

datatype capture_error = ErrCapture

definition black_pixel_threshold :: u32 where "black_pixel_threshold = 3"

record capture =
  cap_coordinate :: coordinate
  cap_discovery :: discovery_source
  cap_image :: frame
  cap_has_overlay :: bool
  cap_has_highlight :: bool

record capture_result =
  cr_capability :: capability
  cr_captures :: "capture list"
  cr_inventoried :: nat
  cr_selected :: nat
  cr_visited_states :: nat
  cr_visited_buttons :: nat
  cr_complete :: bool
  cr_partial :: bool
  cr_truncated :: bool
  cr_warnings :: "graph_warning list"

text \<open>What the capture calls outside itself: the context before each screen and at each call of the resolver, the runner for
  the probe and for each screen.\<close>

record capture_env =
  ce_graph :: graph_env
  ce_source :: vob_source
  ce_cancelled :: "nat \<Rightarrow> bool"
  ce_resolve_cancelled :: "nat \<Rightarrow> bool"
  ce_runner :: "nat \<Rightarrow> runner"
  ce_executable :: string
  ce_codec :: codec
  ce_root :: string
  ce_deinterlace :: bool

definition mark_capture :: "string \<Rightarrow> string \<Rightarrow> capture_result \<Rightarrow> capture_result" where
  "mark_capture code message r =
     (let r = r\<lparr>cr_partial := True, cr_complete := False\<rparr> in
      if \<exists>w\<in>set (cr_warnings r). warning_code w = code then r
      else r\<lparr>cr_warnings := cr_warnings r @ [\<lparr>warning_code = code, warning_message = message\<rparr>]\<rparr>)"

text \<open>\<open>color.NRGBA.RGBA\<close>: one channel, multiplied by the alpha value.\<close>

definition rgba_channel :: "u8 \<Rightarrow> u8 \<Rightarrow> u32" where
  "rgba_channel v a = (let r = ucast v in (r OR push_bit 8 r) * ucast a div 0xff)"

definition pixel_is_lit :: "nrgba \<Rightarrow> bool" where
  "pixel_is_lit c =
     (let threshold = black_pixel_threshold * 257 in
      col_a c \<noteq> 0 \<and> (rgba_channel (col_r c) (col_a c) > threshold \<or> rgba_channel (col_g c) (col_a c) > threshold
        \<or> rgba_channel (col_b c) (col_a c) > threshold))"

definition image_is_black :: "frame \<Rightarrow> bool" where
  "image_is_black f =
     (let b = frame_bounds f in
      if min_x b \<ge> max_x b \<or> min_y b \<ge> max_y b then True
      else \<not> (\<exists>y\<in>set [min_y b..max_y b - 1]. \<exists>x\<in>set [min_x b..max_x b - 1]. pixel_is_lit (nrgba_at f x y)))"

definition frame_request_of :: "capture_env \<Rightarrow> screen \<Rightarrow> resolved_state \<Rightarrow> frame_request" where
  "frame_request_of env s d =
     \<lparr>fr_source = ce_root env, fr_vts = co_vts (screen_coordinate s), fr_language = co_language (screen_coordinate s),
      fr_pgc = co_pgc (screen_coordinate s), fr_program = co_program (screen_coordinate s), fr_target = rv_target d,
      fr_deinterlace = ce_deinterlace env\<rparr>"

text \<open>The overlay and the highlight over the background; without an overlay a copy of the background.\<close>

definition compose :: "frame \<Rightarrow> resolved_state \<Rightarrow> (capture_error, frame) go" where
  "compose background d =
     (case rv_overlay d of
        None \<Rightarrow> Inr background
      | Some ov \<Rightarrow>
          (case composite background ov (rv_palette d) (rv_highlight d) of
             Inl _ \<Rightarrow> Inl Panicked
           | Inr f \<Rightarrow> Inr f))"

text \<open>A screen behind its decoded background.\<close>

definition keep_capture :: "screen \<Rightarrow> resolved_state \<Rightarrow> frame \<Rightarrow> capture_result \<Rightarrow> capture_result" where
  "keep_capture s d composed r =
     (let r = (if rv_overlay d = None
                then mark_capture ''spu_unavailable'' ''menu subpicture state was not available'' r else r);
          r = (if rv_buttons d \<noteq> [] \<and> rv_highlight d = None
                then mark_capture ''highlight_unavailable'' ''default menu highlight state was not available'' r else r)
      in if image_is_black composed then mark_capture ''black_frame'' ''decoded menu frame was black'' r
         else r\<lparr>cr_captures := cr_captures r @
           [\<lparr>cap_coordinate = screen_coordinate s, cap_discovery = screen_discovery s, cap_image = composed,
             cap_has_overlay = (rv_overlay d \<noteq> None), cap_has_highlight = (rv_highlight d \<noteq> None)\<rparr>]\<rparr>)"

text \<open>A screen behind its resolved state.\<close>

definition draw_screen ::
    "capture_env \<Rightarrow> nat \<Rightarrow> screen \<Rightarrow> resolved_state \<Rightarrow> capture_result \<Rightarrow> (capture_error, capture_result) go" where
  "draw_screen env i s d r =
     (let r = (if rv_truncated d then mark_capture ''nav_scan_limit'' ''menu NAV/SPU sector scan limit reached'' r else r) in
      case decode_frame (ce_codec env) (Some (ce_runner env i)) (ce_executable env) (frame_request_of env s d) of
        Inl Panicked \<Rightarrow> Inl Panicked
      | Inl (Failed _) \<Rightarrow> Inr (mark_capture ''frame_decode'' ''inventory-selected menu frame could not be decoded'' r)
      | Inr background \<Rightarrow> go_bind (compose background d) (\<lambda>composed. Inr (keep_capture s d composed r)))"

text \<open>The loop over the selected screens; \<open>i\<close> counts them, \<open>n\<close> the calls of the resolver. It ends early with an error when
  the context is cancelled.\<close>

fun capture_screens ::
    "capture_env \<Rightarrow> nat \<Rightarrow> nat \<Rightarrow> screen list \<Rightarrow> resolver \<Rightarrow> capture_result \<Rightarrow> (capture_error, capture_result \<times> bool) go" where
  "capture_screens env n i [] rs r = Inr (r, False)"
| "capture_screens env n i (s # ss) rs r =
     (if ce_cancelled env i then Inr (r, True)
      else case resolve (ge_digest (ce_graph env)) (ce_source env) (ce_resolve_cancelled env n) (screen_coordinate s)
          (program_chain_of rs (screen_coordinate s)) (screen_registers s) rs of (detail, rs) \<Rightarrow>
        (case detail of
           Inl Panicked \<Rightarrow> Inl Panicked
         | Inl (Failed _) \<Rightarrow>
             capture_screens env (n + 1) (i + 1) ss rs
               (mark_capture ''live_state'' ''menu NAV/SPU state could not be resolved'' r)
         | Inr d \<Rightarrow> go_bind (draw_screen env (i + 1) s d r) (\<lambda>r. capture_screens env (n + 1) (i + 1) ss rs r)))"

definition found_result :: "capability \<Rightarrow> graph_result \<Rightarrow> capture_result" where
  "found_result cap found =
     \<lparr>cr_capability = cap, cr_captures = [], cr_inventoried = result_inventoried found,
      cr_selected = length (result_screens found), cr_visited_states = result_visited_states found,
      cr_visited_buttons = result_visited_buttons found, cr_complete = False, cr_partial = result_partial found,
      cr_truncated = result_truncated found, cr_warnings = result_warnings found\<rparr>"

text \<open>The lines behind the loop.\<close>

definition finish_capture :: "graph_result \<Rightarrow> capture_result \<Rightarrow> capture_result \<times> capture_error option" where
  "finish_capture found r =
     (let r = r\<lparr>cr_complete := (result_complete found \<and> \<not> cr_partial r \<and> \<not> cr_truncated r
          \<and> length (cr_captures r) = length (result_screens found))\<rparr>
      in (r, if cr_captures r = [] then Some ErrCapture else None))"

definition capture_disc ::
    "capture_env \<Rightarrow> capability \<Rightarrow> dvd_disc \<Rightarrow> resolver \<Rightarrow> graph_options \<Rightarrow> (capture_error, capture_result \<times> capture_error option) go" where
  "capture_disc env cap disc rs opts =
     (case discover_with (Some (directory_env (ce_graph env) (ce_source env) rs (ce_resolve_cancelled env))) disc opts of
        Inl Panicked \<Rightarrow> Inl Panicked
      | Inl (Failed _) \<Rightarrow> Inr (found_result cap (initial_result 0), Some ErrCapture)
      | Inr ((found, err), requests) \<Rightarrow>
          if err \<noteq> None then Inr (found_result cap found, Some ErrCapture)
          else go_bind (capture_screens env (length requests) 0 (result_screens found)
              (snd (after_requests (ge_digest (ce_graph env)) (ce_source env) (ce_resolve_cancelled env) requests rs))
              (found_result cap found)) (\<lambda>(r, cancelled).
            Inr (if cancelled then (r, Some ErrCapture) else finish_capture found r)))"

text \<open>The options of \<open>CaptureDirectory\<close>, and the directory: what listing it gives the inventory and the resolver.\<close>

record capture_options =
  copt_traversal :: graph_options
  copt_scan :: cell_scan_options
  copt_timeout :: int
  copt_capability :: "capability option"

record directory =
  dir_upper :: "string \<Rightarrow> string"
  dir_order :: "string list \<Rightarrow> string list"
  dir_ifo :: ifo_source
  dir_entries :: "dir_entry list option"

definition default_process_timeout :: int where
  "default_process_timeout = 30 * go_second"

definition empty_result :: capture_result where
  "empty_result = found_result no_capability (initial_result 0)"

text \<open>A failure before the capture proper: the zero result and the error.\<close>

abbreviation no_capture :: "(capture_error, capture_result \<times> capture_error option) go" where
  "no_capture \<equiv> Inr (empty_result, Some ErrCapture)"

definition capture_capability :: "capture_env \<Rightarrow> runner \<Rightarrow> capture_options \<Rightarrow> capability option" where
  "capture_capability env run opts =
     (case copt_capability opts of
        Some cap \<Rightarrow> if cap_available cap then Some cap else None
      | None \<Rightarrow> (case probe (Some run) (ce_executable env) of (cap, err) \<Rightarrow> if err \<noteq> None then None else Some cap))"

text \<open>\<open>CaptureDirectory\<close>; a nil runner is a flag, as the runner enters with the environment.\<close>

definition capture_directory ::
    "capture_env \<Rightarrow> bool \<Rightarrow> directory \<Rightarrow> capture_options \<Rightarrow> (capture_error, capture_result \<times> capture_error option) go" where
  "capture_directory env nil_runner dir opts =
     (if blank (ce_root env) then no_capture
      else if nil_runner \<or> blank (ce_executable env) then no_capture
      else let timeout = (if copt_timeout opts = 0 then default_process_timeout else copt_timeout opts) in
        if timeout < 0 then no_capture
        else let items = with_default (opt_max_items (copt_traversal opts)) default_max_items in
          if items < 0 \<or> items > max_menu_items then no_capture
          else case inspect_directory (dir_upper dir) (dir_order dir) (dir_ifo dir) (dir_entries dir) of
              Inl Panicked \<Rightarrow> Inl Panicked
            | Inl (Failed _) \<Rightarrow> no_capture
            | Inr disc \<Rightarrow>
                (case capture_capability env (ce_runner env 0) opts of
                   None \<Rightarrow> no_capture
                 | Some cap \<Rightarrow>
                     (case new_directory_resolver (dir_upper dir) (dir_entries dir) (copt_scan opts) of
                        Inl Panicked \<Rightarrow> Inl Panicked
                      | Inl (Failed _) \<Rightarrow> no_capture
                      | Inr rs \<Rightarrow> capture_disc env cap disc rs ((copt_traversal opts)\<lparr>opt_max_items := items\<rparr>))))"

end
