(* ===== verification/DvdResolverProps.thy ===== *)
theory DvdResolverProps
  imports DvdResolver DvdGraphProps DvdNavProps DvdSpuDecode
begin

text \<open>
  Properties of the resolver: reading a state never panics and what it gives is well formed, whatever the
  sectors of the disc hold; the cache changes nothing; an authored subpicture on the preferred stream is
  the one shown, however it was fragmented; and menu discovery on the files of a directory, with this
  resolver, needs no assumption about the disc.
\<close>

unbundle bit_operations_syntax

declare itoa_nat.simps [simp del]

subsection \<open>Navigation\<close>

lemma select_nav_packet_yields:
  assumes "\<forall>p\<in>set packets. pci_ok (nav_pci p)"
  shows "yields (\<lambda>(p, _). pci_ok (nav_pci p)) (select_nav_packet packets position)"
proof -
  have found: "find is_live ps = Some p \<Longrightarrow> p \<in> set ps" for ps p by (auto simp: find_Some_iff)
  show ?thesis
  proof (cases "filter (at_position position) packets")
    case (Cons p ps)
    then have "set (p # ps) \<subseteq> set packets" by (metis filter_is_subset)
    then show ?thesis
      using assms found [of "p # ps"] by (fastforce simp: select_nav_packet_def Cons split: option.split)
  qed (simp add: select_nav_packet_def)
qed

text \<open>A display group: its buttons are numbered from 1, with proper rectangles.\<close>

definition group_ok :: "button list \<Rightarrow> bool" where
  "group_ok bs \<longleftrightarrow> length bs \<le> 36 \<and> map (\<lambda>b. unat (btn_number b)) bs = [1..<length bs + 1]
     \<and> list_all (button_ok (word_of_nat (length bs))) bs"

lemma select_button_group_ok:
  assumes "pci_ok p"
  shows "group_ok (select_button_group p)"
proof (cases "find (\<lambda>bs. bs \<noteq> []) (pci_button_groups p)")
  case (Some bs)
  then obtain g where g: "g < 3" "bs = pci_button_groups p ! g" "bs \<noteq> []"
    using assms by (auto simp: find_Some_iff pci_ok_def)
  then have numbers: "map (\<lambda>b. unat (btn_number b)) bs = (if g < unat (pci_group_count p) then [1..<unat (pci_button_count p) + 1] else [])"
    and ok: "\<forall>b\<in>set bs. button_ok (pci_button_count p) b"
    using assms by (auto simp: pci_ok_def)
  then have "map (\<lambda>b. unat (btn_number b)) bs = [1..<unat (pci_button_count p) + 1]" using g(3) by (auto split: if_splits)
  moreover from arg_cong [OF this, of length] have "length bs = unat (pci_button_count p)" by simp
  ultimately show ?thesis
    using assms ok header_ok_count [of p] Some by (simp add: select_button_group_def group_ok_def pci_ok_def list_all_iff)
qed (simp add: select_button_group_def group_ok_def)

text \<open>A highlight covers a rectangle that is not empty.\<close>

definition highlight_ok :: "highlight \<Rightarrow> bool" where
  "highlight_ok h \<longleftrightarrow> 0 \<le> min_x (hl_bounds h) \<and> min_x (hl_bounds h) < max_x (hl_bounds h)
     \<and> 0 \<le> min_y (hl_bounds h) \<and> min_y (hl_bounds h) < max_y (hl_bounds h)"

lemma button_highlight_yields:
  assumes "header_ok p" "button_ok limit b" "btn_color_group b \<noteq> 0"
  shows "yields highlight_ok (button_highlight p b)"
proof -
  have "unat (btn_color_group b) \<le> 3" "0 < unat (btn_color_group b)"
    using assms(2,3) by (auto simp: button_ok_def word_le_nat_alt unat_gt_0)
  moreover then have "unat (btn_color_group b - 1) = unat (btn_color_group b) - 1"
    by (subst unat_minus_one) (use assms(3) in auto)
  ultimately have less: "unat (btn_color_group b - 1) < length (pci_button_colors p)" using assms(1) by (simp add: header_ok_def)
  then have "length (pci_button_colors p ! unat (btn_color_group b - 1)) = 2" using assms(1) by (simp add: header_ok_def)
  moreover have "int (unat (btn_x_start b)) \<le> int (unat (btn_x_end b))" "int (unat (btn_y_start b)) \<le> int (unat (btn_y_end b))"
    using assms(2) by (simp_all only: button_ok_def word_le_nat_alt of_nat_le_iff)
  ultimately show ?thesis using less by (simp add: button_highlight_def highlight_ok_def image_rect_def)
qed

lemma select_highlight_yields:
  assumes "header_ok p" "group_ok bs"
  shows "yields (pred_option highlight_ok) (select_highlight p bs regs)"
proof (cases "find (highlightable (selected_number p bs regs)) bs")
  case None
  then show ?thesis by (simp add: select_highlight_def)
next
  case (Some b)
  then have "b \<in> set bs" and b: "highlightable (selected_number p bs regs) b" by (auto simp: find_Some_iff)
  then have "button_ok (word_of_nat (length bs)) b" using assms(2) by (simp add: group_ok_def list_all_iff)
  from button_highlight_yields [OF assms(1) this] b have "yields highlight_ok (button_highlight p b)"
    by (simp add: highlightable_def)
  then have "yields (pred_option highlight_ok) (go_bind (button_highlight p b) (\<lambda>h. Inr (Some h)))" by (rule yields_bind) simp
  then show ?thesis using Some by (simp add: select_highlight_def)
qed

subsection \<open>Subpictures\<close>

definition overlay_scan_ok :: "overlay_scan \<Rightarrow> bool" where
  "overlay_scan_ok s \<longleftrightarrow> length (os_streams s) = 32 \<and> length (os_pts s) = 32 \<and> length (os_has_pts s) = 32"

lemma push_keeps_length: "push stream fragment streams = (r, streams') \<Longrightarrow> length streams' = length streams"
  by (auto simp: push_def Let_def simp del: drain.simps split: if_splits prod.splits)

lemma push_never_panics: "push stream fragment streams \<noteq> (Inl Panicked, streams')"
  by (auto simp: push_def Let_def simp del: drain.simps split: prod.splits)

lemma add_packets_yields:
  assumes "overlay_scan_ok s" "index < 32"
  shows "yields overlay_scan_ok (add_packets index ps s)"
  using assms(1)
proof (induction ps arbitrary: s)
  case (Cons p ps)
  then show ?case using assms(2) by (simp add: overlay_scan_ok_def)
qed simp

lemma fragment_index: "fragment_ok f \<Longrightarrow> unat (frag_stream f - 0x20) < 32"
  unfolding fragment_ok_def by unat_arith

lemma stamp_stream_ok:
  assumes "overlay_scan_ok s" "index < 32"
  shows "\<exists>s'. stamp_stream index f s = Inr s' \<and> overlay_scan_ok s' \<and> os_streams s' = os_streams s \<and> os_packets s' = os_packets s"
  using assms by (cases "frag_has_pts f") (simp_all add: stamp_stream_def overlay_scan_ok_def)

lemma stamp_stream_yields:
  assumes "overlay_scan_ok s" "index < 32"
  shows "yields (\<lambda>s'. overlay_scan_ok s' \<and> os_streams s' = os_streams s \<and> os_packets s' = os_packets s) (stamp_stream index f s)"
  using stamp_stream_ok [OF assms, of f] by auto

lemma add_fragment_yields:
  assumes "overlay_scan_ok s" "fragment_ok f"
  shows "yields overlay_scan_ok (add_fragment f s)"
proof -
  note less = fragment_index [OF assms(2)]
  show ?thesis
    unfolding add_fragment_def Let_def
  proof (rule yields_bind [OF stamp_stream_yields [OF assms(1) less]])
    fix s' assume s': "overlay_scan_ok s' \<and> os_streams s' = os_streams s \<and> os_packets s' = os_packets s"
    obtain complete streams where pushed: "push (frag_stream f) (frag_data f) (os_streams s') = (complete, streams)"
      by (metis prod.exhaust)
    have "overlay_scan_ok (s'\<lparr>os_streams := streams\<rparr>)"
      using push_keeps_length [OF pushed] s' unfolding overlay_scan_ok_def by simp metis
    then show "yields overlay_scan_ok (case push (frag_stream f) (frag_data f) (os_streams s') of (complete, streams) \<Rightarrow>
        (case complete of Inl Panicked \<Rightarrow> Inl Panicked | Inl (Failed _) \<Rightarrow> Inr (s'\<lparr>os_streams := streams\<rparr>)
          | Inr packets \<Rightarrow> add_packets (unat (frag_stream f - 0x20)) packets (s'\<lparr>os_streams := streams\<rparr>)))"
      using pushed push_never_panics [of "frag_stream f" "frag_data f" "os_streams s'" streams] less
      by (auto split: sum.split fault.split intro: add_packets_yields)
  qed
qed

lemma go_fold_yields:
  assumes "P s" and "\<And>x s. x \<in> set xs \<Longrightarrow> P s \<Longrightarrow> yields P (f x s)"
  shows "yields P (go_fold f xs s)"
  using assms
proof (induction xs arbitrary: s)
  case (Cons x xs)
  have "yields P (f x s)" using Cons.prems by simp
  then show ?case unfolding go_fold.simps by (rule yields_bind) (rule Cons.IH, use Cons.prems in auto)
qed simp

lemma try_packets_yields:
  assumes "length palette = 16"
  shows "yields (pred_option overlay_ok) (try_packets stream palette target packets)"
proof (induction packets)
  case (Cons p packets)
  show ?case
    using Cons decode_packet_yields [OF assms, of "pkt_data (tp_packet p)" "control_date target p"]
    by (auto simp: yields_def split: sum.splits fault.splits)
qed simp

lemma try_streams_yields:
  assumes "length palette = 16"
  shows "yields (pred_option overlay_ok) (try_streams streams palette target packets)"
proof (induction streams)
  case (Cons stream streams)
  show ?case
    unfolding try_streams.simps by (rule yields_bind [OF try_packets_yields [OF assms]]) (use Cons in simp)
qed simp

lemma select_overlay_yields:
  assumes "length (pgc_palette pgc) = 16" "\<forall>f\<in>set fragments. fragment_ok f"
  shows "yields (pred_option overlay_ok) (select_overlay fragments pgc regs target)"
proof -
  have "overlay_scan_ok new_overlay_scan" by (simp add: overlay_scan_ok_def new_overlay_scan_def new_reassembler_def)
  then have "yields overlay_scan_ok (go_fold add_fragment fragments new_overlay_scan)"
    by (rule go_fold_yields) (use add_fragment_yields assms(2) in auto)
  then show ?thesis unfolding select_overlay_def by (rule yields_bind) (rule try_streams_yields [OF assms(1)])
qed

subsection \<open>The place of the frame\<close>

text \<open>A call of another package whose errors become one of this one.\<close>

lemma yields_recast:
  assumes "yields P m" and "\<And>x. P x \<Longrightarrow> yields Q (f x)"
  shows "yields Q (case m of Inl Panicked \<Rightarrow> Inl Panicked | Inl (Failed _) \<Rightarrow> Inl (Failed e) | Inr x \<Rightarrow> f x)"
  using assms by (cases m) (auto split: fault.split)

lemma decode_bcd_yields: "yields (\<lambda>n. 0 \<le> n \<and> n < 100) (decode_bcd v)"
proof -
  have le: "int (unat w) \<le> 9" if "\<not> w > 9" for w :: u8
  proof -
    have "unat w \<le> unat (9 :: u8)" using that by (simp only: not_less word_le_nat_alt)
    then have "unat w \<le> 9" by simp
    then show ?thesis by linarith
  qed
  show ?thesis
    unfolding decode_bcd_def
    by (rule yields_if) (use le [of "drop_bit 4 v"] le [of "v AND 0x0f"] in \<open>simp_all only: yields_simps de_Morgan_disj, linarith\<close>)
qed

definition max_cell_duration :: int where
  "max_cell_duration = 100 * 3600 * go_second"

lemma duration_yields: "yields (\<lambda>d. 0 \<le> d \<and> d \<le> max_cell_duration) (duration t)"
proof -
  have whole: "0 \<le> h * (3600 * go_second) + m * (60 * go_second) + s * go_second
      \<and> h * (3600 * go_second) + m * (60 * go_second) + s * go_second \<le> max_cell_duration - go_second"
    if "0 \<le> h" "h < 100" "0 \<le> m" "\<not> m > 59" "0 \<le> s" "\<not> s > 59" for h m s :: int
    using that by (simp add: go_second_def max_cell_duration_def)
  have frames: "0 \<le> f * go_second div 25 \<and> f * go_second div 25 \<le> go_second" if "0 \<le> f" "\<not> f \<ge> 25" for f :: int
    using that by (simp add: go_second_def)
  have frames': "0 \<le> f * 1001 * go_second div 30000 \<and> f * 1001 * go_second div 30000 \<le> go_second" if "0 \<le> f" "\<not> f \<ge> 30" for f :: int
    using that unfolding go_second_def by linarith
  show ?thesis
    unfolding duration_def Let_def
    apply (rule yields_bind [OF decode_bcd_yields], rule yields_bind [OF decode_bcd_yields], rule yields_if, simp,
        rule yields_bind [OF decode_bcd_yields], rule yields_if, simp, rule yields_bind [OF decode_bcd_yields])
    subgoal for h m s f
      using whole [of h m s] frames [of f] frames' [of f] by (auto simp: go_second_def)
    done
qed

lemma add_durations_yields:
  assumes "\<forall>cell\<in>set cells. 1 \<le> cell \<and> cell \<le> int (length (pgc_cell_playback pgc))" "0 \<le> target"
  shows "yields (\<lambda>t. 0 \<le> t \<and> t \<le> target + int (length cells) * max_cell_duration) (add_durations pgc cells target)"
  using assms
proof (induction cells arbitrary: target)
  case (Cons cell cells)
  let ?playback = "pgc_cell_playback pgc ! nat (cell - 1)"
  have less: "nat (cell - 1) < length (pgc_cell_playback pgc)" using Cons.prems(1) by auto
  have d: "yields (\<lambda>d. 0 \<le> d \<and> d \<le> max_cell_duration) (duration (cell_playback_time ?playback))" by (rule duration_yields)
  show ?case
  proof (cases "duration (cell_playback_time ?playback)")
    case (Inr t)
    have t: "0 \<le> t" "t \<le> max_cell_duration" using d Inr by auto
    have "yields (\<lambda>r. 0 \<le> r \<and> r \<le> (target + t) + int (length cells) * max_cell_duration) (add_durations pgc cells (target + t))"
      by (rule Cons.IH) (use Cons.prems t in auto)
    then show ?thesis using t less Inr by (auto simp: algebra_simps elim!: yields_mono)
  qed (use d less in \<open>auto split: fault.splits\<close>)
qed simp

definition max_target :: int where
  "max_target = 256 * max_cell_duration + 2 ^ 32 * go_second div 90000"

lemma max_target_fits: "max_target < 2 ^ 63"
  by (simp add: max_target_def max_cell_duration_def go_second_def)

lemma target_duration_yields:
  assumes "length (pgc_program_map pgc) = unat (pgc_programs pgc)" "length (pgc_cell_playback pgc) = unat (pgc_cells pgc)"
  shows "yields (\<lambda>t. 0 \<le> t \<and> t \<le> max_target \<and> 1 \<le> co_program c \<and> co_program c \<le> int (unat (pgc_programs pgc)))
    (target_duration pgc c first_pts selected_pts)"
proof (cases "co_program c < 1 \<or> co_program c > int (unat (pgc_programs pgc)) \<or> co_cell c < 1 \<or> co_cell c > int (unat (pgc_cells pgc))")
  case False
  have small: "int (unat (pgc_cells pgc)) < 256" using unat_byte_less [of "pgc_cells pgc"] by linarith
  have first: "yields (\<lambda>_. True) (first_cell_of pgc c)"
    using False assms(1) by (simp add: first_cell_of_def nat_less_iff)
  have pts: "0 \<le> int (unat w) * go_second div 90000 \<and> int (unat w) * go_second div 90000 \<le> 2 ^ 32 * go_second div 90000" for w :: u32
  proof -
    have mono: "0 \<le> z * go_second div 90000 \<and> z * go_second div 90000 \<le> 2 ^ 32 * go_second div 90000" if "0 \<le> z" "z \<le> 4294967296" for z
      using that by (auto simp: go_second_def intro!: zdiv_mono1)
    have "unat w < 4294967296" using unsigned_less [of w, where 'a = nat] by simp
    then have "int (unat w) \<le> 4294967296" by linarith
    then show ?thesis by (intro mono) simp_all
  qed
  have "yields (\<lambda>t. 0 \<le> t \<and> t \<le> max_target) (target_duration pgc c first_pts selected_pts)"
    unfolding target_duration_def using False
    apply (simp only: if_False)
    apply (rule yields_bind [OF first], rule yields_if, simp)
    subgoal for first_cell
      apply (rule yields_bind [OF add_durations_yields])
      subgoal using assms(2) by (auto simp del: of_nat_le_iff)
      subgoal by simp
      subgoal for t
      proof -
        assume t: "\<not> (first_cell < 1 \<or> first_cell > co_cell c)" "0 \<le> t \<and> t \<le> 0 + int (length [first_cell..co_cell c - 1]) * max_cell_duration"
        have "int (length [first_cell..co_cell c - 1]) \<le> 255" using t(1) False small by simp
        then have "int (length [first_cell..co_cell c - 1]) * max_cell_duration \<le> 255 * max_cell_duration"
          by (rule mult_right_mono) (simp add: max_cell_duration_def go_second_def)
        with t(2) pts [of "selected_pts - first_pts"] show ?thesis
          by (simp only: yields_simps max_target_def) (auto simp: max_cell_duration_def go_second_def)
      qed
      done
    done
  then show ?thesis by (rule yields_mono) (use False in auto)
qed (simp add: target_duration_def)

subsection \<open>A state\<close>

text \<open>What a resolved state is: a display group, a proper highlight and a complete overlay if there are any, a palette, and a
  place in a program at a time that a 64-bit duration can hold.\<close>

definition detail_ok :: "resolved_state \<Rightarrow> bool" where
  "detail_ok d \<longleftrightarrow> group_ok (rv_buttons d) \<and> live_buttons (rv_live d) = rv_buttons d
     \<and> pred_option overlay_ok (rv_overlay d) \<and> live_has_overlay (rv_live d) = (rv_overlay d \<noteq> None)
     \<and> pred_option highlight_ok (rv_highlight d) \<and> live_has_highlight (rv_live d) = (rv_highlight d \<noteq> None)
     \<and> length (rv_palette d) = 16 \<and> 0 \<le> rv_target d \<and> rv_target d \<le> max_target"

lemma detail_of_yields:
  assumes "scan_ok m n k scan" "chain_ok num pgc"
  shows "yields (\<lambda>d. detail_ok d \<and> 1 \<le> co_program c \<and> co_program c \<le> int (unat (pgc_programs pgc)))
    (detail_of digest scan position c pgc regs)"
proof -
  have packets: "\<forall>p\<in>set (scan_packets scan). pci_ok (nav_pci p)" and fragments: "\<forall>f\<in>set (scan_fragments scan). fragment_ok f"
    using assms(1) by (auto simp: scan_ok_def within_def)
  have pgc: "length (pgc_palette pgc) = 16" "length (pgc_program_map pgc) = unat (pgc_programs pgc)"
    "length (pgc_cell_playback pgc) = unat (pgc_cells pgc)" using assms(2) by (simp_all add: chain_ok_def)
  show ?thesis
    unfolding detail_of_def Let_def
    apply (rule yields_bind [OF select_nav_packet_yields [OF packets]])
    apply (simp only: prod.case_eq_if)
    apply (rule yields_bind [OF select_highlight_yields], simp add: pci_ok_def, rule select_button_group_ok, assumption)
    apply (rule yields_bind [OF select_overlay_yields [OF pgc(1) fragments]])
    apply (rule yields_bind [OF target_duration_yields [OF pgc(2,3)]])
    apply (simp add: detail_ok_def live_state_of_def select_button_group_ok pgc(1))
    done
qed

lemma scan_menu_cell_yields:
  "yields (\<lambda>scan. \<exists>m n k. scan_ok m n k scan) (scan_menu_cell source name cell opts)"
proof -
  have scan: "yields (\<lambda>scan. \<exists>m n k. scan_ok m n k scan) (scan_cell reader file_size start stop opts)" for reader file_size start stop
    by (rule yields_mono [OF scan_cell_yields]) blast
  show ?thesis
    unfolding scan_menu_cell_def
    by (simp split: option.split) (intro allI impI yields_recast [OF scan], simp)
qed

lemma read_state_yields:
  assumes "chain_ok num pgc"
  shows "yields (\<lambda>d. detail_ok d \<and> 1 \<le> co_program c \<and> co_program c \<le> int (unat (pgc_programs pgc))
      \<and> 1 \<le> co_cell c \<and> co_cell c \<le> int (unat (pgc_cells pgc)))
    (read_state digest source files opts c pgc regs)"
proof (cases "co_cell c < 1 \<or> co_cell c > int (length (pgc_cell_playback pgc)) \<or> co_cell c > int (length (pgc_cell_positions pgc))")
  case False
  have cells: "length (pgc_cell_playback pgc) = unat (pgc_cells pgc)" using assms by (simp add: chain_ok_def)
  have less: "nat (co_cell c - 1) < length (pgc_cell_playback pgc)" "nat (co_cell c - 1) < length (pgc_cell_positions pgc)"
    using False by auto
  have "yields (\<lambda>d. detail_ok d \<and> 1 \<le> co_program c \<and> co_program c \<le> int (unat (pgc_programs pgc)))
      (go_bind (scan_menu_cell source name cell opts) (\<lambda>scan. detail_of digest scan position c pgc regs))" for name cell position
    by (rule yields_bind [OF scan_menu_cell_yields]) (elim exE, rule detail_of_yields [OF _ assms])
  then show ?thesis using False less unfolding read_state_def
    by (auto simp: cells split: option.split elim!: yields_mono)
qed (simp add: read_state_def)

subsection \<open>The subpicture that is shown\<close>

lemma add_packets_collects:
  assumes "overlay_scan_ok s" "index < 32"
  shows "\<exists>s'. add_packets index ps s = Inr s' \<and> overlay_scan_ok s' \<and> os_streams s' = os_streams s
    \<and> map tp_packet (os_packets s') = map tp_packet (os_packets s) @ ps"
  using assms(1)
proof (induction ps arbitrary: s)
  case (Cons p ps)
  let ?s = "s\<lparr>os_packets := os_packets s @ [\<lparr>tp_packet = p, tp_pts = os_pts s ! index, tp_has_pts = os_has_pts s ! index\<rparr>],
    os_has_pts := (os_has_pts s)[index := False]\<rparr>"
  have "overlay_scan_ok ?s" using Cons.prems by (simp add: overlay_scan_ok_def)
  from Cons.IH [OF this] Cons.prems assms(2) show ?case by (auto simp: overlay_scan_ok_def)
qed simp

lemma fragments_collect:
  assumes "push_all (map (\<lambda>f. (frag_stream f, frag_data f)) fs) (os_streams s) = (Inr found, streams')"
    and "overlay_scan_ok s" and "\<forall>f\<in>set fs. fragment_ok f"
  shows "\<exists>s'. go_fold add_fragment fs s = Inr s' \<and> map tp_packet (os_packets s') = map tp_packet (os_packets s) @ found"
  using assms
proof (induction fs arbitrary: s found)
  case (Cons f fs)
  let ?index = "unat (frag_stream f - 0x20)"
  have less: "?index < 32" using Cons.prems(3) fragment_index by auto
  from Cons.prems(1) obtain now streams later where pushed: "push (frag_stream f) (frag_data f) (os_streams s) = (Inr now, streams)"
    and rest: "push_all (map (\<lambda>f. (frag_stream f, frag_data f)) fs) streams = (Inr later, streams')" "found = now @ later"
    by (auto split: prod.splits sum.splits)
  obtain s1 where s1: "stamp_stream ?index f s = Inr s1" "overlay_scan_ok s1" "os_streams s1 = os_streams s" "os_packets s1 = os_packets s"
    using stamp_stream_ok [OF Cons.prems(2) less] by blast
  have "overlay_scan_ok (s1\<lparr>os_streams := streams\<rparr>)"
    using s1(2,3) push_keeps_length [OF pushed] unfolding overlay_scan_ok_def by simp
  from add_packets_collects [OF this less] obtain s2 where s2: "add_packets ?index now (s1\<lparr>os_streams := streams\<rparr>) = Inr s2"
    "overlay_scan_ok s2" "os_streams s2 = streams" "map tp_packet (os_packets s2) = map tp_packet (os_packets s) @ now"
    using s1(4) by auto
  have "add_fragment f s = Inr s2" using s1 s2(1) pushed by (simp add: add_fragment_def)
  moreover obtain s3 where "go_fold add_fragment fs s2 = Inr s3" "map tp_packet (os_packets s3) = map tp_packet (os_packets s2) @ later"
    using Cons.IH [of s2 later] rest(1) s2(2,3) Cons.prems(3) by auto
  ultimately show ?case using s2(4) rest(2) by simp
qed simp

lemma try_packets_first:
  "filter (\<lambda>p. pkt_stream (tp_packet p) = stream) ps = p # qs \<Longrightarrow>
    decode_packet (pkt_data (tp_packet p)) palette (control_date target p) = Inr ov \<Longrightarrow>
    try_packets stream palette target ps = Inr (Some ov)"
  by (induction ps) (auto split: if_splits)

text \<open>The streams tried are subpicture streams, each once.\<close>

lemma foldl_add_stream: "distinct acc \<Longrightarrow> distinct (foldl add_stream acc xs) \<and> set (foldl add_stream acc xs) = set acc \<union> set xs"
  by (induction xs arbitrary: acc) (auto simp: add_stream_def)

lemma control_stream_ok: "subpicture_stream (ucast (0x20 + (w AND 0x1f)))" for w :: u32
proof -
  have "w AND 0x1f = take_bit 5 w" by (simp add: take_bit_eq_mask mask_eq_exp_minus_1)
  then have v: "unat (w AND 0x1f) < 32" by (simp add: take_bit_eq_mod unat_mod_distrib)
  then have sum: "unat (0x20 + (w AND 0x1f)) = 32 + unat (w AND 0x1f)" by (simp add: unat_word_ariths)
  then have "unat (ucast (0x20 + (w AND 0x1f)) :: u8) = 32 + unat (w AND 0x1f)"
    using v by (simp only: unsigned_ucast_eq) (simp add: take_bit_nat_eq_self)
  with v show ?thesis by (simp add: subpicture_stream_def word_le_nat_alt)
qed

definition every_stream :: "u8 list" where
  "every_stream = map (\<lambda>i. 0x20 + word_of_nat i) [0..<32]"

lemma every_stream_ok: "distinct every_stream \<and> list_all subpicture_stream every_stream"
  by code_simp

lemma preferred_streams_ok:
  "distinct (preferred_spu_streams pgc regs) \<and> preferred_spu_streams pgc regs \<noteq> []
    \<and> list_all subpicture_stream (preferred_spu_streams pgc regs)"
proof -
  define streams where "streams = concat (map (\<lambda>i. control_streams (pgc_subpicture_control pgc ! i)) (stream_order pgc regs))"
  have "list_all subpicture_stream streams"
    by (auto simp: streams_def control_streams_def list_all_iff control_stream_ok)
  then have "distinct (foldl add_stream [] streams) \<and> list_all subpicture_stream (foldl add_stream [] streams)"
    using foldl_add_stream [of "[]" streams] by (simp add: list_all_iff)
  moreover have "every_stream \<noteq> []" by (simp add: every_stream_def)
  ultimately show ?thesis
    using every_stream_ok unfolding preferred_spu_streams_def Let_def streams_def [symmetric] every_stream_def [symmetric] by simp
qed

lemma author_packet_framed:
  assumes "length (author_packet date x y rows colors alphas) \<le> max_packet_bytes"
  shows "framed (author_packet date x y rows colors alphas)"
proof -
  define control where "control = 4 + length (pack (encode_field (every_other rows))) + length (pack (encode_field (every_other (tl rows))))"
  obtain rest where packet: "author_packet date x y rows colors alphas = put16 (control + 24) @ rest"
    by (auto simp: author_packet_def Let_def control_def)
  have size: "length (author_packet date x y rows colors alphas) = control + 24"
    by (simp add: author_packet_def Let_def control_def)
  with assms have "control + 24 < 65536" by (simp add: max_packet_bytes_def)
  from put16_value [OF this] show ?thesis
    by (simp add: framed_def size) (simp add: packet nth_append)
qed

text \<open>The first packet of the first stream, however its stream was cut and whatever its time stamps.\<close>

lemma first_authored_overlay:
  assumes "list_all (\<lambda>f. fragment_ok f \<and> length (frag_data f) \<le> 65536) fragments"
    and "\<And>s. subpicture_stream s \<Longrightarrow> list_all framed (authored s)
      \<and> sent s (map (\<lambda>f. (frag_stream f, frag_data f)) fragments) = concat (authored s)"
    and "authored (hd (preferred_spu_streams pgc regs)) = packet # others"
    and "\<And>date. \<exists>ov. P ov \<and> decode_packet packet (pgc_palette pgc) date = Inr ov"
  shows "\<exists>ov. P ov \<and> select_overlay fragments pgc regs target = Inr (Some ov)"
proof -
  let ?pushes = "map (\<lambda>f. (frag_stream f, frag_data f)) fragments"
  obtain s rest where order: "preferred_spu_streams pgc regs = s # rest"
    using preferred_streams_ok [of pgc regs] by (cases "preferred_spu_streams pgc regs") auto
  then have s: "subpicture_stream s" using preferred_streams_ok [of pgc regs] by simp
  have "list_all (\<lambda>(s, fragment). subpicture_stream s \<and> length fragment \<le> 65536) ?pushes"
    using assms(1) by (auto simp: list_all_iff fragment_ok_def subpicture_stream_def)
  from framed_streams_reassemble [OF this assms(2)] obtain found where found:
      "push_all ?pushes new_reassembler = (Inr found, new_reassembler)"
      "filter (\<lambda>p. pkt_stream p = s) found = map (\<lambda>p. \<lparr>pkt_stream = s, pkt_data = p\<rparr>) (authored s)"
    using s by auto
  have start: "overlay_scan_ok new_overlay_scan" "os_streams new_overlay_scan = new_reassembler" "os_packets new_overlay_scan = []"
    by (simp_all add: overlay_scan_ok_def new_overlay_scan_def new_reassembler_def)
  have "\<forall>f\<in>set fragments. fragment_ok f" using assms(1) by (simp add: list_all_iff)
  from fragments_collect [OF _ start(1) this] found(1) start obtain scan where scan:
      "go_fold add_fragment fragments new_overlay_scan = Inr scan" "map tp_packet (os_packets scan) = found"
    by auto
  have "map tp_packet (filter (\<lambda>p. pkt_stream (tp_packet p) = s) (os_packets scan)) = filter (\<lambda>p. pkt_stream p = s) found"
    unfolding scan(2) [symmetric] by (simp add: filter_map o_def)
  also have "\<dots> = \<lparr>pkt_stream = s, pkt_data = packet\<rparr> # map (\<lambda>p. \<lparr>pkt_stream = s, pkt_data = p\<rparr>) others"
    using found(2) assms(3) order by simp
  finally obtain p ps where p: "filter (\<lambda>p. pkt_stream (tp_packet p) = s) (os_packets scan) = p # ps" "pkt_data (tp_packet p) = packet"
    by (auto simp: map_eq_Cons_conv)
  obtain ov where ov: "P ov" "decode_packet packet (pgc_palette pgc) (control_date target p) = Inr ov" using assms(4) by blast
  from try_packets_first [OF p(1), of "pgc_palette pgc" target ov] p(2) ov(2)
  have "select_overlay fragments pgc regs target = Inr (Some ov)" by (simp add: select_overlay_def scan(1) order)
  with ov(1) show ?thesis by blast
qed

subsection \<open>The cache\<close>

text \<open>Places with the same program chain coordinates have the same program chain.\<close>

definition consistent :: "menu_node set \<Rightarrow> bool" where
  "consistent nodes \<longleftrightarrow> (\<forall>n m. place_ok nodes n \<longrightarrow> place_ok nodes m
     \<longrightarrow> key (node_coordinate n) = key (node_coordinate m) \<longrightarrow> node_pgc n = node_pgc m)"

lemma consistentD:
  "consistent nodes \<Longrightarrow> place_ok nodes n \<Longrightarrow> place_ok nodes m \<Longrightarrow> key (node_coordinate n) = key (node_coordinate m)
    \<Longrightarrow> node_pgc n = node_pgc m"
  unfolding consistent_def by blast

lemma file_node_key:
  assumes "file_ok f" "n \<in> set (file_nodes language f)"
  shows "\<exists>i k. select_language (file_languages f) language = Some i \<and> co_vts (node_coordinate n) = file_vts f
    \<and> co_pgc (node_coordinate n) = int k + 1 \<and> node_pgc n = lang_program_chains (file_languages f ! i) ! k"
proof -
  obtain i where i: "select_language (file_languages f) language = Some i"
    using assms(2) by (cases "select_language (file_languages f) language") (simp_all add: file_nodes_def)
  let ?u = "file_languages f ! i"
  have unit: "unit_ok ?u" using assms(1) select_language_less [OF i] by (auto simp: file_ok_def)
  from assms(2) i obtain p where p: "p \<in> set (lang_program_chains ?u)" and n: "n \<in> set (chain_nodes f i p)"
    by (auto simp: file_nodes_def)
  from p obtain k where k: "k < length (lang_program_chains ?u)" "p = lang_program_chains ?u ! k" by (auto simp: in_set_conv_nth)
  then have "pgc_number p = k + 1" using unit by (auto simp: unit_ok_def chain_ok_def)
  then show ?thesis using i n k by (auto simp: chain_nodes_def program_node_def split: if_splits)
qed

lemma inventory_consistent:
  assumes "disc_ok disc" "inventory disc language = (nodes, seeds)"
  shows "consistent (set nodes)"
proof -
  let ?files = "disc_manager disc # disc_title_sets disc"
  have ok: "file_ok f" if "f \<in> set ?files" for f using assms(1) that by (auto simp: disc_ok_def list_all_iff)
  have nodes: "set nodes = (\<Union>f\<in>set ?files. set (file_nodes language f))"
    using assms(2) by (auto simp: inventory_def Let_def)
  have "sorted_wrt (<) (map file_vts ?files)" using assms(1) by (auto simp: disc_ok_def list_all_iff)
  then have distinct: "distinct (map file_vts ?files)" by (simp only: strict_sorted_iff)
  have same: "node_pgc n = node_pgc m" if "n \<in> set nodes" "m \<in> set nodes" "key (node_coordinate n) = key (node_coordinate m)" for n m
  proof -
    from that(1,2) obtain f g where f: "f \<in> set ?files" "n \<in> set (file_nodes language f)"
      and g: "g \<in> set ?files" "m \<in> set (file_nodes language g)" unfolding nodes by blast
    obtain i k where n: "select_language (file_languages f) language = Some i" "co_vts (node_coordinate n) = file_vts f"
      "co_pgc (node_coordinate n) = int k + 1" "node_pgc n = lang_program_chains (file_languages f ! i) ! k"
      using file_node_key [OF ok [OF f(1)] f(2)] by blast
    obtain j l where m: "select_language (file_languages g) language = Some j" "co_vts (node_coordinate m) = file_vts g"
      "co_pgc (node_coordinate m) = int l + 1" "node_pgc m = lang_program_chains (file_languages g ! j) ! l"
      using file_node_key [OF ok [OF g(1)] g(2)] by blast
    have "file_vts f = file_vts g" "k = l" using that(3) n(2,3) m(2,3) by (simp_all add: key_def)
    then have "f = g" using f(1) g(1) distinct by (meson distinct_map inj_onD)
    then show ?thesis using n m \<open>k = l\<close> by simp
  qed
  show ?thesis
    unfolding consistent_def
  proof (intro allI impI)
    fix n m
    assume "place_ok (set nodes) n" "place_ok (set nodes) m" and keys: "key (node_coordinate n) = key (node_coordinate m)"
    then obtain n' m' where "n' \<in> set nodes" "key (node_coordinate n') = key (node_coordinate n)" "node_pgc n' = node_pgc n"
      "m' \<in> set nodes" "key (node_coordinate m') = key (node_coordinate m)" "node_pgc m' = node_pgc m"
      unfolding place_ok_def by blast
    then show "node_pgc n = node_pgc m" using same [of n' m'] keys by simp
  qed
qed

lemma run_calls_Cons:
  "fst (run_calls call (r # rs) s) = fst (call r s) # fst (run_calls call rs (snd (call r s)))"
  "snd (run_calls call (r # rs) s) = snd (run_calls call rs (snd (call r s)))"
  by (simp_all split: prod.split)

text \<open>An operation that remembers its answers: as long as what is remembered is right, a sequence of calls gives what the
  calls give directly, and what was answered stays remembered.\<close>

locale remembering =
  fixes call :: "'r \<Rightarrow> 's \<Rightarrow> 'a \<times> 's"
    and direct :: "'r \<Rightarrow> 'a"
    and good :: "'r \<Rightarrow> bool"
    and right :: "'s \<Rightarrow> bool"
    and knows :: "'s \<Rightarrow> 'r \<Rightarrow> bool"
  assumes call_right: "right s \<Longrightarrow> good r \<Longrightarrow> fst (call r s) = direct r \<and> right (snd (call r s))"
    and call_knows: "right s \<Longrightarrow> good r \<Longrightarrow> knows (snd (call r s)) r"
    and knows_stays: "right s \<Longrightarrow> knows s q \<Longrightarrow> knows (snd (call r s)) q"
begin

lemma calls_right:
  "right s \<Longrightarrow> list_all good rs \<Longrightarrow> fst (run_calls call rs s) = map direct rs \<and> right (snd (run_calls call rs s))"
proof (induction rs arbitrary: s)
  case (Cons r rs)
  then show ?case using call_right [of s r] by (simp only: run_calls_Cons list.pred_inject list.map)
qed simp

lemma calls_keep: "right s \<Longrightarrow> list_all good rs \<Longrightarrow> knows s q \<Longrightarrow> knows (snd (run_calls call rs s)) q"
proof (induction rs arbitrary: s)
  case (Cons r rs)
  from Cons.IH [of "snd (call r s)"] Cons.prems call_right [of s r] knows_stays [of s q r] show ?case
    by (simp only: run_calls_Cons list.pred_inject)
qed simp

lemma calls_know: "right s \<Longrightarrow> list_all good rs \<Longrightarrow> r \<in> set rs \<Longrightarrow> knows (snd (run_calls call rs s)) r"
proof (induction rs arbitrary: s)
  case (Cons q rs)
  from Cons.IH [of "snd (call q s)"] Cons.prems call_right [of s q] call_knows [of s q] calls_keep [of "snd (call q s)" rs q] show ?case
    by (simp only: run_calls_Cons list.pred_inject list.set) blast
qed simp

end

text \<open>What the resolver remembers: details it would read again, and program chains of the inventory.\<close>

definition resolver_ok ::
    "(u8 list \<Rightarrow> digest) \<Rightarrow> vob_source \<Rightarrow> (int \<rightharpoonup> string) \<Rightarrow> cell_scan_options \<Rightarrow> menu_node set \<Rightarrow> resolver \<Rightarrow> bool" where
  "resolver_ok digest source files opts nodes rs \<longleftrightarrow> rs_files rs = files \<and> rs_scan rs = opts
     \<and> (\<forall>c regs d. rs_cache rs (c, regs) = Some d \<longrightarrow>
          (\<exists>n. place_ok nodes n \<and> node_coordinate n = c \<and> read_state digest source files opts c (node_pgc n) regs = Inr d))
     \<and> (\<forall>k pgc. rs_chains rs k = Some pgc \<longrightarrow> (\<exists>n. place_ok nodes n \<and> key (node_coordinate n) = k \<and> node_pgc n = pgc))"

lemma resolve_right:
  assumes "resolver_ok digest source files opts nodes rs" "consistent nodes" "request_ok nodes (c, pgc, regs)"
  shows "resolve digest source False c pgc regs rs =
     (case read_state digest source files opts c pgc regs of
        Inl e \<Rightarrow> (Inl e, rs)
      | Inr d \<Rightarrow> (Inr d, rs\<lparr>rs_cache := (rs_cache rs)((c, regs) \<mapsto> d)\<rparr>))"
proof (cases "rs_cache rs (c, regs)")
  case (Some d)
  then obtain n where n: "place_ok nodes n" "node_coordinate n = c" "read_state digest source files opts c (node_pgc n) regs = Inr d"
    using assms(1) unfolding resolver_ok_def by blast
  from assms(3) obtain m where "place_ok nodes m" "node_coordinate m = c" "node_pgc m = pgc" by (auto simp: request_ok_def)
  then have "node_pgc n = pgc" using consistentD [OF assms(2) n(1), of m] n(2) by simp
  with n(3) have read: "read_state digest source files opts c pgc regs = Inr d" by simp
  have "(rs_cache rs)((c, regs) \<mapsto> d) = rs_cache rs" using Some by auto
  with Some read show ?thesis by (simp add: resolve_def)
next
  case None
  then show ?thesis using assms(1) by (simp add: resolve_def resolver_ok_def split: sum.split)
qed

lemma resolver_ok_cached:
  assumes "resolver_ok digest source files opts nodes rs" "request_ok nodes (c, pgc, regs)"
    "read_state digest source files opts c pgc regs = Inr d"
  shows "resolver_ok digest source files opts nodes
    (rs\<lparr>rs_cache := (rs_cache rs)((c, regs) \<mapsto> d), rs_chains := (rs_chains rs)(key c \<mapsto> pgc)\<rparr>)"
  using assms unfolding resolver_ok_def request_ok_def by auto

definition good_call :: "menu_node set \<Rightarrow> numbered_request \<Rightarrow> bool" where
  "good_call nodes r \<longleftrightarrow> request_ok nodes (snd r)"

definition direct_call ::
    "(u8 list \<Rightarrow> digest) \<Rightarrow> vob_source \<Rightarrow> (int \<rightharpoonup> string) \<Rightarrow> cell_scan_options \<Rightarrow> (nat \<Rightarrow> bool) \<Rightarrow> numbered_request
      \<Rightarrow> (live_error, live_state) go" where
  "direct_call digest source files opts cancelled r =
     (case r of (i, c, pgc, regs) \<Rightarrow> direct_answer digest source files opts cancelled i c pgc regs)"

text \<open>A call that was answered is in the cache.\<close>

definition caches ::
    "(u8 list \<Rightarrow> digest) \<Rightarrow> vob_source \<Rightarrow> (int \<rightharpoonup> string) \<Rightarrow> cell_scan_options \<Rightarrow> (nat \<Rightarrow> bool) \<Rightarrow> resolver \<Rightarrow> numbered_request
      \<Rightarrow> bool" where
  "caches digest source files opts cancelled rs r =
     (case r of (i, c, pgc, regs) \<Rightarrow> \<forall>live. direct_answer digest source files opts cancelled i c pgc regs = Inr live
        \<longrightarrow> (\<exists>d. rs_cache rs (c, regs) = Some d \<and> rv_live d = live))"

lemma resolver_call_right:
  assumes "resolver_ok digest source files opts nodes rs" "consistent nodes" "request_ok nodes (c, pgc, regs)"
  shows "resolver_call digest source cancelled (i, c, pgc, regs) rs =
     (if cancelled i then (no_live_state, rs)
      else case read_state digest source files opts c pgc regs of
          Inl e \<Rightarrow> (Inl e, rs)
        | Inr d \<Rightarrow> (Inr (rv_live d),
            rs\<lparr>rs_cache := (rs_cache rs)((c, regs) \<mapsto> d), rs_chains := (rs_chains rs)(key c \<mapsto> pgc)\<rparr>))"
  using resolve_right [OF assms]
  by (auto simp: resolver_call_def resolve_coordinate_def split: sum.split) (simp_all add: resolve_def)

lemma cache_grows: "rs_cache rs k = Some d \<Longrightarrow> rs_cache (snd (resolver_call digest source cancelled r rs)) k = Some d"
  by (cases r) (auto simp: resolver_call_def resolve_coordinate_def resolve_def split: option.split sum.split)

interpretation memory: remembering "resolver_call digest source cancelled" "direct_call digest source files opts cancelled"
    "good_call nodes" "\<lambda>rs. consistent nodes \<and> resolver_ok digest source files opts nodes rs"
    "caches digest source files opts cancelled"
  for digest source files opts cancelled nodes
proof (unfold_locales, goal_cases)
  case (1 rs r)
  then have ok: "consistent nodes" "resolver_ok digest source files opts nodes rs" by simp_all
  show ?case
    using 1 resolver_call_right [OF ok(2,1)] resolver_ok_cached [OF ok(2)]
    by (cases r) (auto simp: good_call_def direct_call_def direct_answer_def split: sum.split)
next
  case (2 rs r)
  then have ok: "consistent nodes" "resolver_ok digest source files opts nodes rs" by simp_all
  show ?case
    using 2 resolver_call_right [OF ok(2,1)]
    by (cases r) (auto simp: good_call_def caches_def direct_answer_def split: sum.splits)
next
  case (3 rs q r)
  then show ?case using cache_grows [of rs _ _ digest source cancelled r] unfolding caches_def by (cases q) (simp, blast)
qed

subsection \<open>Discovery with the resolver\<close>

lemma detail_buttons:
  assumes "read_state digest source files opts c pgc regs = Inr d"
  shows "group_ok (rv_buttons d) \<and> live_buttons (rv_live d) = rv_buttons d"
proof -
  from assms obtain name cell position scan where
      scan: "scan_menu_cell source name cell opts = Inr scan" "detail_of digest scan position c pgc regs = Inr d"
    by (auto simp: read_state_def go_bind_Inr split: if_splits option.splits)
  then obtain m n k where "scan_ok m n k scan" using yieldsD [OF scan_menu_cell_yields scan(1)] by blast
  then have packets: "\<forall>p\<in>set (scan_packets scan). pci_ok (nav_pci p)" by (simp add: scan_ok_def)
  from scan(2) obtain packet pts where packet: "select_nav_packet (scan_packets scan) position = Inr (packet, pts)"
    and d: "rv_buttons d = select_button_group (nav_pci packet)" "live_buttons (rv_live d) = rv_buttons d"
    by (auto simp: detail_of_def go_bind_Inr Let_def live_state_of_def)
  have "pci_ok (nav_pci packet)" using yieldsD [OF select_nav_packet_yields [OF packets] packet] by simp
  from select_button_group_ok [OF this] d show ?thesis by simp
qed

lemma directory_env_bounded: "resolver_bounded (directory_env env source rs cancelled)"
proof -
  have "yields (\<lambda>live. length (live_buttons live) < 2 ^ 32) (direct_answer digest source files opts cancelled i c pgc regs)"
    if "pgc_ok pgc" for digest files opts i c pgc regs
  proof -
    from that obtain num where "chain_ok num pgc" by (auto simp: pgc_ok_def)
    then have "yields (\<lambda>live. length (live_buttons live) < 2 ^ 32)
        (go_bind (read_state digest source files opts c pgc regs) (\<lambda>detail. Inr (rv_live detail)))"
      by (rule yields_bind [OF read_state_yields]) (auto simp: group_ok_def dest!: detail_buttons)
    then show ?thesis by (simp add: direct_answer_def)
  qed
  then show ?thesis by (simp add: resolver_bounded_def directory_env_def)
qed

definition fresh :: "resolver \<Rightarrow> bool" where
  "fresh rs \<longleftrightarrow> rs_cache rs = Map.empty \<and> rs_chains rs = Map.empty"

lemma fresh_right:
  "fresh rs \<Longrightarrow> resolver_ok digest source (rs_files rs) (rs_scan rs) nodes rs"
  by (simp add: fresh_def resolver_ok_def)

lemma good_requests: "(\<forall>r\<in>set requests. request_ok nodes r) \<Longrightarrow> list_all (good_call nodes) (enumerate k requests)"
  by (auto simp: list_all_iff good_call_def enumerate_eq_zip dest: set_zip_rightD)

lemma after_requests_right:
  assumes "fresh rs" "consistent nodes" "\<forall>r\<in>set requests. request_ok nodes r"
  shows "fst (after_requests digest source cancelled requests rs)
      = map (direct_call digest source (rs_files rs) (rs_scan rs) cancelled) (enumerate 0 requests)"
    "resolver_ok digest source (rs_files rs) (rs_scan rs) nodes (snd (after_requests digest source cancelled requests rs))"
    "r \<in> set (enumerate 0 requests) \<Longrightarrow>
      caches digest source (rs_files rs) (rs_scan rs) cancelled (snd (after_requests digest source cancelled requests rs)) r"
  using assms(2) fresh_right [OF assms(1)] memory.calls_right [OF _ good_requests [OF assms(3)]]
    memory.calls_know [OF _ good_requests [OF assms(3)]]
  unfolding after_requests_def by blast+

text \<open>Each screen of the discovery is in the cache, with the state it was selected for.\<close>

lemma screens_cached:
  assumes "fresh rs" "consistent nodes" "requests_ok (directory_env env source rs cancelled) nodes requests screens" "s \<in> set screens"
  shows "\<exists>d. rs_cache (snd (after_requests (ge_digest env) source cancelled requests rs)) (screen_coordinate s, screen_registers s) = Some d
    \<and> rv_live d = screen_live s"
proof -
  have requests: "\<forall>r\<in>set requests. request_ok nodes r" using assms(3) by (simp add: requests_ok_def)
  from assms(3,4) obtain i pgc where i: "i < length requests" "requests ! i = (screen_coordinate s, pgc, screen_registers s)"
    and live: "direct_answer (ge_digest env) source (rs_files rs) (rs_scan rs) cancelled i (screen_coordinate s) pgc (screen_registers s) = Inr (screen_live s)"
    unfolding requests_ok_def answered_def by (auto simp: directory_env_def)
  have "(i, requests ! i) \<in> set (enumerate 0 requests)" using i(1) by (simp add: in_set_enumerate_eq)
  from after_requests_right(3) [OF assms(1,2) requests this, of "ge_digest env" source cancelled] live show ?thesis
    by (simp add: caches_def i(2))
qed

subsection \<open>Samples\<close>

definition sample_registers :: registers where
  "sample_registers = opt_registers menu_options"

definition later_rows :: "u8 list list" where
  "later_rows = [[2, 2], [2, 2]]"

definition menu_packet :: "u8 list list \<Rightarrow> u8 list" where
  "menu_packet rows = author_packet 0 16 32 rows [0, 1, 2, 3] [0, 15, 15, 8]"

definition menu_fragment :: "u8 list \<Rightarrow> u64 \<Rightarrow> spu_fragment" where
  "menu_fragment bs pts = \<lparr>frag_stream = 0x20, frag_data = bs, frag_pts = pts, frag_has_pts = True\<rparr>"

text \<open>The overlay of a picture at its place.\<close>

definition displays :: "u8 list list \<Rightarrow> nat \<Rightarrow> nat \<Rightarrow> overlay \<Rightarrow> bool" where
  "displays rows x y ov \<longleftrightarrow> ov_bounds ov = \<lparr>min_x = int x, min_y = int y, max_x = int (x + length (hd rows)), max_y = int (y + length rows)\<rparr>
     \<and> ov_pixels ov = concat rows \<and> ov_stride ov = length (hd rows)"

lemma authored_shows:
  assumes "picture_fits x y rows" and "nibble_map colors" "nibble_map alphas" and "length clut = 16"
    and "length (author_packet 0 x y rows colors alphas) \<le> max_packet_bytes"
  shows "\<exists>ov. (displays rows x y ov \<and> ov_color_map ov = colors \<and> ov_alpha ov = alphas)
    \<and> decode_packet (author_packet 0 x y rows colors alphas) clut date = Inr ov"
  using authored_packet_decodes [OF assms(1-4) _ assms(5), of date] by (auto simp: displays_def)

lemma menu_packets:
  "picture_fits 16 32 sample_rows" "picture_fits 16 32 later_rows" "nibble_map [0, 1, 2, 3]" "nibble_map [0, 15, 15, 8]"
  "length (menu_packet sample_rows) = 32" "length (menu_packet later_rows) = 30"
  "hd (preferred_spu_streams sample_chain sample_registers) = 0x20" "length (pgc_palette sample_chain) = 16"
  by (simp_all add: picture_fits_def nibble_map_def sample_rows_def later_rows_def max_overlay_width_def max_overlay_height_def)
    code_simp+

lemma menu_packets_framed: "framed (menu_packet sample_rows)" "framed (menu_packet later_rows)"
  using menu_packets(5,6) unfolding menu_packet_def by (simp_all add: author_packet_framed max_packet_bytes_def)

subsection \<open>The properties\<close>

text \<open>C33: Reading a menu state is total and safe: whatever the directory, the files and their sectors hold, it gives an
  error or a well-formed state, never a panic: a display group with buttons numbered from 1 and neighbours that exist, a highlight
  of a real rectangle, a complete overlay, and a time within 64 bits at a program and cell that exist.\<close>

lemma resolved_states_are_well_formed:
  assumes "chain_ok num pgc"
  shows "yields (\<lambda>d. group_ok (rv_buttons d) \<and> pred_option highlight_ok (rv_highlight d) \<and> pred_option overlay_ok (rv_overlay d)
      \<and> 0 \<le> rv_target d \<and> rv_target d < 2 ^ 63
      \<and> 1 \<le> co_program c \<and> co_program c \<le> int (unat (pgc_programs pgc)) \<and> 1 \<le> co_cell c \<and> co_cell c \<le> int (unat (pgc_cells pgc)))
    (read_state digest source files opts c pgc regs)"
  using read_state_yields [OF assms] by (rule yields_mono) (use max_target_fits in \<open>auto simp: detail_ok_def\<close>)

lemma resolved_states_are_well_formed_witness:
  "yields (\<lambda>d. pred_option overlay_ok (rv_overlay d) \<and> 0 \<le> rv_target d \<and> rv_target d < 2 ^ 63)
    (read_state (\<lambda>bs. bs) (\<lambda>_. Some \<lparr>vob_stat = Some (False, 2048), vob_read = \<lambda>_. (replicate 2048 0, False)\<rparr>) [0 \<mapsto> manager_vob]
      \<lparr>scan_max_sectors = 0, scan_max_packets = 0, scan_max_bytes = 0\<rparr>
      \<lparr>co_kind = kind_manager, co_vts = 0, co_language = 1, co_pgc = 1, co_program = 1, co_cell = 1, co_menu = 3\<rparr> sample_chain sample_registers)"
proof -
  have "chain_ok 1 sample_chain" by (simp add: chain_ok_def cell_ok_def sample_chain_def)
  from resolved_states_are_well_formed [OF this] show ?thesis by (rule yields_mono) simp
qed

text \<open>C32: The cache is transparent: on the places of a disc's menus, whatever calls discovery makes in whatever order and
  with whatever registers, the resolver answers each as if it had read the disc again.\<close>

lemma resolver_cache_is_transparent:
  assumes "disc_ok disc" and "fresh rs"
    and "list_all (\<lambda>(c, pgc, regs). \<exists>n. place_ok (set (fst (inventory disc language))) n \<and> node_coordinate n = c \<and> node_pgc n = pgc) requests"
  shows "fst (after_requests digest source cancelled requests rs)
    = map (\<lambda>(i, c, pgc, regs). direct_answer digest source (rs_files rs) (rs_scan rs) cancelled i c pgc regs) (enumerate 0 requests)"
proof -
  obtain nodes seeds where inv: "inventory disc language = (nodes, seeds)" by (metis prod.exhaust)
  have "\<forall>r\<in>set requests. request_ok (set nodes) r" using assms(3) by (auto simp: list_all_iff request_ok_def inv)
  from after_requests_right(1) [OF assms(2) inventory_consistent [OF assms(1) inv] this, of digest source cancelled]
  show ?thesis by (simp add: direct_call_def)
qed

lemma resolver_cache_is_transparent_witness:
  "(let requests = map (\<lambda>n. (node_coordinate n, node_pgc n, sample_registers)) (fst (inventory menu_disc []) @ fst (inventory menu_disc []));
      files = [0 \<mapsto> manager_vob]; opts = \<lparr>scan_max_sectors = 0, scan_max_packets = 0, scan_max_bytes = 0\<rparr>
    in fst (after_requests (\<lambda>bs. bs) (\<lambda>_. None) (\<lambda>_. False) requests
          \<lparr>rs_files = files, rs_scan = opts, rs_cache = Map.empty, rs_chains = Map.empty\<rparr>)
      = map (\<lambda>(i, c, pgc, regs). direct_answer (\<lambda>bs. bs) (\<lambda>_. None) files opts (\<lambda>_. False) i c pgc regs) (enumerate 0 requests))"
proof -
  have "nodes_ok (set (fst (inventory menu_disc [])))" using inventory_ok(1) [OF menu_disc_ok, of "[]"] by (metis prod.collapse)
  then have "list_all (\<lambda>(c, pgc, regs). \<exists>n. place_ok (set (fst (inventory menu_disc []))) n \<and> node_coordinate n = c \<and> node_pgc n = pgc)
      (map (\<lambda>n. (node_coordinate n, node_pgc n, sample_registers)) (fst (inventory menu_disc []) @ fst (inventory menu_disc [])))"
    unfolding list_all_iff nodes_ok_def by auto
  from resolver_cache_is_transparent [OF menu_disc_ok _ this] show ?thesis by (simp add: fresh_def)
qed



text \<open>C35: The overlay shown is the first one that decodes, not the latest: of two packets presented before the target, the
  later, which decodes as well, is not shown.\<close>

lemma earliest_overlay_is_shown:
  "\<exists>ov later. select_overlay [menu_fragment (menu_packet sample_rows) 0, menu_fragment (menu_packet later_rows) 90000]
      sample_chain sample_registers 180000 = Inr (Some ov) \<and> ov_pixels ov = concat sample_rows
    \<and> decode_packet (menu_packet later_rows) (pgc_palette sample_chain) (bounded_control_date ((180000 - 90000) div 1024)) = Inr later
    \<and> ov_pixels later = concat later_rows \<and> concat later_rows \<noteq> concat sample_rows"
proof -
  let ?fragments = "[menu_fragment (menu_packet sample_rows) 0, menu_fragment (menu_packet later_rows) 90000]"
  let ?authored = "\<lambda>s :: u8. if s = 0x20 then [menu_packet sample_rows, menu_packet later_rows] else []"
  have fits: "list_all (\<lambda>f. fragment_ok f \<and> length (frag_data f) \<le> 65536) ?fragments"
    using menu_packets(5,6) by (simp add: fragment_ok_def menu_fragment_def)
  have sent: "list_all framed (?authored s) \<and> sent s (map (\<lambda>f. (frag_stream f, frag_data f)) ?fragments) = concat (?authored s)"
    if "subpicture_stream s" for s
    using menu_packets_framed by (simp add: sent_def menu_fragment_def)
  have small: "length (author_packet 0 16 32 sample_rows [0, 1, 2, 3] [0, 15, 15, 8]) \<le> max_packet_bytes"
    "length (author_packet 0 16 32 later_rows [0, 1, 2, 3] [0, 15, 15, 8]) \<le> max_packet_bytes"
    using menu_packets(5,6) by (simp_all add: menu_packet_def max_packet_bytes_def)
  have order: "?authored (hd (preferred_spu_streams sample_chain sample_registers))
      = author_packet 0 16 32 sample_rows [0, 1, 2, 3] [0, 15, 15, 8] # [menu_packet later_rows]"
    by (simp add: menu_packets(7) menu_packet_def)
  obtain ov where "select_overlay ?fragments sample_chain sample_registers 180000 = Inr (Some ov)" "ov_pixels ov = concat sample_rows"
    using first_authored_overlay [OF fits sent order authored_shows [OF menu_packets(1,3,4,8) small(1)], of 180000] by (auto simp: displays_def)
  moreover obtain later where "decode_packet (menu_packet later_rows) (pgc_palette sample_chain) (bounded_control_date ((180000 - 90000) div 1024)) = Inr later"
    "ov_pixels later = concat later_rows"
    using authored_shows [OF menu_packets(2,3,4,8) small(2)] by (auto simp: displays_def menu_packet_def)
  ultimately show ?thesis by (auto simp: later_rows_def sample_rows_def)
qed

end
