(* ===== verification/DvdCaptureProps.thy ===== *)
theory DvdCaptureProps
  imports DvdCapture DvdResolverProps "HOL-Library.Sublist"
begin

text \<open>
  Properties of the capture of menus: output read from a process is complete or an error; what discovery
  selected is resolved again to the same state and can be asked of FFmpeg; and the capture of a directory
  never panics on any files, gives at most 32 pictures none of which is black, and says it is complete only
  when it has one for each selected screen.
\<close>

unbundle bit_operations_syntax

subsection \<open>Bounded output\<close>

lemma limit_writes:
  assumes "0 \<le> limit"
  shows "(let w = fold limit_write pieces \<lparr>lw_data = take (nat limit) before, lw_limit = limit, lw_exceeded = e\<rparr> in
      lw_data w = take (nat limit) (before @ concat pieces) \<and> lw_limit w = limit
      \<and> (e \<longrightarrow> lw_exceeded w) \<and> (int (length before) \<le> limit \<and> \<not> lw_exceeded w \<longrightarrow> int (length (before @ concat pieces)) \<le> limit))"
proof (induction pieces arbitrary: before e)
  case (Cons p pieces)
  define w where "w = \<lparr>lw_data = take (nat limit) before, lw_limit = limit, lw_exceeded = e\<rparr>"
  define e' where "e' \<longleftrightarrow> e \<or> int (length before) \<ge> limit \<or> int (length (before @ p)) > limit"
  have step: "limit_write p w = \<lparr>lw_data = take (nat limit) (before @ p), lw_limit = limit, lw_exceeded = e'\<rparr>"
    using assms by (auto simp: limit_write_def w_def e'_def Let_def min_def nat_diff_distrib)
  define w' where "w' = fold limit_write pieces (limit_write p w)"
  have "lw_data w' = take (nat limit) ((before @ p) @ concat pieces)" "lw_limit w' = limit" "e' \<longrightarrow> lw_exceeded w'"
    "int (length (before @ p)) \<le> limit \<and> \<not> lw_exceeded w' \<longrightarrow> int (length ((before @ p) @ concat pieces)) \<le> limit"
    using Cons.IH [of "before @ p" e'] unfolding w'_def step Let_def by blast+
  moreover have "\<not> e' \<Longrightarrow> int (length (before @ p)) \<le> limit" "e \<Longrightarrow> e'" by (simp_all add: e'_def)
  moreover have "fold limit_write (p # pieces) w = w'" by (simp add: w'_def)
  ultimately show ?case unfolding w_def [symmetric] Let_def concat.simps append_assoc by metis
qed simp

lemma new_writer_writes:
  assumes "0 < limit"
  shows "lw_data (fold limit_write pieces (new_writer limit)) = take (nat limit) (concat pieces)"
    "\<not> lw_exceeded (fold limit_write pieces (new_writer limit)) \<Longrightarrow> int (length (concat pieces)) \<le> limit"
  using limit_writes [of limit pieces "[]" False] assms by (simp_all add: new_writer_def Let_def)

subsection \<open>Resolving a screen again\<close>

definition resolver_right :: "(u8 list \<Rightarrow> digest) \<Rightarrow> vob_source \<Rightarrow> menu_node set \<Rightarrow> resolver \<Rightarrow> bool" where
  "resolver_right digest source nodes rs \<longleftrightarrow> nodes_ok nodes \<and> consistent nodes
     \<and> resolver_ok digest source (rs_files rs) (rs_scan rs) nodes rs"

text \<open>What a detail of a coordinate of the inventory is good for: its picture can be composed and its frame requested.\<close>

definition drawable :: "coordinate \<Rightarrow> resolved_state \<Rightarrow> bool" where
  "drawable c d \<longleftrightarrow> detail_ok d \<and> in_range c \<and> 1 \<le> co_program c \<and> co_program c \<le> 255"

lemma read_drawable:
  assumes "nodes_ok nodes" "place_ok nodes n" "node_coordinate n = c"
  shows "yields (drawable c) (read_state digest source files opts c (node_pgc n) regs)"
proof -
  have "pgc_ok (node_pgc n)" using assms(1,2) by (auto simp: place_ok_def nodes_ok_def)
  then obtain num where chain: "chain_ok num (node_pgc n)" by (auto simp: pgc_ok_def)
  have range: "in_range c" using place_in_range [OF assms(1,2)] assms(3) by simp
  have "int (unat (pgc_programs (node_pgc n))) \<le> 255" using unat_byte_less [of "pgc_programs (node_pgc n)"] by linarith
  then show ?thesis
    by (intro yields_mono [OF read_state_yields [OF chain]]) (use range in \<open>auto simp: drawable_def\<close>)
qed

lemma read_zero_chain: "read_state digest source files opts c zero_chain regs = no_live_state"
  by (auto simp: read_state_def zero_chain_def)

lemma resolve_screen:
  assumes right: "resolver_right digest source nodes rs" and place: "place_ok nodes n" "node_coordinate n = c"
    and resolved: "resolve digest source cancelled c (program_chain_of rs c) regs rs = (r, rs')"
  shows "yields (drawable c) r \<and> resolver_right digest source nodes rs'"
proof -
  note ok = right [unfolded resolver_right_def]
  show ?thesis
  proof (cases "cancelled")
    case True
    then show ?thesis using resolved right by (auto simp: resolve_def)
  next
    case False
    show ?thesis
    proof (cases "rs_cache rs (c, regs)")
      case (Some d)
      then obtain m where "place_ok nodes m" "node_coordinate m = c" and
          read: "read_state digest source (rs_files rs) (rs_scan rs) c (node_pgc m) regs = Inr d"
        using ok unfolding resolver_ok_def by blast
      then have "drawable c d" using yieldsD [OF read_drawable read] ok by blast
      then show ?thesis using resolved right False Some by (auto simp: resolve_def)
    next
      case None
      show ?thesis
      proof (cases "rs_chains rs (key c)")
        case None': None
        then show ?thesis using resolved right False None by (auto simp: resolve_def program_chain_of_def read_zero_chain)
      next
        case (Some pgc)
        then obtain m where m: "place_ok nodes m" "key (node_coordinate m) = key c" "node_pgc m = pgc"
          using ok unfolding resolver_ok_def by blast
        then have pgc: "node_pgc n = pgc" using consistentD [of nodes n m] ok place by simp
        have request: "request_ok nodes (c, pgc, regs)" using place pgc by (auto simp: request_ok_def)
        have y: "yields (drawable c) (read_state digest source (rs_files rs) (rs_scan rs) c pgc regs)"
          using read_drawable [OF _ place] ok pgc by blast
        show ?thesis
        proof (cases "read_state digest source (rs_files rs) (rs_scan rs) c pgc regs")
          case (Inl e)
          then show ?thesis using resolved right False None Some y by (auto simp: resolve_def program_chain_of_def)
        next
          case (Inr d)
          have "resolver_ok digest source (rs_files rs) (rs_scan rs) nodes (rs\<lparr>rs_cache := (rs_cache rs)((c, regs) \<mapsto> d)\<rparr>)"
            using ok request Inr unfolding resolver_ok_def request_ok_def by auto
          then show ?thesis using resolved ok False None Some y Inr
            by (auto simp: resolve_def program_chain_of_def resolver_right_def)
        qed
      qed
    qed
  qed
qed

lemma drawable_request: "drawable (screen_coordinate s) d \<Longrightarrow> \<not> request_invalid (frame_request_of env s d)"
  by (auto simp: drawable_def request_invalid_def frame_request_of_def in_range_def detail_ok_def)

subsection \<open>The captured pictures\<close>

definition pictured :: "screen \<Rightarrow> capture \<Rightarrow> bool" where
  "pictured s c \<longleftrightarrow> cap_coordinate c = screen_coordinate s \<and> cap_discovery c = screen_discovery s \<and> \<not> image_is_black (cap_image c)"

text \<open>The result when the screens \<open>before\<close> have been gone through.\<close>

definition capturing_ok :: "nat \<Rightarrow> screen list \<Rightarrow> capture_result \<Rightarrow> bool" where
  "capturing_ok k before r \<longleftrightarrow> cr_selected r = k \<and> \<not> cr_complete r \<and> cr_partial r = (cr_warnings r \<noteq> [])
     \<and> (\<exists>ss. subseq ss before \<and> list_all2 pictured ss (cr_captures r))
     \<and> (cr_warnings r = [] \<longrightarrow> list_all2 (\<lambda>s c. pictured s c \<and> cap_has_overlay c) before (cr_captures r))"

lemma capturing_mark: "capturing_ok k before r \<Longrightarrow> capturing_ok k before (mark_capture code message r)"
  by (auto simp: capturing_ok_def mark_capture_def Let_def)

lemma capturing_marked: "cr_warnings (mark_capture code message r) \<noteq> []"
  by (auto simp: mark_capture_def Let_def)

lemma capturing_skip:
  "capturing_ok k before r \<Longrightarrow> cr_warnings r \<noteq> [] \<Longrightarrow> capturing_ok k (before @ [s]) r"
  by (auto simp: capturing_ok_def intro: list_emb_prefix)

lemma captures_mark [simp]: "cr_captures (mark_capture code message r) = cr_captures r"
  by (simp add: mark_capture_def Let_def)

lemma keep_capture_ok:
  assumes "capturing_ok k before r"
  shows "capturing_ok k (before @ [s]) (keep_capture s d composed r)"
proof -
  let ?c = "\<lparr>cap_coordinate = screen_coordinate s, cap_discovery = screen_discovery s, cap_image = composed,
      cap_has_overlay = (rv_overlay d \<noteq> None), cap_has_highlight = (rv_highlight d \<noteq> None)\<rparr>"
  define r1 where "r1 = (if rv_overlay d = None then mark_capture ''spu_unavailable'' ''menu subpicture state was not available'' r else r)"
  define r2 where "r2 = (if rv_buttons d \<noteq> [] \<and> rv_highlight d = None
    then mark_capture ''highlight_unavailable'' ''default menu highlight state was not available'' r1 else r1)"
  have r2: "capturing_ok k before r2" using assms by (simp add: r1_def r2_def capturing_mark)
  have quiet: "rv_overlay d \<noteq> None" if "cr_warnings r2 = []"
    using that capturing_marked unfolding r2_def r1_def by (auto split: if_splits simp: mark_capture_def Let_def)
  have add: "capturing_ok k (before @ [s]) (r2\<lparr>cr_captures := cr_captures r2 @ [?c]\<rparr>)" if "\<not> image_is_black composed"
  proof -
    have "pictured s ?c" using that by (simp add: pictured_def)
    moreover have "list_all2 (\<lambda>s c. pictured s c \<and> cap_has_overlay c) (before @ [s]) (cr_captures r2 @ [?c])" if "cr_warnings r2 = []"
      using r2 quiet [OF that] \<open>pictured s ?c\<close> that by (intro list_all2_appendI) (auto simp: capturing_ok_def)
    moreover have "\<exists>ss. subseq ss (before @ [s]) \<and> list_all2 pictured ss (cr_captures r2 @ [?c])"
    proof -
      obtain ss where "subseq ss before" "list_all2 pictured ss (cr_captures r2)" using r2 by (auto simp: capturing_ok_def)
      with \<open>pictured s ?c\<close> have "subseq (ss @ [s]) (before @ [s]) \<and> list_all2 pictured (ss @ [s]) (cr_captures r2 @ [?c])"
        by (simp add: list_all2_appendI)
      then show ?thesis ..
    qed
    ultimately show ?thesis using r2 by (auto simp: capturing_ok_def)
  qed
  have "keep_capture s d composed r = (if image_is_black composed then mark_capture ''black_frame'' ''decoded menu frame was black'' r2
      else r2\<lparr>cr_captures := cr_captures r2 @ [?c]\<rparr>)"
    by (simp add: keep_capture_def r1_def r2_def Let_def)
  then show ?thesis using add r2 by (simp add: capturing_mark capturing_skip capturing_marked)
qed

lemma compose_yields: "detail_ok d \<Longrightarrow> yields (\<lambda>_. True) (compose background d)"
  by (auto simp: compose_def detail_ok_def composite_ok split: option.split)

lemma decode_frame_yields: "yields (\<lambda>_. True) (decode_frame codec runner executable r)"
  by (auto simp: decode_frame_def build_args_def split: option.split prod.split)

lemma draw_screen_yields:
  assumes "capturing_ok k before r" "drawable (screen_coordinate s) d"
  shows "yields (capturing_ok k (before @ [s])) (draw_screen env i s d r)"
proof -
  define r1 where "r1 = (if rv_truncated d then mark_capture ''nav_scan_limit'' ''menu NAV/SPU sector scan limit reached'' r else r)"
  have r1: "capturing_ok k before r1" using assms(1) by (simp add: r1_def capturing_mark)
  have drawn: "yields (capturing_ok k (before @ [s])) (go_bind (compose background d) (\<lambda>composed. Inr (keep_capture s d composed r1)))" for background
    by (rule yields_bind [OF compose_yields]) (use assms(2) r1 in \<open>simp_all add: drawable_def keep_capture_ok\<close>)
  have "capturing_ok k (before @ [s]) (mark_capture code message r1)" for code message
    by (intro capturing_skip capturing_mark r1 capturing_marked)
  then show ?thesis
    using drawn decode_frame_yields [of "ce_codec env" "Some (ce_runner env i)" "ce_executable env" "frame_request_of env s d"]
    unfolding draw_screen_def Let_def r1_def [symmetric]
    by (auto split: sum.split fault.split)
qed

lemma capture_screens_yields:
  assumes "resolver_right (ge_digest (ce_graph env)) (ce_source env) nodes rs" "capturing_ok k before r"
    and "\<forall>s\<in>set ss. \<exists>n. place_ok nodes n \<and> node_coordinate n = screen_coordinate s"
  shows "yields (\<lambda>(r', cancelled). if cancelled then \<exists>ss'. capturing_ok k ss' r' \<and> prefix ss' (before @ ss)
      else capturing_ok k (before @ ss) r') (capture_screens env n i ss rs r)"
  using assms
proof (induction ss arbitrary: before r rs n i)
  case (Cons s ss)
  show ?case
  proof (cases "ce_cancelled env i")
    case False
    obtain detail rs' where resolved: "resolve (ge_digest (ce_graph env)) (ce_source env) (ce_resolve_cancelled env n)
        (screen_coordinate s) (program_chain_of rs (screen_coordinate s)) (screen_registers s) rs = (detail, rs')"
      by (metis prod.exhaust)
    from Cons.prems(3) obtain m where "place_ok nodes m" "node_coordinate m = screen_coordinate s" by auto
    from resolve_screen [OF Cons.prems(1) this resolved]
    have detail: "yields (drawable (screen_coordinate s)) detail" and right: "resolver_right (ge_digest (ce_graph env)) (ce_source env) nodes rs'"
      by simp_all
    have places: "\<forall>s\<in>set ss. \<exists>n. place_ok nodes n \<and> node_coordinate n = screen_coordinate s" using Cons.prems(3) by simp
    let ?P = "\<lambda>(r', cancelled). if cancelled then \<exists>ss'. capturing_ok k ss' r' \<and> prefix ss' (before @ s # ss)
      else capturing_ok k (before @ s # ss) r'"
    have app: "(before @ [s]) @ ss = before @ s # ss" by simp
    note IH = Cons.IH [OF right _ places, of "before @ [s]", unfolded app]
    show ?thesis
    proof (cases detail)
      case (Inl e)
      then obtain e' where e: "e = Failed e'" using detail by (cases e) auto
      have "capturing_ok k (before @ [s]) (mark_capture ''live_state'' ''menu NAV/SPU state could not be resolved'' r)"
        by (intro capturing_skip capturing_mark Cons.prems capturing_marked)
      then have "yields ?P (capture_screens env (n + 1) (i + 1) ss rs'
          (mark_capture ''live_state'' ''menu NAV/SPU state could not be resolved'' r))" by (rule IH)
      then show ?thesis using False resolved Inl e by simp
    next
      case (Inr d)
      then have "drawable (screen_coordinate s) d" using detail by simp
      then have "yields ?P (go_bind (draw_screen env (i + 1) s d r) (\<lambda>r. capture_screens env (n + 1) (i + 1) ss rs' r))"
        by (intro yields_bind [OF draw_screen_yields [OF Cons.prems(2)]] IH)
      then show ?thesis using False resolved Inr by simp
    qed
  qed (use Cons.prems(2) in \<open>auto intro: exI [of _ before]\<close>)
qed simp

text \<open>What a capture gives: the result, and whether an error comes with it. \<open>selected\<close> says which screens may have been
  selected; the pictures are of some of them, in their order.\<close>

definition captured_ok :: "(screen list \<Rightarrow> bool) \<Rightarrow> capture_result \<times> capture_error option \<Rightarrow> bool" where
  "captured_ok selected x \<longleftrightarrow> (case x of (r, e) \<Rightarrow>
     cr_selected r \<le> 32 \<and> cr_partial r = (cr_warnings r \<noteq> []) \<and> (if e = None then cr_captures r \<noteq> [] else \<not> cr_complete r)
     \<and> (if cr_captures r = [] then \<not> cr_complete r
         else \<exists>screens shown. selected screens \<and> length screens = cr_selected r \<and> subseq shown screens
           \<and> list_all2 pictured shown (cr_captures r)
           \<and> (if cr_complete r then shown = screens \<and> cr_warnings r = [] \<and> \<not> cr_truncated r \<and> list_all cap_has_overlay (cr_captures r)
               else True)))"

lemma captured_ok_mono: "captured_ok P x \<Longrightarrow> (\<And>ss. P ss \<Longrightarrow> Q ss) \<Longrightarrow> captured_ok Q x"
  unfolding captured_ok_def by (cases x) (auto split: if_splits; blast)

lemma captured_okI:
  assumes "cr_selected r \<le> 32" "cr_partial r = (cr_warnings r \<noteq> [])" "if e = None then cr_captures r \<noteq> [] else \<not> cr_complete r"
    and "P screens" "length screens = cr_selected r" "subseq shown screens" "list_all2 pictured shown (cr_captures r)"
    and "if cr_complete r then cr_captures r \<noteq> [] \<and> shown = screens \<and> cr_warnings r = [] \<and> \<not> cr_truncated r
      \<and> list_all cap_has_overlay (cr_captures r) else True"
  shows "captured_ok P (r, e)"
proof -
  have "if cr_captures r = [] then \<not> cr_complete r
    else \<exists>screens shown. P screens \<and> length screens = cr_selected r \<and> subseq shown screens \<and> list_all2 pictured shown (cr_captures r)
      \<and> (if cr_complete r then shown = screens \<and> cr_warnings r = [] \<and> \<not> cr_truncated r \<and> list_all cap_has_overlay (cr_captures r) else True)"
  proof (cases "cr_captures r = []")
    case True
    then show ?thesis using assms(8) by (simp split: if_splits)
  next
    case False
    then show ?thesis
      unfolding if_not_P [OF False] by (intro exI [of _ screens] exI [of _ shown]) (use assms(4-8) in \<open>simp split: if_splits\<close>)
  qed
  with assms(1-3) show ?thesis by (simp only: captured_ok_def prod.case)
qed

lemma captured_early:
  assumes "capturing_ok k ss r" "k \<le> 32" "prefix ss screens" "P screens" "k = length screens"
  shows "captured_ok P (r, Some ErrCapture)"
proof -
  obtain shown where shown: "subseq shown ss" "list_all2 pictured shown (cr_captures r)" using assms(1) by (auto simp: capturing_ok_def)
  have "subseq ss screens" using assms(3) by (auto simp: prefix_def)
  then have "subseq shown screens" using shown(1) subseq_order.order_trans by blast
  then show ?thesis using assms shown(2) by (intro captured_okI [of _ _ P screens shown]) (simp_all add: capturing_ok_def)
qed

lemma captured_run:
  assumes "capturing_ok k (result_screens found) r" "k \<le> 32" "P (result_screens found)" "k = length (result_screens found)" "k \<noteq> 0"
  shows "captured_ok P (finish_capture found r)"
proof -
  let ?screens = "result_screens found"
  obtain shown where shown: "subseq shown ?screens" "list_all2 pictured shown (cr_captures r)" using assms(1) by (auto simp: capturing_ok_def)
  have all: "shown = ?screens" if "length (cr_captures r) = length ?screens"
    using shown that by (metis list_all2_lengthD subseq_same_length)
  have overlays: "list_all cap_has_overlay (cr_captures r)" if "cr_warnings r = []"
    using that assms(1) by (auto simp: capturing_ok_def list_all2_conv_all_nth list_all_length)
  have quiet: "cr_partial r = (cr_warnings r \<noteq> [])" "cr_selected r = k" using assms(1) by (simp_all add: capturing_ok_def)
  show ?thesis
    unfolding finish_capture_def Let_def
    by (rule captured_okI [of _ _ P ?screens shown]) (use assms shown all overlays quiet in auto)
qed

lemma captured_found:
  assumes "result_ok nodes opts found" "opt_max_items opts \<le> 32"
  shows "length (result_screens found) \<le> 32" "captured_ok P (found_result cap found, Some ErrCapture)"
    "capturing_ok (length (result_screens found)) [] (found_result cap found)"
proof -
  show "length (result_screens found) \<le> 32" using assms by (simp add: result_ok_def)
  with assms show "captured_ok P (found_result cap found, Some ErrCapture)"
    "capturing_ok (length (result_screens found)) [] (found_result cap found)"
    by (simp_all add: captured_ok_def capturing_ok_def found_result_def result_ok_def)
qed

lemma empty_captured: "captured_ok P (found_result cap (initial_result 0), Some ErrCapture)"
  by (simp add: captured_ok_def found_result_def initial_result_def)

text \<open>The screens a discovery on the directory's files selects.\<close>

definition selects :: "capture_env \<Rightarrow> dvd_disc \<Rightarrow> resolver \<Rightarrow> graph_options \<Rightarrow> screen list \<Rightarrow> bool" where
  "selects env disc rs opts screens \<longleftrightarrow> (\<exists>found requests. result_screens found = screens
     \<and> discover_with (Some (directory_env (ce_graph env) (ce_source env) rs (ce_resolve_cancelled env))) disc opts
       = Inr ((found, None), requests))"

lemma capture_disc_yields:
  assumes "disc_ok disc" "fresh rs"
  shows "yields (captured_ok (selects env disc rs opts)) (capture_disc env cap disc rs opts)"
proof -
  let ?env = "directory_env (ce_graph env) (ce_source env) rs (ce_resolve_cancelled env)"
  obtain nodes seeds where inv: "inventory disc (opt_language opts) = (nodes, seeds)" by (metis prod.exhaust)
  have found: "yields (found_ok ?env disc opts) (discover_with (Some ?env) disc opts)"
    by (rule discover_with_yields [OF assms(1) directory_env_bounded])
  show ?thesis
  proof (cases "discover_with (Some ?env) disc opts")
    case (Inl e)
    then obtain e' where "e = Failed e'" using found by (cases e) auto
    then show ?thesis using Inl by (simp add: capture_disc_def empty_captured)
  next
    case (Inr x)
    obtain r err requests where x: "x = ((r, err), requests)" by (metis prod.exhaust)
    from found Inr x have ok: "result_ok (set nodes) (effective_options opts) r" "opt_max_items (effective_options opts) \<le> 32"
      "requests_ok ?env (set nodes) requests (result_screens r)"
      by (simp_all add: found_ok_def inv)
    have nodes: "nodes_ok (set nodes)" "consistent (set nodes)"
      using inventory_ok(1) [OF assms(1) inv] inventory_consistent [OF assms(1) inv] .
    define rs' where "rs' = snd (after_requests (ge_digest (ce_graph env)) (ce_source env) (ce_resolve_cancelled env) requests rs)"
    have "\<forall>r\<in>set requests. request_ok (set nodes) r" using ok(3) by (simp add: requests_ok_def)
    from after_requests_right(2) [OF assms(2) nodes(2) this, of "ge_digest (ce_graph env)" "ce_source env" "ce_resolve_cancelled env"]
    have right: "resolver_right (ge_digest (ce_graph env)) (ce_source env) (set nodes) rs'"
      using nodes by (simp add: resolver_right_def rs'_def resolver_ok_def)
    have places: "\<forall>s\<in>set (result_screens r). \<exists>n. place_ok (set nodes) n \<and> node_coordinate n = screen_coordinate s"
      using ok(1) by (simp add: result_ok_def)
    note small = captured_found [OF ok(1,2)]
    have both: "(err = None) = (result_screens r \<noteq> [])" using found Inr x by (simp add: found_ok_def)
    have "yields (captured_ok (selects env disc rs opts)) (go_bind (capture_screens env (length requests) 0 (result_screens r) rs' (found_result cap r))
        (\<lambda>(r', cancelled). Inr (if cancelled then (r', Some ErrCapture) else finish_capture r r')))" if "result_screens r \<noteq> []"
    proof (rule yields_bind [OF capture_screens_yields [OF right small(3) places]], clarify)
      fix r' cancelled
      assume run: "if cancelled then \<exists>ss'. capturing_ok (length (result_screens r)) ss' r' \<and> prefix ss' ([] @ result_screens r)
        else capturing_ok (length (result_screens r)) ([] @ result_screens r) r'"
      have selected: "selects env disc rs opts (result_screens r)" using Inr x both that by (auto simp: selects_def)
      show "yields (captured_ok (selects env disc rs opts)) (Inr (if cancelled then (r', Some ErrCapture) else finish_capture r r'))"
      proof (cases cancelled)
        case True
        then show ?thesis using run captured_early [where P = "selects env disc rs opts", OF _ small(1) _ selected refl] by auto
      next
        case False
        then show ?thesis using run captured_run [where P = "selects env disc rs opts", OF _ small(1) selected refl, of r'] that by simp
      qed
    qed
    then show ?thesis using Inr x small(2) both by (simp add: capture_disc_def rs'_def)
  qed
qed

lemma menu_files_yields: "yields (\<lambda>_. True) (menu_files upper es files)"
  by (induction es arbitrary: files) (auto simp: Let_def add_menu_file_def split: option.split)

lemma new_directory_resolver_yields: "yields fresh (new_directory_resolver upper entries opts)"
  unfolding new_directory_resolver_def
  by (auto split: option.split intro!: yields_bind [OF menu_files_yields] simp: fresh_def)

definition directory_selects :: "capture_env \<Rightarrow> directory \<Rightarrow> capture_options \<Rightarrow> screen list \<Rightarrow> bool" where
  "directory_selects env dir opts screens \<longleftrightarrow> (\<exists>disc rs.
     inspect_directory (dir_upper dir) (dir_order dir) (dir_ifo dir) (dir_entries dir) = Inr disc
     \<and> new_directory_resolver (dir_upper dir) (dir_entries dir) (copt_scan opts) = Inr rs
     \<and> selects env disc rs ((copt_traversal opts)\<lparr>opt_max_items := with_default (opt_max_items (copt_traversal opts)) default_max_items\<rparr>) screens)"

lemma yields_or:
  assumes "yields P m" and "\<And>x. P x \<Longrightarrow> m = Inr x \<Longrightarrow> yields Q (f x)" and "yields Q n"
  shows "yields Q (case m of Inl Panicked \<Rightarrow> Inl Panicked | Inl (Failed _) \<Rightarrow> n | Inr x \<Rightarrow> f x)"
  using assms by (cases m) (auto split: fault.split)

lemma capture_directory_yields: "yields (captured_ok (directory_selects env dir opts)) (capture_directory env nil_runner dir opts)"
proof -
  let ?P = "captured_ok (directory_selects env dir opts)"
  let ?opts = "(copt_traversal opts)\<lparr>opt_max_items := with_default (opt_max_items (copt_traversal opts)) default_max_items\<rparr>"
  let ?disc = "inspect_directory (dir_upper dir) (dir_order dir) (dir_ifo dir) (dir_entries dir)"
  let ?files = "new_directory_resolver (dir_upper dir) (dir_entries dir) (copt_scan opts)"
  have none: "yields ?P no_capture" by (simp add: empty_result_def empty_captured)
  have "yields ?P (case cap of None \<Rightarrow> no_capture
      | Some cap \<Rightarrow> (case ?files of Inl Panicked \<Rightarrow> Inl Panicked | Inl (Failed _) \<Rightarrow> no_capture | Inr rs \<Rightarrow> capture_disc env cap disc rs ?opts))"
    if disc: "disc_ok disc" "?disc = Inr disc" for cap disc
  proof -
    have "yields ?P (capture_disc env cap disc rs ?opts)" if "fresh rs" "?files = Inr rs" for cap rs
      by (rule yields_mono [OF capture_disc_yields [OF disc(1) that(1)]], erule captured_ok_mono)
        (use disc(2) that(2) in \<open>auto simp: directory_selects_def\<close>)
    from yields_or [OF new_directory_resolver_yields this none] none show ?thesis by (cases cap) simp_all
  qed
  from yields_or [OF inventories_are_well_formed this none] show ?thesis
    unfolding capture_directory_def Let_def by (intro yields_if none)
qed

subsection \<open>The properties\<close>

text \<open>C30: Capturing the menus of a directory is total and safe: whatever its files and their sectors hold, whatever FFmpeg
  writes and whenever the context is cancelled, nothing panics, neither the discovery nor the drawing. At most 32 screens are
  selected; the pictures kept are of some of the screens the discovery selected, in their order and one for each, and none is
  black; warnings and the partial flag go together; success means a picture; and a result that says it is complete has no
  warning, is not truncated and has the picture of every selected screen, with its subpicture.\<close>

lemma capture_is_safe_and_honest:
  "yields (\<lambda>(r, e). cr_selected r \<le> 32 \<and> list_all (\<lambda>c. \<not> image_is_black (cap_image c)) (cr_captures r)
      \<and> cr_partial r = (cr_warnings r \<noteq> []) \<and> (if e = None then cr_captures r \<noteq> [] else \<not> cr_complete r)
      \<and> (if cr_captures r = [] then \<not> cr_complete r
          else \<exists>screens shown. directory_selects env dir opts screens \<and> length screens = cr_selected r \<and> subseq shown screens
            \<and> list_all2 (\<lambda>s c. cap_coordinate c = screen_coordinate s \<and> cap_discovery c = screen_discovery s) shown (cr_captures r)
            \<and> (if cr_complete r
                then shown = screens \<and> cr_warnings r = [] \<and> \<not> cr_truncated r \<and> list_all cap_has_overlay (cr_captures r) else True)))
    (capture_directory env nil_runner dir opts)"
proof (rule yields_mono [OF capture_directory_yields], clarify)
  fix r e
  assume ok: "captured_ok (directory_selects env dir opts) (r, e)"
  note fields = ok [unfolded captured_ok_def prod.case]
  have ok': "cr_selected r \<le> 32" "cr_partial r = (cr_warnings r \<noteq> [])" "if e = None then cr_captures r \<noteq> [] else \<not> cr_complete r"
    by (rule fields [THEN conjunct1], rule fields [THEN conjunct2, THEN conjunct1], rule fields [THEN conjunct2, THEN conjunct2, THEN conjunct1])
  have black: "list_all (\<lambda>c. \<not> image_is_black (cap_image c)) (cr_captures r)"
  proof (cases "cr_captures r = []")
    case False
    then obtain shown where "list_all2 pictured shown (cr_captures r)" using ok by (auto simp: captured_ok_def split: if_splits)
    then show ?thesis by (auto simp: list_all2_conv_all_nth list_all_length pictured_def)
  qed simp
  have same: "list_all2 (\<lambda>s c. cap_coordinate c = screen_coordinate s \<and> cap_discovery c = screen_discovery s) shown captures"
    if "list_all2 pictured shown captures" for shown captures
    using that by (rule list_all2_mono) (simp add: pictured_def)
  have shown: "if cr_captures r = [] then \<not> cr_complete r
      else \<exists>screens shown. directory_selects env dir opts screens \<and> length screens = cr_selected r \<and> subseq shown screens
        \<and> list_all2 (\<lambda>s c. cap_coordinate c = screen_coordinate s \<and> cap_discovery c = screen_discovery s) shown (cr_captures r)
        \<and> (if cr_complete r
            then shown = screens \<and> cr_warnings r = [] \<and> \<not> cr_truncated r \<and> list_all cap_has_overlay (cr_captures r) else True)"
  proof (cases "cr_captures r = []")
    case False
    from ok obtain screens shown where "directory_selects env dir opts screens" "length screens = cr_selected r" "subseq shown screens"
      "list_all2 pictured shown (cr_captures r)"
      "if cr_complete r then shown = screens \<and> cr_warnings r = [] \<and> \<not> cr_truncated r \<and> list_all cap_has_overlay (cr_captures r) else True"
      unfolding captured_ok_def prod.case if_not_P [OF False] by blast
    then show ?thesis
      unfolding if_not_P [OF False] by (intro exI [of _ screens] exI [of _ shown]) (simp add: same)
  qed (use ok in \<open>simp add: captured_ok_def\<close>)
  show "cr_selected r \<le> 32 \<and> list_all (\<lambda>c. \<not> image_is_black (cap_image c)) (cr_captures r)
      \<and> cr_partial r = (cr_warnings r \<noteq> []) \<and> (if e = None then cr_captures r \<noteq> [] else \<not> cr_complete r)
      \<and> (if cr_captures r = [] then \<not> cr_complete r
          else \<exists>screens shown. directory_selects env dir opts screens \<and> length screens = cr_selected r \<and> subseq shown screens
            \<and> list_all2 (\<lambda>s c. cap_coordinate c = screen_coordinate s \<and> cap_discovery c = screen_discovery s) shown (cr_captures r)
            \<and> (if cr_complete r
                then shown = screens \<and> cr_warnings r = [] \<and> \<not> cr_truncated r \<and> list_all cap_has_overlay (cr_captures r) else True))"
    using ok' black shown by (intro conjI)
qed

text \<open>C31: What discovery selected can be drawn: behind a discovery on any disc, each selected screen resolves again, from
  the resolver as the discovery left it, to the very state it was selected for, and its frame is one FFmpeg can be asked for.\<close>

lemma selected_screens_can_be_drawn:
  assumes "disc_ok disc" and "fresh rs"
  shows "yields (\<lambda>((r, e), requests).
      let left = snd (after_requests (ge_digest (ce_graph env)) (ce_source env) cancelled requests rs) in
      list_all (\<lambda>s. case fst (resolve (ge_digest (ce_graph env)) (ce_source env) False (screen_coordinate s)
            (program_chain_of left (screen_coordinate s)) (screen_registers s) left) of
          Inr d \<Rightarrow> rv_live d = screen_live s \<and> \<not> request_invalid (frame_request_of env s d)
        | Inl _ \<Rightarrow> False) (result_screens r))
    (discover_with (Some (directory_env (ce_graph env) (ce_source env) rs cancelled)) disc opts)"
proof -
  let ?env = "directory_env (ce_graph env) (ce_source env) rs cancelled"
  obtain nodes seeds where inv: "inventory disc (opt_language opts) = (nodes, seeds)" by (metis prod.exhaust)
  have nodes: "nodes_ok (set nodes)" "consistent (set nodes)"
    using inventory_ok(1) [OF assms(1) inv] inventory_consistent [OF assms(1) inv] .
  have drawn: "case fst (resolve (ge_digest (ce_graph env)) (ce_source env) False (screen_coordinate s)
        (program_chain_of left (screen_coordinate s)) (screen_registers s) left) of
      Inr d \<Rightarrow> rv_live d = screen_live s \<and> \<not> request_invalid (frame_request_of env s d) | Inl _ \<Rightarrow> False"
    if asked: "requests_ok ?env (set nodes) requests screens" and s: "s \<in> set screens"
      and left: "left = snd (after_requests (ge_digest (ce_graph env)) (ce_source env) cancelled requests rs)" for requests screens s left
  proof -
    have requests: "\<forall>r\<in>set requests. request_ok (set nodes) r" using asked by (simp add: requests_ok_def)
    obtain d where d: "rs_cache left (screen_coordinate s, screen_registers s) = Some d" "rv_live d = screen_live s"
      using screens_cached [OF assms(2) nodes(2) asked s] left by blast
    have "resolver_ok (ge_digest (ce_graph env)) (ce_source env) (rs_files rs) (rs_scan rs) (set nodes) left"
      unfolding left by (rule after_requests_right(2) [OF assms(2) nodes(2) requests])
    then obtain n where n: "place_ok (set nodes) n" "node_coordinate n = screen_coordinate s"
        and read: "read_state (ge_digest (ce_graph env)) (ce_source env) (rs_files rs) (rs_scan rs) (screen_coordinate s) (node_pgc n) (screen_registers s) = Inr d"
      using d(1) unfolding resolver_ok_def by blast
    have "drawable (screen_coordinate s) d" using yieldsD [OF read_drawable [OF nodes(1) n] read] .
    then show ?thesis using d by (simp add: resolve_def drawable_request)
  qed
  show ?thesis
    by (rule yields_mono [OF discover_with_yields [OF assms(1) directory_env_bounded]])
      (use drawn in \<open>auto simp: found_ok_def inv list_all_iff Let_def\<close>)
qed

text \<open>A menu whose file is missing, and a process that writes in two pieces.\<close>

definition sample_process :: process_run where
  "sample_process = \<lparr>run_stdout = [''ffmpeg '', ''version 7''], run_stderr = [], run_failed = False\<rparr>"

definition sample_capture :: capture_env where
  "sample_capture =
     \<lparr>ce_graph = menu_env, ce_source = (\<lambda>_. None), ce_cancelled = (\<lambda>_. False), ce_resolve_cancelled = (\<lambda>_. False),
      ce_runner = (\<lambda>_. exec_run Some (\<lambda>_ _. sample_process)), ce_executable = ''ffmpeg'',
      ce_codec = \<lparr>png_config = (\<lambda>_. None), png_decode = (\<lambda>_. None), format_duration = (\<lambda>_. [])\<rparr>,
      ce_root = ''VIDEO_TS'', ce_deinterlace = False\<rparr>"

definition sample_resolver :: resolver where
  "sample_resolver =
     \<lparr>rs_files = [0 \<mapsto> manager_vob], rs_scan = \<lparr>scan_max_sectors = 0, scan_max_packets = 0, scan_max_bytes = 0\<rparr>,
      rs_cache = Map.empty, rs_chains = Map.empty\<rparr>"

lemma selected_screens_can_be_drawn_witness:
  "yields (\<lambda>((r, e), requests).
      let left = snd (after_requests (\<lambda>bs. bs) (\<lambda>_. None) (\<lambda>_. False) requests sample_resolver) in
      list_all (\<lambda>s. case fst (resolve (\<lambda>bs. bs) (\<lambda>_. None) False (screen_coordinate s)
            (program_chain_of left (screen_coordinate s)) (screen_registers s) left) of
          Inr d \<Rightarrow> rv_live d = screen_live s \<and> \<not> request_invalid (frame_request_of sample_capture s d)
        | Inl _ \<Rightarrow> False) (result_screens r))
    (discover_with (Some (directory_env menu_env (\<lambda>_. None) sample_resolver (\<lambda>_. False))) menu_disc menu_options)"
proof -
  have "fresh sample_resolver" by (simp add: fresh_def sample_resolver_def)
  moreover have "ce_graph sample_capture = menu_env" "ce_source sample_capture = (\<lambda>_. None)" "ge_digest menu_env = (\<lambda>bs. bs)"
    by (simp_all add: sample_capture_def menu_env_def)
  ultimately show ?thesis
    using selected_screens_can_be_drawn [OF menu_disc_ok, of sample_resolver sample_capture "\<lambda>_. False" menu_options] by simp
qed

text \<open>Output that comes without an error is all the process wrote, within the limits, however it was written.\<close>

lemma successful_output_is_complete:
  assumes "exec_run look process executable args limit = (out, None)"
  shows "(case look executable of
      None \<Rightarrow> False
    | Some resolved \<Rightarrow> out_stdout out = concat (run_stdout (process resolved args)) \<and> int (length (out_stdout out)) \<le> limit
        \<and> out_stderr out = concat (run_stderr (process resolved args)) \<and> int (length (out_stderr out)) \<le> max_diagnostic_bytes
        \<and> \<not> run_failed (process resolved args))"
proof -
  have all: "lw_data (fold limit_write pieces (new_writer n)) = concat pieces \<and> int (length (concat pieces)) \<le> n"
    if "0 < n" "\<not> lw_exceeded (fold limit_write pieces (new_writer n))" for pieces n
  proof -
    note fits = new_writer_writes(2) [OF that]
    then have "nat n \<ge> length (concat pieces)" by linarith
    with fits new_writer_writes(1) [OF that(1), of pieces] show ?thesis by simp
  qed
  have "0 < max_diagnostic_bytes" by (simp add: max_diagnostic_bytes_def)
  with assms all [of limit] all [of max_diagnostic_bytes] show ?thesis
    by (auto simp: exec_run_def Let_def not_le split: if_splits option.splits)
qed

lemma successful_output_is_complete_witness:
  "out_stdout (fst (exec_run Some (\<lambda>_ _. sample_process) ''ffmpeg'' [''-version''] 65536)) = ''ffmpeg version 7''"
proof -
  have "exec_run Some (\<lambda>_ _. sample_process) ''ffmpeg'' [''-version''] 65536 = (\<lparr>out_stdout = ''ffmpeg version 7'', out_stderr = []\<rparr>, None)"
    by (simp add: exec_run_def sample_process_def limit_write_def new_writer_def max_diagnostic_bytes_def Let_def)
  from successful_output_is_complete [OF this] show ?thesis
    by (simp add: sample_process_def exec_run_def limit_write_def new_writer_def max_diagnostic_bytes_def Let_def)
qed

end
