(* ===== verification/Spec2Isabelle.thy ===== *)
theory Spec2Isabelle
  imports History DvdVmProps DvdSpuDecode DvdNavAuthor DvdCompletion DvdCaptureProps
begin

text \<open>
  A model of two parts of upbrr. The first and larger one is the durable upload workflow, the part
  of the program that must not submit a release twice or lose track of a submission: the SQLite
  repository of \<open>internal/services/db\<close> behind the interfaces of \<open>pkg/api\<close>. The second is the core of
  the DVD menu reader \<open>internal/dvdvideo\<close>, which reads an untrusted disc while screenshots and metadata
  are taken from it: the parser of its menu tables (\<open>ifo\<close>), the virtual machine that runs its command
  tables (\<open>vm\<close>), the decoder of its subpictures (\<open>spu\<close>), the parser of its navigation packets with their
  buttons (\<open>nav\<close>), the traversal that finds the menus with all of them (\<open>graph\<close>), and the capture that draws
  what was found (\<open>engine\<close>, \<open>render\<close>). They must end and stay in bounds on any input.

  What the program does. A release goes through a workflow. Its durable state lives in one SQLite
  database that several processes may open. One process at a time is the coordinator of the single
  \<^emph>\<open>active input slot\<close>: it holds a lease with a fence, a number that grows with every acquisition,
  and every mutation is checked against the slot in its own transaction. A workflow runs
  operations (at most one active), an operation is executed under a work lease, and everything
  that leaves the machine is recorded as an external effect before and after it happens. A tracker
  submission additionally takes a submission fence on its content identity and site, so that a
  second submission of the same content to the same site is refused whoever asks for it. The
  configuration that submissions run under has a generation of its own, activated only while
  nothing is in flight.

  Theories and code. \<open>db\<close> (in Schema) is the whole database, one field per table; an operation is a
  function from the database to its result and the new database, with the context's authority and
  clock in \<open>ctx\<close>.
  \<^item> Prelude: Go strings, \<open>strings.TrimSpace\<close>, byte order of text.
  \<^item> Clock: the RFC3339Nano text times are stored as, and the order SQLite gives that text.
  \<^item> Schema: the records of \<open>pkg/api\<close>, the tables of \<open>migrations.go\<close>, \<open>withWriteTx\<close>, the list lemmas
    that carry the table proofs (\<open>update_where\<close>, \<open>delete_where\<close>, \<open>top_row\<close>, \<open>order_by\<close>).
  \<^item> ConfigState, Impacts, ConfigActivation: \<open>config_activation.go\<close> and \<open>config_compare.go\<close>.
  \<^item> ContentIdentity: \<open>source_identity.go\<close> (submission content) and \<open>submission_fence.go\<close> of \<open>pkg/api\<close>.
  \<^item> ActiveInput: \<open>active_input.go\<close>, the slot, the input records and the admission checks.
  \<^item> Effects, Reconcile: the effects of \<open>release_workflow_durability.go\<close> and \<open>submission_fence.go\<close>:
    begin, complete, interrupt, recover, resolve.
  \<^item> Work: \<open>release_workflow_work.go\<close>. Operations: \<open>release_workflow_operation.go\<close>. DurableLog: intents,
    continuations and events of \<open>release_workflow_durability.go\<close>. States: \<open>release_workflow_state.go\<close>.
  \<^item> Purge: the deletion of a release's history (\<open>PurgeContentData\<close> of \<open>sqlite.go\<close> with its admission checks).
  \<^item> DvdVm: \<open>vm.go\<close>, the registers, operand readers, conditions, transitions, the set operations, one
    definition per type code of \<open>executeCommand\<close>, and the loop of \<open>Execute\<close>; DvdVmProps: its properties.
    An operation (\<open>vm_op\<close>) maps the registers to an error or a result and the registers, which keep what
    was written before an error, as the Go code mutates them in place. All values are words of the
    code's width. The clock and \<open>Random\<close> are functions of the number of the call.
  \<^item> DvdBytes: what a Go call does, an error, a panic or a value (\<open>go\<close>), with \<open>yields\<close> for \<open>no panic\<close>; slices
    with their bounds checks and big-endian numbers.
  \<^item> DvdSpu: \<open>spu.go\<close>, the reassembler of fragments, the control blocks, the run-length decoder of the two
    interlaced fields, the colours and the compositing. Every index is a bounds-checked read or write, so
    that not panicking is a theorem. DvdSpuProps: reassembly and the run-length code; DvdSpuDecode:
    whole packets and compositing.
  \<^item> DvdNav: \<open>nav.go\<close>, the bit reader, presentation control with its button table, data search, the sector
    around them, the routing of subpicture payloads and the scan of a cell. DvdNavProps: bounds; DvdNavAuthor:
    the author's side (bit fields, packets) and the round trips.
  \<^item> DvdIfo: \<open>ifo.go\<close>, the files of \<open>VIDEO_TS\<close> with their language units, program chains, command and cell
    tables, and the assembly of a disc from the files found by a walk. DvdIfoProps: its properties.
  \<^item> DvdGraph: \<open>graph.go\<close>, the inventory of menu programs, the work queue of \<open>discovery\<close>, the execution of
    command tables, the resolution of links, buttons and screens, the structural pass and \<open>Discover\<close>. The
    record \<open>discovery\<close> is the Go struct of that name; a Go map is the order of its insertions. The digest,
    the resolver, the context and the clock are functions, the last two of the number of the call; logging is
    left out. What was asked of the resolver is kept in the state. DvdGraphProps: its properties; DvdCompletion: what
    \<open>Result.Complete\<close> says.
  \<^item> DvdResolver: \<open>engine/resolver.go\<close>, the menu files of a directory, the state of a coordinate (packet, buttons,
    highlight, subpicture, time) and the cache in front of it; a panic in it is one of the discovery that asks. Files are functions of their name and do not
    change while the disc is read. DvdResolverProps: its properties.
  \<^item> DvdCapture: \<open>render/render.go\<close> and \<open>engine/engine.go\<close>, the bounded output of FFmpeg, its probes and arguments,
    the decoding of a frame, the loop over the discovered screens and \<open>CaptureDirectory\<close>. DvdCaptureProps: its
    properties.
  \<^item> Steps: every one of these operations as a step of the database (\<open>working_step\<close>, and \<open>purge_step\<close> for history
    deletion; \<open>step\<close> is either), and what the invariant of each component depends on. Tables the operations
    only read (prepared releases, corrections, stored configuration) may change at any step. Repository: each
    step keeps the invariant. Protocol: what one step does to a submission fence and to the slot's fence.
    History: runs of steps.

  What the lemmas show. Per component: \<open>..._committed\<close> and \<open>..._error\<close> say what a call that
  succeeded did and that a call that failed changed nothing; the invariants \<open>slot_ok\<close>, \<open>effects_ok\<close>,
  \<open>work_ok\<close>, \<open>operations_ok\<close>, \<open>events_ok\<close>, \<open>config_ok\<close>, \<open>rows_owned\<close> are kept by every operation; the
  properties are the compare-and-swap and exclusivity contracts, idempotence, retention and the
  lifecycle of effects and fences. For the whole repository (History), over every interleaving of
  operations: the invariant holds; each step moves a submission fence by one event of the protocol
  (\<open>fence_event\<close>, in Protocol, with the operation that causes each change and the status before and after it)
  or deletes it with the history of its workflow (\<open>history_deleted\<close>); a confirmed submission is final over
  steps that spare that history (\<open>spared_step\<close>); operations that check authority refuse a superseded
  coordinator; and after a crash the slot can be taken in recovery, with every unresolved attempt retained. The
  locales \<open>invariant_run\<close>, \<open>simulated_run\<close> and \<open>fenced_run\<close> carry the step-to-run arguments; they are
  interpreted on \<open>step\<close>, on the status of a submission fence and on the slot's fence. For the virtual
  machine (DvdVmProps): every command table ends within its budget, the registers keep their shape,
  emitted links fit the fields of the instruction, arithmetic is clamped to 16 bits, counters count
  seconds and well-formed tables never report an invalid command; the locale \<open>register_invariant\<close> carries a
  property of the registers through every operation. For subpictures (DvdSpuProps, DvdSpuDecode): the
  reassembler gives back the packets whatever the fragmentation, decoding any bytes gives an error or a
  complete overlay, an authored packet decodes to its picture, and compositing blends each pixel of the
  overlay once (\<open>paint\<close> is the specification it refines). For navigation packets (DvdNavProps, DvdNavAuthor):
  the bit reader computes the number its bits spell, parsed button tables are complete and well formed, a
  scan stays within its limits on any disc, and parsing and routing invert authoring. For menu tables
  (DvdIfoProps): a file that parses is complete, its programs and cells exist and its lists have the counts
  of their headers, and the disc does not depend on the order of the walk. For the discovery (DvdGraphProps):
  on any such disc and with any resolver that does not panic itself it never panics and keeps to its limits, its
  loop ends, and the screens it reports are distinct; \<open>setting_ok\<close> and \<open>run_ok\<close> are the invariants that carry
  this through the loop. DvdCompletion: when a discovery reports itself complete. The parsed disc of \<open>ifo\<close> is
  the hypothesis \<open>disc_ok\<close> of the discovery. For the resolver (DvdResolverProps): a state that resolves is well
  formed, an authored subpicture is the one shown, and the locale \<open>remembering\<close>, interpreted on the resolver,
  shows that its cache changes no answer. For the capture
  (DvdCaptureProps), on any directory and without an assumption on its files: nothing panics, at most 32 pictures
  are kept, what discovery selected resolves again to the same state with a frame FFmpeg can be asked for, and a
  capture that calls itself complete has a picture of each screen.

  Conventions and bounds. Strings are byte strings. Instants are integers (nanoseconds from Go's zero
  time); columns compared by SQL are compared as the stored text (\<open>sql_before\<close>, \<open>row_before\<close>), values
  compared by Go as instants. \<open>uint64\<close> revisions and sequences are naturals, with the wrap-around at
  \<open>2 ^ 64\<close> written where the code computes a successor and the \<open>max_int64\<close> limit of the columns where it
  checks. SHA-256 and JSON encoding are the parameter \<open>digest\<close>, path identity on disk is the parameter
  \<open>same_path\<close>, the workflow transform of an activation and random identifiers are arguments. The retry
  around the event transaction is bounded by its three attempts. The loop of \<open>Execute\<close> may go back, so it
  is a partial function, and that it ends is the property \<open>command_tables_end\<close> (the code's budget, 100000 rows
  unless the caller sets one, is what bounds it). The loop over the control blocks of a subpicture runs at
  most \<open>max_control_blocks\<close> = 128 times, as in the code, and counts down. The loop of \<open>Discover\<close> is a function whose
  termination is proved: a round either takes an item off the queue or spends one of the at most \<open>MaxStates\<close>
  states. Nothing needs fuel. The background
  of a compositing enters as the NRGBA copy \<open>draw.Draw\<close> makes of it, as a rectangle and the colour of each
  of its pixels.

  Not modelled. The driver and SQL parsing (a statement is its effect on the tables), the snapshot and
  ownership tables that state writes synchronise (\<open>sync_outcome\<close> is their outcome, and the ownership index a
  history deletion reads is its argument), checkpoints that rewrite a stored payload in place
  (\<open>hdr_checkpoint.go\<close>), the pruning of a copy of the database for live tests (\<open>livetest.go\<close>), FFmpeg and the PNG decoder (arguments of the capture), media, metadata, tracker, image-host and torrent-client code, the command line, the web server and
  the user interface.
\<close>

end
